(* ===== verification/Prelude.thy ===== *)
theory Prelude
  imports Complex_Main "HOL-Library.Sublist"
begin

text \<open>
  Shared vocabulary of the development: the collections of simplification rules the component
  theories extend, the sum type used for JavaScript exceptions, and generic facts about lists
  that several components need.
\<close>

named_theorems js_simps \<open>evaluation rules of the modelled JavaScript primitives\<close>
named_theorems js_defs \<open>definitions that unfold a primitive into HOL list functions\<close>

section \<open>Exceptions as values\<close>

text \<open>
  A JavaScript function that may throw returns \<open>Inl e\<close> for the exception \<open>e\<close> and
  \<open>Inr r\<close> for the normal result. The constructors are the exceptions the modelled code throws
  or can run into: a \<open>TypeError\<close> of the runtime (property of \<open>undefined\<close> or \<open>null\<close>),
  an \<open>Error\<close> with a message, and the SDK's \<open>SrsError\<close> with its name and message.
\<close>

datatype js_error =
    TypeError
  | JsError string
  | SrsError string string

type_synonym 'a result = "js_error + 'a"

definition bind_result :: "'a result \<Rightarrow> ('a \<Rightarrow> 'b result) \<Rightarrow> 'b result" where
  "bind_result r f = (case r of Inl e \<Rightarrow> Inl e | Inr x \<Rightarrow> f x)"

lemma bind_result_simps [simp]:
  "bind_result (Inl e) f = Inl e"
  "bind_result (Inr x) f = f x"
  by (simp_all add: bind_result_def)

lemma bind_result_Inr_conv:
  "bind_result r f = Inr y \<longleftrightarrow> (\<exists>x. r = Inr x \<and> f x = Inr y)"
  by (cases r) simp_all

lemma bind_result_Inl_conv:
  "bind_result r f = Inl e \<longleftrightarrow> r = Inl e \<or> (\<exists>x. r = Inr x \<and> f x = Inl e)"
  by (cases r) simp_all

section \<open>Lists\<close>

lemma prefix_take_iff: "prefix p s \<longleftrightarrow> take (length p) s = p"
  by (metis append_eq_conv_conj prefix_def take_is_prefix)

lemma suffix_drop_iff:
  "suffix p s \<longleftrightarrow> length p \<le> length s \<and> drop (length s - length p) s = p"
  by (metis append_eq_append_conv append_take_drop_id diff_diff_cancel length_drop suffix_def
      suffix_drop suffix_length_le)

lemma remove1_subset_set: "set (remove1 x xs) \<subseteq> set xs"
  by (rule set_remove1_subset)

lemma find_append:
  "find P (xs @ ys) = (case find P xs of None \<Rightarrow> find P ys | Some x \<Rightarrow> Some x)"
  by (induction xs) auto

lemma find_None_filter: "find P xs = None \<longleftrightarrow> filter P xs = []"
  by (auto simp: find_None_iff filter_empty_conv)

lemma find_Some_hd_filter: "find P xs = Some x \<Longrightarrow> x = hd (filter P xs)"
  by (induction xs) (auto split: if_splits)

lemma find_SomeD: "find P xs = Some x \<Longrightarrow> x \<in> set xs \<and> P x"
  by (auto simp: find_Some_iff)

end
