(* ===== verification/JsNumber.thy ===== *)
theory JsNumber
  imports Prelude
begin

text \<open>
  JavaScript numbers. A number is a NaN, an infinity, or a finite value, kept as an exact
  rational. Every arithmetic operation computes the exact result and rounds it once with
  \<open>fl\<close>, the IEEE 754 binary64 rounding (nearest, ties to even, gradual underflow, overflow to
  an infinity), as ECMAScript prescribes. The sign of zero is not kept: no modelled code can
  observe it. The theory also holds the number formatting and parsing the sources use:
  \<open>String(n)\<close>, \<open>toFixed\<close>, \<open>toString(16)\<close>, \<open>parseInt\<close> and \<open>Number(s)\<close>.
\<close>

section \<open>Rounding to binary64\<close>

datatype jsnum = NaN | PInf | NInf | Fin rat

fun bits :: "int \<Rightarrow> nat" where
  "bits n = (if n \<le> 0 then 0 else Suc (bits (n div 2)))"

declare bits.simps [simp del]

text \<open>\<open>ilog2 x\<close> is the binary exponent of a positive \<open>x\<close>: the floor of its logarithm.\<close>

definition ilog2 :: "rat \<Rightarrow> int" where
  "ilog2 x = (if 1 \<le> x then int (bits \<lfloor>x\<rfloor>) - 1 else - int (bits (\<lceil>1 / x\<rceil> - 1)))"

definition round_even :: "rat \<Rightarrow> int" where
  "round_even x =
     (let f = \<lfloor>x\<rfloor>; r = x - of_int f
      in if r < 1 / 2 then f else if 1 / 2 < r then f + 1 else if even f then f else f + 1)"

definition ulp_exp :: "rat \<Rightarrow> int" where
  "ulp_exp x = max (- 1074) (ilog2 \<bar>x\<bar> - 52)"

definition rnd :: "rat \<Rightarrow> rat" where
  "rnd x =
     (if x = 0 then 0
      else of_int (round_even (x / 2 powi ulp_exp x)) * 2 powi ulp_exp x)"

definition fl :: "rat \<Rightarrow> jsnum" where
  "fl x =
     (let y = rnd x
      in if 2 ^ 1024 \<le> y then PInf else if y \<le> - (2 ^ 1024) then NInf else Fin y)"

text \<open>The finite values a number can have: those that rounding leaves alone.\<close>

definition is_double :: "rat \<Rightarrow> bool" where
  "is_double x \<longleftrightarrow> rnd x = x \<and> \<bar>x\<bar> < 2 ^ 1024"

lemma bits_nonpos [simp]: "n \<le> 0 \<Longrightarrow> bits n = 0"
  by (simp add: bits.simps)

lemma bits_bounds: "0 < n \<Longrightarrow> 0 < bits n \<and> 2 ^ (bits n - 1) \<le> n \<and> n < 2 ^ bits n"
proof (induction n rule: bits.induct)
  case (1 n)
  show ?case
  proof (cases "n = 1")
    case True
    then show ?thesis by (simp add: bits.simps)
  next
    case False
    with 1 have n: "0 < n div 2" by simp
    with 1 have IH: "0 < bits (n div 2)" "2 ^ (bits (n div 2) - 1) \<le> n div 2"
      "n div 2 < 2 ^ bits (n div 2)" by auto
    have b: "bits n = Suc (bits (n div 2))" using 1 by (subst bits.simps) simp
    have p: "(2::int) ^ bits (n div 2) = 2 * 2 ^ (bits (n div 2) - 1)"
      using IH(1) by (metis power_minus_mult mult.commute)
    show ?thesis using IH p by (simp add: b) linarith
  qed
qed

lemma ilog2_bounds:
  assumes "0 < x"
  shows "2 powi ilog2 x \<le> x \<and> x < 2 powi (ilog2 x + 1)"
proof (cases "1 \<le> x")
  case True
  define n where "n = \<lfloor>x\<rfloor>"
  have n: "0 < n" using True by (simp add: n_def)
  note b = bits_bounds [OF n]
  have e: "ilog2 x = int (bits n - 1)" using True b by (simp add: ilog2_def n_def)
  have "2 powi ilog2 x = (of_int (2 ^ (bits n - 1)) :: rat)" by (simp add: e)
  also have "\<dots> \<le> of_int n" using b by (simp only: of_int_le_iff)
  also have "\<dots> \<le> x" by (simp add: n_def)
  finally have lo: "2 powi ilog2 x \<le> x" .
  have "x < of_int (n + 1)" by (simp add: n_def) linarith
  also have "\<dots> \<le> (of_int (2 ^ bits n) :: rat)" using b by (simp only: of_int_le_iff) simp
  also have "\<dots> = 2 powi (ilog2 x + 1)" using b by (simp add: e flip: power_Suc)
  finally show ?thesis using lo by simp
next
  case False
  define m where "m = \<lceil>1 / x\<rceil> - 1"
  have gt: "1 < 1 / x" using False assms by simp
  have m: "0 < m" using gt by (simp add: m_def less_ceiling_iff)
  note b = bits_bounds [OF m]
  have e: "ilog2 x = - int (bits m)" using False by (simp add: ilog2_def m_def)
  have "1 / x \<le> of_int (m + 1)" by (simp add: m_def)
  also have "\<dots> \<le> (of_int (2 ^ bits m) :: rat)" using b by (simp only: of_int_le_iff) simp
  finally have "1 / 2 ^ bits m \<le> x" using assms by (simp add: field_simps)
  then have lo: "2 powi ilog2 x \<le> x" by (simp add: e power_int_minus field_simps)
  have "(of_int (2 ^ (bits m - 1)) :: rat) \<le> of_int m" using b by (simp only: of_int_le_iff)
  also have "of_int m < 1 / x" by (simp add: m_def) linarith
  finally have "x < 1 / 2 ^ (bits m - 1)" using assms by (simp add: field_simps)
  moreover have "ilog2 x + 1 = - int (bits m - 1)" using b by (simp add: e)
  ultimately show ?thesis using lo by (simp add: power_int_minus field_simps)
qed

lemma powi_le_iff: "(2::rat) powi a \<le> 2 powi b \<longleftrightarrow> a \<le> b"
proof
  show "2 powi a \<le> (2::rat) powi b" if "a \<le> b" using that by (simp add: power_int_increasing)
  show "a \<le> b" if "2 powi a \<le> (2::rat) powi b"
    using that power_int_strict_increasing [of b a "2::rat"] by (cases "a \<le> b") auto
qed

lemma powi_less_iff: "(2::rat) powi a < 2 powi b \<longleftrightarrow> a < b"
  using powi_le_iff [of b a] by (simp add: not_le [symmetric])


lemma ilog2_mono: "0 < x \<Longrightarrow> x \<le> y \<Longrightarrow> ilog2 x \<le> ilog2 y"
proof -
  assume x: "0 < x" and xy: "x \<le> y"
  have "2 powi ilog2 x \<le> x" using ilog2_bounds [OF x] by simp
  also have "x \<le> y" by (rule xy)
  also have "y < 2 powi (ilog2 y + 1)" using ilog2_bounds [of y] x xy by simp
  finally show ?thesis by (simp only: powi_less_iff)
qed

lemma ilog2_unique: "2 powi k \<le> x \<Longrightarrow> x < 2 powi (k + 1) \<Longrightarrow> ilog2 x = k"
proof -
  assume lo: "2 powi k \<le> x" and hi: "x < 2 powi (k + 1)"
  have "0 < (2::rat) powi k" by simp
  with lo have x: "0 < x" by linarith
  note b = ilog2_bounds [OF x]
  have "(2::rat) powi ilog2 x < 2 powi (k + 1)" using b hi by linarith
  moreover have "(2::rat) powi k < 2 powi (ilog2 x + 1)" using b lo by linarith
  ultimately show ?thesis by (simp only: powi_less_iff)
qed

lemma ilog2_scale: "0 < x \<Longrightarrow> ilog2 (x * 2 powi k) = ilog2 x + k"
proof (rule ilog2_unique)
  assume x: "0 < x"
  note b = ilog2_bounds [OF x]
  have p: "0 < (2::rat) powi k" by simp
  show "2 powi (ilog2 x + k) \<le> x * 2 powi k"
    using b p by (simp add: power_int_add)
  have "x * 2 powi k < 2 powi (ilog2 x + 1) * 2 powi k" using b p by simp
  then show "x * 2 powi k < 2 powi (ilog2 x + k + 1)"
    by (simp add: power_int_add mult_ac)
qed

lemma round_even_of_int [simp]: "round_even (of_int n) = n"
  by (simp add: round_even_def)

lemma round_even_error: "\<bar>of_int (round_even x) - x\<bar> \<le> 1 / 2"
proof -
  have "of_int \<lfloor>x\<rfloor> \<le> x" and "x < of_int \<lfloor>x\<rfloor> + 1" by (simp_all add: le_floor_iff) linarith
  then show ?thesis
    unfolding round_even_def Let_def abs_le_iff by (auto split: if_splits) linarith+
qed

lemma round_even_mono: "x \<le> y \<Longrightarrow> round_even x \<le> round_even y"
proof -
  assume xy: "x \<le> y"
  then have f: "\<lfloor>x\<rfloor> \<le> \<lfloor>y\<rfloor>" by (rule floor_mono)
  have up: "round_even x \<le> \<lfloor>x\<rfloor> + 1" and dn: "\<lfloor>y\<rfloor> \<le> round_even y"
    by (auto simp: round_even_def Let_def)
  show ?thesis
  proof (cases "\<lfloor>x\<rfloor> = \<lfloor>y\<rfloor>")
    case True
    with xy show ?thesis by (auto simp: round_even_def Let_def)
  next
    case False
    with f up dn show ?thesis by linarith
  qed
qed

lemma round_even_minus: "round_even (- x) = - round_even x"
proof (cases "x \<in> \<int>")
  case True
  then obtain n where "x = of_int n" by (rule Ints_cases)
  then show ?thesis using round_even_of_int [of "- n"] by simp
next
  case False
  then have f: "\<lfloor>- x\<rfloor> = - \<lfloor>x\<rfloor> - 1"
    by (metis Ints_of_int ceiling_altdef floor_minus minus_add_distrib diff_conv_add_uminus)
  show ?thesis
    unfolding round_even_def Let_def f by (auto simp: field_simps)
qed

lemma ulp_exp_minus [simp]: "ulp_exp (- x) = ulp_exp x"
  by (simp add: ulp_exp_def)

lemma rnd_0 [simp]: "rnd 0 = 0"
  by (simp add: rnd_def)

lemma rnd_minus: "rnd (- x) = - rnd x"
  by (simp add: rnd_def round_even_minus)

lemma rnd_nonneg: "0 \<le> x \<Longrightarrow> 0 \<le> rnd x"
  using round_even_mono [of 0 "x / 2 powi ulp_exp x"] round_even_of_int [of 0]
  by (simp add: rnd_def zero_le_mult_iff)

text \<open>An integer multiple of a power of two that fits in 53 bits is not changed by rounding.\<close>

lemma rnd_exact_less:
  assumes m: "\<bar>m\<bar> < 2 ^ 53" and e: "- 1074 \<le> e"
  shows "rnd (of_int m * 2 powi e) = of_int m * 2 powi e"
proof (cases "m = 0")
  case True
  then show ?thesis by simp
next
  case False
  let ?x = "of_int m * 2 powi e :: rat"
  have ax: "\<bar>?x\<bar> = of_int \<bar>m\<bar> * 2 powi e" by (simp add: abs_mult)
  have pos: "0 < \<bar>?x\<bar>" using False by simp
  have m': "(of_int \<bar>m\<bar> :: rat) < 2 powi 53"
    using m of_int_less_iff [of "\<bar>m\<bar>" "2 ^ 53", where 'a = rat] by simp
  have "2 powi ilog2 \<bar>?x\<bar> \<le> \<bar>?x\<bar>" using ilog2_bounds [OF pos] by simp
  also have "\<dots> < 2 powi 53 * 2 powi e" unfolding ax using m' by (intro mult_strict_right_mono) auto
  also have "\<dots> = 2 powi (53 + e)" by (simp add: power_int_add)
  finally have "ilog2 \<bar>?x\<bar> < 53 + e" by (simp only: powi_less_iff)
  with e have le: "ulp_exp ?x \<le> e" by (simp add: ulp_exp_def)
  let ?k = "nat (e - ulp_exp ?x)"
  have "?x / 2 powi ulp_exp ?x = of_int m * 2 powi (e - ulp_exp ?x)"
    by (simp add: power_int_diff)
  also have "\<dots> = of_int (m * 2 ^ ?k)" using le by (simp add: power_int_def)
  finally have q: "?x / 2 powi ulp_exp ?x = of_int (m * 2 ^ ?k)" .
  then have "rnd ?x = ?x / 2 powi ulp_exp ?x * 2 powi ulp_exp ?x"
    using False by (simp only: rnd_def q round_even_of_int) simp
  then show ?thesis by simp
qed

lemma rnd_exact:
  assumes m: "\<bar>m\<bar> \<le> 2 ^ 53" and e: "- 1074 \<le> e"
  shows "rnd (of_int m * 2 powi e) = of_int m * 2 powi e"
proof (cases "\<bar>m\<bar> = 2 ^ 53")
  case True
  then have m: "m = sgn m * 2 ^ 53" using mult_sgn_abs [of m] by simp
  have "(of_int m :: rat) = of_int (sgn m) * 2 powi 53" by (subst m) simp
  then have x: "of_int m * 2 powi e = (of_int (sgn m) * 2 powi (53 + e) :: rat)"
    by (simp only: mult.assoc power_int_add [OF disjI1 [OF zero_neq_numeral [symmetric]]])
  have "\<bar>sgn m\<bar> < 2 ^ 53" by (simp add: abs_sgn_eq)
  then show ?thesis unfolding x using e by (intro rnd_exact_less) auto
next
  case False
  with m e show ?thesis by (intro rnd_exact_less) auto
qed

lemma rnd_of_int: "\<bar>n\<bar> \<le> 2 ^ 53 \<Longrightarrow> rnd (of_int n) = of_int n"
  using rnd_exact [of n 0] by simp


text \<open>Rounding is monotone, so comparisons of exact values survive it.\<close>

lemma rnd_bounds_binade:
  assumes x: "0 < x"
  shows "rnd x \<le> 2 powi (ulp_exp x + 53)"
    and "ulp_exp x > - 1074 \<Longrightarrow> 2 powi (ulp_exp x + 52) \<le> rnd x"
proof -
  let ?e = "ulp_exp x"
  have p: "0 < (2::rat) powi ?e" by simp
  have x_eq: "rnd x = of_int (round_even (x / 2 powi ?e)) * 2 powi ?e" using x by (simp add: rnd_def)
  have "ilog2 x + 1 \<le> ?e + 53" using x by (simp add: ulp_exp_def)
  then have "x < 2 powi (?e + 53)"
    using ilog2_bounds [OF x] powi_le_iff [of "ilog2 x + 1" "?e + 53"] by linarith
  then have "x / 2 powi ?e \<le> of_int (2 ^ 53)"
    using p by (simp add: divide_le_eq power_int_add mult.commute)
  then have "round_even (x / 2 powi ?e) \<le> 2 ^ 53"
    using round_even_mono round_even_of_int by metis
  then have "of_int (round_even (x / 2 powi ?e)) \<le> (of_int (2 ^ 53) :: rat)"
    by (simp only: of_int_le_iff)
  then show "rnd x \<le> 2 powi (?e + 53)"
    using p by (simp add: x_eq power_int_add mult_right_mono mult.commute)
  assume "?e > - 1074"
  then have "?e + 52 = ilog2 x" using x by (simp add: ulp_exp_def max_def split: if_splits)
  then have "2 powi (?e + 52) \<le> x" using ilog2_bounds [OF x] by simp
  then have "of_int (2 ^ 52) \<le> x / 2 powi ?e"
    using p by (simp add: le_divide_eq power_int_add mult.commute)
  then have "2 ^ 52 \<le> round_even (x / 2 powi ?e)"
    using round_even_mono round_even_of_int by metis
  then have "of_int (2 ^ 52) \<le> (of_int (round_even (x / 2 powi ?e)) :: rat)"
    by (simp only: of_int_le_iff)
  then show "2 powi (?e + 52) \<le> rnd x"
    using p by (simp add: x_eq power_int_add mult_right_mono mult.commute)
qed

lemma rnd_mono_pos: "0 < x \<Longrightarrow> x \<le> y \<Longrightarrow> rnd x \<le> rnd y"
proof -
  assume x: "0 < x" and xy: "x \<le> y"
  then have y: "0 < y" by simp
  have le: "ulp_exp x \<le> ulp_exp y" using x y ilog2_mono [OF x xy] by (simp add: ulp_exp_def)
  show ?thesis
  proof (cases "ulp_exp x = ulp_exp y")
    case True
    have "round_even (x / 2 powi ulp_exp y) \<le> round_even (y / 2 powi ulp_exp y)"
      by (rule round_even_mono) (simp add: xy divide_right_mono)
    then show ?thesis using x y True by (simp add: rnd_def)
  next
    case False
    with le have lt: "ulp_exp x + 53 \<le> ulp_exp y + 52" by simp
    with le have "ulp_exp y > - 1074" by (simp add: ulp_exp_def)
    then have "2 powi (ulp_exp y + 52) \<le> rnd y" by (rule rnd_bounds_binade(2) [OF y])
    moreover have "2 powi (ulp_exp x + 53) \<le> (2::rat) powi (ulp_exp y + 52)"
      using lt by (simp only: powi_le_iff)
    ultimately show ?thesis using rnd_bounds_binade(1) [OF x] by linarith
  qed
qed

lemma rnd_mono: "x \<le> y \<Longrightarrow> rnd x \<le> rnd y"
proof -
  assume xy: "x \<le> y"
  consider "0 < x" | "x \<le> 0" "0 \<le> y" | "y < 0" by linarith
  then show ?thesis
  proof cases
    case 1
    then show ?thesis using xy by (rule rnd_mono_pos)
  next
    case 2
    then have "rnd x \<le> 0" using rnd_nonneg [of "- x"] by (simp add: rnd_minus)
    also have "0 \<le> rnd y" using 2 by (simp add: rnd_nonneg)
    finally show ?thesis .
  next
    case 3
    then have "rnd (- y) \<le> rnd (- x)" using xy by (intro rnd_mono_pos) auto
    then show ?thesis by (simp add: rnd_minus)
  qed
qed

text \<open>Scaling by a power of two commutes with rounding while the result stays normal.\<close>

lemma rnd_scale:
  assumes x: "0 < x" and n: "- 1022 \<le> ilog2 x" "- 1022 \<le> ilog2 x + k"
  shows "rnd (x * 2 powi k) = rnd x * 2 powi k"
proof -
  have pos: "0 < x * 2 powi k" using x by simp
  have e: "ulp_exp (x * 2 powi k) = ulp_exp x + k"
    using x pos n ilog2_scale [OF x, of k] by (simp add: ulp_exp_def)
  show ?thesis using x pos unfolding rnd_def e by (simp add: power_int_add)
qed


lemma fl_finite: "\<bar>x\<bar> \<le> 2 ^ 53 \<Longrightarrow> fl x = Fin (rnd x)"
proof -
  assume "\<bar>x\<bar> \<le> 2 ^ 53"
  then have "x \<le> of_int (2 ^ 53)" and "of_int (- (2 ^ 53)) \<le> x" by (simp_all add: abs_le_iff)
  then have "rnd x \<le> rnd (of_int (2 ^ 53))" and "rnd (of_int (- (2 ^ 53))) \<le> rnd x"
    by (simp_all only: rnd_mono)
  then have b: "rnd x \<le> 2 ^ 53" "- (2 ^ 53) \<le> rnd x"
    using rnd_of_int [of "2 ^ 53"] rnd_of_int [of "- (2 ^ 53)"] by simp_all
  have "(2::rat) ^ 53 < 2 ^ 1024" by (rule power_strict_increasing) simp_all
  with b have "rnd x < 2 ^ 1024" "- (2 ^ 1024) < rnd x" by linarith+
  then show ?thesis by (simp add: fl_def Let_def not_le)
qed

lemma fl_of_int: "\<bar>n\<bar> \<le> 2 ^ 53 \<Longrightarrow> fl (of_int n) = Fin (of_int n)"
  using fl_finite [of "of_int n"] rnd_of_int [of n]
    of_int_le_iff [of "\<bar>n\<bar>" "2 ^ 53", where 'a = rat] by simp

lemma fl_0 [simp]: "fl 0 = Fin 0"
  using fl_of_int [of 0] by simp

lemma is_double_fl: "is_double x \<Longrightarrow> fl x = Fin x"
  by (auto simp: is_double_def fl_def Let_def abs_less_iff)

lemma is_double_of_int: "\<bar>n\<bar> \<le> 2 ^ 53 \<Longrightarrow> is_double (of_int n)"
proof -
  assume n: "\<bar>n\<bar> \<le> 2 ^ 53"
  have "(of_int \<bar>n\<bar> :: rat) \<le> of_int (2 ^ 53)" using n by (simp only: of_int_le_iff)
  also have "\<dots> < 2 ^ 1024" using power_strict_increasing [of 53 1024 "2::rat"] by simp
  finally show ?thesis using rnd_of_int [OF n] by (simp add: is_double_def)
qed

lemma fl_nonneg: "0 \<le> x \<Longrightarrow> fl x = PInf \<or> (\<exists>y \<ge> 0. fl x = Fin y)"
  using rnd_nonneg [of x] by (auto simp: fl_def Let_def)

lemma fl_lower: "is_double a \<Longrightarrow> a \<le> x \<Longrightarrow> fl x = Fin y \<Longrightarrow> a \<le> y"
  using rnd_mono [of a x] by (auto simp: is_double_def fl_def Let_def split: if_splits)

lemma fl_upper: "is_double b \<Longrightarrow> x \<le> b \<Longrightarrow> fl x = Fin y \<Longrightarrow> y \<le> b"
  using rnd_mono [of x b] by (auto simp: is_double_def fl_def Let_def split: if_splits)

section \<open>Arithmetic and comparison\<close>

fun num_neg :: "jsnum \<Rightarrow> jsnum" where
  "num_neg NaN = NaN"
| "num_neg PInf = NInf"
| "num_neg NInf = PInf"
| "num_neg (Fin x) = Fin (- x)"

fun num_add :: "jsnum \<Rightarrow> jsnum \<Rightarrow> jsnum" where
  "num_add NaN _ = NaN"
| "num_add _ NaN = NaN"
| "num_add PInf NInf = NaN"
| "num_add NInf PInf = NaN"
| "num_add PInf _ = PInf"
| "num_add _ PInf = PInf"
| "num_add NInf _ = NInf"
| "num_add _ NInf = NInf"
| "num_add (Fin x) (Fin y) = fl (x + y)"

definition num_sub :: "jsnum \<Rightarrow> jsnum \<Rightarrow> jsnum" where
  "num_sub a b = num_add a (num_neg b)"

definition inf_sgn :: "rat \<Rightarrow> jsnum" where
  "inf_sgn x = (if x = 0 then NaN else if 0 < x then PInf else NInf)"

fun num_mul :: "jsnum \<Rightarrow> jsnum \<Rightarrow> jsnum" where
  "num_mul NaN _ = NaN"
| "num_mul _ NaN = NaN"
| "num_mul (Fin x) (Fin y) = fl (x * y)"
| "num_mul (Fin x) PInf = inf_sgn x"
| "num_mul (Fin x) NInf = inf_sgn (- x)"
| "num_mul PInf (Fin y) = inf_sgn y"
| "num_mul NInf (Fin y) = inf_sgn (- y)"
| "num_mul a b = (if a = b then PInf else NInf)"

fun num_div :: "jsnum \<Rightarrow> jsnum \<Rightarrow> jsnum" where
  "num_div NaN _ = NaN"
| "num_div _ NaN = NaN"
| "num_div (Fin x) (Fin y) = (if y = 0 then inf_sgn x else fl (x / y))"
| "num_div (Fin x) _ = Fin 0"
| "num_div PInf (Fin y) = (if y < 0 then NInf else PInf)"
| "num_div NInf (Fin y) = (if y < 0 then PInf else NInf)"
| "num_div _ _ = NaN"

definition trunc :: "rat \<Rightarrow> int" where
  "trunc x = (if x < 0 then \<lceil>x\<rceil> else \<lfloor>x\<rfloor>)"

text \<open>The remainder \<open>a % b\<close> takes the sign of the dividend and is exact.\<close>

fun num_mod :: "jsnum \<Rightarrow> jsnum \<Rightarrow> jsnum" where
  "num_mod (Fin x) (Fin y) = (if y = 0 then NaN else Fin (x - y * of_int (trunc (x / y))))"
| "num_mod (Fin x) PInf = Fin x"
| "num_mod (Fin x) NInf = Fin x"
| "num_mod _ _ = NaN"

fun num_less :: "jsnum \<Rightarrow> jsnum \<Rightarrow> bool" where
  "num_less NaN _ = False"
| "num_less _ NaN = False"
| "num_less (Fin x) (Fin y) = (x < y)"
| "num_less a b = (a = NInf \<and> b \<noteq> NInf \<or> b = PInf \<and> a \<noteq> PInf)"

definition num_eq :: "jsnum \<Rightarrow> jsnum \<Rightarrow> bool" where
  "num_eq a b \<longleftrightarrow> a = b \<and> a \<noteq> NaN"

definition num_le :: "jsnum \<Rightarrow> jsnum \<Rightarrow> bool" where
  "num_le a b \<longleftrightarrow> num_less a b \<or> num_eq a b"

text \<open>\<open>Math.max\<close> and \<open>Math.min\<close> of two numbers.\<close>

definition num_max :: "jsnum \<Rightarrow> jsnum \<Rightarrow> jsnum" where
  "num_max a b = (if a = NaN \<or> b = NaN then NaN else if num_less a b then b else a)"

definition num_min :: "jsnum \<Rightarrow> jsnum \<Rightarrow> jsnum" where
  "num_min a b = (if a = NaN \<or> b = NaN then NaN else if num_less b a then b else a)"

definition num_truthy :: "jsnum \<Rightarrow> bool" where
  "num_truthy a \<longleftrightarrow> a \<noteq> NaN \<and> a \<noteq> Fin 0"

abbreviation num_of :: "int \<Rightarrow> jsnum" where
  "num_of n \<equiv> Fin (of_int n)"

lemma num_max_Fin [simp]: "num_max (Fin x) (Fin y) = Fin (max x y)"
  by (simp add: num_max_def max_def)

lemma num_min_Fin [simp]: "num_min (Fin x) (Fin y) = Fin (min x y)"
  by (simp add: num_min_def min_def)

lemma num_le_Fin [simp]: "num_le (Fin x) (Fin y) \<longleftrightarrow> x \<le> y"
  by (auto simp: num_le_def num_eq_def)

lemma num_truthy_Fin [simp]: "num_truthy (Fin x) \<longleftrightarrow> x \<noteq> 0"
  by (simp add: num_truthy_def)

section \<open>Decimal and hexadecimal text\<close>

definition digit_char :: "int \<Rightarrow> char" where
  "digit_char d = ''0123456789abcdef'' ! nat d"

fun digits :: "int \<Rightarrow> string" where
  "digits n = (if n < 10 then [digit_char n] else digits (n div 10) @ [digit_char (n mod 10)])"

declare digits.simps [simp del]

fun hex_digits :: "int \<Rightarrow> string" where
  "hex_digits n =
     (if n < 16 then [digit_char n] else hex_digits (n div 16) @ [digit_char (n mod 16)])"

declare hex_digits.simps [simp del]

definition int_str :: "int \<Rightarrow> string" where
  "int_str n = (if n < 0 then CHR ''-'' # digits (- n) else digits n)"

definition is_digit :: "char \<Rightarrow> bool" where
  "is_digit c \<longleftrightarrow> c \<in> set ''0123456789''"

definition digit_val :: "char \<Rightarrow> int" where
  "digit_val c = of_char c - 48"

definition digits_val :: "string \<Rightarrow> int" where
  "digits_val = foldl (\<lambda>n c. 10 * n + digit_val c) 0"

subsection \<open>Properties of decimal digits\<close>

lemma digit_char_cases:
  assumes "0 \<le> d" "d < 10"
  shows "is_digit (digit_char d)" and "digit_val (digit_char d) = d"
proof -
  have "d = 0 \<or> d = 1 \<or> d = 2 \<or> d = 3 \<or> d = 4 \<or> d = 5 \<or> d = 6 \<or> d = 7 \<or> d = 8 \<or> d = 9"
    using assms by presburger
  then show "is_digit (digit_char d)" and "digit_val (digit_char d) = d"
    by (auto simp: digit_char_def is_digit_def digit_val_def)
qed

lemma digits_not_Nil [simp]: "digits n \<noteq> []"
  by (subst digits.simps) simp

lemma digits_all_digit: "0 \<le> n \<Longrightarrow> list_all is_digit (digits n)"
proof (induction n rule: digits.induct)
  case (1 n)
  then show ?case by (subst digits.simps) (simp add: digit_char_cases)
qed

lemma digits_val_append: "digits_val (xs @ [c]) = 10 * digits_val xs + digit_val c"
  by (simp add: digits_val_def)

lemma digits_val_digits: "0 \<le> n \<Longrightarrow> digits_val (digits n) = n"
proof (induction n rule: digits.induct)
  case (1 n)
  show ?case
  proof (cases "n < 10")
    case True
    with 1 show ?thesis by (subst digits.simps) (simp add: digits_val_def digit_char_cases)
  next
    case False
    with 1 show ?thesis
      by (subst digits.simps) (simp add: digits_val_append digit_char_cases)
  qed
qed

lemma digits_inject: "0 \<le> m \<Longrightarrow> 0 \<le> n \<Longrightarrow> digits m = digits n \<Longrightarrow> m = n"
  by (metis digits_val_digits)

lemma digits_length_le: "0 \<le> n \<Longrightarrow> n < 10 ^ k \<Longrightarrow> 0 < k \<Longrightarrow> length (digits n) \<le> k"
proof (induction n arbitrary: k rule: digits.induct)
  case (1 n)
  show ?case
  proof (cases "n < 10")
    case True
    with 1 show ?thesis by (subst digits.simps) simp
  next
    case False
    obtain j where k: "k = Suc j" using 1 by (cases k) auto
    have j: "0 < j" using 1 False k by (cases j) auto
    have "n div 10 < 10 ^ j" using 1(3) k by simp
    with 1(1) False j have "length (digits (n div 10)) \<le> j" using 1(2) by simp
    with False k show ?thesis by (subst digits.simps) simp
  qed
qed

lemma digits_no_char:
  assumes "0 \<le> n" "\<not> is_digit c"
  shows "c \<notin> set (digits n)"
  using digits_all_digit [OF assms(1)] assms(2) by (auto simp: list_all_iff)

section \<open>Number to string\<close>

text \<open>
  \<open>String(x)\<close> for a finite positive number. An integer up to \<open>2 ^ 53\<close> prints its digits. Any
  other value prints the shortest decimal that rounds back to it: \<open>k\<close> significant digits with
  the least \<open>k\<close>, at most 17 of them being needed for binary64.
\<close>

definition dec_exp :: "rat \<Rightarrow> int" where
  "dec_exp x =
     (if 1 \<le> x then int (length (digits \<lfloor>x\<rfloor>)) else 1 - int (length (digits (\<lceil>1 / x\<rceil> - 1))))"

definition round_near :: "rat \<Rightarrow> int" where
  "round_near x = \<lfloor>x + 1 / 2\<rfloor>"

definition shortest :: "rat \<Rightarrow> string \<times> int" where
  "shortest x =
     (let n = dec_exp x;
          cand = (\<lambda>k. (k, round_near (x * 10 powi (int k - n))));
          ok = (\<lambda>(k, s). fl (of_int s * 10 powi (n - int k)) = Fin x)
      in case find ok (map cand [1..<18]) of
           Some (k, s) \<Rightarrow> if s = 10 ^ k then (''1'', n + 1) else (digits s, n)
         | None \<Rightarrow> (digits (round_near (x * 10 powi (17 - n))), n))"

definition zeros :: "int \<Rightarrow> string" where
  "zeros n = replicate (nat n) (CHR ''0'')"

definition exp_str :: "int \<Rightarrow> string" where
  "exp_str e = ''e'' @ (if e < 0 then ''-'' else ''+'') @ digits \<bar>e\<bar>"

definition format_dec :: "string \<times> int \<Rightarrow> string" where
  "format_dec = (\<lambda>(s, n).
     let k = int (length s)
     in if k \<le> n \<and> n \<le> 21 then s @ zeros (n - k)
        else if 0 < n \<and> n \<le> 21 then take (nat n) s @ ''.'' @ drop (nat n) s
        else if - 6 < n \<and> n \<le> 0 then ''0.'' @ zeros (- n) @ s
        else if k = 1 then s @ exp_str (n - 1)
        else take 1 s @ ''.'' @ drop 1 s @ exp_str (n - 1))"

definition pos_str :: "rat \<Rightarrow> string" where
  "pos_str x =
     (if x = of_int \<lfloor>x\<rfloor> \<and> x \<le> 2 ^ 53 then digits \<lfloor>x\<rfloor> else format_dec (shortest x))"

fun num_to_str :: "jsnum \<Rightarrow> string" where
  "num_to_str NaN = ''NaN''"
| "num_to_str PInf = ''Infinity''"
| "num_to_str NInf = ''-Infinity''"
| "num_to_str (Fin x) = (if x < 0 then CHR ''-'' # pos_str (- x) else pos_str x)"

lemma num_to_str_int: "0 \<le> n \<Longrightarrow> n \<le> 2 ^ 53 \<Longrightarrow> num_to_str (num_of n) = digits n"
proof -
  assume "0 \<le> n" and n: "n \<le> 2 ^ 53"
  moreover have "(of_int n :: rat) \<le> of_int (2 ^ 53)" using n by (simp only: of_int_le_iff)
  ultimately show ?thesis by (simp add: pos_str_def)
qed

text \<open>\<open>x.toFixed(f)\<close>: the nearest decimal with \<open>f\<close> digits after the point, ties upwards.\<close>

definition fixed_digits :: "rat \<Rightarrow> nat \<Rightarrow> int" where
  "fixed_digits x f = round_near (x * 10 ^ f)"

definition point_in :: "nat \<Rightarrow> string \<Rightarrow> string" where
  "point_in f m =
     (if f = 0 then m
      else let z = replicate (Suc f - length m) (CHR ''0'') @ m;
               k = length z - f
           in take k z @ ''.'' @ drop k z)"

fun to_fixed :: "jsnum \<Rightarrow> nat \<Rightarrow> string" where
  "to_fixed (Fin x) f =
     (if 10 ^ 21 \<le> \<bar>x\<bar> then num_to_str (Fin x)
      else (if x < 0 then ''-'' else '''') @ point_in f (digits (fixed_digits \<bar>x\<bar> f)))"
| "to_fixed n f = num_to_str n"

text \<open>\<open>n.toString(16)\<close> of a non-negative integer.\<close>

definition hex_str :: "int \<Rightarrow> string" where
  "hex_str n = hex_digits n"

section \<open>String to number\<close>

definition is_space :: "char \<Rightarrow> bool" where
  "is_space c \<longleftrightarrow> of_char c \<in> {9, 10, 11, 12, 13, 32, 160 :: int}"

definition trim_ws :: "string \<Rightarrow> string" where
  "trim_ws s = rev (dropWhile is_space (rev (dropWhile is_space s)))"

definition hex_val :: "char \<Rightarrow> int option" where
  "hex_val c =
     (let n = of_char c :: int
      in if 48 \<le> n \<and> n \<le> 57 then Some (n - 48)
         else if 97 \<le> n \<and> n \<le> 102 then Some (n - 87)
         else if 65 \<le> n \<and> n \<le> 70 then Some (n - 55) else None)"

fun radix_val :: "int \<Rightarrow> int \<Rightarrow> string \<Rightarrow> int option" where
  "radix_val r acc [] = Some acc"
| "radix_val r acc (c # cs) =
     (case hex_val c of
        None \<Rightarrow> None
      | Some d \<Rightarrow> if d < r then radix_val r (r * acc + d) cs else None)"

text \<open>The decimal part of \<open>StringNumericLiteral\<close>: digits, a fraction and an exponent.\<close>

definition dec_exponent :: "string \<Rightarrow> int option" where
  "dec_exponent s =
     (case s of
        [] \<Rightarrow> Some 0
      | c # t \<Rightarrow>
          if c \<noteq> CHR ''e'' \<and> c \<noteq> CHR ''E'' then None
          else let neg = (t \<noteq> [] \<and> hd t = CHR ''-'');
                   u = (if t \<noteq> [] \<and> hd t \<in> {CHR ''-'', CHR ''+''} then tl t else t)
               in if u = [] \<or> \<not> list_all is_digit u then None
                  else Some (if neg then - digits_val u else digits_val u))"

definition dec_literal :: "string \<Rightarrow> rat option" where
  "dec_literal s =
     (let ip = takeWhile is_digit s;
          r = dropWhile is_digit s;
          fp = (if r \<noteq> [] \<and> hd r = CHR ''.'' then takeWhile is_digit (tl r) else []);
          r' = (if r \<noteq> [] \<and> hd r = CHR ''.'' then dropWhile is_digit (tl r) else r)
      in if ip = [] \<and> fp = [] then None
         else map_option (\<lambda>e. of_int (digits_val (ip @ fp)) * 10 powi (e - int (length fp)))
                (dec_exponent r'))"

definition unsigned_num :: "string \<Rightarrow> jsnum" where
  "unsigned_num s =
     (if s = ''Infinity'' then PInf else case dec_literal s of None \<Rightarrow> NaN | Some x \<Rightarrow> fl x)"

definition radix_num :: "int \<Rightarrow> string \<Rightarrow> jsnum" where
  "radix_num r s =
     (if s = [] then NaN else case radix_val r 0 s of None \<Rightarrow> NaN | Some n \<Rightarrow> fl (of_int n))"

text \<open>\<open>Number(s)\<close> of a string.\<close>

definition str_to_num :: "string \<Rightarrow> jsnum" where
  "str_to_num str =
     (let s = trim_ws str; p = take 2 s
      in if s = [] then Fin 0
         else if p = ''0x'' \<or> p = ''0X'' then radix_num 16 (drop 2 s)
         else if p = ''0o'' \<or> p = ''0O'' then radix_num 8 (drop 2 s)
         else if p = ''0b'' \<or> p = ''0B'' then radix_num 2 (drop 2 s)
         else if hd s = CHR ''-'' then num_neg (unsigned_num (tl s))
         else if hd s = CHR ''+'' then unsigned_num (tl s)
         else unsigned_num s)"

text \<open>
  \<open>parseInt(s)\<close> reads the leading digits of a string. Applied to a number it reads
  \<open>String(x)\<close>: outside the exponent notation, that is the integer part of \<open>x\<close>, because no
  decimal on the other side of an integer rounds to \<open>x\<close>.
\<close>

definition parse_int_str :: "string \<Rightarrow> jsnum" where
  "parse_int_str str =
     (let s = dropWhile is_space str;
          neg = (s \<noteq> [] \<and> hd s = CHR ''-'');
          t = (if s \<noteq> [] \<and> hd s \<in> {CHR ''-'', CHR ''+''} then tl s else s);
          hex = (take 2 t = ''0x'' \<or> take 2 t = ''0X'');
          ds = (if hex then takeWhile (\<lambda>c. hex_val c \<noteq> None) (drop 2 t) else takeWhile is_digit t)
      in if ds = [] then NaN
         else let v = fl (of_int (the (radix_val (if hex then 16 else 10) 0 ds)))
              in if neg then num_neg v else v)"

fun parse_int_num :: "jsnum \<Rightarrow> jsnum" where
  "parse_int_num (Fin x) =
     (if x = 0 \<or> 1 / 10 ^ 6 \<le> \<bar>x\<bar> \<and> \<bar>x\<bar> < 10 ^ 21 then num_of (trunc x)
      else parse_int_str (num_to_str (Fin x)))"
| "parse_int_num n = NaN"

section \<open>Evaluation of closed terms\<close>

text \<open>
  Floors of numeral quotients, so that the simplifier computes rounding and formatting of
  concrete numbers: \<open>simp add: num_eval\<close>.
\<close>

named_theorems num_eval \<open>evaluation of number primitives at numerals\<close>

lemma floor_rat_div [num_eval]:
  "\<lfloor>numeral a / (numeral b :: rat)\<rfloor> = numeral a div numeral b"
  "\<lfloor>1 / (numeral b :: rat)\<rfloor> = 1 div numeral b"
  "\<lfloor>- (numeral a / (numeral b :: rat))\<rfloor> = - numeral a div numeral b"
  "\<lfloor>- (1 / (numeral b :: rat))\<rfloor> = - 1 div numeral b"
  using floor_divide_of_int_eq [of "numeral a" "numeral b", where 'a = rat]
    floor_divide_of_int_eq [of 1 "numeral b", where 'a = rat]
    floor_divide_of_int_eq [of "- numeral a" "numeral b", where 'a = rat]
    floor_divide_of_int_eq [of "- 1" "numeral b", where 'a = rat]
  by simp_all

lemmas num_eval_defs [num_eval] =
  fl_def rnd_def round_even_def ulp_exp_def ilog2_def bits.simps Let_def ceiling_def

lemmas str_eval_defs [num_eval] =
  digits.simps digit_char_def fixed_digits_def round_near_def point_in_def int_str_def
  hex_digits.simps hex_str_def pos_str_def trunc_def

end
