(* ===== verification/JsString.thy ===== *)
theory JsString
  imports JsNumber
begin

text \<open>
  JavaScript strings. A string is the list of its code units; HOL's \<open>char\<close> holds the code units
  below 256, which covers every string the sources build or inspect by position (URLs, query
  strings, SDP and HTTP text). The Chinese user-interface labels are kept as their UTF-8 bytes
  (\<open>utf8\<close>): the sources only ever concatenate them. The operations follow ECMAScript, with
  integer positions that may be negative or out of range as the methods allow.
\<close>

section \<open>Searching\<close>

text \<open>\<open>find_sub t s\<close> is the first position of \<open>t\<close> in \<open>s\<close>, \<open>find_last t s\<close> the last.\<close>

fun find_sub :: "string \<Rightarrow> string \<Rightarrow> nat option" where
  "find_sub t [] = (if t = [] then Some 0 else None)"
| "find_sub t (c # cs) =
     (if prefix t (c # cs) then Some 0 else map_option Suc (find_sub t cs))"

fun find_last :: "string \<Rightarrow> string \<Rightarrow> nat option" where
  "find_last t [] = (if t = [] then Some 0 else None)"
| "find_last t (c # cs) =
     (case find_last t cs of
        Some i \<Rightarrow> Some (Suc i)
      | None \<Rightarrow> if prefix t (c # cs) then Some 0 else None)"

definition index_of :: "string \<Rightarrow> string \<Rightarrow> int" where
  "index_of s t = (case find_sub t s of None \<Rightarrow> - 1 | Some i \<Rightarrow> int i)"

definition last_index_of :: "string \<Rightarrow> string \<Rightarrow> int" where
  "last_index_of s t = (case find_last t s of None \<Rightarrow> - 1 | Some i \<Rightarrow> int i)"

section \<open>Cutting\<close>

definition rel_index :: "string \<Rightarrow> int \<Rightarrow> nat" where
  "rel_index s i = (if i < 0 then nat (int (length s) + i) else min (nat i) (length s))"

definition slice_from :: "string \<Rightarrow> int \<Rightarrow> string" where
  "slice_from s i = drop (rel_index s i) s"

definition slice :: "string \<Rightarrow> int \<Rightarrow> int \<Rightarrow> string" where
  "slice s i j = drop (rel_index s i) (take (rel_index s j) s)"

definition clamp_index :: "string \<Rightarrow> int \<Rightarrow> nat" where
  "clamp_index s i = min (nat i) (length s)"

definition substring :: "string \<Rightarrow> int \<Rightarrow> int \<Rightarrow> string" where
  "substring s i j =
     (let a = clamp_index s i; b = clamp_index s j in drop (min a b) (take (max a b) s))"

definition substr_from :: "string \<Rightarrow> int \<Rightarrow> string" where
  "substr_from s i = drop (rel_index s i) s"

definition substr :: "string \<Rightarrow> int \<Rightarrow> int \<Rightarrow> string" where
  "substr s i n = take (nat n) (drop (rel_index s i) s)"

section \<open>Replacing, splitting, joining\<close>

text \<open>
  \<open>s.replace(p, r)\<close> with a string pattern replaces the first occurrence of \<open>p\<close>; the replacement
  text may refer to the match with \<open>$&\<close> and its like (\<open>GetSubstitution\<close>).
\<close>

fun expand :: "string \<Rightarrow> string \<Rightarrow> string \<Rightarrow> string \<Rightarrow> string" where
  "expand b m a (c # d # r) =
     (if c = CHR 0x24 \<and> d = CHR 0x24 then CHR 0x24 # expand b m a r
      else if c = CHR 0x24 \<and> d = CHR 0x26 then m @ expand b m a r
      else if c = CHR 0x24 \<and> d = CHR 0x60 then b @ expand b m a r
      else if c = CHR 0x24 \<and> d = CHR 0x27 then a @ expand b m a r
      else c # expand b m a (d # r))"
| "expand b m a r = r"

definition replace_first :: "string \<Rightarrow> string \<Rightarrow> string \<Rightarrow> string" where
  "replace_first s p r =
     (case find_sub p s of
        None \<Rightarrow> s
      | Some i \<Rightarrow> let b = take i s; a = drop (i + length p) s in b @ expand b p a r @ a)"

lemma find_sub_le: "find_sub t s = Some i \<Longrightarrow> i + length t \<le> length s"
proof (induction s arbitrary: i)
  case Nil
  then show ?case by (auto split: if_splits)
next
  case (Cons c s)
  then show ?case by (auto split: if_splits dest: prefix_length_le)
qed

text \<open>\<open>s.split(sep)\<close>; an empty separator splits into single characters.\<close>

function split_on :: "string \<Rightarrow> string \<Rightarrow> string list" where
  "split_on s sep =
     (if sep = [] then map (\<lambda>c. [c]) s
      else case find_sub sep s of
             None \<Rightarrow> [s]
           | Some i \<Rightarrow> take i s # split_on (drop (i + length sep) s) sep)"
  by pat_completeness auto
termination
proof (relation "measure (\<lambda>(s, sep). length s)")
  fix s sep :: string and i
  assume "sep \<noteq> []" and "find_sub sep s = Some i"
  then have "0 < length sep" and "i + length sep \<le> length s" by (simp_all add: find_sub_le)
  then have "length s - (i + length sep) < length s" by linarith
  then show "((drop (i + length sep) s, sep), s, sep) \<in> measure (\<lambda>(s, sep). length s)" by simp
qed simp

declare split_on.simps [simp del]

fun join :: "string \<Rightarrow> string list \<Rightarrow> string" where
  "join sep [] = []"
| "join sep [x] = x"
| "join sep (x # y # ys) = x @ sep @ join sep (y # ys)"

text \<open>\<open>xs[1]\<close> of an array that may be too short: \<open>None\<close> is \<open>undefined\<close>.\<close>

definition arr_at :: "'a list \<Rightarrow> nat \<Rightarrow> 'a option" where
  "arr_at xs i = (if i < length xs then Some (xs ! i) else None)"

section \<open>Encoding\<close>

text \<open>UTF-8 bytes of a list of code points below \<open>0x10000\<close>.\<close>

definition utf8_char :: "int \<Rightarrow> string" where
  "utf8_char n =
     (if n < 128 then [char_of n]
      else if n < 2048 then [char_of (192 + n div 64), char_of (128 + n mod 64)]
      else [char_of (224 + n div 4096), char_of (128 + n div 64 mod 64), char_of (128 + n mod 64)])"

definition utf8 :: "int list \<Rightarrow> string" where
  "utf8 ns = concat (map utf8_char ns)"

definition is_alnum :: "char \<Rightarrow> bool" where
  "is_alnum c \<longleftrightarrow>
     c \<in> set ''ABCDEFGHIJKLMNOPQRSTUVWXYZabcdefghijklmnopqrstuvwxyz0123456789''"

definition upper_hex :: "int \<Rightarrow> char" where
  "upper_hex d = ''0123456789ABCDEF'' ! nat d"

definition percent :: "int \<Rightarrow> string" where
  "percent n = [CHR ''%'', upper_hex (n div 16), upper_hex (n mod 16)]"

text \<open>The global \<open>escape\<close> and \<open>encodeURIComponent\<close> on code units below 256.\<close>

definition escape :: "string \<Rightarrow> string" where
  "escape s =
     concat (map (\<lambda>c. if is_alnum c \<or> c \<in> set ''@*_+-./'' then [c] else percent (of_char c)) s)"

definition encode_component :: "string \<Rightarrow> string" where
  "encode_component s =
     concat (map (\<lambda>c. if is_alnum c \<or> c \<in> set ''-_.!~*()'' \<or> c = CHR 0x27 then [c]
                      else concat (map (\<lambda>b. percent (of_char b)) (utf8_char (of_char c)))) s)"

section \<open>Facts about searching\<close>

lemma find_sub_Nil [simp]: "find_sub [] s = Some 0"
  by (cases s) auto

lemma find_sub_SomeD:
  "find_sub t s = Some i \<Longrightarrow> prefix t (drop i s) \<and> (\<forall>j < i. \<not> prefix t (drop j s))"
proof (induction s arbitrary: i)
  case Nil
  then show ?case by (auto split: if_splits)
next
  case (Cons c s)
  then show ?case by (auto split: if_splits simp: less_Suc_eq_0_disj)
qed

lemma find_sub_None_iff: "find_sub t s = None \<longleftrightarrow> \<not> sublist t s"
proof (induction s)
  case Nil
  then show ?case by (auto split: if_splits)
next
  case (Cons c s)
  then show ?case by (auto simp: sublist_Cons_right)
qed

lemma find_sub_split: "find_sub t s = Some i \<Longrightarrow> s = take i s @ t @ drop (i + length t) s"
  by (metis add.commute append_take_drop_id drop_drop find_sub_SomeD prefix_def append_eq_conv_conj)

lemma find_sub_prefix: "prefix t s \<Longrightarrow> find_sub t s = Some 0"
  by (cases s) auto

lemma find_sub_0_iff: "find_sub t s = Some 0 \<longleftrightarrow> prefix t s"
  using find_sub_SomeD [of t s 0] find_sub_prefix by auto

lemma find_last_None_iff: "find_last t s = None \<longleftrightarrow> \<not> sublist t s"
proof (induction s)
  case Nil
  then show ?case by (auto split: if_splits)
next
  case (Cons c s)
  then show ?case by (auto simp: sublist_Cons_right split: option.splits)
qed

lemma find_last_SomeD:
  "find_last t s = Some i \<Longrightarrow>
     prefix t (drop i s) \<and> i \<le> length s \<and> (\<forall>j. i < j \<and> j \<le> length s \<longrightarrow> \<not> prefix t (drop j s))"
proof (induction s arbitrary: i)
  case Nil
  then show ?case by (auto split: if_splits)
next
  case (Cons c s)
  show ?case
  proof (cases "find_last t s")
    case None
    then have "\<not> prefix t (drop j s)" for j
      by (metis find_last_None_iff prefix_imp_sublist sublist_drop sublist_order.order_trans)
    with Cons.prems None show ?thesis
      by (auto split: if_splits simp: drop_Cons split: nat.splits)
  next
    case (Some k)
    with Cons have "i = Suc k" "prefix t (drop k s)" "k \<le> length s"
      "\<forall>j. k < j \<and> j \<le> length s \<longrightarrow> \<not> prefix t (drop j s)" by auto
    then show ?thesis by (auto simp: drop_Cons split: nat.splits)
  qed
qed

lemma index_of_ge0 [simp]: "0 \<le> index_of s t \<longleftrightarrow> sublist t s"
  using find_sub_None_iff [of t s] by (auto simp: index_of_def split: option.splits)

lemma index_of_less0 [simp]: "index_of s t < 0 \<longleftrightarrow> \<not> sublist t s"
  using index_of_ge0 [of s t] by linarith

lemma index_of_minus1 [simp]: "index_of s t = - 1 \<longleftrightarrow> \<not> sublist t s"
  using find_sub_None_iff [of t s] by (auto simp: index_of_def split: option.splits)

lemma index_of_0 [simp]: "index_of s t = 0 \<longleftrightarrow> prefix t s"
  using find_sub_0_iff [of t s] by (auto simp: index_of_def split: option.splits)

section \<open>Single-character patterns\<close>

lemma sublist_single [simp]: "sublist [c] s \<longleftrightarrow> c \<in> set s"
  by (induction s) (auto simp: sublist_Cons_right)

lemma find_sub_single: "c \<notin> set u \<Longrightarrow> find_sub [c] (u @ c # v) = Some (length u)"
  by (induction u) auto

lemma find_sub_single_None [simp]: "find_sub [c] s = None \<longleftrightarrow> c \<notin> set s"
  by (simp add: find_sub_None_iff)

lemma find_last_single: "c \<notin> set v \<Longrightarrow> find_last [c] (u @ c # v) = Some (length u)"
proof (induction u)
  case Nil
  then have "find_last [c] v = None" by (simp add: find_last_None_iff)
  then show ?case by simp
next
  case (Cons a u)
  then show ?case by simp
qed

lemma find_sub_skip: "find_sub t s = Some i \<Longrightarrow> prefix t s \<or> (\<exists>c r k. s = c # r \<and> i = Suc k)"
  by (cases s) (auto split: if_splits)

section \<open>Splitting and joining\<close>

lemma split_on_absent: "sep \<noteq> [] \<Longrightarrow> \<not> sublist sep s \<Longrightarrow> split_on s sep = [s]"
  using find_sub_None_iff [of sep s] by (simp add: split_on.simps [of s sep])

lemma split_on_single: "c \<notin> set s \<Longrightarrow> split_on s [c] = [s]"
  by (rule split_on_absent) simp_all

lemma split_on_cons: "c \<notin> set u \<Longrightarrow> split_on (u @ c # v) [c] = u # split_on v [c]"
  by (simp add: split_on.simps [of "u @ c # v" "[c]"] find_sub_single)

lemma split_on_not_Nil: "sep \<noteq> [] \<Longrightarrow> split_on s sep \<noteq> []"
  by (subst split_on.simps) (simp split: option.split)

lemma join_Cons: "xs \<noteq> [] \<Longrightarrow> join sep (x # xs) = x @ sep @ join sep xs"
  by (cases xs) simp_all

text \<open>Joining with the separator undoes splitting, and conversely.\<close>

lemma join_split_on: "sep \<noteq> [] \<Longrightarrow> join sep (split_on s sep) = s"
proof (induction s sep rule: split_on.induct)
  case (1 s sep)
  show ?case
  proof (cases "find_sub sep s")
    case None
    with 1 show ?thesis by (simp add: split_on.simps [of s sep])
  next
    case (Some i)
    with 1 have "join sep (split_on (drop (i + length sep) s) sep) = drop (i + length sep) s"
      by simp
    with Some 1 show ?thesis
      by (simp add: split_on.simps [of s sep] join_Cons split_on_not_Nil
          find_sub_split [OF Some, symmetric])
  qed
qed

lemma split_on_join:
  "xs \<noteq> [] \<Longrightarrow> \<forall>x \<in> set xs. c \<notin> set x \<Longrightarrow> split_on (join [c] xs) [c] = xs"
proof (induction xs)
  case Nil
  then show ?case by simp
next
  case (Cons x xs)
  then show ?case
    by (cases xs) (simp_all add: split_on_single split_on_cons)
qed

lemma split_on_pieces: "x \<in> set (split_on s [c]) \<Longrightarrow> c \<notin> set x"
proof (induction s "[c]" arbitrary: x rule: split_on.induct)
  case (1 s)
  show ?case
  proof (cases "find_sub [c] s")
    case None
    with "1.prems" show ?thesis by (simp add: split_on.simps [of s "[c]"])
  next
    case (Some i)
    then have "c \<notin> set (take i s)"
      using find_sub_SomeD [OF Some]
      by (auto simp: in_set_conv_nth) (metis Cons_nth_drop_Suc Cons_prefix_Cons Nil_prefix)
    with 1 Some show ?thesis by (auto simp: split_on.simps [of s "[c]"])
  qed
qed

lemma set_join: "set (join sep xs) \<subseteq> \<Union> (set ` set xs) \<union> set sep"
  by (induction sep xs rule: join.induct) auto

lemma arr_at_simps [simp]:
  "arr_at [] i = None"
  "arr_at (x # xs) 0 = Some x"
  "arr_at (x # xs) (Suc i) = arr_at xs i"
  "arr_at (x # xs) 1 = arr_at xs 0"
  by (simp_all add: arr_at_def)

section \<open>Cutting at positions\<close>

lemma rel_index_nat [simp]: "rel_index s (int n) = min n (length s)"
  by (simp add: rel_index_def)

lemma slice_from_nat: "slice_from s (int n) = drop n s"
  by (simp add: slice_from_def min_def)

lemma slice_from_0 [simp]: "slice_from s 0 = s"
  by (simp add: slice_from_def rel_index_def)

lemma slice_0_nat: "slice s 0 (int n) = take n s"
  by (simp add: slice_def min_def) (simp add: rel_index_def)

lemma slice_0_diff: "n \<le> length s \<Longrightarrow> slice s 0 (int (length s) - int n) = take (length s - n) s"
  using slice_0_nat [of s "length s - n"] by (simp add: of_nat_diff)

lemma substring_1: "0 < n \<Longrightarrow> substring s 1 (int n) = drop 1 (take n s)"
  by (cases s) (auto simp: substring_def clamp_index_def Let_def min_def max_def)

lemma replace_first_absent: "\<not> sublist p s \<Longrightarrow> replace_first s p r = s"
  using find_sub_None_iff [of p s] by (simp add: replace_first_def)

lemma expand_plain: "CHR 0x24 \<notin> set r \<Longrightarrow> expand b m a r = r"
  by (induction b m a r rule: expand.induct) auto

lemma replace_first_plain:
  "find_sub p s = Some i \<Longrightarrow> CHR 0x24 \<notin> set r \<Longrightarrow>
     replace_first s p r = take i s @ r @ drop (i + length p) s"
  by (simp add: replace_first_def Let_def expand_plain)

lemma replace_first_prefix:
  "CHR 0x24 \<notin> set r \<Longrightarrow> replace_first (p @ s) p r = r @ s"
  by (simp add: replace_first_plain find_sub_prefix)

end
