(* ===== verification/JsValue.thy ===== *)
theory JsValue
  imports JsString
begin

text \<open>
  JavaScript values and objects. Data that comes from JSON or from a query string is a tree of
  \<open>jsval\<close>; an object whose identity matters is an address \<open>Ref a\<close>, standing for a plain object
  that the code compares but does not look into. The properties of an object are an association
  list in the order \<open>for ... in\<close> enumerates them: array-index keys in ascending order, then the
  other keys in order of creation.
\<close>

section \<open>Property tables\<close>

type_synonym 'v props = "(string \<times> 'v) list"

definition is_index :: "string \<Rightarrow> bool" where
  "is_index s \<longleftrightarrow>
     s \<noteq> [] \<and> list_all is_digit s \<and> (hd s \<noteq> CHR ''0'' \<or> s = ''0'') \<and> digits_val s < 2 ^ 32 - 1"

fun prop_insert :: "string \<Rightarrow> 'v \<Rightarrow> 'v props \<Rightarrow> 'v props" where
  "prop_insert k v [] = [(k, v)]"
| "prop_insert k v ((k', v') # ps) =
     (if is_index k \<and> (\<not> is_index k' \<or> digits_val k < digits_val k') then (k, v) # (k', v') # ps
      else (k', v') # prop_insert k v ps)"

fun prop_upd :: "string \<Rightarrow> 'v \<Rightarrow> 'v props \<Rightarrow> 'v props" where
  "prop_upd k v [] = []"
| "prop_upd k v ((k', v') # ps) = (k', if k' = k then v else v') # prop_upd k v ps"

definition prop_keys :: "'v props \<Rightarrow> string list" where
  "prop_keys ps = map fst ps"

definition prop_get :: "'v props \<Rightarrow> string \<Rightarrow> 'v option" where
  "prop_get ps k = map_of ps k"

definition prop_set :: "'v props \<Rightarrow> string \<Rightarrow> 'v \<Rightarrow> 'v props" where
  "prop_set ps k v =
     (if k \<in> set (prop_keys ps) then prop_upd k v ps else prop_insert k v ps)"

definition prop_del :: "'v props \<Rightarrow> string \<Rightarrow> 'v props" where
  "prop_del ps k = filter (\<lambda>(k', _). k' \<noteq> k) ps"

definition props_wf :: "'v props \<Rightarrow> bool" where
  "props_wf ps \<longleftrightarrow> distinct (prop_keys ps)"

text \<open>
  What the code relies on when it uses an object as a table: the interface, and facts about
  sequences of assignments proved from it once.
\<close>

locale property_table =
  fixes get :: "'o \<Rightarrow> string \<Rightarrow> 'v option"
    and put :: "'o \<Rightarrow> string \<Rightarrow> 'v \<Rightarrow> 'o"
    and del :: "'o \<Rightarrow> string \<Rightarrow> 'o"
    and keys :: "'o \<Rightarrow> string list"
    and wf :: "'o \<Rightarrow> bool"
    and none :: 'o
  assumes get_none: "get none k = None"
    and wf_none: "wf none"
    and get_put: "get (put t k v) k' = (if k' = k then Some v else get t k')"
    and wf_put: "wf t \<Longrightarrow> wf (put t k v)"
    and get_del: "wf t \<Longrightarrow> get (del t k) k' = (if k' = k then None else get t k')"
    and wf_del: "wf t \<Longrightarrow> wf (del t k)"
    and keys_get: "k \<in> set (keys t) \<longleftrightarrow> get t k \<noteq> None"
    and distinct_keys: "wf t \<Longrightarrow> distinct (keys t)"
begin

lemma get_put_same: "get (put t k v) k = Some v"
  by (simp add: get_put)

lemma get_put_other: "k' \<noteq> k \<Longrightarrow> get (put t k v) k' = get t k'"
  by (simp add: get_put)

text \<open>A sequence of assignments: the last one to a key decides its value.\<close>

lemma get_puts:
  "get (foldl (\<lambda>t (k, v). put t k v) t kvs) k =
     (case map_of (rev kvs) k of None \<Rightarrow> get t k | Some v \<Rightarrow> Some v)"
proof (induction kvs arbitrary: t)
  case Nil
  then show ?case by simp
next
  case (Cons kv kvs)
  then show ?case
    by (cases kv) (auto simp: get_put map_add_def split: option.splits)
qed

lemma wf_puts: "wf t \<Longrightarrow> wf (foldl (\<lambda>t (k, v). put t k v) t kvs)"
  by (induction kvs arbitrary: t) (auto simp: wf_put)

lemma keys_puts:
  "set (keys (foldl (\<lambda>t (k, v). put t k v) t kvs)) = set (keys t) \<union> fst ` set kvs"
proof (induction kvs arbitrary: t)
  case Nil
  then show ?case by simp
next
  case (Cons kv kvs)
  have "set (keys (put t k v)) = insert k (set (keys t))" for k v
    by (auto simp: keys_get get_put split: if_splits)
  with Cons show ?case by (cases kv) auto
qed

lemma keys_put: "set (keys (put t k v)) = insert k (set (keys t))"
  using keys_puts [of t "[(k, v)]"] by simp

lemma keys_del: "wf t \<Longrightarrow> set (keys (del t k)) = set (keys t) - {k}"
  by (auto simp: keys_get get_del split: if_splits)

end

lemma map_of_prop_insert:
  "k \<notin> fst ` set ps \<Longrightarrow> map_of (prop_insert k v ps) k' = (if k' = k then Some v else map_of ps k')"
  by (induction ps) auto

lemma map_of_prop_upd:
  "map_of (prop_upd k v ps) k' =
     (if k' = k \<and> k \<in> fst ` set ps then Some v else map_of ps k')"
proof (induction ps)
  case Nil
  then show ?case by simp
next
  case (Cons p ps)
  then show ?case by (cases p; cases "k' = k") (auto simp: image_iff)
qed

lemma set_prop_insert: "set (prop_insert k v ps) = insert (k, v) (set ps)"
  by (induction k v ps rule: prop_insert.induct) auto

lemma keys_prop_upd: "map fst (prop_upd k v ps) = map fst ps"
  by (induction ps) auto

lemma distinct_prop_insert:
  "distinct (map fst ps) \<Longrightarrow> k \<notin> fst ` set ps \<Longrightarrow> distinct (map fst (prop_insert k v ps))"
  by (induction ps) (auto simp: set_prop_insert)

lemma map_of_prop_del: "map_of (filter (\<lambda>(k', _). k' \<noteq> k) ps) k' = (if k' = k then None else map_of ps k')"
  by (induction ps) auto

lemma distinct_keys_filter: "distinct (map fst ps) \<Longrightarrow> distinct (map fst (filter P ps))"
  by (induction ps) auto

interpretation props: property_table prop_get prop_set prop_del prop_keys props_wf "[]"
proof
  fix ps :: "'v props" and k k' v
  show "prop_get [] k = (None :: 'v option)" by (simp add: prop_get_def)
  show "props_wf ([] :: 'v props)" by (simp add: props_wf_def prop_keys_def)
  show "prop_get (prop_set ps k v) k' = (if k' = k then Some v else prop_get ps k')"
    by (simp add: prop_get_def prop_set_def prop_keys_def map_of_prop_insert map_of_prop_upd)
  show "k \<in> set (prop_keys ps) \<longleftrightarrow> prop_get ps k \<noteq> None"
    by (simp add: prop_keys_def prop_get_def map_of_eq_None_iff)
  assume wf: "props_wf ps"
  show "props_wf (prop_set ps k v)"
    using wf by (simp add: props_wf_def prop_keys_def prop_set_def keys_prop_upd distinct_prop_insert)
  show "prop_get (prop_del ps k) k' = (if k' = k then None else prop_get ps k')"
    by (simp add: prop_get_def prop_del_def map_of_prop_del)
  show "props_wf (prop_del ps k)"
    using wf by (simp add: props_wf_def prop_keys_def prop_del_def distinct_keys_filter)
  show "distinct (prop_keys ps)" using wf by (simp add: props_wf_def)
qed

text \<open>Keys that are not array indices keep their order of creation.\<close>

lemma prop_insert_append: "\<not> is_index k \<Longrightarrow> prop_insert k v ps = ps @ [(k, v)]"
  by (induction ps) auto

lemma prop_set_new: "k \<notin> set (prop_keys ps) \<Longrightarrow> \<not> is_index k \<Longrightarrow> prop_set ps k v = ps @ [(k, v)]"
  by (simp add: prop_set_def prop_insert_append)

lemma prop_sets_fresh:
  "distinct (map fst kvs) \<Longrightarrow> \<forall>k \<in> fst ` set kvs. \<not> is_index k \<and> k \<notin> set (prop_keys ps) \<Longrightarrow>
     foldl (\<lambda>t (k, v). prop_set t k v) ps kvs = ps @ kvs"
proof (induction kvs arbitrary: ps)
  case Nil
  then show ?case by simp
next
  case (Cons kv kvs)
  obtain k v where kv: "kv = (k, v)" by (cases kv)
  have set: "prop_set ps k v = ps @ [(k, v)]" using Cons.prems kv by (intro prop_set_new) auto
  have "foldl (\<lambda>t (k, v). prop_set t k v) (ps @ [(k, v)]) kvs = (ps @ [(k, v)]) @ kvs"
    by (rule Cons.IH) (use Cons.prems kv in \<open>auto simp: prop_keys_def\<close>)
  with set kv show ?case by simp
qed

section \<open>Values\<close>

datatype jsval =
    Undef
  | Null
  | Bool bool
  | Num jsnum
  | Str string
  | Arr "jsval list"
  | Obj "(string \<times> jsval) list"
  | Ref nat

fun truthy :: "jsval \<Rightarrow> bool" where
  "truthy Undef = False"
| "truthy Null = False"
| "truthy (Bool b) = b"
| "truthy (Num n) = num_truthy n"
| "truthy (Str s) = (s \<noteq> [])"
| "truthy _ = True"

fun is_object :: "jsval \<Rightarrow> bool" where
  "is_object (Arr _) = True"
| "is_object (Obj _) = True"
| "is_object (Ref _) = True"
| "is_object _ = False"

definition nullish :: "jsval \<Rightarrow> bool" where
  "nullish v \<longleftrightarrow> v = Undef \<or> v = Null"

text \<open>\<open>String(v)\<close> and \<open>Number(v)\<close>.\<close>

fun to_str :: "jsval \<Rightarrow> string" where
  "to_str Undef = ''undefined''"
| "to_str Null = ''null''"
| "to_str (Bool b) = (if b then ''true'' else ''false'')"
| "to_str (Num n) = num_to_str n"
| "to_str (Str s) = s"
| "to_str (Arr vs) = join '','' (map (\<lambda>v. if v = Undef \<or> v = Null then '''' else to_str v) vs)"
| "to_str (Obj _) = ''[object Object]''"
| "to_str (Ref _) = ''[object Object]''"

fun to_num :: "jsval \<Rightarrow> jsnum" where
  "to_num Undef = NaN"
| "to_num Null = Fin 0"
| "to_num (Bool b) = (if b then Fin 1 else Fin 0)"
| "to_num (Num n) = n"
| "to_num (Str s) = str_to_num s"
| "to_num v = str_to_num (to_str v)"

definition to_prim :: "jsval \<Rightarrow> jsval" where
  "to_prim v = (if is_object v then Str (to_str v) else v)"

text \<open>
  Abstract equality \<open>==\<close> and strict equality \<open>===\<close>. Two objects are equal only when they are the
  same address; a tree value is a fresh object, equal to no other.
\<close>

definition prim_eq :: "jsval \<Rightarrow> jsval \<Rightarrow> bool" where
  "prim_eq a b =
     (if nullish a \<or> nullish b then nullish a \<and> nullish b
      else case (a, b) of (Str s, Str t) \<Rightarrow> s = t | _ \<Rightarrow> num_eq (to_num a) (to_num b))"

definition same_ref :: "jsval \<Rightarrow> jsval \<Rightarrow> bool" where
  "same_ref a b = (case (a, b) of (Ref i, Ref j) \<Rightarrow> i = j | _ \<Rightarrow> False)"

definition loose_eq :: "jsval \<Rightarrow> jsval \<Rightarrow> bool" where
  "loose_eq a b =
     (if is_object a \<and> is_object b then same_ref a b else prim_eq (to_prim a) (to_prim b))"

definition strict_eq :: "jsval \<Rightarrow> jsval \<Rightarrow> bool" where
  "strict_eq a b =
     (if is_object a \<or> is_object b then same_ref a b
      else case (a, b) of (Num m, Num n) \<Rightarrow> num_eq m n | _ \<Rightarrow> a = b)"

text \<open>\<open>v.k\<close>: reading a property of \<open>undefined\<close> or \<open>null\<close> throws.\<close>

definition get_prop :: "jsval \<Rightarrow> string \<Rightarrow> jsval result" where
  "get_prop v k =
     (case v of
        Undef \<Rightarrow> Inl TypeError
      | Null \<Rightarrow> Inl TypeError
      | Obj ps \<Rightarrow> Inr (case prop_get ps k of None \<Rightarrow> Undef | Some x \<Rightarrow> x)
      | _ \<Rightarrow> Inr Undef)"

text \<open>\<open>v.k\<close> on a table known to be an object.\<close>

definition field :: "jsval props \<Rightarrow> string \<Rightarrow> jsval" where
  "field ps k = (case prop_get ps k of None \<Rightarrow> Undef | Some v \<Rightarrow> v)"

text \<open>
  Assignment \<open>o[k] = v\<close> of a primitive value: the key \<open>__proto__\<close> is the prototype setter, which
  ignores primitives.
\<close>

definition assign_prop :: "jsval props \<Rightarrow> string \<Rightarrow> jsval \<Rightarrow> jsval props" where
  "assign_prop ps k v = (if k = ''__proto__'' then ps else prop_set ps k v)"

lemma to_prim_prim [simp]: "\<not> is_object v \<Longrightarrow> to_prim v = v"
  by (simp add: to_prim_def)

lemma loose_eq_Str [simp]: "loose_eq (Str s) (Str t) \<longleftrightarrow> s = t"
  by (simp add: loose_eq_def prim_eq_def nullish_def)

lemma loose_eq_nullish: "nullish a \<Longrightarrow> loose_eq a b \<longleftrightarrow> nullish b"
  by (cases b) (auto simp: loose_eq_def prim_eq_def nullish_def to_prim_def)

lemma same_ref_sym: "same_ref a b = same_ref b a"
  by (auto simp: same_ref_def split: jsval.splits)

lemma num_eq_sym: "num_eq a b = num_eq b a"
  by (auto simp: num_eq_def)

lemma prim_eq_sym: "prim_eq a b = prim_eq b a"
  by (auto simp: prim_eq_def num_eq_sym split: jsval.splits)

lemma loose_eq_sym: "loose_eq a b = loose_eq b a"
  by (auto simp: loose_eq_def same_ref_sym prim_eq_sym)

lemma strict_imp_loose: "strict_eq a b \<Longrightarrow> loose_eq a b"
  by (cases a; cases b) (auto simp: strict_eq_def loose_eq_def prim_eq_def nullish_def num_eq_def
      same_ref_def)

lemma field_assign:
  "k \<noteq> ''__proto__'' \<Longrightarrow> field (assign_prop ps k v) k' = (if k' = k then v else field ps k')"
  by (simp add: field_def assign_prop_def props.get_put)

lemma field_set: "field (prop_set ps k v) k' = (if k' = k then v else field ps k')"
  by (simp add: field_def props.get_put)

end
