(* ===== verification/ArrayUtil.thy ===== *)
theory ArrayUtil
  imports JsValue
begin

text \<open>
  The padding, array and comparison helpers of \<open>winlin.utility.js\<close> (the console's copy). An
  array that is mutated in place is returned updated.
\<close>

section \<open>Padding\<close>

text \<open>
  \<open>padding(number, length, prefix)\<close> recurses on \<open>prefix+number\<close> until the text is long enough.
  With an empty prefix it does not return: \<open>None\<close>.
\<close>

partial_function (option) padding :: "jsval \<Rightarrow> int \<Rightarrow> string \<Rightarrow> string option" where
  "padding number len pre =
     (if len \<le> int (length (to_str number)) then Some (to_str number)
      else padding (Str (pre @ to_str number)) len pre)"

lemma padding_done: "len \<le> int (length (to_str v)) \<Longrightarrow> padding v len pre = Some (to_str v)"
  by (simp add: padding.simps)

lemma padding_step:
  "int (length (to_str v)) < len \<Longrightarrow> padding v len pre = padding (Str (pre @ to_str v)) len pre"
  by (subst padding.simps) simp

lemma padding_returns:
  assumes "pre \<noteq> []"
  shows "\<exists>k. padding v len pre = Some (concat (replicate k pre) @ to_str v) \<and>
             (0 < k \<longrightarrow> int (length (concat (replicate (k - 1) pre) @ to_str v)) < len) \<and>
             len \<le> int (length (concat (replicate k pre) @ to_str v))"
proof (induction "nat (len - int (length (to_str v)))" arbitrary: v rule: less_induct)
  case less
  show ?case
  proof (cases "len \<le> int (length (to_str v))")
    case True
    then show ?thesis by (intro exI [of _ 0]) (simp add: padding_done)
  next
    case False
    let ?v = "Str (pre @ to_str v)"
    have "nat (len - int (length (to_str ?v))) < nat (len - int (length (to_str v)))"
      using False assms by (cases pre) auto
    from less [OF this] obtain k where k:
      "padding ?v len pre = Some (concat (replicate k pre) @ to_str ?v)"
      "0 < k \<longrightarrow> int (length (concat (replicate (k - 1) pre) @ to_str ?v)) < len"
      "len \<le> int (length (concat (replicate k pre) @ to_str ?v))" by blast
    have c: "concat (replicate n pre) @ pre = concat (replicate (Suc n) pre)" for n
      by (induction n) auto
    have "concat (replicate k pre) @ to_str ?v = concat (replicate (Suc k) pre) @ to_str v"
      using c [of k] by simp
    moreover have "0 < k \<Longrightarrow> concat (replicate (k - 1) pre) @ to_str ?v = concat (replicate k pre) @ to_str v"
      using c [of "k - 1"] by simp
    ultimately show ?thesis
      using k False padding_step [of v len pre] by (intro exI [of _ "Suc k"]) (cases k; auto)
  qed
qed

lemma padding_empty_prefix:
  assumes "int (length (to_str v)) < len"
  shows "padding v len [] = None"
proof -
  have "\<not> padding v len [] = Some r" for r
  proof
    assume ret: "padding v len [] = Some r"
    have "pre = [] \<longrightarrow> len \<le> int (length (to_str w))" if "padding w len pre = Some r" for w len pre r
    proof (rule padding.raw_induct
        [where P = "\<lambda>w len pre r. pre = [] \<longrightarrow> len \<le> int (length (to_str w))", OF _ that])
      fix f :: "jsval \<Rightarrow> int \<Rightarrow> string \<Rightarrow> string option" and w len pre r
      assume IH: "\<And>w len pre r. f w len pre = Some r \<Longrightarrow> pre = [] \<longrightarrow> len \<le> int (length (to_str w))"
        and eq: "(if len \<le> int (length (to_str w)) then Some (to_str w)
          else f (Str (pre @ to_str w)) len pre) = Some r"
      show "pre = [] \<longrightarrow> len \<le> int (length (to_str w))"
        using eq IH [of "Str (pre @ to_str w)" len pre r] by (auto split: if_splits)
    qed
    from this [OF ret] assms show False by simp
  qed
  then show ?thesis by (cases "padding v len []") auto
qed

section \<open>Arrays\<close>

text \<open>
  \<open>system_array_remove\<close>: the inner \<open>for\<close> continues from the position of the last removal, the
  outer \<open>while\<close> repeats as long as something was removed. \<open>None\<close> is a falsy array.
\<close>

fun remove_scan :: "jsval \<Rightarrow> nat \<Rightarrow> jsval list \<Rightarrow> nat option" where
  "remove_scan elem i [] = None"
| "remove_scan elem 0 (x # xs) =
     (if loose_eq elem x then Some 0 else map_option Suc (remove_scan elem 0 xs))"
| "remove_scan elem (Suc i) (x # xs) = map_option Suc (remove_scan elem i xs)"

definition splice1 :: "nat \<Rightarrow> 'a list \<Rightarrow> 'a list" where
  "splice1 i xs = take i xs @ drop (Suc i) xs"

lemma remove_scan_less: "remove_scan elem i xs = Some j \<Longrightarrow> j < length xs"
  by (induction elem i xs arbitrary: j rule: remove_scan.induct) (auto split: if_splits)

function remove_loop :: "jsval \<Rightarrow> nat \<Rightarrow> jsval list \<Rightarrow> jsval list" where
  "remove_loop elem i arr =
     (case remove_scan elem i arr of
        None \<Rightarrow> arr
      | Some j \<Rightarrow> remove_loop elem j (splice1 j arr))"
  by pat_completeness auto
termination
  by (relation "measure (\<lambda>(elem, i, arr). length arr)")
    (auto simp: splice1_def dest!: remove_scan_less)

declare remove_loop.simps [simp del]

definition system_array_remove :: "jsval list option \<Rightarrow> jsval \<Rightarrow> jsval list option" where
  "system_array_remove arr elem =
     (case arr of None \<Rightarrow> None | Some xs \<Rightarrow> Some (remove_loop elem 0 xs))"

lemma remove_scan_Some:
  "remove_scan elem i xs = Some j \<Longrightarrow>
     i \<le> j \<and> loose_eq elem (xs ! j) \<and> (\<forall>k. i \<le> k \<and> k < j \<longrightarrow> \<not> loose_eq elem (xs ! k))"
proof (induction elem i xs arbitrary: j rule: remove_scan.induct)
  case (2 elem x xs)
  then show ?case by (auto split: if_splits simp: nth_Cons split: nat.splits)
next
  case (3 elem i x xs)
  then show ?case by (fastforce simp: nth_Cons split: nat.splits)
qed simp

lemma remove_scan_None:
  "remove_scan elem i xs = None \<Longrightarrow> \<forall>x \<in> set (drop i xs). \<not> loose_eq elem x"
  by (induction elem i xs rule: remove_scan.induct) (auto split: if_splits)

lemma filter_splice1:
  "j < length xs \<Longrightarrow> \<not> P (xs ! j) \<Longrightarrow> filter P (splice1 j xs) = filter P xs"
  by (subst (2) id_take_nth_drop [of j xs]) (auto simp: splice1_def)

lemma remove_loop_filter:
  "\<forall>x \<in> set (take i xs). \<not> loose_eq elem x \<Longrightarrow>
     remove_loop elem i xs = filter (\<lambda>x. \<not> loose_eq elem x) xs"
proof (induction elem i xs rule: remove_loop.induct)
  case (1 elem i xs)
  show ?case
  proof (cases "remove_scan elem i xs")
    case None
    then have "\<forall>x \<in> set (take i xs @ drop i xs). \<not> loose_eq elem x"
      using 1(2) remove_scan_None by (auto simp del: append_take_drop_id)
    then show ?thesis using None by (simp add: remove_loop.simps [of elem i xs] filter_id_conv)
  next
    case (Some j)
    note j = remove_scan_less [OF Some] and s = remove_scan_Some [OF Some]
    have "\<not> loose_eq elem (xs ! k)" if "k < j" for k
    proof (cases "k < i")
      case True
      then have "take i xs ! k = xs ! k" and "k < length (take i xs)" using that j by auto
      then have "xs ! k \<in> set (take i xs)" by (metis nth_mem)
      with 1(2) show ?thesis by blast
    next
      case False
      with that s show ?thesis by auto
    qed
    then have "x \<in> set (take j xs) \<Longrightarrow> \<not> loose_eq elem x" for x
      by (auto simp: in_set_conv_nth)
    then have "remove_loop elem j (splice1 j xs) = filter (\<lambda>x. \<not> loose_eq elem x) (splice1 j xs)"
      using j by (intro 1(1) [OF Some]) (simp add: splice1_def)
    then show ?thesis
      using s j by (simp add: remove_loop.simps [of elem i xs] Some filter_splice1)
  qed
qed

text \<open>
  The second argument of \<open>system_array_get\<close> and \<open>system_array_contains\<close> is a value or, when its
  \<open>typeof\<close> is \<open>function\<close>, a predicate.
\<close>

datatype matcher = ByValue jsval | ByFun "jsval \<Rightarrow> bool"

fun matches :: "matcher \<Rightarrow> jsval \<Rightarrow> bool" where
  "matches (ByValue v) x = loose_eq v x"
| "matches (ByFun p) x = p x"

fun system_array_get :: "jsval list \<Rightarrow> matcher \<Rightarrow> jsval" where
  "system_array_get [] m = Null"
| "system_array_get (x # xs) m = (if matches m x then x else system_array_get xs m)"

definition system_array_contains :: "jsval list \<Rightarrow> matcher \<Rightarrow> bool" where
  "system_array_contains arr m \<longleftrightarrow> \<not> loose_eq (system_array_get arr m) Null"

text \<open>
  \<open>system_array_foreach\<close> calls the function on each element and its index until one call returns
  a falsy value; the calls may change a state \<open>'s\<close>.
\<close>

fun foreach_from :: "jsval list \<Rightarrow> nat \<Rightarrow> (jsval \<Rightarrow> nat \<Rightarrow> 's \<Rightarrow> bool \<times> 's) \<Rightarrow> 's \<Rightarrow> bool \<times> 's" where
  "foreach_from [] i pfn s = (True, s)"
| "foreach_from (x # xs) i pfn s =
     (let (ok, s') = pfn x i s in if \<not> ok then (False, s') else foreach_from xs (Suc i) pfn s')"

definition system_array_foreach ::
    "jsval list \<Rightarrow> (jsval \<Rightarrow> nat \<Rightarrow> 's \<Rightarrow> bool \<times> 's) option \<Rightarrow> 's \<Rightarrow> bool \<times> 's" where
  "system_array_foreach arr pfn s =
     (case pfn of None \<Rightarrow> (False, s) | Some f \<Rightarrow> foreach_from arr 0 f s)"

lemma system_array_get_find:
  "system_array_get arr m = (case find (matches m) arr of None \<Rightarrow> Null | Some x \<Rightarrow> x)"
  by (induction arr) auto

lemma loose_eq_Null: "loose_eq v Null \<longleftrightarrow> nullish v"
  using loose_eq_nullish [of Null v] by (simp add: loose_eq_sym nullish_def)

lemma system_array_contains_iff:
  "system_array_contains arr m \<longleftrightarrow> (\<exists>x. find (matches m) arr = Some x \<and> \<not> nullish x)"
  by (auto simp: system_array_contains_def system_array_get_find loose_eq_Null nullish_def
      split: option.splits)

lemma system_array_contains_proper:
  assumes "\<forall>x \<in> set arr. \<not> nullish x"
  shows "system_array_contains arr m \<longleftrightarrow> (\<exists>x \<in> set arr. matches m x)"
proof -
  have "(\<exists>x. find (matches m) arr = Some x) \<longleftrightarrow> (\<exists>x \<in> set arr. matches m x)"
    using find_None_iff [of "matches m" arr] by auto
  moreover have "find (matches m) arr = Some x \<Longrightarrow> \<not> nullish x" for x
    using assms find_SomeD by fastforce
  ultimately show ?thesis by (auto simp: system_array_contains_iff)
qed

lemma foreach_true_iff:
  "fst (foreach_from xs i (\<lambda>x i s. (p x i, f x i s)) s) \<longleftrightarrow> (\<forall>k < length xs. p (xs ! k) (i + k))"
proof (induction xs arbitrary: i s)
  case Nil
  then show ?case by simp
next
  case (Cons x xs)
  have "(\<forall>k < length (x # xs). p ((x # xs) ! k) (i + k)) \<longleftrightarrow>
      p x i \<and> (\<forall>k < length xs. p (xs ! k) (Suc i + k))"
    by (auto simp: less_Suc_eq_0_disj)
  then show ?case using Cons by simp
qed

section \<open>Comparison for sorting\<close>

fun str_less :: "string \<Rightarrow> string \<Rightarrow> bool" where
  "str_less _ [] = False"
| "str_less [] (_ # _) = True"
| "str_less (c # s) (d # t) =
     ((of_char c :: nat) < of_char d \<or> c = d \<and> str_less s t)"

text \<open>The operator \<open><\<close>: by code units on two strings, numerically otherwise.\<close>

definition js_less :: "jsval \<Rightarrow> jsval \<Rightarrow> bool" where
  "js_less a b =
     (case (to_prim a, to_prim b) of
        (Str s, Str t) \<Rightarrow> str_less s t
      | (x, y) \<Rightarrow> num_less (to_num x) (to_num y))"

definition array_sort_asc :: "jsval \<Rightarrow> jsval \<Rightarrow> int" where
  "array_sort_asc a b = (if js_less b a then 1 else if js_less a b then - 1 else 0)"

definition array_sort_desc :: "jsval \<Rightarrow> jsval \<Rightarrow> int" where
  "array_sort_desc a b = - 1 * array_sort_asc a b"

definition system_array_sort_asc :: "jsval \<Rightarrow> jsval \<Rightarrow> int" where
  "system_array_sort_asc a b = array_sort_asc a b"

definition system_array_sort_desc :: "jsval \<Rightarrow> jsval \<Rightarrow> int" where
  "system_array_sort_desc a b = - 1 * array_sort_asc a b"

lemma str_less_asym: "str_less s t \<Longrightarrow> \<not> str_less t s"
  by (induction s t rule: str_less.induct) auto

lemma str_less_trans: "str_less s t \<Longrightarrow> str_less t u \<Longrightarrow> str_less s u"
proof (induction s t arbitrary: u rule: str_less.induct)
  case (3 c s d t)
  then show ?case by (cases u) auto
next
  case (2 d t)
  then show ?case by (cases u) auto
qed simp

lemma str_less_total: "str_less s t \<or> s = t \<or> str_less t s"
proof (induction s t rule: str_less.induct)
  case (1 s)
  then show ?case by (cases s) auto
next
  case (3 c s d t)
  have "(of_char c :: nat) = of_char d \<Longrightarrow> c = d" by simp
  with 3 show ?case by (auto simp: neq_iff)
qed simp

lemma num_less_asym: "num_less a b \<Longrightarrow> \<not> num_less b a"
  by (cases a; cases b) auto

lemma js_less_asym: "js_less a b \<Longrightarrow> \<not> js_less b a"
  by (auto simp: js_less_def num_less_asym str_less_asym split: jsval.splits
      dest: num_less_asym str_less_asym)

lemma sort_asc_swap: "array_sort_asc b a = - array_sort_asc a b"
  using js_less_asym [of a b] by (auto simp: array_sort_asc_def)

lemma concat_replicate_single: "concat (replicate k [c]) = replicate k c"
  by (induction k) auto

lemma str_less_irrefl: "\<not> str_less s s"
  using str_less_asym by blast

lemma sort_asc_Str: "array_sort_asc (Str s) (Str t) = (if str_less t s then 1 else if str_less s t then - 1 else 0)"
  by (simp add: array_sort_asc_def js_less_def)

section \<open>Properties\<close>

text \<open>
  Removing an element from an array, as the console does with alerts and stored logs: every
  element loosely equal to it is gone, the others stay in their order, although the code walks
  the array by index while it shrinks. A missing array is returned as it is.
\<close>

theorem array_remove_filters:
  "system_array_remove (Some xs) elem = Some (filter (\<lambda>x. \<not> loose_eq elem x) xs) \<and>
   system_array_remove None elem = None"
  by (simp add: system_array_remove_def remove_loop_filter)

text \<open>
  C38. Padding a value with one character returns the text with exactly the missing characters in
  front; with the empty prefix it returns precisely when the text is long enough already, and
  otherwise recurses for ever.
\<close>

theorem padding_value:
  "padding v n [c] = Some (replicate (nat (n - int (length (to_str v)))) c @ to_str v) \<and>
   (padding v n [] = None \<longleftrightarrow> int (length (to_str v)) < n)"
proof
  obtain k where k: "padding v n [c] = Some (concat (replicate k [c]) @ to_str v)"
    "0 < k \<longrightarrow> int (length (concat (replicate (k - 1) [c]) @ to_str v)) < n"
    "n \<le> int (length (concat (replicate k [c]) @ to_str v))"
    using padding_returns [of "[c]" v n] by blast
  then have "k = nat (n - int (length (to_str v)))"
    by (cases "0 < k") (auto simp: concat_replicate_single)
  with k(1) show "padding v n [c] = Some (replicate (nat (n - int (length (to_str v)))) c @ to_str v)"
    by (simp add: concat_replicate_single)
  show "padding v n [] = None \<longleftrightarrow> int (length (to_str v)) < n"
    using padding_empty_prefix [of v n] padding_done [of n v "[]"]
    by (cases "int (length (to_str v)) < n") auto
qed

text \<open>
  On an array without \<open>undefined\<close> and \<open>null\<close>, the membership test is true exactly when some
  element matches, and the lookup then returns the first such element.
\<close>

theorem array_contains_first_match:
  assumes "\<forall>x \<in> set arr. \<not> nullish x"
  shows "(system_array_contains arr m \<longleftrightarrow> (\<exists>x \<in> set arr. matches m x)) \<and>
    (system_array_contains arr m \<longrightarrow>
      (\<exists>us x vs. arr = us @ x # vs \<and> (\<forall>u \<in> set us. \<not> matches m u) \<and> matches m x \<and>
         system_array_get arr m = x))"
proof
  show e: "system_array_contains arr m \<longleftrightarrow> (\<exists>x \<in> set arr. matches m x)"
    by (rule system_array_contains_proper [OF assms])
  show "system_array_contains arr m \<longrightarrow>
      (\<exists>us x vs. arr = us @ x # vs \<and> (\<forall>u \<in> set us. \<not> matches m u) \<and> matches m x \<and>
         system_array_get arr m = x)"
  proof
    assume "system_array_contains arr m"
    then obtain us x vs where s: "arr = us @ x # vs" "matches m x" "\<forall>u \<in> set us. \<not> matches m u"
      using e split_list_first_propE by (metis (no_types, lifting))
    then have "system_array_get arr m = x"
      unfolding s(1) by (induction us arbitrary: arr) auto
    with s show "\<exists>us x vs. arr = us @ x # vs \<and> (\<forall>u \<in> set us. \<not> matches m u) \<and> matches m x \<and>
        system_array_get arr m = x" by blast
  qed
qed

theorem array_contains_first_match_witness:
  "system_array_contains [Str ''ocean'', Str ''sky''] (ByValue (Str ''sky'')) \<and>
   system_array_get [Str ''ocean'', Str ''sky''] (ByValue (Str ''sky'')) = Str ''sky''"
  using array_contains_first_match [of "[Str ''ocean'', Str ''sky'']" "ByValue (Str ''sky'')"]
  by (auto simp: nullish_def append_eq_Cons_conv)

lemma sort_asc_Num: "array_sort_asc (Num m) (Num n) = (if num_less n m then 1 else if num_less m n then - 1 else 0)"
  by (simp add: array_sort_asc_def js_less_def)

lemma str_less_lexord: "str_less s t \<longleftrightarrow> (s, t) \<in> lexord {(c, d). (of_char c :: nat) < of_char d}"
  by (induction s t rule: str_less.induct) auto

text \<open>
  C40. The comparators handed to \<open>sort\<close> order values ascending and, the other two, descending: the result is \<open>-1\<close>, \<open>0\<close> or \<open>1\<close> and changes its sign
  when the values change places; of two texts the one that is first in the lexicographic order of code units comes first
  in the ascending order, of two numbers the smaller one; only equal texts and equal numbers are equal, except that
  \<open>NaN\<close> is equal to every number. The descending comparators are the ascending ones with the values exchanged.
\<close>

theorem sort_comparators_order:
  "array_sort_asc a b \<in> {- 1, 0, 1} \<and> array_sort_asc b a = - array_sort_asc a b \<and>
   (array_sort_asc (Str s) (Str t) = - 1 \<longleftrightarrow> (s, t) \<in> lexord {(c, d). (of_char c :: nat) < of_char d}) \<and>
   (array_sort_asc (Str s) (Str t) = 0 \<longleftrightarrow> s = t) \<and>
   (array_sort_asc (Num (Fin x)) (Num (Fin y)) = - 1 \<longleftrightarrow> x < y) \<and>
   (array_sort_asc (Num (Fin x)) (Num (Fin y)) = 0 \<longleftrightarrow> x = y) \<and>
   array_sort_asc (Num NaN) (Num n) = 0 \<and>
   system_array_sort_asc a b = array_sort_asc a b \<and>
   array_sort_desc a b = array_sort_asc b a \<and> system_array_sort_desc a b = array_sort_asc b a"
proof (intro conjI)
  show "array_sort_asc b a = - array_sort_asc a b" by (rule sort_asc_swap)
  show "array_sort_asc (Str s) (Str t) = - 1 \<longleftrightarrow> (s, t) \<in> lexord {(c, d). (of_char c :: nat) < of_char d}"
    using str_less_asym [of s t] unfolding str_less_lexord [symmetric] by (auto simp: sort_asc_Str)
  show "array_sort_asc (Str s) (Str t) = 0 \<longleftrightarrow> s = t"
    using str_less_total [of s t] by (auto simp: sort_asc_Str str_less_irrefl)
  show "array_sort_desc a b = array_sort_asc b a" "system_array_sort_desc a b = array_sort_asc b a"
    by (simp_all add: array_sort_desc_def system_array_sort_desc_def sort_asc_swap [of b a])
  show "array_sort_asc (Num (Fin x)) (Num (Fin y)) = - 1 \<longleftrightarrow> x < y" "array_sort_asc (Num (Fin x)) (Num (Fin y)) = 0 \<longleftrightarrow> x = y"
    by (auto simp: sort_asc_Num)
  show "array_sort_asc (Num NaN) (Num n) = 0" by (cases n) (simp_all add: sort_asc_Num)
qed (simp_all add: array_sort_asc_def system_array_sort_asc_def)

theorem sort_comparators_order_witness:
  "array_sort_asc (Str ''a'') (Str ''c'') = - 1 \<and> array_sort_asc (Num (Fin 1)) (Num (Fin 2)) = - 1"
proof -
  have "(''a'', ''c'') \<in> lexord {(c, d). (of_char c :: nat) < of_char d}" by simp
  then show ?thesis using sort_comparators_order [of Undef Undef "''a''" "''c''" 1 2 NaN] by (simp del: lexord_cons_cons)
qed

end
