(* ===== verification/StringUtil.thy ===== *)
theory StringUtil
  imports ArrayUtil
begin

text \<open>
  \<open>system_string_startswith\<close>, \<open>system_string_endswith\<close> and \<open>system_string_trim\<close> of
  \<open>winlin.utility.js\<close> (the console's copy). The result of the two tests is only ever used as a
  condition, so the model returns its truth value. The flag is a string or an array of flags;
  any other flag has no \<open>length\<close> and never matches.
\<close>

fun system_string_startswith :: "string \<Rightarrow> jsval \<Rightarrow> bool" where
  "system_string_startswith str (Arr flags) =
     (list_ex (system_string_startswith str) flags \<or>
      str \<noteq> [] \<and> length flags \<le> length str \<and> index_of str (to_str (Arr flags)) = 0)"
| "system_string_startswith str (Str flag) =
     (str \<noteq> [] \<and> flag \<noteq> [] \<and> length flag \<le> length str \<and> index_of str flag = 0)"
| "system_string_startswith str _ = False"

fun system_string_endswith :: "string \<Rightarrow> jsval \<Rightarrow> bool" where
  "system_string_endswith str (Arr flags) =
     (list_ex (system_string_endswith str) flags \<or>
      str \<noteq> [] \<and> length flags \<le> length str \<and>
      index_of str (to_str (Arr flags)) = int (length str) - int (length flags))"
| "system_string_endswith str (Str flag) =
     (str \<noteq> [] \<and> flag \<noteq> [] \<and> length flag \<le> length str \<and>
      index_of str flag = int (length str) - int (length flag))"
| "system_string_endswith str _ = False"

text \<open>The two \<open>while\<close> loops of \<open>system_string_trim\<close>; each round drops one flag.\<close>

function trim_front :: "string \<Rightarrow> string \<Rightarrow> string" where
  "trim_front str flag =
     (if system_string_startswith str (Str flag)
      then trim_front (slice_from str (int (length flag))) flag else str)"
  by pat_completeness auto
termination
  by (relation "measure (\<lambda>(str, flag). length str)") (auto simp: slice_from_nat)

function trim_back :: "string \<Rightarrow> string \<Rightarrow> string" where
  "trim_back str flag =
     (if system_string_endswith str (Str flag)
      then trim_back (slice str 0 (int (length str) - int (length flag))) flag else str)"
  by pat_completeness auto
termination
  by (relation "measure (\<lambda>(str, flag). length str)") (auto simp: slice_0_diff)

declare trim_front.simps [simp del] trim_back.simps [simp del]

definition system_string_trim :: "string \<Rightarrow> jsval \<Rightarrow> string" where
  "system_string_trim str flag =
     (case flag of
        Str f \<Rightarrow> if f = [] then str else trim_back (trim_front str f) f
      | _ \<Rightarrow> str)"

lemma startswith_prefix:
  "system_string_startswith str (Str flag) \<longleftrightarrow> flag \<noteq> [] \<and> prefix flag str"
  by (auto dest: prefix_length_le)

text \<open>
  The test for the end compares the first occurrence of the flag, so it holds only when the flag
  does not also occur earlier in the string.
\<close>

lemma suffix_find_sub: "suffix f s \<Longrightarrow> f \<noteq> [] \<Longrightarrow> \<exists>i. find_sub f s = Some i \<and> i + length f \<le> length s"
  using find_sub_None_iff [of f s] find_sub_le [of f s]
  by (cases "find_sub f s") (auto dest: suffix_imp_sublist)

lemma sublist_butlast_iff:
  assumes "f \<noteq> []"
  shows "sublist f (butlast s) \<longleftrightarrow> (\<exists>i. find_sub f s = Some i \<and> i + length f < length s)"
proof
  assume "sublist f (butlast s)"
  then obtain u v where uv: "butlast s = u @ f @ v" by (auto simp: sublist_def)
  then have s: "s \<noteq> []" using assms by (cases s) auto
  then obtain z where s: "s = u @ f @ v @ [z]" using uv by (metis append_assoc append_butlast_last_id)
  have p: "prefix f (drop (length u) s)" and l: "length u + length f < length s"
    by (simp_all add: s)
  obtain i where i: "find_sub f s = Some i"
    using p find_sub_None_iff [of f s]
    by (metis not_None_eq prefix_imp_sublist sublist_drop sublist_order.order_trans)
  then have "i \<le> length u" using p find_sub_SomeD [OF i] by (metis not_le)
  with l i show "\<exists>i. find_sub f s = Some i \<and> i + length f < length s" by auto
next
  assume "\<exists>i. find_sub f s = Some i \<and> i + length f < length s"
  then obtain i where i: "find_sub f s = Some i" and l: "i + length f < length s" by blast
  have "s = take i s @ f @ drop (i + length f) s" by (rule find_sub_split [OF i])
  then have "butlast s = take i s @ f @ butlast (drop (i + length f) s)"
    using l by (metis append.assoc butlast_append drop_eq_Nil not_le append_is_Nil_conv)
  then show "sublist f (butlast s)" by (metis sublist_appendI)
qed

lemma endswith_iff:
  "system_string_endswith str (Str flag) \<longleftrightarrow>
     flag \<noteq> [] \<and> suffix flag str \<and> \<not> sublist flag (butlast str)"
proof
  assume *: "system_string_endswith str (Str flag)"
  then have f: "flag \<noteq> []" and i: "find_sub flag str = Some (length str - length flag)"
    and l: "length flag \<le> length str"
    by (auto simp: index_of_def split: option.splits)
  have "suffix flag str" using find_sub_split [OF i] l by (metis suffixI append.assoc append_Nil2
      drop_all le_add_diff_inverse2 order_refl)
  moreover have "\<not> sublist flag (butlast str)" using sublist_butlast_iff [OF f] i l by auto
  ultimately show "flag \<noteq> [] \<and> suffix flag str \<and> \<not> sublist flag (butlast str)" using f by simp
next
  assume *: "flag \<noteq> [] \<and> suffix flag str \<and> \<not> sublist flag (butlast str)"
  then obtain i where i: "find_sub flag str = Some i" "i + length flag \<le> length str"
    using suffix_find_sub by blast
  then have "i + length flag = length str"
    using * sublist_butlast_iff [of flag str] by (metis le_neq_implies_less)
  then show "system_string_endswith str (Str flag)"
    using * i by (auto simp: index_of_def dest: suffix_length_le)
qed

lemma trim_front_decomp:
  "flag \<noteq> [] \<Longrightarrow> \<exists>m. str = concat (replicate m flag) @ trim_front str flag \<and>
     \<not> prefix flag (trim_front str flag)"
proof (induction str flag rule: trim_front.induct)
  case (1 str flag)
  show ?case
  proof (cases "prefix flag str")
    case True
    then obtain r where r: "str = flag @ r" by (auto simp: prefix_def)
    have st: "system_string_startswith str (Str flag)" using True 1(2) startswith_prefix by blast
    have sl: "slice_from str (int (length flag)) = r" by (simp add: slice_from_nat r)
    from 1(1) [OF st 1(2)] obtain m where
      "r = concat (replicate m flag) @ trim_front r flag" "\<not> prefix flag (trim_front r flag)"
      by (auto simp: sl)
    moreover have "trim_front str flag = trim_front r flag"
      using st sl by (simp add: trim_front.simps [of str flag])
    ultimately show ?thesis using r by (intro exI [of _ "Suc m"]) simp
  next
    case False
    then have "trim_front str flag = str"
      using startswith_prefix [of str flag] by (simp add: trim_front.simps [of str flag])
    with False show ?thesis by (intro exI [of _ 0]) simp
  qed
qed

lemma trim_back_decomp:
  "flag \<noteq> [] \<Longrightarrow> \<exists>m. str = trim_back str flag @ concat (replicate m flag) \<and>
     \<not> system_string_endswith (trim_back str flag) (Str flag)"
proof (induction str flag rule: trim_back.induct)
  case (1 str flag)
  show ?case
  proof (cases "system_string_endswith str (Str flag)")
    case True
    then obtain r where r: "str = r @ flag" using endswith_iff by (auto simp: suffix_def)
    have sl: "slice str 0 (int (length str) - int (length flag)) = r"
      using slice_0_diff [of "length flag" str] by (simp add: r)
    from 1(1) [OF True 1(2)] obtain m where
      m: "r = trim_back r flag @ concat (replicate m flag)"
      "\<not> system_string_endswith (trim_back r flag) (Str flag)"
      by (auto simp: sl)
    moreover have "trim_back str flag = trim_back r flag"
      using True sl by (simp add: trim_back.simps [of str flag])
    moreover have "concat (replicate m flag) @ flag = concat (replicate (Suc m) flag)"
      by (induction m) auto
    ultimately show ?thesis using r by (intro exI [of _ "Suc m"]) (metis append.assoc)
  next
    case False
    then have "trim_back str flag = str" by (subst trim_back.simps) (simp only: if_False)
    with False show ?thesis by (intro exI [of _ 0]) simp
  qed
qed

section \<open>Properties\<close>

text \<open>
  The two tests of a string against a flag. The front test holds exactly when the flag is a
  non-empty prefix. The back test compares the first occurrence of the flag with the end, so it
  holds exactly when the flag is a suffix that does not also occur earlier: a true suffix
  that is repeated is missed.
\<close>

theorem starts_and_ends_with:
  "(system_string_startswith str (Str flag) \<longleftrightarrow> flag \<noteq> [] \<and> prefix flag str) \<and>
   (system_string_endswith str (Str flag) \<longleftrightarrow>
      flag \<noteq> [] \<and> suffix flag str \<and> \<not> sublist flag (butlast str))"
  using startswith_prefix endswith_iff by blast

text \<open>
  Trimming returns and removes only whole flags: some from the front and some from the back.
  What is left does not begin with the flag, and the code's test does not see it at the end.
\<close>

theorem trim_removes_flags:
  assumes "flag \<noteq> []"
  shows "\<exists>m n. str = concat (replicate m flag) @ system_string_trim str (Str flag) @ concat (replicate n flag) \<and>
    \<not> system_string_endswith (system_string_trim str (Str flag)) (Str flag) \<and>
    \<not> prefix flag (system_string_trim str (Str flag))"
proof -
  define f where "f = trim_front str flag"
  have t: "system_string_trim str (Str flag) = trim_back f flag"
    using assms by (simp add: system_string_trim_def f_def)
  obtain m where m: "str = concat (replicate m flag) @ f" "\<not> prefix flag f"
    using trim_front_decomp [OF assms, of str] unfolding f_def by blast
  obtain n where n: "f = trim_back f flag @ concat (replicate n flag)"
    "\<not> system_string_endswith (trim_back f flag) (Str flag)"
    using trim_back_decomp [OF assms, of f] by blast
  have "\<not> prefix flag (trim_back f flag)"
    using m(2) n(1) by (metis prefix_prefix)
  then show ?thesis using m(1) n by (metis t)
qed

theorem trim_removes_flags_witness:
  "\<exists>m n. ''//live/'' = concat (replicate m ''/'') @ system_string_trim ''//live/'' (Str ''/'') @ concat (replicate n ''/'')"
  using trim_removes_flags [of "''/''" "''//live/''"] by blast

end
