(* ===== verification/TimeUtil.thy ===== *)
theory TimeUtil
  imports ArrayUtil
begin

text \<open>
  The date helpers of \<open>winlin.utility.js\<close> and the console's uptime filter. A \<open>Date\<close> is its time
  value in milliseconds since 1970 UTC, \<open>None\<close> when invalid. The offset of local time is a
  property of the host: the parameter \<open>tz\<close> of the functions that use local fields. The result
  is an \<open>option\<close> because it is assembled with \<open>padding\<close>.
\<close>

section \<open>Dates\<close>

type_synonym date = "int option"

definition time_clip :: "jsnum \<Rightarrow> date" where
  "time_clip n =
     (case n of Fin x \<Rightarrow> if \<bar>x\<bar> \<le> 8640000000000000 then Some (trunc x) else None | _ \<Rightarrow> None)"

definition date_field :: "(int \<Rightarrow> int) \<Rightarrow> date \<Rightarrow> jsval" where
  "date_field f d = Num (case d of None \<Rightarrow> NaN | Some t \<Rightarrow> num_of (f t))"

definition hour_of :: "int \<Rightarrow> int" where
  "hour_of t = t div 3600000 mod 24"

definition minute_of :: "int \<Rightarrow> int" where
  "minute_of t = t div 60000 mod 60"

definition second_of :: "int \<Rightarrow> int" where
  "second_of t = t div 1000 mod 60"

text \<open>The proleptic Gregorian calendar of ECMAScript: days, years, months.\<close>

definition day_of :: "int \<Rightarrow> int" where
  "day_of t = t div 86400000"

definition day_from_year :: "int \<Rightarrow> int" where
  "day_from_year y =
     365 * (y - 1970) + (y - 1969) div 4 - (y - 1901) div 100 + (y - 1601) div 400"

definition leap :: "int \<Rightarrow> bool" where
  "leap y \<longleftrightarrow> y mod 4 = 0 \<and> (y mod 100 \<noteq> 0 \<or> y mod 400 = 0)"

definition year_from_day :: "int \<Rightarrow> int" where
  "year_from_day d =
     (let g = 1970 + 400 * d div 146097
      in if day_from_year (g + 1) \<le> d then g + 1 else if day_from_year g \<le> d then g else g - 1)"

definition year_of :: "int \<Rightarrow> int" where
  "year_of t = year_from_day (day_of t)"

definition month_lengths :: "int \<Rightarrow> int list" where
  "month_lengths y = [31, if leap y then 29 else 28, 31, 30, 31, 30, 31, 31, 30, 31, 30, 31]"

text \<open>Month (from 0) and day of the month (from 1) of the \<open>d\<close>-th day of a year.\<close>

fun split_month :: "int list \<Rightarrow> int \<Rightarrow> int \<times> int" where
  "split_month [] d = (0, d + 1)"
| "split_month [n] d = (0, d + 1)"
| "split_month (n # m # ns) d =
     (if d < n then (0, d + 1) else let (k, r) = split_month (m # ns) (d - n) in (k + 1, r))"

definition month_day :: "int \<Rightarrow> int \<times> int" where
  "month_day t = split_month (month_lengths (year_of t)) (day_of t - day_from_year (year_of t))"

definition month_of :: "int \<Rightarrow> int" where
  "month_of t = fst (month_day t)"

definition date_of :: "int \<Rightarrow> int" where
  "date_of t = snd (month_day t)"

section \<open>Formatting\<close>

text \<open>\<open>padding(a, 2, '0') + sep + padding(b, 2, '0')\<close> and so on, from the left.\<close>

definition pad2 :: "jsval \<Rightarrow> string option" where
  "pad2 v = padding v 2 ''0''"

definition set_seconds :: "jsval \<Rightarrow> date" where
  "set_seconds seconds = time_clip (num_mul (to_num seconds) (num_of 1000))"

definition join3 :: "string \<Rightarrow> string option \<Rightarrow> string option \<Rightarrow> string option \<Rightarrow> string option" where
  "join3 sep a b c =
     Option.bind a (\<lambda>x. Option.bind b (\<lambda>y. Option.bind c (\<lambda>z. Some (x @ sep @ y @ sep @ z))))"

definition relative_seconds_to_HHMMSS :: "jsval \<Rightarrow> string option" where
  "relative_seconds_to_HHMMSS seconds =
     (let date = set_seconds seconds
      in join3 '':'' (pad2 (date_field hour_of date)) (pad2 (date_field minute_of date))
           (pad2 (date_field second_of date)))"

definition local_time :: "(int \<Rightarrow> int) \<Rightarrow> date \<Rightarrow> date" where
  "local_time tz = map_option (\<lambda>t. t + tz t)"

definition absolute_seconds_to_HHMMSS :: "(int \<Rightarrow> int) \<Rightarrow> jsval \<Rightarrow> string option" where
  "absolute_seconds_to_HHMMSS tz seconds =
     (let date = local_time tz (set_seconds seconds)
      in join3 '':'' (pad2 (date_field hour_of date)) (pad2 (date_field minute_of date))
           (pad2 (date_field second_of date)))"

definition absolute_seconds_to_YYYYmmdd :: "(int \<Rightarrow> int) \<Rightarrow> jsval \<Rightarrow> string option" where
  "absolute_seconds_to_YYYYmmdd tz seconds =
     (let date = local_time tz (set_seconds seconds)
      in join3 ''-'' (Some (to_str (date_field year_of date)))
           (pad2 (date_field (\<lambda>t. month_of t + 1) date)) (pad2 (date_field date_of date)))"

text \<open>
  \<open>Date.parse\<close> of the ISO form \<open>YYYY-mm-dd\<close> is midnight UTC of that day; the text of any other
  form is parsed as the host likes, the parameter \<open>other\<close>.
\<close>

definition iso_date :: "string \<Rightarrow> (int \<times> int \<times> int) option" where
  "iso_date s =
     (let y = take 4 s; m = take 2 (drop 5 s); d = take 2 (drop 8 s)
      in if length s = 10 \<and> s ! 4 = CHR ''-'' \<and> s ! 7 = CHR ''-'' \<and>
            list_all is_digit (y @ m @ d)
         then Some (digits_val y, digits_val m, digits_val d) else None)"

definition valid_date :: "int \<Rightarrow> int \<Rightarrow> int \<Rightarrow> bool" where
  "valid_date y m d \<longleftrightarrow>
     1 \<le> m \<and> m \<le> 12 \<and> 1 \<le> d \<and> d \<le> month_lengths y ! nat (m - 1)"

definition make_day :: "int \<Rightarrow> int \<Rightarrow> int \<Rightarrow> int" where
  "make_day y m d = day_from_year y + sum_list (take (nat (m - 1)) (month_lengths y)) + d - 1"

definition date_parse :: "(string \<Rightarrow> date) \<Rightarrow> string \<Rightarrow> date" where
  "date_parse other s =
     (case iso_date s of
        Some (y, m, d) \<Rightarrow> if valid_date y m d then Some (make_day y m d * 86400000) else other s
      | None \<Rightarrow> other s)"

definition YYYYmmdd_parse :: "(string \<Rightarrow> date) \<Rightarrow> string \<Rightarrow> date" where
  "YYYYmmdd_parse other str = date_parse other str"

section \<open>The uptime filter\<close>

text \<open>
  \<open>sc_filter_time\<close> of \<open>srs.cn.js\<close> and \<open>srs.en.js\<close>: days, then the rest as a time. They differ in
  the label of the day.
\<close>

definition filter_time :: "string \<Rightarrow> jsnum \<Rightarrow> string option" where
  "filter_time label v =
     (let big = num_less (num_of (3600 * 24)) v;
          s = (if big then to_fixed (num_div (num_div v (num_of 3600)) (num_of 24)) 0 @ label else '''');
          v' = (if big then num_mod v (num_of (3600 * 24)) else v)
      in map_option (\<lambda>t. s @ t) (relative_seconds_to_HHMMSS (Num v')))"

definition sc_filter_time_cn :: "jsnum \<Rightarrow> string option" where
  "sc_filter_time_cn = filter_time (utf8 [0x5929] @ '' '')"

definition sc_filter_time_en :: "jsnum \<Rightarrow> string option" where
  "sc_filter_time_en = filter_time ''d ''"

section \<open>Facts\<close>

definition two_digits :: "int \<Rightarrow> string" where
  "two_digits k = [digit_char (k div 10), digit_char (k mod 10)]"

lemma digits_one: "n < 10 \<Longrightarrow> digits n = [digit_char n]"
  by (simp add: digits.simps [of n])

lemma digits_two: "10 \<le> n \<Longrightarrow> n < 100 \<Longrightarrow> digits n = [digit_char (n div 10), digit_char (n mod 10)]"
  by (simp add: digits.simps [of n] digits_one)

lemma to_str_small: "0 \<le> k \<Longrightarrow> k < 100 \<Longrightarrow> to_str (Num (num_of k)) = digits k"
  using num_to_str_int [of k] by simp

lemma pad2_two_digits:
  assumes "0 \<le> k" "k < 100"
  shows "pad2 (Num (num_of k)) = Some (two_digits k)"
proof (cases "k < 10")
  case True
  have s: "to_str (Num (num_of k)) = [digit_char k]" using assms True by (simp only: to_str_small digits_one)
  have "padding (Num (num_of k)) 2 ''0'' = padding (Str (''0'' @ [digit_char k])) 2 ''0''"
    using padding_step [of "Num (num_of k)" 2 "''0''"] unfolding s by simp
  also have "\<dots> = Some (''0'' @ [digit_char k])"
    by (subst padding_done) simp_all
  also have "''0'' @ [digit_char k] = two_digits k"
    using assms True by (simp add: two_digits_def digit_char_def)
  finally show ?thesis by (simp add: pad2_def)
next
  case False
  then have s: "to_str (Num (num_of k)) = two_digits k"
    using assms by (simp only: to_str_small digits_two two_digits_def not_less)
  show ?thesis unfolding pad2_def using padding_done [of 2 "Num (num_of k)" "''0''"]
    unfolding s by (simp add: two_digits_def)
qed

lemma trunc_of_int [simp]: "trunc (of_int n) = n"
  by (simp add: trunc_def)

lemma set_seconds_int:
  assumes "\<bar>n\<bar> \<le> 8640000000000"
  shows "set_seconds (Num (num_of n)) = Some (n * 1000)"
proof -
  have b: "\<bar>n * 1000\<bar> \<le> 2 ^ 53" using assms by simp
  have "num_mul (num_of n) (num_of 1000) = fl (of_int (n * 1000))" by simp
  also have "\<dots> = num_of (n * 1000)" by (rule fl_of_int [OF b])
  finally have e: "num_mul (num_of n) (num_of 1000) = num_of (n * 1000)" .
  have "(of_int \<bar>n * 1000\<bar> :: rat) \<le> of_int 8640000000000000"
    using assms by (simp only: of_int_le_iff)
  then have "\<bar>of_int (n * 1000) :: rat\<bar> \<le> 8640000000000000" by simp
  then show ?thesis unfolding set_seconds_def to_num.simps e time_clip_def jsnum.case trunc_of_int
    by (simp only: if_True)
qed

lemma relative_seconds_int:
  assumes "\<bar>n\<bar> \<le> 8640000000000"
  shows "relative_seconds_to_HHMMSS (Num (num_of n)) =
    Some (two_digits (n div 3600 mod 24) @ '':'' @ two_digits (n div 60 mod 60) @ '':'' @
          two_digits (n mod 60))"
proof -
  have h: "hour_of (n * 1000) = n div 3600 mod 24" and m: "minute_of (n * 1000) = n div 60 mod 60"
    and s: "second_of (n * 1000) = n mod 60"
    by (simp_all add: hour_of_def minute_of_def second_of_def)
  have "0 \<le> n div 3600 mod 24 \<and> n div 3600 mod 24 < 24" "0 \<le> n div 60 mod 60 \<and> n div 60 mod 60 < 60"
    "0 \<le> n mod 60 \<and> n mod 60 < 60" by simp_all
  then show ?thesis
    by (simp add: relative_seconds_to_HHMMSS_def set_seconds_int [OF assms] date_field_def
        join3_def h m s pad2_two_digits)
qed

lemma div_lower: "0 < k \<Longrightarrow> k * (x div k) \<le> (x::int)"
  using mult_div_mod_eq [of k x] pos_mod_sign [of k x] by linarith

lemma div_upper: "0 < k \<Longrightarrow> (x::int) < k * (x div k) + k"
  using mult_div_mod_eq [of k x] pos_mod_bound [of k x] by linarith

lemma div_step: "0 < k \<Longrightarrow> (x + 1) div k = x div k + (if (x + 1) mod k = 0 then 1 else (0::int))"
proof -
  assume k: "0 < k"
  define q r where "q = x div k" and "r = x mod k"
  have x: "x = k * q + r" and r: "0 \<le> r" "r < k" using k by (simp_all add: q_def r_def)
  show ?thesis
  proof (cases "r + 1 = k")
    case True
    then have e: "x + 1 = (q + 1) * k" using x by (simp add: algebra_simps)
    then show ?thesis using k by (simp add: q_def [symmetric])
  next
    case False
    have d: "(x + 1) div k = q" by (rule int_div_pos_eq [of _ k q "r + 1"]) (use x r False in auto)
    have m: "(x + 1) mod k = r + 1" by (rule int_mod_pos_eq [of _ k q "r + 1"]) (use x r False in auto)
    show ?thesis using d m r by (simp add: q_def)
  qed
qed

lemma day_from_year_step: "day_from_year (y + 1) = day_from_year y + (if leap y then 366 else 365)"
proof -
  define P Q R where "P = (y mod 4 = 0)" and "Q = (y mod 100 = 0)" and "R = (y mod 400 = 0)"
  define a b c where "a = (y - 1969) div 4" and "b = (y - 1901) div 100" and "c = (y - 1601) div 400"
  have m: "(y - 1969 + 1) mod 4 = y mod 4" "(y - 1901 + 1) mod 100 = y mod 100"
    "(y - 1601 + 1) mod 400 = y mod 400"
    using mod_mult_self1 [of y "- 492" 4] mod_mult_self1 [of y "- 19" 100]
      mod_mult_self1 [of y "- 4" 400] by simp_all
  have e: "y + 1 - 1969 = y - 1969 + 1" "y + 1 - 1901 = y - 1901 + 1" "y + 1 - 1601 = y - 1601 + 1"
    by simp_all
  have QP: "Q \<Longrightarrow> P" and RQ: "R \<Longrightarrow> Q"
    using mod_mod_cancel [of 4 100 y] mod_mod_cancel [of 100 400 y] by (auto simp: P_def Q_def R_def)
  have "(y - 1969 + 1) div 4 = a + (if P then 1 else 0)"
    "(y - 1901 + 1) div 100 = b + (if Q then 1 else 0)"
    "(y - 1601 + 1) div 400 = c + (if R then 1 else 0)"
    using div_step [of 4 "y - 1969", OF zero_less_numeral]
      div_step [of 100 "y - 1901", OF zero_less_numeral]
      div_step [of 400 "y - 1601", OF zero_less_numeral]
    by (simp_all only: m a_def b_def c_def P_def Q_def R_def)
  then have "day_from_year (y + 1) = 365 * (y + 1 - 1970) + (a + (if P then 1 else 0)) -
      (b + (if Q then 1 else 0)) + (c + (if R then 1 else 0))"
    unfolding day_from_year_def e by (simp only:)
  moreover have "day_from_year y = 365 * (y - 1970) + a - b + c"
    by (simp only: day_from_year_def a_def b_def c_def)
  moreover have "leap y \<longleftrightarrow> P \<and> (\<not> Q \<or> R)" by (simp only: leap_def P_def Q_def R_def)
  ultimately show ?thesis using QP RQ by (cases P; cases Q; cases R; simp)
qed

text \<open>The calendar's linear bounds, over variables that stand for the quotients.\<close>

lemma year_from_day_bounds:
  "day_from_year (year_from_day d) \<le> d \<and> d < day_from_year (year_from_day d + 1)"
proof -
  define q where "q = 400 * d div 146097"
  have q: "146097 * q \<le> 400 * d" "400 * d < 146097 * q + 146097"
    unfolding q_def by (rule div_lower div_upper; simp)+
  have lo: "day_from_year (1970 + q - 1) \<le> d"
  proof -
    define a b c where "a = q div 4" and "b = (q + 68) div 100" and "c = (q + 368) div 400"
    have "4 * a \<le> q" "q + 68 < 100 * b + 100" "400 * c \<le> q + 368"
      unfolding a_def b_def c_def by (rule div_lower div_upper; simp)+
    then have "400 * a \<le> 100 * q" "4 * q < 400 * b + 128" "400 * c \<le> q + 368" by linarith+
    then have "400 * (365 * (q - 1) + a - b + c) \<le> 400 * d"
      using q unfolding distrib_left right_diff_distrib by linarith
    then have "365 * (q - 1) + a - b + c \<le> d" by simp
    moreover have "day_from_year (1970 + q - 1) = 365 * (q - 1) + a - b + c"
      by (simp add: day_from_year_def a_def b_def c_def add.commute)
    ultimately show ?thesis by simp
  qed
  have hi: "d < day_from_year (1970 + q + 2)"
  proof -
    define a b c where "a = (q + 3) div 4" and "b = (q + 71) div 100" and "c = (q + 371) div 400"
    have "q + 3 < 4 * a + 4" "100 * b \<le> q + 71" "q + 371 < 400 * c + 400"
      unfolding a_def b_def c_def by (rule div_lower div_upper; simp)+
    then have "100 * q < 400 * a + 100" "400 * b \<le> 4 * q + 284" "q < 400 * c + 29" by linarith+
    then have "400 * d < 400 * (365 * (q + 2) + a - b + c)"
      using q unfolding distrib_left right_diff_distrib by linarith
    then have "d < 365 * (q + 2) + a - b + c" by simp
    moreover have "day_from_year (1970 + q + 2) = 365 * (q + 2) + a - b + c"
      by (simp add: day_from_year_def a_def b_def c_def add.commute)
    ultimately show ?thesis by simp
  qed
  have "1970 + q + 1 + 1 = 1970 + q + 2" "1970 + q - 1 + 1 = 1970 + q" by simp_all
  then show ?thesis
    using lo hi unfolding year_from_day_def Let_def q_def [symmetric] by (auto simp del: add_diff_eq)
qed

lemma day_from_year_mono: "x \<le> y \<Longrightarrow> day_from_year x \<le> day_from_year y"
proof (induction "nat (y - x)" arbitrary: y)
  case 0
  then show ?case by simp
next
  case (Suc n)
  then have "day_from_year x \<le> day_from_year (y - 1)" by simp
  then show ?case using day_from_year_step [of "y - 1"] by (auto split: if_splits)
qed

lemma year_from_day_unique:
  assumes "day_from_year y \<le> d" "d < day_from_year (y + 1)"
  shows "year_from_day d = y"
proof -
  note b = year_from_day_bounds [of d]
  show ?thesis
    using b assms day_from_year_mono [of "year_from_day d + 1" y]
      day_from_year_mono [of "y + 1" "year_from_day d"] by (cases "year_from_day d" y rule: linorder_cases) auto
qed

section \<open>Round trip of dates\<close>

lemma split_month_inverse:
  "k < length ns \<Longrightarrow> \<forall>n \<in> set ns. 0 < n \<Longrightarrow> 0 \<le> r \<Longrightarrow> r < ns ! k \<Longrightarrow>
     split_month ns (sum_list (take k ns) + r) = (int k, r + 1)"
proof (induction ns "sum_list (take k ns) + r" arbitrary: k rule: split_month.induct)
  case (3 n m ns)
  show ?case
  proof (cases k)
    case 0
    with 3 show ?thesis by simp
  next
    case (Suc j)
    have "\<forall>x \<in> set (m # ns). 0 < x" using 3 by simp
    then have "0 \<le> sum_list (take j (m # ns))"
      by (intro sum_list_nonneg) (blast dest: in_set_takeD less_imp_le)
    with Suc 3 have d: "\<not> sum_list (take k (n # m # ns)) + r < n" by simp
    have "split_month (m # ns) (sum_list (take k (n # m # ns)) + r - n) = (int j, r + 1)"
      using 3(1) [OF d, of j] 3(2-) Suc by simp
    with d Suc show ?thesis by simp
  qed
qed auto

lemma month_lengths_pos: "\<forall>n \<in> set (month_lengths y). 0 < n"
  by (simp add: month_lengths_def)

lemma length_month_lengths: "length (month_lengths y) = 12"
  by (simp add: month_lengths_def)

lemma sum_month_lengths: "sum_list (month_lengths y) = (if leap y then 366 else 365)"
  by (simp add: month_lengths_def)

lemma make_day_fields:
  assumes v: "valid_date y m d"
  shows "year_from_day (make_day y m d) = y"
    and "split_month (month_lengths y) (make_day y m d - day_from_year y) = (m - 1, d)"
    and "day_from_year y \<le> make_day y m d" and "make_day y m d < day_from_year (y + 1)"
proof -
  let ?k = "nat (m - 1)" and ?ns = "month_lengths y"
  have k: "?k < length ?ns" and r: "0 \<le> d - 1" "d - 1 < ?ns ! ?k"
    using v by (auto simp: valid_date_def length_month_lengths)
  have eq: "make_day y m d - day_from_year y = sum_list (take ?k ?ns) + (d - 1)"
    by (simp add: make_day_def)
  show sm: "split_month ?ns (make_day y m d - day_from_year y) = (m - 1, d)"
    unfolding eq using split_month_inverse [OF k month_lengths_pos r] v
    by (simp add: valid_date_def)
  have nonneg: "0 \<le> sum_list (take ?k ?ns)" "0 \<le> sum_list (drop (Suc ?k) ?ns)"
    using month_lengths_pos [of y]
    by (auto intro!: sum_list_nonneg dest!: in_set_takeD in_set_dropD less_imp_le)
  have "sum_list ?ns = sum_list (take ?k ?ns @ ?ns ! ?k # drop (Suc ?k) ?ns)"
    using id_take_nth_drop [OF k] by simp
  then have "sum_list (take ?k ?ns) + (d - 1) < (if leap y then 366 else 365)"
    using nonneg r by (simp add: sum_month_lengths)
  then show lo: "day_from_year y \<le> make_day y m d" and hi: "make_day y m d < day_from_year (y + 1)"
    using eq nonneg r day_from_year_step [of y] by linarith+
  show "year_from_day (make_day y m d) = y" by (rule year_from_day_unique [OF lo hi])
qed

lemma digits_four:
  assumes "1000 \<le> y" "y \<le> 9999"
  shows "length (digits y) = 4"
proof -
  have "length (digits y) = Suc (length (digits (y div 10)))" using assms by (simp add: digits.simps [of y])
  also have "length (digits (y div 10)) = Suc (length (digits (y div 100)))"
    using assms by (simp add: digits.simps [of "y div 10"] zdiv_zmult2_eq [symmetric])
  also have "length (digits (y div 100)) = 2"
    using assms by (simp add: digits_two)
  finally show ?thesis by simp
qed

lemma two_digits_val: "0 \<le> k \<Longrightarrow> k < 100 \<Longrightarrow> digits_val (two_digits k) = k \<and> list_all is_digit (two_digits k)"
proof -
  assume "0 \<le> k" "k < 100"
  then have "0 \<le> k div 10" "k div 10 < 10" by auto
  then show ?thesis by (simp add: two_digits_def digits_val_def digit_char_cases)
qed

definition date_text :: "int \<Rightarrow> int \<Rightarrow> int \<Rightarrow> string" where
  "date_text y m d = digits y @ ''-'' @ two_digits m @ ''-'' @ two_digits d"

lemma valid_date_small: "valid_date y m d \<Longrightarrow> 0 \<le> m \<and> m < 100 \<and> 0 \<le> d \<and> d < 100"
proof -
  assume v: "valid_date y m d"
  have "nat (m - 1) < length (month_lengths y)"
    using v by (auto simp: valid_date_def length_month_lengths)
  then have "month_lengths y ! nat (m - 1) \<in> set (month_lengths y)" by (rule nth_mem)
  then have "month_lengths y ! nat (m - 1) \<le> 31" by (auto simp: month_lengths_def split: if_splits)
  with v show ?thesis by (auto simp: valid_date_def)
qed

lemma iso_date_text:
  assumes "1000 \<le> y" "y \<le> 9999" "0 \<le> m \<and> m < 100 \<and> 0 \<le> d \<and> d < 100"
  shows "iso_date (date_text y m d) = Some (y, m, d)"
proof -
  have l: "length (digits y) = 4" using assms by (simp add: digits_four)
  obtain a b c e where dy: "digits y = [a, b, c, e]"
    using l by (auto simp: length_Suc_conv numeral_eq_Suc)
  have "list_all is_digit (digits y)" and "digits_val (digits y) = y"
    using assms by (simp_all add: digits_all_digit digits_val_digits)
  moreover have "two_digits k = [digit_char (k div 10), digit_char (k mod 10)]" for k
    by (simp add: two_digits_def)
  ultimately show ?thesis
    using two_digits_val [of m] two_digits_val [of d] assms
    unfolding iso_date_def date_text_def Let_def dy by (simp add: numeral_eq_Suc)
qed

text \<open>The local date of a moment: the day on which the moment falls when the offset of the host is added.\<close>

lemma absolute_date:
  assumes y: "1000 \<le> y" "y \<le> 9999" and v: "valid_date y m d" and n: "\<bar>n\<bar> \<le> 8640000000000"
    and day: "(n * 1000 + tz (n * 1000)) div 86400000 = make_day y m d"
  shows "absolute_seconds_to_YYYYmmdd tz (Num (num_of n)) = Some (date_text y m d)"
proof -
  note f = make_day_fields [OF v] and s = valid_date_small [OF v]
  let ?t = "n * 1000 + tz (n * 1000)"
  have fs: "year_of ?t = y" "month_of ?t = m - 1" "date_of ?t = d"
    using f day by (simp_all add: year_of_def month_of_def date_of_def month_day_def day_of_def)
  have ys: "to_str (Num (num_of y)) = digits y" using y num_to_str_int [of y] by simp
  have m: "of_int (m - 1) + 1 = (of_int m :: rat)" by simp
  show ?thesis
    unfolding absolute_seconds_to_YYYYmmdd_def set_seconds_int [OF n] Let_def local_time_def date_field_def
    using s by (simp add: fs ys join3_def pad2_two_digits date_text_def m del: of_int_diff to_str.simps)
qed

lemma make_day_small:
  assumes "1000 \<le> y" "y \<le> 9999" and v: "valid_date y m d"
  shows "\<bar>make_day y m d * 86400\<bar> \<le> 8640000000000"
proof -
  note f = make_day_fields [OF v]
  have "day_from_year 1000 \<le> day_from_year y" "day_from_year (y + 1) \<le> day_from_year 10000"
    using assms by (auto intro: day_from_year_mono)
  moreover have "day_from_year 1000 = - 354285" "day_from_year 10000 = 2932897"
    by (simp_all add: day_from_year_def)
  ultimately have "- 354285 \<le> make_day y m d \<and> make_day y m d \<le> 2932897" using f(3,4) by linarith
  then show ?thesis by linarith
qed

lemma same_day: "0 \<le> k \<Longrightarrow> k < 86400000 \<Longrightarrow> (D * 86400000 + k) div 86400000 = (D :: int)"
  by (simp add: div_pos_pos_trivial)

lemma day_before: "- 86400000 \<le> k \<Longrightarrow> k < 0 \<Longrightarrow> (D * 86400000 + k) div 86400000 = (D :: int) - 1"
  using same_day [of "k + 86400000" "D - 1"] by (simp add: algebra_simps)

lemma mod_day_div: "0 < b \<Longrightarrow> 0 < c \<Longrightarrow> (k::int) mod (b * c) div b = k div b mod c"
  by (simp add: zmod_zmult2_eq)

lemma day_fields:
  "(k::int) mod 86400 div 3600 mod 24 = k div 3600 mod 24"
  "k mod 86400 div 60 mod 60 = k div 60 mod 60"
  "k mod 86400 mod 60 = k mod 60"
proof -
  have c: "86400 = (3600 * 24 :: int)" "86400 = (60 * 1440 :: int)" "(60::int) dvd 1440" "(60::int) dvd 86400"
    by simp_all
  show "k mod 86400 div 3600 mod 24 = k div 3600 mod 24"
    unfolding c(1) using mod_day_div [of 3600 24 k] by (simp only: zero_less_numeral mod_mod_trivial)
  show "k mod 86400 div 60 mod 60 = k div 60 mod 60"
    unfolding c(2) using mod_day_div [of 60 1440 k] c(3)
    by (simp only: zero_less_numeral mod_mod_cancel)
  show "k mod 86400 mod 60 = k mod 60" using c(4) by (simp only: mod_mod_cancel)
qed

lemma num_mod_int: "86400 < k \<Longrightarrow> num_mod (num_of k) (num_of 86400) = num_of (k mod 86400)"
proof -
  assume k: "86400 < k"
  have "trunc (of_int k / 86400) = k div 86400"
    using k floor_divide_of_int_eq [of k 86400, where 'a = rat] by (simp add: trunc_def)
  moreover have "(of_int k :: rat) - 86400 * of_int (k div 86400) = of_int (k - 86400 * (k div 86400))"
    by simp
  moreover have "k - 86400 * (k div 86400) = k mod 86400" by (rule minus_mult_div_eq_mod)
  ultimately show ?thesis by simp
qed

lemma day_label_cong:
  "num_less (num_of 86400) (num_of k) \<longleftrightarrow> 86400 < k"
  using of_int_less_iff [of 86400 k, where 'a = rat] by simp

lemma filter_time_int:
  assumes k: "\<bar>k\<bar> \<le> 8640000000000"
  shows "filter_time label (num_of k) =
    Some ((if k \<le> 86400 then [] else to_fixed (num_div (num_div (num_of k) (num_of 3600)) (num_of 24)) 0 @ label) @
          two_digits (k div 3600 mod 24) @ '':'' @ two_digits (k div 60 mod 60) @ '':'' @ two_digits (k mod 60))"
proof -
  define days where "days = to_fixed (num_div (num_div (num_of k) (num_of 3600)) (num_of 24)) 0 @ label"
  have f: "filter_time label (num_of k) = map_option ((@) (if 86400 < k then days else []))
      (relative_seconds_to_HHMMSS (Num (if 86400 < k then num_mod (num_of k) (num_of 86400) else num_of k)))"
  proof -
    have c: "(3600 * 24 :: int) = 86400" by simp
    show ?thesis unfolding filter_time_def Let_def c day_label_cong days_def [symmetric] by (rule refl)
  qed
  show ?thesis
  proof (cases "86400 < k")
    case True
    have b: "\<bar>k mod 86400\<bar> \<le> 8640000000000"
      using pos_mod_bound [of 86400 k] pos_mod_sign [of 86400 k] by linarith
    have e: "k mod 86400 div 3600 mod 24 = k div 3600 mod 24" "k mod 86400 div 60 mod 60 = k div 60 mod 60"
      "k mod 86400 mod 60 = k mod 60"
      by (rule day_fields)+
    show ?thesis
      unfolding f days_def [symmetric] num_mod_int [OF True] if_P [OF True] relative_seconds_int [OF b] e
      using True by simp
  next
    case False
    then show ?thesis
      unfolding f days_def [symmetric] if_not_P [OF False] relative_seconds_int [OF k] by simp
  qed
qed

lemma day_and_half: "to_fixed (num_div (num_div (num_of 129600) (num_of 3600)) (num_of 24)) 0 = ''2''"
proof -
  have "num_div (num_of 129600) (num_of 3600) = Fin 36" using fl_of_int [of 36] by simp
  moreover have "num_div (Fin 36) (num_of 24) = Fin (3 / 2)"
    using is_double_fl [of "3 / 2"] by (simp add: is_double_def num_eval)
  moreover have "to_fixed (Fin (3 / 2)) 0 = ''2''" by (simp add: num_eval)
  ultimately show ?thesis by (simp only:)
qed

section \<open>Properties\<close>

text \<open>
  The uptime text of a whole number of seconds, negative ones and more than a day included:
  two digits each of the hours, minutes and seconds of the time of day.
\<close>

theorem relative_seconds_text:
  assumes "\<bar>n\<bar> \<le> 8640000000000"
  shows "relative_seconds_to_HHMMSS (Num (num_of n)) =
    Some (two_digits (n div 3600 mod 24) @ '':'' @ two_digits (n div 60 mod 60) @ '':'' @
          two_digits (n mod 60))"
  by (rule relative_seconds_int [OF assms])

theorem relative_seconds_text_witness:
  "relative_seconds_to_HHMMSS (Num (num_of 3725)) = Some ''01:02:05''"
  using relative_seconds_text [of 3725] by (simp add: two_digits_def digit_char_def)

text \<open>
  C33. Dates of DVR files. Parsing the text of a valid date of a four-digit year gives midnight UTC of that day. Formatting a
  moment gives the date of the day it falls on in the local time of the host, whatever its offset \<open>tz\<close>. So
  a date that was parsed is written back unchanged at a host in UTC or east of it, and as the date of the day before
  at a host west of it.
\<close>

theorem date_round_trip:
  assumes "1000 \<le> y" "y \<le> 9999" and "valid_date y m d"
  shows "YYYYmmdd_parse other (date_text y m d) = Some (make_day y m d * 86400000) \<and>
    (\<bar>n\<bar> \<le> 8640000000000 \<and> (n * 1000 + tz (n * 1000)) div 86400000 = make_day y m d \<longrightarrow>
       absolute_seconds_to_YYYYmmdd tz (Num (num_of n)) = Some (date_text y m d)) \<and>
    (0 \<le> tz (make_day y m d * 86400000) \<and> tz (make_day y m d * 86400000) < 86400000 \<longrightarrow>
       absolute_seconds_to_YYYYmmdd tz (Num (num_of (make_day y m d * 86400))) = Some (date_text y m d)) \<and>
    (- 86400000 \<le> tz (make_day y m d * 86400000) \<and> tz (make_day y m d * 86400000) < 0 \<and>
     1000 \<le> y' \<and> y' \<le> 9999 \<and> valid_date y' m' d' \<and> make_day y' m' d' = make_day y m d - 1 \<longrightarrow>
       absolute_seconds_to_YYYYmmdd tz (Num (num_of (make_day y m d * 86400))) = Some (date_text y' m' d'))"
proof -
  let ?D = "make_day y m d"
  have "YYYYmmdd_parse other (date_text y m d) = Some (?D * 86400000)"
    using assms iso_date_text [OF assms(1,2) valid_date_small [OF assms(3)]] by (simp add: YYYYmmdd_parse_def date_parse_def)
  moreover have t: "?D * 86400 * 1000 = ?D * 86400000" by simp
  note n = make_day_small [OF assms]
  have "absolute_seconds_to_YYYYmmdd tz (Num (num_of (?D * 86400))) = Some (date_text y m d)"
    if "0 \<le> tz (?D * 86400000)" "tz (?D * 86400000) < 86400000"
    using same_day [OF that] by (intro absolute_date [OF assms n]) (simp only: t)
  moreover have "absolute_seconds_to_YYYYmmdd tz (Num (num_of (?D * 86400))) = Some (date_text y' m' d')"
    if w: "- 86400000 \<le> tz (?D * 86400000)" "tz (?D * 86400000) < 0"
      and b: "1000 \<le> y'" "y' \<le> 9999" "valid_date y' m' d'" "make_day y' m' d' = ?D - 1"
    using day_before [OF w] by (intro absolute_date [OF b(1-3) n]) (simp only: t b(4))
  ultimately show ?thesis using absolute_date [OF assms, of n tz] by blast
qed

text \<open>Eight hours east of UTC, and five hours west of it.\<close>

theorem date_round_trip_witness:
  "YYYYmmdd_parse (\<lambda>_. None) (date_text 2024 2 29) = Some (make_day 2024 2 29 * 86400000) \<and>
   absolute_seconds_to_YYYYmmdd (\<lambda>_. 28800000) (Num (num_of (make_day 2024 2 29 * 86400))) = Some ''2024-02-29'' \<and>
   absolute_seconds_to_YYYYmmdd (\<lambda>_. - 18000000) (Num (num_of (make_day 2024 3 1 * 86400))) = Some ''2024-02-29''"
proof -
  have v: "valid_date 2024 2 29" "valid_date 2024 3 1" by (simp_all add: valid_date_def month_lengths_def leap_def)
  have b: "make_day 2024 2 29 = make_day 2024 3 1 - 1"
    by (simp add: make_day_def month_lengths_def leap_def numeral_eq_Suc)
  have t: "date_text 2024 2 29 = ''2024-02-29''" by code_simp
  show ?thesis
    using date_round_trip [OF _ _ v(1), of "\<lambda>_. None" 0 "\<lambda>_. 28800000"]
      date_round_trip [OF _ _ v(2), of "\<lambda>_. None" 0 "\<lambda>_. - 18000000" 2024 2 29] v(1) b by (simp add: t)
qed

text \<open>
  The uptime filter shows no day up to and including one whole day, whose text is therefore
  that of zero; beyond it the time of day follows the number of days, which \<open>toFixed(0)\<close> rounds
  to the nearest: a day and a half reads as two days and twelve hours.
\<close>

theorem uptime_filter_days:
  assumes "\<bar>n\<bar> \<le> 8640000000000"
  shows "filter_time label (num_of n) =
    Some ((if n \<le> 86400 then [] else to_fixed (num_div (num_div (num_of n) (num_of 3600)) (num_of 24)) 0 @ label) @
          two_digits (n div 3600 mod 24) @ '':'' @ two_digits (n div 60 mod 60) @ '':'' @ two_digits (n mod 60)) \<and>
    filter_time label (num_of 129600) = Some (''2'' @ label @ ''12:00:00'')"
  using filter_time_int [OF assms, of label] filter_time_int [of 129600 label]
  unfolding day_and_half by (simp add: two_digits_def digit_char_def del: num_div.simps)

theorem uptime_filter_days_witness:
  "sc_filter_time_en (num_of 86400) = Some ''00:00:00'' \<and> sc_filter_time_en (num_of 129600) = Some ''2d 12:00:00''"
  using uptime_filter_days [of 86400 "''d ''"] unfolding sc_filter_time_en_def
  by (simp add: two_digits_def digit_char_def)

end
