(* ===== verification/UrlParse.thy ===== *)
theory UrlParse
  imports TimeUtil
begin

text \<open>
  The URL and query-string parsers of \<open>winlin.utility.js\<close>. The page's location is a record of
  the fields the code reads. The browser's own URL parser, which the code reaches by assigning
  \<open>href\<close> of a fresh link element, is the parameter \<open>anchor_of\<close>.
\<close>

section \<open>Locations\<close>

record location =
  loc_href :: string
  loc_protocol :: string
  loc_host :: string
  loc_hostname :: string
  loc_port :: string
  loc_pathname :: string
  loc_search :: string
  loc_hash :: string

record anchor =
  a_hostname :: string
  a_port :: string
  a_pathname :: string
  a_search :: string

section \<open>Query strings\<close>

text \<open>\<open>undefined\<close> for a missing element of an array of strings.\<close>

definition str_at :: "string list \<Rightarrow> nat \<Rightarrow> jsval" where
  "str_at xs i = (case arr_at xs i of None \<Rightarrow> Undef | Some s \<Rightarrow> Str s)"

text \<open>
  One round of the loop: \<open>obj[k] = v\<close>, then \<open>obj.user_query[k] = v\<close>. A key \<open>user_query\<close> makes
  the first assignment replace the table the second one writes to: writing to a property of a
  string is ignored, of \<open>undefined\<close> it throws.
\<close>

definition fill_elem :: "string \<Rightarrow> jsval props \<Rightarrow> jsval props result" where
  "fill_elem elem obj =
     (let query = split_on elem ''='';
          k = query ! 0;
          v = str_at query 1;
          obj = assign_prop obj k v
      in case field obj ''user_query'' of
           Undef \<Rightarrow> Inl TypeError
         | Null \<Rightarrow> Inl TypeError
         | Obj uq \<Rightarrow> Inr (assign_prop obj ''user_query'' (Obj (assign_prop uq k v)))
         | _ \<Rightarrow> Inr obj)"

fun fill_loop :: "string list \<Rightarrow> jsval props \<Rightarrow> jsval props result" where
  "fill_loop [] obj = Inr obj"
| "fill_loop (q # qs) obj = bind_result (fill_elem q obj) (fill_loop qs)"

definition fill_query :: "string \<Rightarrow> jsval props \<Rightarrow> jsval props result" where
  "fill_query query_string obj =
     (let obj = assign_prop obj ''user_query'' (Obj [])
      in if query_string = [] then Inr obj
         else let query_string = (if 0 \<le> index_of query_string ''?''
                                  then split_on query_string ''?'' ! 1 else query_string)
              in bind_result (fill_loop (split_on query_string ''&'') obj) (\<lambda>obj.
                   Inr (if truthy (field obj ''domain'')
                        then assign_prop obj ''vhost'' (field obj ''domain'') else obj)))"

definition location_obj :: "location \<Rightarrow> jsval props" where
  "location_obj loc =
     (let path = loc_pathname loc; i = last_index_of path ''/''
      in [(''host'', Str (loc_host loc)),
          (''hostname'', Str (loc_hostname loc)),
          (''http_port'', if loc_port loc = [] then Num (num_of 80) else Str (loc_port loc)),
          (''pathname'', Str path),
          (''dir'', Str (if i \<le> 0 then ''/'' else slice path 0 i)),
          (''filename'', Str (if i \<le> 0 then [] else slice_from path i)),
          (''user_query'', Obj [])])"

definition parse_query_string :: "location \<Rightarrow> jsval props result" where
  "parse_query_string loc =
     (let obj = location_obj loc
      in case arr_at (split_on (replace_first (loc_search loc) '' '' []) ''?'') 1 of
           Some q \<Rightarrow> fill_query q obj
         | None \<Rightarrow>
             (case arr_at (split_on (replace_first (loc_hash loc) '' '' []) ''#'') 1 of
                Some q \<Rightarrow> fill_query q obj
              | None \<Rightarrow> Inr obj))"

section \<open>Stream URLs\<close>

text \<open>The test \<open>/^(\d+)\.(\d+)\.(\d+)\.(\d+)$/\<close>.\<close>

definition is_ipv4 :: "string \<Rightarrow> bool" where
  "is_ipv4 s =
     (let ps = split_on s ''.'' in length ps = 4 \<and> list_all (\<lambda>p. p \<noteq> [] \<and> list_all is_digit p) ps)"

definition http_form :: "string \<Rightarrow> string" where
  "http_form url =
     replace_first (replace_first (replace_first url ''rtmp://'' ''http://'')
       ''webrtc://'' ''http://'') ''rtc://'' ''http://''"

text \<open>The application and the virtual host that the path and its \<open>...vhost...\<close> suffix name.\<close>

definition split_app :: "string \<Rightarrow> string \<Rightarrow> string \<times> string" where
  "split_app app vhost =
     (let app = replace_first app ''...vhost...'' ''?vhost='' in
      if 0 \<le> index_of app ''?''
      then let params = slice_from app (index_of app ''?'');
               app = slice app 0 (index_of app ''?'')
           in if 0 < index_of params ''vhost=''
              then let v = slice_from params (index_of params ''vhost='' + 6)
                   in (app, if 0 < index_of v ''&'' then slice v 0 (index_of v ''&'') else v)
              else (app, vhost)
      else (app, vhost))"

definition default_port :: "string \<Rightarrow> string \<Rightarrow> jsval" where
  "default_port schema port =
     (if port \<noteq> [] then Str port
      else if schema = ''http'' then Num (num_of 80)
      else if schema = ''https'' then Num (num_of 443)
      else if schema = ''rtmp'' then Num (num_of 1935)
      else Str port)"

definition url_schema :: "string \<Rightarrow> string" where
  "url_schema url = (if 0 < index_of url ''://'' then slice url 0 (index_of url ''://'') else ''rtmp'')"

text \<open>
  The two copies of the function differ in the port a WebRTC address falls back to when neither
  it nor the page is \<open>https\<close>: the argument \<open>api_port\<close>.
\<close>

definition rtc_port :: "int \<Rightarrow> location \<Rightarrow> string \<Rightarrow> jsval props \<Rightarrow> jsval props result" where
  "rtc_port api_port loc schema ret =
     (if \<not> truthy (field ret ''port'') \<and> (schema = ''webrtc'' \<or> schema = ''rtc'')
      then bind_result (get_prop (field ret ''user_query'') ''schema'') (\<lambda>s.
             Inr (assign_prop ret ''port''
               (Num (num_of (if strict_eq s (Str ''https'') then 443
                             else if index_of (loc_href loc) ''https://'' = 0 then 443
                             else api_port)))))
      else Inr ret)"

definition parse_rtmp_url_with ::
    "int \<Rightarrow> (string \<Rightarrow> anchor) \<Rightarrow> location \<Rightarrow> string \<Rightarrow> jsval props result" where
  "parse_rtmp_url_with api_port anchor_of loc rtmp_url =
     (let a = anchor_of (http_form rtmp_url);
          i = last_index_of (a_pathname a) ''/'';
          stream = slice_from (a_pathname a) (i + 1);
          (app, vhost) = split_app (substring (a_pathname a) 1 i) (a_hostname a);
          vhost = (if a_hostname a = vhost \<and> is_ipv4 (a_hostname a) then ''__defaultVhost__'' else vhost);
          schema = url_schema rtmp_url;
          ret = [(''url'', Str rtmp_url), (''schema'', Str schema), (''server'', Str (a_hostname a)),
                 (''port'', default_port schema (a_port a)), (''vhost'', Str vhost),
                 (''app'', Str app), (''stream'', Str stream)]
      in bind_result (fill_query (a_search a) ret) (rtc_port api_port loc schema))"

definition parse_rtmp_url :: "(string \<Rightarrow> anchor) \<Rightarrow> location \<Rightarrow> string \<Rightarrow> jsval props result" where
  "parse_rtmp_url = parse_rtmp_url_with 1985"

definition console_parse_rtmp_url :: "(string \<Rightarrow> anchor) \<Rightarrow> location \<Rightarrow> string \<Rightarrow> jsval props result" where
  "console_parse_rtmp_url = parse_rtmp_url_with 80"

definition srs_parse_rtmp_url :: "(string \<Rightarrow> anchor) \<Rightarrow> location \<Rightarrow> string \<Rightarrow> jsval props result" where
  "srs_parse_rtmp_url anchor_of loc rtmp_url = parse_rtmp_url anchor_of loc rtmp_url"

section \<open>Browser detection\<close>

definition get_browser_agents :: "string \<Rightarrow> bool props" where
  "get_browser_agents agent =
     map (\<lambda>(k, t). (k, index_of agent t \<noteq> - 1))
       [(''Android'', ''Android''), (''Windows'', ''Windows''), (''iPhone'', ''iPhone''),
        (''Chrome'', ''Chrome''), (''Firefox'', ''Firefox''), (''QQBrowser'', ''QQBrowser''),
        (''MSIE'', ''MSIE''), (''Opera'', ''Presto''), (''MQQBrowser'', ''MQQBrowser'')]"

section \<open>Facts about query strings\<close>

definition pair_text :: "string \<times> string \<Rightarrow> string" where
  "pair_text kv = fst kv @ ''='' @ snd kv"

definition query_text :: "(string \<times> string) list \<Rightarrow> string" where
  "query_text kvs = join ''&'' (map pair_text kvs)"

text \<open>A pair whose text survives the splitting, and whose key is not one the table treats specially.\<close>

definition plain_pair :: "string \<times> string \<Rightarrow> bool" where
  "plain_pair kv \<longleftrightarrow>
     set (fst kv) \<inter> set ''&=?'' = {} \<and> set (snd kv) \<inter> set ''&=?'' = {} \<and>
     fst kv \<noteq> ''__proto__'' \<and> fst kv \<noteq> ''user_query''"

lemma split_pair:
  "CHR ''='' \<notin> set k \<Longrightarrow> CHR ''='' \<notin> set v \<Longrightarrow> split_on (k @ CHR ''='' # v) ''='' = [k, v]"
  by (simp add: split_on_cons split_on_single)

lemma fill_elem_plain:
  assumes "plain_pair kv" "field obj ''user_query'' = Obj uq"
  shows "fill_elem (pair_text kv) obj =
    Inr (prop_set (prop_set obj (fst kv) (Str (snd kv))) ''user_query''
           (Obj (prop_set uq (fst kv) (Str (snd kv)))))"
proof -
  have s: "split_on (pair_text kv) ''='' = [fst kv, snd kv]"
    using assms(1) split_pair by (simp add: plain_pair_def pair_text_def)
  show ?thesis
    unfolding fill_elem_def Let_def s
    using assms by (auto simp: str_at_def plain_pair_def field_set assign_prop_def)
qed

lemma fill_loop_plain:
  "\<forall>kv \<in> set kvs. plain_pair kv \<Longrightarrow> field obj ''user_query'' = Obj uq \<Longrightarrow>
     \<exists>obj'. fill_loop (map pair_text kvs) obj = Inr obj' \<and>
       field obj' ''user_query'' = Obj (foldl (\<lambda>t (k, v). prop_set t k v) uq (map (\<lambda>(k, v). (k, Str v)) kvs)) \<and>
       (\<forall>k. k \<noteq> ''user_query'' \<longrightarrow>
          field obj' k = (case map_of (rev kvs) k of None \<Rightarrow> field obj k | Some v \<Rightarrow> Str v))"
proof (induction kvs arbitrary: obj uq)
  case Nil
  then show ?case by simp
next
  case (Cons kv kvs)
  obtain k v where kv: "kv = (k, v)" by (cases kv)
  let ?obj = "prop_set (prop_set obj k (Str v)) ''user_query'' (Obj (prop_set uq k (Str v)))"
  have e: "fill_elem (pair_text kv) obj = Inr ?obj"
    using fill_elem_plain [of kv obj uq] Cons.prems kv by simp
  have u: "field ?obj ''user_query'' = Obj (prop_set uq k (Str v))" by (simp add: field_set)
  have p: "\<forall>kv \<in> set kvs. plain_pair kv" and k: "k \<noteq> ''user_query''"
    using Cons.prems kv by (auto simp: plain_pair_def)
  from Cons.IH [OF p u] obtain obj' where o: "fill_loop (map pair_text kvs) ?obj = Inr obj'"
    "field obj' ''user_query'' = Obj (foldl (\<lambda>t (k, v). prop_set t k v) (prop_set uq k (Str v))
        (map (\<lambda>(k, v). (k, Str v)) kvs))"
    "\<forall>j. j \<noteq> ''user_query'' \<longrightarrow>
          field obj' j = (case map_of (rev kvs) j of None \<Rightarrow> field ?obj j | Some v \<Rightarrow> Str v)" by blast
  have "field obj' j = (case map_of (rev (kv # kvs)) j of None \<Rightarrow> field obj j | Some v \<Rightarrow> Str v)"
    if "j \<noteq> ''user_query''" for j
    using o(3) that kv by (auto simp: field_set map_add_def split: option.splits)
  with o(1,2) e kv show ?case by (auto simp: kv)
qed

lemma join_eq_Nil: "join sep xs = [] \<Longrightarrow> x \<in> set xs \<Longrightarrow> x = []"
  by (induction sep xs rule: join.induct) auto

lemma query_text_chars:
  "\<forall>kv \<in> set kvs. plain_pair kv \<Longrightarrow> CHR ''?'' \<notin> set (query_text kvs)"
  using set_join [of "''&''" "map pair_text kvs"]
  by (auto simp: query_text_def pair_text_def plain_pair_def split: if_splits dest!: subsetD)

lemma query_text_split:
  assumes "kvs \<noteq> []" "\<forall>kv \<in> set kvs. plain_pair kv"
  shows "split_on (query_text kvs) ''&'' = map pair_text kvs"
  unfolding query_text_def using assms
  by (intro split_on_join) (auto simp: pair_text_def plain_pair_def)

lemma query_text_not_Nil: "kvs \<noteq> [] \<Longrightarrow> query_text kvs \<noteq> []"
  using join_eq_Nil [of "''&''" "map pair_text kvs" "pair_text (hd kvs)"]
  by (cases kvs) (auto simp: query_text_def pair_text_def)

lemma fill_query_plain:
  assumes ne: "kvs \<noteq> []" and p: "\<forall>kv \<in> set kvs. plain_pair kv"
  shows "\<exists>obj' uq. fill_query (query_text kvs) obj = Inr obj' \<and>
    field obj' ''user_query'' = Obj uq \<and>
    uq = foldl (\<lambda>t (k, v). prop_set t k v) [] (map (\<lambda>(k, v). (k, Str v)) kvs) \<and>
    (\<forall>k. k \<noteq> ''user_query'' \<longrightarrow> k \<noteq> ''vhost'' \<longrightarrow>
       field obj' k = (case map_of (rev kvs) k of None \<Rightarrow> field obj k | Some v \<Rightarrow> Str v)) \<and>
    field obj' ''vhost'' =
      (let get = (\<lambda>k. case map_of (rev kvs) k of None \<Rightarrow> field obj k | Some v \<Rightarrow> Str v)
       in if truthy (get ''domain'') then get ''domain'' else get ''vhost'')"
proof -
  let ?obj = "assign_prop obj ''user_query'' (Obj [])"
  have u: "field ?obj ''user_query'' = Obj []" by (simp add: field_assign)
  have f: "field ?obj k = field obj k" if "k \<noteq> ''user_query''" for k using that by (simp add: field_assign)
  from fill_loop_plain [OF p u] obtain obj' where o: "fill_loop (map pair_text kvs) ?obj = Inr obj'"
    "field obj' ''user_query'' = Obj (foldl (\<lambda>t (k, v). prop_set t k v) [] (map (\<lambda>(k, v). (k, Str v)) kvs))"
    "\<forall>j. j \<noteq> ''user_query'' \<longrightarrow>
          field obj' j = (case map_of (rev kvs) j of None \<Rightarrow> field ?obj j | Some v \<Rightarrow> Str v)" by blast
  let ?r = "if truthy (field obj' ''domain'') then assign_prop obj' ''vhost'' (field obj' ''domain'') else obj'"
  have q: "fill_query (query_text kvs) obj = Inr ?r"
    using query_text_chars [OF p] query_text_not_Nil [OF ne] query_text_split [OF ne p] o(1)
    by (simp add: fill_query_def Let_def)
  show ?thesis
    unfolding Let_def
    by (rule exI [of _ ?r]) (use q o(2,3) f in \<open>simp add: field_assign cong: option.case_cong\<close>)
qed

lemma fill_elem_error:
  "fill_elem q obj = Inl e \<Longrightarrow> (\<exists>uq. field obj ''user_query'' = Obj uq) \<or> (\<exists>s. field obj ''user_query'' = Str s) \<Longrightarrow>
     e = TypeError \<and> split_on q ''='' ! 0 = ''user_query''"
  by (auto simp: fill_elem_def Let_def assign_prop_def field_set split: jsval.splits if_splits)

lemma fill_elem_shape:
  "fill_elem q obj = Inr obj' \<Longrightarrow> (\<exists>uq. field obj ''user_query'' = Obj uq) \<or> (\<exists>s. field obj ''user_query'' = Str s) \<Longrightarrow>
     (\<exists>uq. field obj' ''user_query'' = Obj uq) \<or> (\<exists>s. field obj' ''user_query'' = Str s)"
  by (auto simp: fill_elem_def Let_def assign_prop_def field_set str_at_def
      split: jsval.splits if_splits option.splits)

lemma fill_loop_error:
  "fill_loop qs obj = Inl e \<Longrightarrow> (\<exists>uq. field obj ''user_query'' = Obj uq) \<or> (\<exists>s. field obj ''user_query'' = Str s) \<Longrightarrow>
     e = TypeError \<and> (\<exists>q \<in> set qs. split_on q ''='' ! 0 = ''user_query'')"
proof (induction qs arbitrary: obj)
  case (Cons q qs)
  show ?case
  proof (cases "fill_elem q obj")
    case (Inl e')
    with Cons.prems fill_elem_error [OF Inl] show ?thesis by auto
  next
    case (Inr obj')
    with Cons.prems Cons.IH [of obj'] fill_elem_shape [OF Inr] show ?thesis by auto
  qed
qed simp

section \<open>Facts about stream URLs\<close>

definition stream_schemas :: "string list" where
  "stream_schemas = [''rtmp'', ''webrtc'', ''rtc'', ''http'', ''https'']"

lemma colon_not_sublist: "CHR '':'' \<notin> set r \<Longrightarrow> CHR '':'' \<in> set t \<Longrightarrow> \<not> sublist t r"
  by (auto simp: sublist_def)

lemma find_colon:
  "CHR '':'' \<notin> set r \<Longrightarrow> find_sub ''rtmp://'' r = None"
  "CHR '':'' \<notin> set r \<Longrightarrow> find_sub ''webrtc://'' r = None"
  "CHR '':'' \<notin> set r \<Longrightarrow> find_sub ''rtc://'' r = None"
  "CHR '':'' \<notin> set r \<Longrightarrow> find_sub ''://'' r = None"
  by (simp_all add: find_sub_None_iff colon_not_sublist)

text \<open>The scheme under which the browser is asked to parse the address.\<close>

definition parse_schema :: "string \<Rightarrow> string" where
  "parse_schema schema = (if schema = ''https'' then ''https'' else ''http'')"

definition stream_url :: "string \<Rightarrow> string \<Rightarrow> string" where
  "stream_url schema rest = schema @ ''://'' @ rest"

lemma http_form_stream:
  "CHR '':'' \<notin> set r \<Longrightarrow> schema \<in> set stream_schemas \<Longrightarrow>
     http_form (stream_url schema r) = stream_url (parse_schema schema) r"
  by (auto simp: stream_schemas_def http_form_def stream_url_def parse_schema_def
      replace_first_def find_colon)

lemma url_schema_stream:
  "CHR '':'' \<notin> set r \<Longrightarrow> schema \<in> set stream_schemas \<Longrightarrow> url_schema (stream_url schema r) = schema"
  by (auto simp: stream_schemas_def url_schema_def stream_url_def index_of_def slice_def
      rel_index_def numeral_eq_Suc)

lemma split_app_plain:
  "CHR ''?'' \<notin> set app \<Longrightarrow> \<not> sublist ''...vhost...'' app \<Longrightarrow> split_app app vhost = (app, vhost)"
  by (simp add: split_app_def replace_first_absent Let_def)

lemma path_parts:
  assumes "CHR ''/'' \<notin> set stream"
  shows "last_index_of (''/'' @ app @ ''/'' @ stream) ''/'' = int (length app) + 1"
    and "substring (''/'' @ app @ ''/'' @ stream) 1 (int (length app) + 1) = app"
    and "slice_from (''/'' @ app @ ''/'' @ stream) (int (length app) + 1 + 1) = stream"
proof -
  have "find_last ''/'' ((''/'' @ app) @ CHR ''/'' # stream) = Some (length (''/'' @ app))"
    by (rule find_last_single [OF assms])
  then show "last_index_of (''/'' @ app @ ''/'' @ stream) ''/'' = int (length app) + 1"
    by (simp add: last_index_of_def)
  show "substring (''/'' @ app @ ''/'' @ stream) 1 (int (length app) + 1) = app"
    using substring_1 [of "Suc (length app)" "''/'' @ app @ ''/'' @ stream"]
    by (simp add: add.commute)
  show "slice_from (''/'' @ app @ ''/'' @ stream) (int (length app) + 1 + 1) = stream"
    using slice_from_nat [of "''/'' @ app @ ''/'' @ stream" "Suc (Suc (length app))"]
    by (simp add: algebra_simps)
qed

definition known_port :: "int \<Rightarrow> location \<Rightarrow> string \<Rightarrow> string \<Rightarrow> jsval" where
  "known_port api_port loc schema port =
     (if port \<noteq> [] then Str port
      else Num (num_of
        (if schema = ''http'' then 80 else if schema = ''https'' then 443
         else if schema = ''rtmp'' then 1935
         else if prefix ''https://'' (loc_href loc) then 443 else api_port)))"

definition url_table :: "string \<Rightarrow> string \<Rightarrow> string \<Rightarrow> jsval \<Rightarrow> string \<Rightarrow> string \<Rightarrow> string \<Rightarrow> jsval props" where
  "url_table url schema server port vhost app stream =
     [(''url'', Str url), (''schema'', Str schema), (''server'', Str server), (''port'', port),
      (''vhost'', Str vhost), (''app'', Str app), (''stream'', Str stream), (''user_query'', Obj [])]"

lemma field_Cons: "field ((k', v) # ps) k = (if k = k' then v else field ps k)"
  by (simp add: field_def prop_get_def)

lemma field_Nil: "field [] k = Undef"
  by (simp add: field_def prop_get_def)

lemma fill_query_empty:
  "fill_query [] [(''url'', u), (''schema'', s), (''server'', sv), (''port'', p), (''vhost'', v), (''app'', a), (''stream'', st)] =
   Inr [(''url'', u), (''schema'', s), (''server'', sv), (''port'', p), (''vhost'', v), (''app'', a), (''stream'', st), (''user_query'', Obj [])]"
  by (simp add: fill_query_def assign_prop_def prop_set_def prop_keys_def prop_insert_append is_index_def
      is_digit_def Let_def)

lemma parse_plain:
  assumes schema: "schema \<in> set stream_schemas"
    and rest: "CHR '':'' \<notin> set rest"
    and a: "anchor_of (stream_url (parse_schema schema) rest) =
      \<lparr>a_hostname = server, a_port = port, a_pathname = ''/'' @ path @ ''/'' @ stream, a_search = []\<rparr>"
    and app: "split_app path server = (app, vhost)" and stream: "CHR ''/'' \<notin> set stream"
  shows "parse_rtmp_url_with api_port anchor_of loc (stream_url schema rest) =
    Inr (url_table (stream_url schema rest) schema server (known_port api_port loc schema port)
      (if server = vhost \<and> is_ipv4 server then ''__defaultVhost__'' else vhost) app stream)"
proof -
  define i where "i = int (length path) + 1"
  note p = path_parts [OF stream, of path, folded i_def]
  have k: "num_truthy (num_of 80)" "num_truthy (num_of 443)" "num_truthy (num_of 1935)" by simp_all
  have r: "rtc_port api_port loc schema (url_table u schema server (default_port schema port) v app stream) =
      Inr (url_table u schema server (known_port api_port loc schema port) v app stream)" for u v
    using schema k unfolding rtc_port_def url_table_def default_port_def known_port_def stream_schemas_def
    by (auto simp: field_Cons field_Nil get_prop_def prop_get_def assign_prop_def prop_set_def prop_keys_def strict_eq_def)
  show ?thesis
    unfolding parse_rtmp_url_with_def Let_def http_form_stream [OF rest schema] a
      url_schema_stream [OF rest schema] anchor.simps p app prod.case fill_query_empty
    using r by (simp add: url_table_def)
qed

lemma find_sub_after:
  "c \<notin> set u \<Longrightarrow> find_sub (c # t) (u @ c # t @ v) = Some (length u)"
  by (induction u) auto

lemma split_app_vhost:
  assumes "set app \<inter> set ''.?'' = {}" "CHR ''&'' \<notin> set v"
  shows "split_app (app @ ''...vhost...'' @ v) server = (app, v)"
proof -
  have "find_sub ''...vhost...'' (app @ ''...vhost...'' @ v) = Some (length app)"
    using find_sub_after [of "CHR ''.''" app "''..vhost...''" v] assms by simp
  then have r: "replace_first (app @ ''...vhost...'' @ v) ''...vhost...'' ''?vhost='' = app @ ''?vhost='' @ v"
    by (subst replace_first_plain [where i = "length app"]) simp_all
  have q: "index_of (app @ ''?vhost='' @ v) ''?'' = int (length app)"
    using find_sub_single [of "CHR ''?''" app "''vhost='' @ v"] assms by (simp add: index_of_def)
  have v: "index_of (''?vhost='' @ v) ''vhost='' = 1" by (simp add: index_of_def)
  have s: "slice_from (''?vhost='' @ v) (1 + 6) = v"
    using slice_from_nat [of "''?vhost='' @ v" 7] by simp
  have d: "slice_from (app @ ''?vhost='' @ v) (int (length app)) = ''?vhost='' @ v"
    "slice (app @ ''?vhost='' @ v) 0 (int (length app)) = app"
    by (simp_all only: slice_from_nat slice_0_nat append_eq_conv_conj) simp_all
  have n: "index_of v ''&'' = - 1" using assms by simp
  show ?thesis unfolding split_app_def Let_def r q d v s n by simp
qed

definition demo_loc :: location where
  "demo_loc = \<lparr>loc_href = ''http://ossrs.net/'', loc_protocol = ''http:'', loc_host = ''ossrs.net'',
     loc_hostname = ''ossrs.net'', loc_port = [], loc_pathname = ''/'', loc_search = [], loc_hash = []\<rparr>"

section \<open>Properties\<close>

text \<open>
  C20. Query strings round-trip: parsing the text \<open>k=v&k=v...\<close> of any non-empty list of pairs never
  throws, puts exactly these keys into the pure user query with the last value given for each,
  merges them over the fields the object already has, and lets \<open>domain\<close> replace \<open>vhost\<close>.
\<close>

theorem query_string_round_trip:
  assumes "kvs \<noteq> []" and "\<forall>kv \<in> set kvs. plain_pair kv"
  shows "\<exists>obj' uq. fill_query (query_text kvs) obj = Inr obj' \<and> field obj' ''user_query'' = Obj uq \<and>
    set (prop_keys uq) = fst ` set kvs \<and> (\<forall>k. prop_get uq k = map_option Str (map_of (rev kvs) k)) \<and>
    (\<forall>k. k \<noteq> ''user_query'' \<and> k \<noteq> ''vhost'' \<longrightarrow>
       field obj' k = (case map_of (rev kvs) k of None \<Rightarrow> field obj k | Some v \<Rightarrow> Str v)) \<and>
    (\<forall>d. map_of (rev kvs) ''domain'' = Some d \<and> d \<noteq> [] \<longrightarrow> field obj' ''vhost'' = Str d)"
proof -
  let ?kvs = "map (\<lambda>(k, v). (k, Str v)) kvs"
  let ?uq = "foldl (\<lambda>t (k, v). prop_set t k v) [] ?kvs"
  obtain obj' where o: "fill_query (query_text kvs) obj = Inr obj'" "field obj' ''user_query'' = Obj ?uq"
    "\<forall>k. k \<noteq> ''user_query'' \<longrightarrow> k \<noteq> ''vhost'' \<longrightarrow>
       field obj' k = (case map_of (rev kvs) k of None \<Rightarrow> field obj k | Some v \<Rightarrow> Str v)"
    "field obj' ''vhost'' =
      (let get = (\<lambda>k. case map_of (rev kvs) k of None \<Rightarrow> field obj k | Some v \<Rightarrow> Str v)
       in if truthy (get ''domain'') then get ''domain'' else get ''vhost'')"
    using fill_query_plain [OF assms, of obj] by blast
  have g: "prop_get ?uq k = map_option Str (map_of (rev kvs) k)" for k
  proof -
    have m: "map_of (rev ?kvs) k = map_option Str (map_of (rev kvs) k)"
      unfolding rev_map using map_of_map [of Str "rev kvs"] by simp
    show ?thesis
      using props.get_puts [of "[]" ?kvs k] unfolding m props.get_none by (cases "map_of (rev kvs) k") simp_all
  qed
  have s: "set (prop_keys ?uq) = fst ` set kvs"
    using props.keys_puts [of "[]" ?kvs] by (simp add: prop_keys_def image_image case_prod_beta)
  have d: "\<forall>d. map_of (rev kvs) ''domain'' = Some d \<and> d \<noteq> [] \<longrightarrow> field obj' ''vhost'' = Str d"
    using o(4) by (auto simp: Let_def)
  show ?thesis
    by (rule exI [of _ obj'], rule exI [of _ ?uq], intro conjI o(1,2) s allI g) (use o(3) d in blast)+
qed

theorem query_string_round_trip_witness:
  "\<exists>obj' uq. fill_query (query_text [(''app'', ''live''), (''domain'', ''ossrs.net'')]) [] = Inr obj' \<and>
     field obj' ''user_query'' = Obj uq \<and> field obj' ''vhost'' = Str ''ossrs.net''"
  using query_string_round_trip [of "[(''app'', ''live''), (''domain'', ''ossrs.net'')]" "[]"]
  by (auto simp: plain_pair_def)

text \<open>
  C39. The only way to make the parser of query strings throw is a key \<open>user_query\<close>: it replaces
  the table that the parser is filling, and a pair without a value leaves \<open>undefined\<close> there.
\<close>

theorem query_string_error:
  "(fill_query q obj = Inl e \<longrightarrow>
      e = TypeError \<and>
      (\<exists>elem \<in> set (split_on (if 0 \<le> index_of q ''?'' then split_on q ''?'' ! 1 else q) ''&'').
         split_on elem ''='' ! 0 = ''user_query'')) \<and>
   fill_query ''user_query'' obj = Inl TypeError"
proof (intro conjI impI)
  let ?qs = "split_on (if 0 \<le> index_of q ''?'' then split_on q ''?'' ! 1 else q) ''&''"
  assume "fill_query q obj = Inl e"
  then have l: "fill_loop ?qs (assign_prop obj ''user_query'' (Obj [])) = Inl e"
    by (auto simp: fill_query_def Let_def bind_result_Inl_conv split: if_splits)
  have "\<exists>uq. field (assign_prop obj ''user_query'' (Obj [])) ''user_query'' = Obj uq"
    by (simp add: field_assign)
  then show "e = TypeError" "\<exists>elem \<in> set ?qs. split_on elem ''='' ! 0 = ''user_query''"
    using fill_loop_error [OF l] by blast+
next
  have "split_on ''user_query'' ''='' = [''user_query'']" "split_on ''user_query'' ''&'' = [''user_query'']"
    by (simp_all add: split_on_single)
  then show "fill_query ''user_query'' obj = Inl TypeError"
    by (simp add: fill_query_def Let_def fill_elem_def str_at_def field_assign)
qed

theorem query_string_error_witness:
  "\<exists>elem \<in> set (split_on ''user_query'' ''&''). split_on elem ''='' ! 0 = ''user_query''"
  using query_string_error [of "''user_query''" "[]" TypeError] by simp

text \<open>
  C32. Parsing a stream address \<open>schema://server/app/stream\<close>, given that the browser's parser takes
  the corresponding \<open>http(s)\<close> address apart: all eight fields of the result. The port is the given
  one or the default of the scheme, for WebRTC 443 on an \<open>https\<close> page and otherwise 1985 in the
  players but 80 in the console; a server that is an IP address names the default virtual host.
\<close>

theorem stream_url_fields:
  assumes "schema \<in> set stream_schemas" and "CHR '':'' \<notin> set rest"
    and "anchor_of (stream_url (parse_schema schema) rest) =
      \<lparr>a_hostname = server, a_port = port, a_pathname = ''/'' @ app @ ''/'' @ stream, a_search = []\<rparr>"
    and "CHR ''?'' \<notin> set app" and "\<not> sublist ''...vhost...'' app" and "CHR ''/'' \<notin> set stream"
  shows "parse_rtmp_url anchor_of loc (stream_url schema rest) =
      Inr (url_table (stream_url schema rest) schema server (known_port 1985 loc schema port)
        (if is_ipv4 server then ''__defaultVhost__'' else server) app stream) \<and>
    console_parse_rtmp_url anchor_of loc (stream_url schema rest) =
      Inr (url_table (stream_url schema rest) schema server (known_port 80 loc schema port)
        (if is_ipv4 server then ''__defaultVhost__'' else server) app stream)"
  unfolding parse_rtmp_url_def console_parse_rtmp_url_def
  using parse_plain [of schema rest anchor_of server port app stream app server,
      OF assms(1-3) split_app_plain [OF assms(4,5)] assms(6)] by simp

definition demo_anchor :: "string \<Rightarrow> anchor" where
  "demo_anchor url =
     (if url = ''http://10.0.0.1/live/livestream''
      then \<lparr>a_hostname = ''10.0.0.1'', a_port = [], a_pathname = ''/live/livestream'', a_search = []\<rparr>
      else \<lparr>a_hostname = [], a_port = [], a_pathname = [], a_search = []\<rparr>)"

theorem stream_url_fields_witness:
  "parse_rtmp_url demo_anchor demo_loc ''webrtc://10.0.0.1/live/livestream'' =
     Inr (url_table ''webrtc://10.0.0.1/live/livestream'' ''webrtc'' ''10.0.0.1'' (known_port 1985 demo_loc ''webrtc'' [])
       (if is_ipv4 ''10.0.0.1'' then ''__defaultVhost__'' else ''10.0.0.1'') ''live'' ''livestream'')"
  using stream_url_fields [of "''webrtc''" "''10.0.0.1/live/livestream''" demo_anchor "''10.0.0.1''" "[]" "''live''" "''livestream''" demo_loc]
  by (auto simp: stream_schemas_def demo_anchor_def stream_url_def parse_schema_def sublist_Cons_right)

text \<open>
  A virtual host that is written into the application, \<open>app...vhost...name\<close>, is taken apart
  again: the application loses the suffix and the name is the virtual host.
\<close>

theorem vhost_suffix:
  assumes "schema \<in> set stream_schemas" and "CHR '':'' \<notin> set rest"
    and "anchor_of (stream_url (parse_schema schema) rest) =
      \<lparr>a_hostname = server, a_port = port,
       a_pathname = ''/'' @ (app @ ''...vhost...'' @ vhost) @ ''/'' @ stream, a_search = []\<rparr>"
    and "set app \<inter> set ''.?'' = {}" and "CHR ''&'' \<notin> set vhost" and "CHR ''/'' \<notin> set stream"
  shows "parse_rtmp_url anchor_of loc (stream_url schema rest) =
      Inr (url_table (stream_url schema rest) schema server (known_port 1985 loc schema port)
        (if server = vhost \<and> is_ipv4 server then ''__defaultVhost__'' else vhost) app stream)"
  unfolding parse_rtmp_url_def
  by (rule parse_plain [of schema rest anchor_of server port "app @ ''...vhost...'' @ vhost" stream app vhost,
      OF assms(1-3) split_app_vhost [OF assms(4,5)] assms(6)])

theorem vhost_suffix_witness:
  "parse_rtmp_url (\<lambda>_. \<lparr>a_hostname = ''demo'', a_port = [],
       a_pathname = ''/'' @ (''live'' @ ''...vhost...'' @ ''players'') @ ''/'' @ ''one'', a_search = []\<rparr>) demo_loc
     (stream_url ''rtmp'' ''demo/live...vhost...players/one'') =
   Inr (url_table (stream_url ''rtmp'' ''demo/live...vhost...players/one'') ''rtmp'' ''demo''
     (known_port 1985 demo_loc ''rtmp'' []) (if ''demo'' = ''players'' \<and> is_ipv4 ''demo'' then ''__defaultVhost__'' else ''players'')
     ''live'' ''one'')"
  by (rule vhost_suffix) (simp_all add: stream_schemas_def)

end
