(* ===== verification/PageUrl.thy ===== *)
theory PageUrl
  imports UrlParse
begin

text \<open>
  The address builders of the players' pages (\<open>srs.page.js\<close>) and the on-page log
  (\<open>srs.log.js\<close>). Changes of the page are returned as the list of jQuery calls made, in order.
\<close>

section \<open>Page effects\<close>

datatype dom_op =
    SetAttr string string string
  | SetVal string string
  | SetWidth string string
  | SetCss string string string

definition srs_get_version_code :: string where
  "srs_get_version_code = ''1.33''"

definition srs_get_player_modal :: jsnum where
  "srs_get_player_modal = num_of 740"

definition srs_get_player_width :: jsnum where
  "srs_get_player_width = num_sub srs_get_player_modal (num_of 30)"

definition srs_get_player_height :: jsnum where
  "srs_get_player_height = num_div (num_mul srs_get_player_width (num_of 9)) (num_of 19)"

definition update_nav :: "location \<Rightarrow> dom_op list" where
  "update_nav loc =
     map (\<lambda>(sel, page). SetAttr sel ''href'' (page @ loc_search loc))
       [(''#nav_srs_player'', ''srs_player.html''), (''#nav_rtc_player'', ''rtc_player.html''),
        (''#nav_rtc_publisher'', ''rtc_publisher.html''), (''#nav_whip'', ''whip.html''),
        (''#nav_whep'', ''whep.html''), (''#nav_srs_publisher'', ''srs_publisher.html''),
        (''#nav_srs_chat'', ''srs_chat.html''), (''#nav_srs_bwt'', ''srs_bwt.html''),
        (''#nav_vlc'', ''vlc.html'')]"

section \<open>Extra parameters\<close>

definition reserved_params :: "string list" where
  "reserved_params =
     [''app'', ''autostart'', ''dir'', ''filename'', ''host'', ''hostname'', ''http_port'', ''pathname'',
      ''port'', ''server'', ''stream'', ''buffer'', ''schema'', ''vhost'', ''api'', ''path'']"

text \<open>The keys \<open>for ... in\<close> visits: those of an object, the positions of a string.\<close>

definition enum_keys :: "jsval \<Rightarrow> string list" where
  "enum_keys v =
     (case v of
        Obj ps \<Rightarrow> prop_keys ps
      | Str s \<Rightarrow> map (\<lambda>i. digits (int i)) [0..<length s]
      | _ \<Rightarrow> [])"

fun extra_loop :: "jsval props \<Rightarrow> string list \<Rightarrow> string list \<Rightarrow> string list" where
  "extra_loop query [] queries = queries"
| "extra_loop query (key # ks) queries =
     (if key \<in> set reserved_params then extra_loop query ks queries
      else if truthy (field query key)
      then extra_loop query ks (queries @ [key @ ''='' @ to_str (field query key)])
      else extra_loop query ks queries)"

definition user_extra_params :: "jsval props \<Rightarrow> string list option \<Rightarrow> string list" where
  "user_extra_params query params =
     extra_loop query (enum_keys (field query ''user_query''))
       (case params of None \<Rightarrow> [] | Some ps \<Rightarrow> ps)"

definition is_default_port :: "jsval \<Rightarrow> jsval \<Rightarrow> bool" where
  "is_default_port schema port \<longleftrightarrow>
     strict_eq schema (Str ''http'') \<and> strict_eq port (Num (num_of 80)) \<or>
     strict_eq schema (Str ''https'') \<and> strict_eq port (Num (num_of 443)) \<or>
     strict_eq schema (Str ''webrtc'') \<and> strict_eq port (Num (num_of 1985)) \<or>
     strict_eq schema (Str ''rtmp'') \<and> strict_eq port (Num (num_of 1935))"

section \<open>Default addresses\<close>

text \<open>
  The loops that drop a trailing mark: while its first (last) occurrence is at the end. On the
  empty string both tests compare \<open>-1\<close> with \<open>-1\<close> and the loop does not end, hence the option.
\<close>

partial_function (option) strip_first :: "string \<Rightarrow> string \<Rightarrow> string option" where
  "strip_first mark uri =
     (if index_of uri mark = int (length uri) - 1
      then strip_first mark (slice uri 0 (int (length uri) - 1)) else Some uri)"

partial_function (option) strip_last :: "string \<Rightarrow> string \<Rightarrow> string option" where
  "strip_last mark uri =
     (if last_index_of uri mark = int (length uri) - 1
      then strip_last mark (slice uri 0 (int (length uri) - 1)) else Some uri)"

definition or_else :: "jsval \<Rightarrow> jsval \<Rightarrow> jsval" where
  "or_else v w = (if \<not> truthy v then w else v)"

definition vhost_param :: "jsval \<Rightarrow> jsval \<Rightarrow> string list" where
  "vhost_param server vhost =
     (if \<not> strict_eq server vhost \<and> \<not> strict_eq vhost (Str ''__defaultVhost__'')
      then [''vhost='' @ to_str vhost] else [])"

definition flv_url :: "location \<Rightarrow> jsval props \<Rightarrow> string option" where
  "flv_url loc query =
     (let schema = or_else (field query ''schema'') (Str ''http'');
          server = or_else (field query ''server'') (Str (loc_hostname loc));
          port = (if \<not> truthy (field query ''port'')
                  then if strict_eq schema (Str ''http'') then Num (num_of 8080) else Num (num_of 1935)
                  else Num (to_num (field query ''port'')));
          vhost = or_else (field query ''vhost'') (Str (loc_hostname loc));
          app = or_else (field query ''app'') (Str ''live'');
          stream = or_else (field query ''stream'') (Str ''livestream.flv'');
          queries = user_extra_params query (Some (vhost_param server vhost));
          uri = to_str schema @ ''://'' @ to_str server @
                (if \<not> is_default_port schema port then '':'' @ to_str port else []) @
                ''/'' @ to_str app @ ''/'' @ to_str stream @ ''?'' @ join ''&'' queries
      in strip_first ''?'' uri)"

text \<open>\<open>Inl\<close> is an exception of the parser; \<open>Inr None\<close> a loop that does not end.\<close>

definition build_default_flv_url :: "location \<Rightarrow> string option result" where
  "build_default_flv_url loc =
     bind_result (parse_query_string loc) (\<lambda>query. Inr (flv_url loc query))"

definition schema_param :: "location \<Rightarrow> jsval props \<Rightarrow> string list" where
  "schema_param loc query =
     (if truthy (field query ''schema'') \<and> loc_protocol loc \<noteq> to_str (field query ''schema'') @ '':''
      then [''schema='' @ to_str (field query ''schema'')] else [])"

definition build_default_rtc_url :: "location \<Rightarrow> jsval props \<Rightarrow> string option" where
  "build_default_rtc_url loc query =
     (let server = or_else (field query ''server'') (Str (loc_hostname loc));
          vhost = or_else (field query ''vhost'') (Str (loc_hostname loc));
          app = or_else (field query ''app'') (Str ''live'');
          stream = or_else (field query ''stream'') (Str ''livestream'');
          api = (if truthy (field query ''api'') then '':'' @ to_str (field query ''api'') else []);
          queries = user_extra_params query (Some (vhost_param server vhost @ schema_param loc query));
          uri = ''webrtc://'' @ to_str server @ api @ ''/'' @ to_str app @ ''/'' @ to_str stream @
                ''?'' @ join ''&'' queries
      in strip_last ''?'' uri)"

definition build_default_whip_whep_url :: "location \<Rightarrow> jsval props \<Rightarrow> string \<Rightarrow> string option" where
  "build_default_whip_whep_url loc query apiPath =
     (let server = or_else (field query ''server'') (Str (loc_hostname loc));
          vhost = or_else (field query ''vhost'') (Str (loc_hostname loc));
          app = or_else (field query ''app'') (Str ''live'');
          stream = or_else (field query ''stream'') (Str ''livestream'');
          api = '':'' @ to_str (or_else (field query ''api'')
                  (Str (if loc_protocol loc = ''http:'' then ''1985'' else ''1990'')));
          realApiPath = or_else (field query ''path'') (Str apiPath);
          queries = user_extra_params query (Some (vhost_param server vhost @ schema_param loc query));
          uri = loc_protocol loc @ ''//'' @ to_str server @ api @ to_str realApiPath @ ''?app='' @
                to_str app @ ''&stream='' @ to_str stream @ ''&'' @ join ''&'' queries
      in Option.bind (strip_last ''?'' uri) (strip_last ''&''))"

section \<open>Page initialisation\<close>

text \<open>
  What a call does to the page when it returns; when the parser throws, the exception alone is the
  result (the navigation has been updated by then).
\<close>

definition srs_init_flv :: "location \<Rightarrow> string option \<Rightarrow> string option \<Rightarrow> dom_op list option result" where
  "srs_init_flv loc flv_sel modal_player =
     (let modal = (case modal_player of
            None \<Rightarrow> []
          | Some m \<Rightarrow> [SetWidth m (num_to_str srs_get_player_modal @ ''px''),
                       SetCss m ''margin-left''
                         (''-'' @ num_to_str (num_div srs_get_player_modal (num_of 2)) @ ''px'')])
      in case flv_sel of
           None \<Rightarrow> Inr (Some (update_nav loc @ modal))
         | Some f \<Rightarrow> bind_result (build_default_flv_url loc) (\<lambda>url.
             Inr (map_option (\<lambda>u. update_nav loc @ [SetVal f u] @ modal) url)))"

definition set_val :: "location \<Rightarrow> string \<Rightarrow> string option \<Rightarrow> dom_op list option" where
  "set_val loc sel url = map_option (\<lambda>u. update_nav loc @ [SetVal sel u]) url"

definition srs_init_rtc :: "location \<Rightarrow> string \<Rightarrow> jsval props \<Rightarrow> dom_op list option" where
  "srs_init_rtc loc sel query = set_val loc sel (build_default_rtc_url loc query)"

definition srs_init_whip :: "location \<Rightarrow> string \<Rightarrow> jsval props \<Rightarrow> dom_op list option" where
  "srs_init_whip loc sel query = set_val loc sel (build_default_whip_whep_url loc query ''/rtc/v1/whip/'')"

definition srs_init_whep :: "location \<Rightarrow> string \<Rightarrow> jsval props \<Rightarrow> dom_op list option" where
  "srs_init_whep loc sel query = set_val loc sel (build_default_whip_whep_url loc query ''/rtc/v1/whep/'')"

section \<open>The log box\<close>

record log_box =
  lb_classes :: "string list"
  lb_title :: string
  lb_msg :: string
  lb_disabled :: bool

definition add_class :: "string \<Rightarrow> string list \<Rightarrow> string list" where
  "add_class c cs = (if c \<in> set cs then cs else cs @ [c])"

definition remove_class :: "string \<Rightarrow> string list \<Rightarrow> string list" where
  "remove_class c cs = filter (\<lambda>d. d \<noteq> c) cs"

definition info :: "string \<Rightarrow> log_box \<Rightarrow> log_box" where
  "info desc b =
     (if lb_disabled b then b
      else b\<lparr>lb_classes := remove_class ''alert-warn'' (remove_class ''alert-error''
               (add_class ''alert-info'' (lb_classes b))),
             lb_title := ''Info:'', lb_msg := desc\<rparr>)"

definition warn :: "string \<Rightarrow> string \<Rightarrow> log_box \<Rightarrow> log_box" where
  "warn code desc b =
     (if lb_disabled b then b
      else b\<lparr>lb_classes := add_class ''alert-warn'' (remove_class ''alert-error''
               (remove_class ''alert-info'' (lb_classes b))),
             lb_title := ''Warn:'', lb_msg := ''code: '' @ code @ '', '' @ desc\<rparr>)"

definition error :: "string \<Rightarrow> string \<Rightarrow> log_box \<Rightarrow> log_box" where
  "error code desc b =
     (if lb_disabled b then b
      else b\<lparr>lb_classes := remove_class ''alert-warn'' (add_class ''alert-error''
               (remove_class ''alert-info'' (lb_classes b))),
             lb_title := ''Error:'', lb_msg := ''code: '' @ code @ '', '' @ desc\<rparr>)"

section \<open>Facts\<close>

lemma extra_loop_map:
  "extra_loop query ks queries =
     queries @ map (\<lambda>k. k @ ''='' @ to_str (field query k))
                 (filter (\<lambda>k. k \<notin> set reserved_params \<and> truthy (field query k)) ks)"
  by (induction ks arbitrary: queries) auto

text \<open>On a non-empty text both loops return, and what they return differs only by marks removed.\<close>

lemma slice_butlast: "slice (s @ [c]) 0 (int (length (s @ [c])) - 1) = s"
  using slice_0_diff [of 1 "s @ [c]"] by simp

lemma last_index_end: "s \<noteq> [] \<Longrightarrow> last_index_of s [c] = int (length s) - 1 \<longleftrightarrow> last s = c"
proof (cases s rule: rev_cases)
  case (snoc u d)
  show ?thesis
  proof (cases "d = c")
    case True
    then show ?thesis using snoc find_last_single [of c "[]" u] by (simp add: last_index_of_def)
  next
    case False
    have "find_last [c] s \<noteq> Some (length u)"
      using find_last_SomeD [of "[c]" s "length u"] snoc False by auto
    then show ?thesis using snoc False by (auto simp: last_index_of_def split: option.splits)
  qed
qed simp

lemma first_index_end: "s \<noteq> [] \<Longrightarrow> index_of s [c] = int (length s) - 1 \<longleftrightarrow> last s = c \<and> c \<notin> set (butlast s)"
proof (cases s rule: rev_cases)
  case (snoc u d)
  show ?thesis
  proof (cases "c \<in> set u")
    case True
    then obtain x y where "u = x @ c # y" "c \<notin> set x" by (meson split_list_first)
    then show ?thesis using snoc find_sub_single [of c x "y @ [d]"]
      by (simp add: index_of_def butlast_append)
  next
    case False
    have "find_sub [c] (u @ [d]) \<noteq> Some (length u)" if "d \<noteq> c"
      using find_sub_SomeD [of "[c]" "u @ [d]" "length u"] that by auto
    with False show ?thesis using snoc find_sub_single [of c u "[]"]
      by (cases "d = c") (auto simp: index_of_def split: option.splits)
  qed
qed simp

lemma strip_last_returns:
  "\<exists>d \<in> set uri. d \<noteq> c \<Longrightarrow>
     \<exists>r n. strip_last [c] uri = Some r \<and> uri = r @ replicate n c \<and> r \<noteq> [] \<and> last r \<noteq> c"
proof (induction uri rule: rev_induct)
  case (snoc d u)
  show ?case
  proof (cases "d = c")
    case True
    then obtain r n where r: "strip_last [c] u = Some r" "u = r @ replicate n c" "r \<noteq> []" "last r \<noteq> c"
      using snoc by auto
    have "strip_last [c] (u @ [d]) = strip_last [c] u"
      using last_index_end [of "u @ [d]" c] True slice_butlast [of u d]
      by (subst strip_last.simps) simp
    moreover have "u @ [d] = r @ replicate (Suc n) c"
      using r True by (simp add: replicate_append_same)
    ultimately show ?thesis using r by metis
  next
    case False
    then have "strip_last [c] (u @ [d]) = Some (u @ [d])"
      using last_index_end [of "u @ [d]" c] by (subst strip_last.simps) auto
    with False show ?thesis by (intro exI [of _ "u @ [d]"] exI [of _ 0]) simp
  qed
qed simp

lemma strip_first_returns:
  assumes "\<exists>d \<in> set u. d \<noteq> c" "c \<notin> set u"
  shows "strip_first [c] (u @ c # v) = Some (if v = [] then u else u @ c # v)"
proof -
  have u: "u \<noteq> []" using assms by auto
  then have "strip_first [c] u = Some u"
    using first_index_end [of u c] assms by (subst strip_first.simps) (auto dest: last_in_set)
  moreover have "index_of (u @ c # v) [c] = int (length u)"
    using find_sub_single [OF assms(2)] by (simp add: index_of_def)
  ultimately show ?thesis
    using slice_butlast [of u c] by (subst strip_first.simps) (cases "v = []"; simp)
qed

lemma prefix_proper: "prefix r p \<Longrightarrow> \<not> prefix p r \<Longrightarrow> \<exists>t. p = r @ t \<and> t \<noteq> []"
  by (auto simp: prefix_def)

lemma strip_first_total:
  assumes "\<exists>d \<in> set uri. d \<noteq> c"
  shows "\<exists>r. strip_first [c] uri = Some r \<and> (uri = r \<or> uri = r @ [c]) \<and> (r = [] \<or> last r \<noteq> c \<or> c \<in> set (butlast r))"
proof (cases "c \<in> set uri")
  case True
  then obtain u v where uv: "uri = u @ c # v" "c \<notin> set u" by (meson split_list_first)
  show ?thesis
  proof (cases "\<exists>d \<in> set u. d \<noteq> c")
    case True
    have "u \<noteq> []" using True by auto
    then have "last u \<noteq> c" using uv(2) last_in_set [of u] by auto
    then show ?thesis using strip_first_returns [OF True uv(2), of v] uv
      by (cases "v = []") (auto simp: butlast_append)
  next
    case False
    then have "u = []" using uv by (cases u) auto
    then have "v \<noteq> []" and i: "index_of uri [c] = 0" using assms uv by auto
    then have j: "index_of uri [c] \<noteq> int (length uri) - 1"
      unfolding i using uv \<open>u = []\<close> by (cases v) auto
    then have "strip_first [c] uri = Some uri" by (subst strip_first.simps) (simp only: if_False)
    then show ?thesis using uv \<open>u = []\<close> \<open>v \<noteq> []\<close> by auto
  qed
next
  case False
  have "uri \<noteq> []" using assms by auto
  then have "strip_first [c] uri = Some uri"
    using first_index_end [of uri c] False by (subst strip_first.simps) (auto dest: last_in_set)
  then show ?thesis using False \<open>uri \<noteq> []\<close> by (auto dest: last_in_set)
qed

section \<open>Properties\<close>

text \<open>
  The extra parameters of an address: the given ones, then \<open>key=value\<close> for exactly the keys of
  the user query that are not reserved and have a non-empty value, each once and in order.
\<close>

theorem extra_params_closed_form:
  "user_extra_params query params =
     (case params of None \<Rightarrow> [] | Some ps \<Rightarrow> ps) @
     map (\<lambda>k. k @ ''='' @ to_str (field query k))
       (filter (\<lambda>k. k \<notin> set reserved_params \<and> truthy (field query k)) (enum_keys (field query ''user_query'')))"
  by (simp add: user_extra_params_def extra_loop_map)

text \<open>
  The three builders of default addresses always return, whatever the query: their loops over
  trailing marks end, the WebRTC address keeps its scheme and does not end in a question mark, the
  WHIP/WHEP address does not end in an ampersand.
\<close>

theorem url_builders_return:
  "(\<exists>u. flv_url loc query = Some u) \<and>
   (\<exists>u. build_default_rtc_url loc query = Some u \<and> prefix ''webrtc://'' u \<and> last u \<noteq> CHR ''?'') \<and>
   (\<exists>u. build_default_whip_whep_url loc query apiPath = Some u \<and> last u \<noteq> CHR ''&'')"
proof (intro conjI)
  have one: "\<exists>u. strip_first ''?'' uri = Some u" if "CHR '':'' \<in> set uri" for uri
    using strip_first_total [of uri "CHR ''?''"] that by fastforce
  show "\<exists>u. flv_url loc query = Some u" unfolding flv_url_def Let_def by (rule one) simp
  define rest where "rest = (let server = or_else (field query ''server'') (Str (loc_hostname loc));
          vhost = or_else (field query ''vhost'') (Str (loc_hostname loc));
          app = or_else (field query ''app'') (Str ''live'');
          stream = or_else (field query ''stream'') (Str ''livestream'');
          api = (if truthy (field query ''api'') then '':'' @ to_str (field query ''api'') else []);
          queries = user_extra_params query (Some (vhost_param server vhost @ schema_param loc query))
      in to_str server @ api @ ''/'' @ to_str app @ ''/'' @ to_str stream @ ''?'' @ join ''&'' queries)"
  have e: "build_default_rtc_url loc query = strip_last ''?'' (''webrtc://'' @ rest)"
    unfolding build_default_rtc_url_def rest_def Let_def by (rule refl)
  obtain r n where r: "strip_last ''?'' (''webrtc://'' @ rest) = Some r"
    "''webrtc://'' @ rest = r @ replicate n (CHR ''?'')" "r \<noteq> []" "last r \<noteq> CHR ''?''"
    using strip_last_returns [of "''webrtc://'' @ rest" "CHR ''?''"] by auto
  have "prefix ''webrtc://'' r"
  proof (rule ccontr)
    assume np: "\<not> prefix ''webrtc://'' r"
    have "prefix r (''webrtc://'' @ rest)" using r(2) by (metis prefixI)
    then have "prefix r ''webrtc://'' \<or> prefix ''webrtc://'' r"
      by (rule prefix_same_cases) (rule prefixI [OF refl])
    then obtain t where t: "''webrtc://'' = r @ t" "t \<noteq> []" using prefix_proper np by blast
    then have "t @ rest = replicate n (CHR ''?'')" using r(2) by (metis append.assoc same_append_eq)
    then have "set t \<subseteq> {CHR ''?''}" by (metis Un_upper1 set_append set_replicate_conv_if empty_subsetI subset_trans)
    moreover have "set t \<subseteq> set ''webrtc://''" using t(1) by (metis Un_upper2 set_append)
    ultimately have "t = []" by (cases t) auto
    with t(2) show False by simp
  qed
  then show "\<exists>u. build_default_rtc_url loc query = Some u \<and> prefix ''webrtc://'' u \<and> last u \<noteq> CHR ''?''"
    using e r by auto
  show "\<exists>u. build_default_whip_whep_url loc query apiPath = Some u \<and> last u \<noteq> CHR ''&''"
  proof -
    have two: "\<exists>u. Option.bind (strip_last ''?'' uri) (strip_last ''&'') = Some u \<and> last u \<noteq> CHR ''&''"
      if a: "CHR ''='' \<in> set uri" for uri
    proof -
      obtain r n where r: "strip_last ''?'' uri = Some r" "uri = r @ replicate n (CHR ''?'')"
        using strip_last_returns [of uri "CHR ''?''"] a by fastforce
      have "CHR ''='' \<in> set r" using a r(2) by (auto split: if_splits)
      then obtain u where "strip_last ''&'' r = Some u" "last u \<noteq> CHR ''&''"
        using strip_last_returns [of r "CHR ''&''"] by fastforce
      with r show ?thesis by auto
    qed
    show ?thesis unfolding build_default_whip_whep_url_def Let_def by (rule two) simp
  qed
qed

text \<open>
  Building and parsing agree: for a query that names a server, an application and a stream and
  nothing else, the default WebRTC address is parsed back into the same server, application and
  stream, with the default port of the scheme.
\<close>

theorem rtc_url_round_trip:
  assumes q: "field query ''server'' = Str server" "field query ''vhost'' = Str server"
      "field query ''app'' = Str app" "field query ''stream'' = Str stream"
      "field query ''api'' = Undef" "field query ''schema'' = Undef"
      "field query ''user_query'' = Obj uq" "set (prop_keys uq) \<subseteq> set reserved_params"
    and ne: "server \<noteq> []" "app \<noteq> []" "stream \<noteq> []"
    and c: "CHR '':'' \<notin> set (server @ app @ stream)" "CHR ''?'' \<notin> set (app @ stream)"
      "CHR ''/'' \<notin> set stream" "\<not> sublist ''...vhost...'' app"
    and a: "anchor_of (''http://'' @ server @ ''/'' @ app @ ''/'' @ stream) =
      \<lparr>a_hostname = server, a_port = [], a_pathname = ''/'' @ app @ ''/'' @ stream, a_search = []\<rparr>"
  shows "\<exists>url. build_default_rtc_url loc query = Some url \<and>
    parse_rtmp_url anchor_of loc url =
      Inr (url_table url ''webrtc'' server (known_port 1985 loc ''webrtc'' [])
        (if is_ipv4 server then ''__defaultVhost__'' else server) app stream)"
proof -
  let ?rest = "server @ ''/'' @ app @ ''/'' @ stream"
  let ?url = "''webrtc://'' @ ?rest"
  have x: "user_extra_params query (Some []) = []"
    using q(7,8) by (auto simp: user_extra_params_def extra_loop_map enum_keys_def filter_empty_conv)
  have v: "vhost_param (Str server) (Str server) = []" "schema_param loc query = []"
    by (simp_all add: vhost_param_def schema_param_def strict_eq_def q)
  have "build_default_rtc_url loc query = strip_last ''?'' (?url @ ''?'')"
    unfolding build_default_rtc_url_def Let_def or_else_def using ne x v by (simp add: q)
  also have "\<dots> = Some ?url"
  proof -
    have l: "last ?url \<noteq> CHR ''?''" using ne(3) c(2) by (auto dest: last_in_set)
    obtain r n where r: "strip_last ''?'' (?url @ ''?'') = Some r" "?url @ ''?'' = r @ replicate n (CHR ''?'')"
      "r \<noteq> []" "last r \<noteq> CHR ''?''"
      using strip_last_returns [of "?url @ ''?''" "CHR ''?''"] by auto
    have "n = 1"
    proof (cases n)
      case 0
      then show ?thesis using r(2,4) by (metis append_Nil2 last_snoc replicate_0)
    next
      case (Suc k)
      then have u: "?url = r @ replicate k (CHR ''?'')"
        using r(2) by (metis append.assoc butlast_snoc replicate_Suc replicate_append_same)
      show ?thesis
      proof (cases k)
        case 0
        then show ?thesis using Suc by simp
      next
        case (Suc j)
        then have "last ?url = CHR ''?''" using u by (metis last_appendR last_replicate nat.distinct(1) replicate_empty)
        with l show ?thesis by simp
      qed
    qed
    then have "r = ?url" using r(2) by simp
    with r show ?thesis by simp
  qed
  finally have b: "build_default_rtc_url loc query = Some ?url" .
  have "parse_rtmp_url_with 1985 anchor_of loc (stream_url ''webrtc'' ?rest) =
    Inr (url_table (stream_url ''webrtc'' ?rest) ''webrtc'' server (known_port 1985 loc ''webrtc'' [])
      (if server = server \<and> is_ipv4 server then ''__defaultVhost__'' else server) app stream)"
    using c a by (intro parse_plain [where path = app] split_app_plain)
      (auto simp: stream_schemas_def stream_url_def parse_schema_def)
  with b show ?thesis by (auto simp: parse_rtmp_url_def stream_url_def)
qed

theorem rtc_url_round_trip_witness:
  "\<exists>url. build_default_rtc_url demo_loc
      [(''server'', Str ''demo''), (''vhost'', Str ''demo''), (''app'', Str ''live''), (''stream'', Str ''one''),
       (''user_query'', Obj [(''stream'', Str ''one'')])] = Some url \<and>
    parse_rtmp_url (\<lambda>_. \<lparr>a_hostname = ''demo'', a_port = [],
        a_pathname = ''/'' @ ''live'' @ ''/'' @ ''one'', a_search = []\<rparr>) demo_loc url =
      Inr (url_table url ''webrtc'' ''demo'' (known_port 1985 demo_loc ''webrtc'' [])
        (if is_ipv4 ''demo'' then ''__defaultVhost__'' else ''demo'') ''live'' ''one'')"
  by (rule rtc_url_round_trip [where uq = "[(''stream'', Str ''one'')]"])
    (simp_all add: field_Cons field_Nil prop_keys_def reserved_params_def sublist_Cons_right)

end
