(* ===== verification/Timers.thy ===== *)
theory Timers
  imports JsValue
begin

text \<open>
  The timers of the host: \<open>setTimeout\<close>, \<open>clearTimeout\<close> and the event loop's choice of a pending
  timer. Handles are positive, so a handle is truthy and 0 is the handle \<open>undefined\<close> or \<open>null\<close>.
  The delay is kept with the timer; the order of firing is left open, since the loop may run any
  timer that is due.
\<close>

record 'c timers =
  next_handle :: nat
  pending :: "(nat \<times> 'c \<times> jsval) list"

definition no_timers :: "'c timers" where
  "no_timers = \<lparr>next_handle = 1, pending = []\<rparr>"

definition set_timeout :: "'c \<Rightarrow> jsval \<Rightarrow> 'c timers \<Rightarrow> nat \<times> 'c timers" where
  "set_timeout c delay ts =
     (next_handle ts,
      ts\<lparr>next_handle := next_handle ts + 1, pending := pending ts @ [(next_handle ts, c, delay)]\<rparr>)"

definition clear_timeout :: "nat \<Rightarrow> 'c timers \<Rightarrow> 'c timers" where
  "clear_timeout h ts = ts\<lparr>pending := filter (\<lambda>(h', _). h' \<noteq> h) (pending ts)\<rparr>"

text \<open>The event loop takes the timer with this handle, if it is pending.\<close>

definition take_timer :: "nat \<Rightarrow> 'c timers \<Rightarrow> ('c \<times> 'c timers) option" where
  "take_timer h ts =
     (case find (\<lambda>(h', _). h' = h) (pending ts) of
        None \<Rightarrow> None
      | Some (_, c, _) \<Rightarrow> Some (c, clear_timeout h ts))"

definition live :: "'c timers \<Rightarrow> (nat \<times> 'c) set" where
  "live ts = {(h, c). \<exists>d. (h, c, d) \<in> set (pending ts)}"

definition timers_wf :: "'c timers \<Rightarrow> bool" where
  "timers_wf ts \<longleftrightarrow> 0 < next_handle ts \<and> (\<forall>(h, c) \<in> live ts. 0 < h \<and> h < next_handle ts) \<and>
     distinct (map fst (pending ts))"

text \<open>
  What the code relies on: a fresh handle for every timer started, and no other timer touched by
  clearing. The lemma is the idiom of the refreshers: clear the old handle, start, remember the
  new one, which keeps at most one timer per owner.
\<close>

locale timer_service =
  fixes start :: "'c \<Rightarrow> jsval \<Rightarrow> 't \<Rightarrow> nat \<times> 't"
    and clear :: "nat \<Rightarrow> 't \<Rightarrow> 't"
    and active :: "'t \<Rightarrow> (nat \<times> 'c) set"
    and wf :: "'t \<Rightarrow> bool"
  assumes start_active: "wf t \<Longrightarrow> start c d t = (h, t') \<Longrightarrow> active t' = insert (h, c) (active t)"
    and start_fresh: "wf t \<Longrightarrow> start c d t = (h, t') \<Longrightarrow> 0 < h \<and> h \<notin> fst ` active t"
    and start_wf: "wf t \<Longrightarrow> start c d t = (h, t') \<Longrightarrow> wf t'"
    and clear_active: "active (clear h t) = {(h', c). (h', c) \<in> active t \<and> h' \<noteq> h}"
    and clear_wf: "wf t \<Longrightarrow> wf (clear h t)"
begin

definition owned_by :: "('c \<Rightarrow> bool) \<Rightarrow> nat \<Rightarrow> 't \<Rightarrow> bool" where
  "owned_by P h t \<longleftrightarrow> (\<forall>(h', c) \<in> active t. P c \<longrightarrow> h' = h)"

lemma rearm:
  assumes "wf t" "owned_by P old t" "start c d (clear old t) = (h, t')" "P c"
  shows "owned_by P h t'" and "wf t'" and "(h, c) \<in> active t'"
    and "\<And>Q. (\<forall>c. Q c \<longrightarrow> \<not> P c) \<Longrightarrow> owned_by Q k t \<Longrightarrow> owned_by Q k t'"
proof -
  have a: "active t' = insert (h, c) {(h', c). (h', c) \<in> active t \<and> h' \<noteq> old}"
    using start_active [OF clear_wf [OF assms(1)] assms(3)] by (simp add: clear_active)
  show "owned_by P h t'" using assms(2) a by (auto simp: owned_by_def)
  show "wf t'" by (rule start_wf [OF clear_wf [OF assms(1)] assms(3)])
  show "(h, c) \<in> active t'" using a by simp
  show "\<And>Q. (\<forall>c. Q c \<longrightarrow> \<not> P c) \<Longrightarrow> owned_by Q k t \<Longrightarrow> owned_by Q k t'"
    using a assms(4) by (auto simp: owned_by_def)
qed

lemma owned_clear: "owned_by P h t \<Longrightarrow> owned_by P h (clear k t)"
  by (auto simp: owned_by_def clear_active)

lemma owned_handle: "owned_by P h t \<Longrightarrow> (h', c) \<in> active t \<Longrightarrow> P c \<Longrightarrow> h' = h"
  by (auto simp: owned_by_def)

end

lemma live_clear: "live (clear_timeout h ts) = {(h', c). (h', c) \<in> live ts \<and> h' \<noteq> h}"
  by (auto simp: live_def clear_timeout_def)

lemma live_set: "set_timeout c d ts = (h, ts') \<Longrightarrow> live ts' = insert (h, c) (live ts) \<and> h = next_handle ts"
  by (auto simp: live_def set_timeout_def)

lemma wf_clear: "timers_wf ts \<Longrightarrow> timers_wf (clear_timeout h ts)"
  unfolding timers_wf_def live_clear
  by (auto simp: clear_timeout_def distinct_keys_filter)

lemma handles_live: "fst ` set (pending ts) = fst ` live ts"
  by (force simp: live_def)

lemma wf_set:
  assumes wf: "timers_wf ts" and s: "set_timeout c d ts = (h, ts')"
  shows "timers_wf ts'"
proof -
  have n: "next_handle ts' = next_handle ts + 1" and p: "pending ts' = pending ts @ [(next_handle ts, c, d)]"
    using s by (auto simp: set_timeout_def)
  have "next_handle ts \<notin> fst ` live ts" using wf by (auto simp: timers_wf_def)
  then have "distinct (map fst (pending ts'))"
    using wf handles_live [of ts] by (simp add: timers_wf_def p)
  then show ?thesis using wf live_set [OF s] n by (auto simp: timers_wf_def)
qed

interpretation host: timer_service set_timeout clear_timeout live timers_wf
proof
  fix t :: "'c timers" and c d h t'
  assume wf: "timers_wf t" and s: "set_timeout c d t = (h, t')"
  show "live t' = insert (h, c) (live t)" using live_set [OF s] by simp
  show "0 < h \<and> h \<notin> fst ` live t" using wf live_set [OF s] by (auto simp: timers_wf_def)
  show "timers_wf t'" by (rule wf_set [OF wf s])
next
  fix t :: "'c timers" and h
  show "live (clear_timeout h t) = {(h', c). (h', c) \<in> live t \<and> h' \<noteq> h}" by (rule live_clear)
  assume "timers_wf t"
  then show "timers_wf (clear_timeout h t)" by (rule wf_clear)
qed

lemma take_timer_Some:
  assumes "take_timer h ts = Some (c, ts')"
  shows "(h, c) \<in> live ts" and "ts' = clear_timeout h ts"
  using assms by (auto simp: take_timer_def live_def split: option.splits dest!: find_SomeD)

lemma take_timer_None: "take_timer h ts = None \<Longrightarrow> (h, c) \<notin> live ts"
  by (auto simp: take_timer_def live_def find_None_iff split: option.splits)

lemma take_timer_live: "timers_wf ts \<Longrightarrow> (h, c) \<in> live ts \<Longrightarrow> take_timer h ts = Some (c, clear_timeout h ts)"
proof -
  assume wf: "timers_wf ts" and l: "(h, c) \<in> live ts"
  obtain c' where t: "take_timer h ts = Some (c', clear_timeout h ts)"
    using take_timer_None [of h ts c] take_timer_Some(2) [of h ts] l
    by (cases "take_timer h ts") auto
  then have "(h, c') \<in> live ts" by (rule take_timer_Some)
  with wf l have "c' = c"
    by (auto simp: timers_wf_def live_def dest: eq_key_imp_eq_value)
  with t show ?thesis by simp
qed

end
