(* ===== verification/AsyncRefresh.thy ===== *)
theory AsyncRefresh
  imports Timers
begin

text \<open>
  The refreshers of \<open>winlin.utility.js\<close> on top of the host's timers. \<open>AsyncRefresh\<close> repeats one
  function. \<open>AsyncRefresh2\<close>, of which the console has one shared instance, lets every page install
  its own function: the call objects live in a store, because a timer keeps a reference to the one
  it was started for, while the refresher moves on to a new one.
\<close>

section \<open>AsyncRefresh\<close>

record async_refresh =
  refresh_interval :: jsval
  r_handler :: nat
  r_enabled :: bool
  r_timers :: "unit timers"

definition new_AsyncRefresh :: "jsval \<Rightarrow> async_refresh" where
  "new_AsyncRefresh interval =
     \<lparr>refresh_interval = interval, r_handler = 0, r_enabled = True, r_timers = no_timers\<rparr>"

definition refresh_disable :: "async_refresh \<Rightarrow> async_refresh" where
  "refresh_disable s = s\<lparr>r_enabled := False\<rparr>"

definition refresh_enable :: "async_refresh \<Rightarrow> async_refresh" where
  "refresh_enable s = s\<lparr>r_enabled := True\<rparr>"

definition refresh_is_enabled :: "async_refresh \<Rightarrow> bool" where
  "refresh_is_enabled s = r_enabled s"

definition refresh_request :: "jsval \<Rightarrow> async_refresh \<Rightarrow> async_refresh" where
  "refresh_request timeout s =
     (let ts = (if r_handler s \<noteq> 0 then clear_timeout (r_handler s) (r_timers s) else r_timers s);
          (h, ts) = set_timeout () timeout ts
      in s\<lparr>r_handler := h, r_timers := ts\<rparr>)"

text \<open>The page's calls and the event loop's firing of a timer, which runs \<open>__pfn\<close>.\<close>

datatype refresh_event = REnable | RDisable | RRequest jsval | RFire nat

fun refresh_step :: "refresh_event \<Rightarrow> async_refresh \<Rightarrow> async_refresh" where
  "refresh_step REnable s = refresh_enable s"
| "refresh_step RDisable s = refresh_disable s"
| "refresh_step (RRequest timeout) s = refresh_request timeout s"
| "refresh_step (RFire h) s =
     (case take_timer h (r_timers s) of
        None \<Rightarrow> s
      | Some (_, ts) \<Rightarrow> s\<lparr>r_timers := ts\<rparr>)"

definition refresh_run :: "refresh_event list \<Rightarrow> async_refresh \<Rightarrow> async_refresh" where
  "refresh_run es s = foldl (\<lambda>s e. refresh_step e s) s es"

section \<open>AsyncRefresh2\<close>

record 'p call =
  pfn :: "'p option"
  timeout :: jsval
  call_enabled :: bool
  call_handler :: nat

text \<open>
  \<open>calls\<close> is the store of call objects, \<open>cur\<close> the address of \<open>this.__call\<close>; a timer carries the
  address of the call it was started for. \<open>invoked\<close> records which call's function was run.
\<close>

record 'p async_refresh2 =
  on_before_call_pfn :: bool
  calls :: "'p call list"
  cur :: nat
  timers :: "nat timers"
  invoked :: "nat list"

definition new_AsyncRefresh2 :: "'p async_refresh2" where
  "new_AsyncRefresh2 =
     \<lparr>on_before_call_pfn = False,
      calls = [\<lparr>pfn = None, timeout = Num (num_of 0), call_enabled = False, call_handler = 0\<rparr>],
      cur = 0, timers = no_timers, invoked = []\<rparr>"

definition the_call :: "'p async_refresh2 \<Rightarrow> 'p call" where
  "the_call s = calls s ! cur s"

definition stop :: "'p async_refresh2 \<Rightarrow> 'p async_refresh2" where
  "stop s = s\<lparr>calls := (calls s)[cur s := (the_call s)\<lparr>call_enabled := False\<rparr>]\<rparr>"

text \<open>
  \<open>refresh_change\<close> clears \<open>this.__handler\<close>, a field that no code sets, so that call has no effect:
  the timer of the previous call stays pending and is only neutralised by the disabled flag.
\<close>

definition refresh_change :: "'p option \<Rightarrow> jsval \<Rightarrow> 'p async_refresh2 \<Rightarrow> 'p async_refresh2" where
  "refresh_change f t s =
     (let s = (if call_handler (the_call s) \<noteq> 0 then s\<lparr>timers := clear_timeout 0 (timers s)\<rparr> else s);
          old = (calls s)[cur s := (the_call s)\<lparr>call_enabled := False\<rparr>]
      in s\<lparr>calls := old @ [\<lparr>pfn = f, timeout = t, call_enabled = True, call_handler = 0\<rparr>],
           cur := length (calls s)\<rparr>)"

definition initialize :: "'p option \<Rightarrow> jsval \<Rightarrow> 'p async_refresh2 \<Rightarrow> 'p async_refresh2" where
  "initialize f t s = refresh_change f t s"

definition request :: "jsval \<Rightarrow> 'p async_refresh2 \<Rightarrow> 'p async_refresh2" where
  "request t s =
     (let c = the_call s;
          ts = (if call_handler c \<noteq> 0 then clear_timeout (call_handler c) (timers s) else timers s);
          t = (if nullish t then timeout c else t)
      in if pfn c = None \<or> nullish t then s\<lparr>timers := ts\<rparr>
         else let (h, ts) = set_timeout (cur s) t ts
              in s\<lparr>timers := ts, calls := (calls s)[cur s := c\<lparr>call_handler := h\<rparr>]\<rparr>)"

definition restart :: "'p async_refresh2 \<Rightarrow> 'p async_refresh2" where
  "restart s =
     request (Num (num_of 0)) (s\<lparr>calls := (calls s)[cur s := (the_call s)\<lparr>call_enabled := True\<rparr>]\<rparr>)"

datatype 'p refresh_op =
    Initialize "'p option" jsval
  | Change "'p option" jsval
  | Stop
  | Restart
  | Request jsval
  | SetHook bool

fun apply_op :: "'p refresh_op \<Rightarrow> 'p async_refresh2 \<Rightarrow> 'p async_refresh2" where
  "apply_op (Initialize f t) s = initialize f t s"
| "apply_op (Change f t) s = refresh_change f t s"
| "apply_op Stop s = stop s"
| "apply_op Restart s = restart s"
| "apply_op (Request t) s = request t s"
| "apply_op (SetHook b) s = s\<lparr>on_before_call_pfn := b\<rparr>"

definition apply_ops :: "'p refresh_op list \<Rightarrow> 'p async_refresh2 \<Rightarrow> 'p async_refresh2" where
  "apply_ops ops s = foldl (\<lambda>s p. apply_op p s) s ops"

text \<open>
  A timer fires: the closure that \<open>request\<close> built. The installed hook is the page's own code: what it
  calls on the refresher and what it answers are part of the event, as are the calls the page's
  function makes when it is run.
\<close>

definition fire :: "nat \<Rightarrow> 'p refresh_op list \<Rightarrow> bool \<Rightarrow> 'p refresh_op list \<Rightarrow> 'p async_refresh2 \<Rightarrow> 'p async_refresh2" where
  "fire h hook_ops answer pfn_ops s =
     (case take_timer h (timers s) of
        None \<Rightarrow> s
      | Some (a, ts) \<Rightarrow>
          let s = s\<lparr>timers := ts\<rparr>
          in if \<not> call_enabled (calls s ! a) then s
             else if on_before_call_pfn s \<and> \<not> answer then apply_ops hook_ops s
             else let s = (if on_before_call_pfn s then apply_ops hook_ops s else s)
                  in apply_ops pfn_ops (s\<lparr>invoked := invoked s @ [a]\<rparr>))"

datatype 'p loop_event =
    Op "'p refresh_op"
  | Fire nat "'p refresh_op list" bool "'p refresh_op list"

fun loop_step :: "'p loop_event \<Rightarrow> 'p async_refresh2 \<Rightarrow> 'p async_refresh2" where
  "loop_step (Op p) s = apply_op p s"
| "loop_step (Fire h hook_ops answer pfn_ops) s = fire h hook_ops answer pfn_ops s"

inductive reachable :: "'p async_refresh2 \<Rightarrow> bool" where
  init: "reachable new_AsyncRefresh2"
| step: "reachable s \<Longrightarrow> reachable (loop_step e s)"

section \<open>Invariants\<close>

text \<open>\<open>AsyncRefresh\<close>: the remembered handle is the only one that can be pending.\<close>

definition refresh_inv :: "async_refresh \<Rightarrow> bool" where
  "refresh_inv s \<longleftrightarrow> timers_wf (r_timers s) \<and> host.owned_by (\<lambda>_. True) (r_handler s) (r_timers s)"

lemma no_timers_wf: "timers_wf no_timers" and live_no_timers: "live no_timers = {}"
  by (simp_all add: timers_wf_def no_timers_def live_def)

lemma clear_zero: "timers_wf ts \<Longrightarrow> clear_timeout 0 ts = ts"
proof -
  assume "timers_wf ts"
  then have "\<forall>x \<in> set (pending ts). fst x \<noteq> 0" by (fastforce simp: timers_wf_def live_def)
  then have "filter (\<lambda>(h, _). h \<noteq> 0) (pending ts) = pending ts"
    by (intro filter_True) (auto simp: case_prod_beta)
  then show ?thesis by (simp add: clear_timeout_def)
qed

lemma refresh_inv_step: "refresh_inv s \<Longrightarrow> refresh_inv (refresh_step e s)"
proof (cases e)
  case (RRequest t)
  assume inv: "refresh_inv s"
  obtain h ts where s: "set_timeout () t (clear_timeout (r_handler s) (r_timers s)) = (h, ts)"
    by (cases "set_timeout () t (clear_timeout (r_handler s) (r_timers s))")
  have z: "(if r_handler s \<noteq> 0 then clear_timeout (r_handler s) (r_timers s) else r_timers s) =
      clear_timeout (r_handler s) (r_timers s)"
    using inv by (simp add: refresh_inv_def clear_zero)
  have "refresh_step e s = s\<lparr>r_handler := h, r_timers := ts\<rparr>"
    unfolding RRequest refresh_step.simps refresh_request_def z Let_def s by simp
  then show ?thesis using inv host.rearm(1,2) [OF _ _ s, of "\<lambda>_. True"]
    by (simp add: refresh_inv_def)
next
  case (RFire h)
  assume "refresh_inv s"
  then show ?thesis using RFire
    by (auto simp: refresh_inv_def wf_clear host.owned_clear split: option.splits dest!: take_timer_Some(2))
qed (simp_all add: refresh_inv_def refresh_enable_def refresh_disable_def)

lemma refresh_inv_run: "refresh_inv s \<Longrightarrow> refresh_inv (refresh_run es s)"
  by (induction es arbitrary: s) (simp_all add: refresh_run_def refresh_inv_step)

text \<open>
  \<open>AsyncRefresh2\<close>: only the current call can be enabled, and for every call the handle it remembers
  is the only timer that can be pending for it.
\<close>

definition inv2 :: "'p async_refresh2 \<Rightarrow> bool" where
  "inv2 s \<longleftrightarrow>
     timers_wf (timers s) \<and> cur s < length (calls s) \<and>
     (\<forall>a < length (calls s). call_enabled (calls s ! a) \<longrightarrow> a = cur s) \<and>
     (\<forall>(h, a) \<in> live (timers s). a < length (calls s) \<and> pfn (calls s ! a) \<noteq> None) \<and>
     (\<forall>a < length (calls s). host.owned_by (\<lambda>a'. a' = a) (call_handler (calls s ! a)) (timers s))"

lemma inv2_new: "inv2 new_AsyncRefresh2"
  by (simp add: inv2_def new_AsyncRefresh2_def no_timers_wf live_no_timers host.owned_by_def)

lemma inv2_enabled: "inv2 s \<Longrightarrow> inv2 (s\<lparr>calls := (calls s)[cur s := (the_call s)\<lparr>call_enabled := b\<rparr>]\<rparr>)"
  unfolding inv2_def the_call_def by (auto simp: nth_list_update)

lemma inv2_stop: "inv2 s \<Longrightarrow> inv2 (stop s)"
  unfolding stop_def by (rule inv2_enabled)

lemma refresh_change_eq:
  "inv2 s \<Longrightarrow> refresh_change f t s =
     s\<lparr>calls := (calls s)[cur s := (the_call s)\<lparr>call_enabled := False\<rparr>] @
        [\<lparr>pfn = f, timeout = t, call_enabled = True, call_handler = 0\<rparr>], cur := length (calls s)\<rparr>"
  by (simp add: refresh_change_def inv2_def clear_zero Let_def the_call_def)

lemma inv2_change:
  assumes "inv2 s" shows "inv2 (refresh_change f t s)"
proof -
  have "\<forall>(h, a) \<in> live (timers s). a \<noteq> length (calls s)" using assms by (auto simp: inv2_def)
  then show ?thesis unfolding refresh_change_eq [OF assms] using assms
    by (auto simp: inv2_def nth_append nth_list_update the_call_def host.owned_by_def)
qed

lemma inv2_request:
  assumes inv: "inv2 s" shows "inv2 (request t s)"
proof -
  let ?c = "the_call s" and ?ts = "clear_timeout (call_handler (the_call s)) (timers s)"
  have z: "(if call_handler ?c \<noteq> 0 then clear_timeout (call_handler ?c) (timers s) else timers s) = ?ts"
    using inv by (simp add: inv2_def clear_zero)
  show ?thesis
  proof (cases "pfn ?c = None \<or> nullish (if nullish t then timeout ?c else t)")
    case True
    then have "request t s = s\<lparr>timers := ?ts\<rparr>" unfolding request_def Let_def z by simp
    then show ?thesis using inv by (auto simp: inv2_def wf_clear live_clear host.owned_clear)
  next
    case False
    obtain h ts where r: "set_timeout (cur s) (if nullish t then timeout ?c else t) ?ts = (h, ts)"
      by (cases "set_timeout (cur s) (if nullish t then timeout ?c else t) ?ts")
    have e: "request t s = s\<lparr>timers := ts, calls := (calls s)[cur s := ?c\<lparr>call_handler := h\<rparr>]\<rparr>"
      using False unfolding request_def Let_def z r by auto
    have o: "host.owned_by (\<lambda>a'. a' = cur s) (call_handler ?c) (timers s)" and w: "timers_wf (timers s)"
      using inv by (simp_all add: inv2_def the_call_def)
    note m = host.rearm [OF w o r refl]
    have l: "live ts = insert (h, cur s) (live ?ts)" using live_set [OF r] by simp
    have "host.owned_by (\<lambda>a'. a' = a) (call_handler (calls s ! a)) ts" if "a < length (calls s)" "a \<noteq> cur s" for a
      using m(4) [of "\<lambda>a'. a' = a" "call_handler (calls s ! a)"] inv that by (auto simp: inv2_def)
    then show ?thesis unfolding e using inv m(1,2) False
      by (auto simp: inv2_def nth_list_update l live_clear the_call_def split: if_splits)
  qed
qed

lemma inv2_op: "inv2 s \<Longrightarrow> inv2 (apply_op p s)"
proof (cases p)
  case (SetHook b)
  assume "inv2 s"
  with SetHook show ?thesis by (simp add: inv2_def)
qed (simp_all add: initialize_def inv2_change inv2_stop inv2_request restart_def inv2_enabled)

lemma inv2_ops: "inv2 s \<Longrightarrow> inv2 (apply_ops ps s)"
  by (induction ps arbitrary: s) (simp_all add: apply_ops_def inv2_op)

lemma inv2_fire: "inv2 s \<Longrightarrow> inv2 (fire h hook_ops answer pfn_ops s)"
proof -
  assume inv: "inv2 s"
  have t: "inv2 (s\<lparr>timers := clear_timeout h (timers s)\<rparr>)"
    using inv by (auto simp: inv2_def wf_clear live_clear host.owned_clear)
  have i: "inv2 (s'\<lparr>invoked := x\<rparr>)" if "inv2 s'" for s' :: "'p async_refresh2" and x
    using that by (simp add: inv2_def)
  show ?thesis
  proof (cases "take_timer h (timers s)")
    case None
    then show ?thesis using inv by (simp add: fire_def)
  next
    case (Some p)
    then obtain a where "take_timer h (timers s) = Some (a, clear_timeout h (timers s))"
      by (cases p) (auto dest: take_timer_Some(2))
    then show ?thesis by (simp add: fire_def Let_def inv2_ops i [OF inv2_ops [OF t]] i [OF t] t)
  qed
qed

lemma reachable_inv2: "reachable s \<Longrightarrow> inv2 s"
proof (induction rule: reachable.induct)
  case init
  then show ?case by (rule inv2_new)
next
  case (step s e)
  then show ?case by (cases e) (simp_all add: inv2_op inv2_fire)
qed

lemma op_invoked: "invoked (apply_op p s) = invoked s"
  by (cases p) (auto simp: initialize_def refresh_change_def stop_def restart_def request_def Let_def
      split: prod.splits)

lemma ops_invoked: "invoked (apply_ops ps s) = invoked s"
  by (induction ps arbitrary: s) (simp_all add: apply_ops_def op_invoked)

lemma op_cur: "inv2 s \<Longrightarrow> cur s \<le> cur (apply_op p s)"
  by (cases p) (auto simp: initialize_def refresh_change_eq stop_def restart_def request_def Let_def inv2_def
      split: prod.splits)

lemma ops_cur: "inv2 s \<Longrightarrow> cur s \<le> cur (apply_ops ps s)"
proof (induction ps arbitrary: s)
  case (Cons p ps)
  then show ?case using op_cur [of s p] inv2_op [of s p] by (fastforce simp: apply_ops_def)
qed (simp add: apply_ops_def)

text \<open>What firing a pending timer does: only the current call, while it is enabled, gets through.\<close>

lemma fire_blocked:
  assumes "inv2 s" "(h, a) \<in> live (timers s)" "a \<noteq> cur s \<or> \<not> call_enabled (the_call s)"
  shows "fire h hook_ops answer pfn_ops s = s\<lparr>timers := clear_timeout h (timers s)\<rparr>"
proof -
  have "take_timer h (timers s) = Some (a, clear_timeout h (timers s))"
    using assms by (intro take_timer_live) (simp_all add: inv2_def)
  moreover have "\<not> call_enabled (calls s ! a)" using assms by (auto simp: inv2_def the_call_def)
  ultimately show ?thesis by (simp add: fire_def)
qed

lemma fire_runs:
  assumes "inv2 s" "(h, cur s) \<in> live (timers s)" "call_enabled (the_call s)"
    "on_before_call_pfn s \<longrightarrow> answer"
  shows "invoked (fire h hook_ops answer pfn_ops s) = invoked s @ [cur s]"
proof -
  have "take_timer h (timers s) = Some (cur s, clear_timeout h (timers s))"
    using assms by (intro take_timer_live) (simp_all add: inv2_def)
  then show ?thesis using assms(3,4) by (simp add: fire_def the_call_def Let_def ops_invoked)
qed

lemma fire_invoked:
  assumes "inv2 s"
  shows "invoked (fire h hook_ops answer pfn_ops s) \<in> {invoked s, invoked s @ [cur s]}"
proof (cases "take_timer h (timers s)")
  case None
  then show ?thesis by (simp add: fire_def)
next
  case (Some p)
  then obtain a where t: "take_timer h (timers s) = Some (a, clear_timeout h (timers s))"
    by (cases p) (auto dest: take_timer_Some(2))
  then have l: "(h, a) \<in> live (timers s)" by (rule take_timer_Some)
  show ?thesis
  proof (cases "a = cur s \<and> call_enabled (the_call s)")
    case True
    then show ?thesis
      using t by (simp add: fire_def the_call_def Let_def ops_invoked)
  next
    case False
    then show ?thesis using fire_blocked [OF assms l] by auto
  qed
qed

lemma fire_cur:
  assumes inv: "inv2 s" shows "cur s \<le> cur (fire h hook_ops answer pfn_ops s)"
proof -
  let ?s = "s\<lparr>timers := clear_timeout h (timers s)\<rparr>"
  have t: "inv2 ?s" using inv by (auto simp: inv2_def wf_clear live_clear host.owned_clear)
  have i: "inv2 (s'\<lparr>invoked := x\<rparr>)" if "inv2 s'" for s' :: "'a async_refresh2" and x
    using that by (simp add: inv2_def)
  have 1: "cur s \<le> cur (apply_ops hook_ops ?s)" using ops_cur [OF t, of hook_ops] by simp
  have 2: "cur s \<le> cur (apply_ops pfn_ops ((apply_ops hook_ops ?s)\<lparr>invoked := x\<rparr>))" for x
    using 1 ops_cur [OF i [OF inv2_ops [OF t, of hook_ops], of x], of pfn_ops] by simp
  have 3: "cur s \<le> cur (apply_ops pfn_ops (?s\<lparr>invoked := x\<rparr>))" for x
    using ops_cur [OF i [OF t, of x], of pfn_ops] by simp
  show ?thesis
  proof (cases "take_timer h (timers s)")
    case (Some p)
    then have "\<exists>a. take_timer h (timers s) = Some (a, clear_timeout h (timers s))"
      by (cases p) (auto dest: take_timer_Some(2))
    then show ?thesis using 1 2 3 by (auto simp: fire_def Let_def simp del: async_refresh2.update_convs)
  qed (simp add: fire_def)
qed

definition loop_run :: "'p loop_event list \<Rightarrow> 'p async_refresh2 \<Rightarrow> 'p async_refresh2" where
  "loop_run es s = foldl (\<lambda>s e. loop_step e s) s es"

lemma run_invoked:
  "inv2 s \<Longrightarrow> n \<le> cur s \<Longrightarrow> \<exists>ys. invoked (loop_run es s) = invoked s @ ys \<and> (\<forall>a \<in> set ys. n \<le> a)"
proof (induction es arbitrary: s)
  case Nil
  then show ?case by (simp add: loop_run_def)
next
  case (Cons e es)
  have inv: "inv2 (loop_step e s)" using Cons.prems by (cases e) (simp_all add: inv2_op inv2_fire)
  have le: "n \<le> cur (loop_step e s)"
  proof (cases e)
    case (Op p)
    then show ?thesis using Cons.prems op_cur [of s p] by simp
  next
    case (Fire h hook_ops answer pfn_ops)
    then show ?thesis using Cons.prems fire_cur [of s h hook_ops answer pfn_ops] by simp
  qed
  have "invoked (loop_step e s) \<in> {invoked s, invoked s @ [cur s]}"
    using fire_invoked [OF Cons.prems(1)] by (cases e) (simp_all add: op_invoked)
  then obtain xs where x: "invoked (loop_step e s) = invoked s @ xs" "set xs \<subseteq> {cur s}" by force
  from Cons.IH [OF inv le] obtain ys where
    y: "invoked (loop_run es (loop_step e s)) = invoked (loop_step e s) @ ys" "\<forall>a \<in> set ys. n \<le> a" by blast
  have "invoked (loop_run (e # es) s) = invoked s @ (xs @ ys)" using x y by (simp add: loop_run_def)
  then show ?case using x(2) y(2) Cons.prems(2) by (intro exI [of _ "xs @ ys"]) auto
qed

lemma request_arms:
  assumes inv: "inv2 s" and p: "pfn (the_call s) = Some f" and t: "\<not> nullish (timeout (the_call s)) \<or> \<not> nullish t"
  shows "\<exists>h. {x \<in> live (timers (request t s)). snd x = cur s} = {(h, cur s)} \<and>
    inv2 (request t s) \<and> cur (request t s) = cur s \<and> invoked (request t s) = invoked s \<and>
    on_before_call_pfn (request t s) = on_before_call_pfn s \<and>
    call_enabled (the_call (request t s)) = call_enabled (the_call s)"
proof -
  let ?c = "the_call s" and ?ts = "clear_timeout (call_handler (the_call s)) (timers s)"
  have z: "(if call_handler ?c \<noteq> 0 then clear_timeout (call_handler ?c) (timers s) else timers s) = ?ts"
    using inv by (simp add: inv2_def clear_zero)
  obtain h ts where r: "set_timeout (cur s) (if nullish t then timeout ?c else t) ?ts = (h, ts)"
    by (cases "set_timeout (cur s) (if nullish t then timeout ?c else t) ?ts")
  have e: "request t s = s\<lparr>timers := ts, calls := (calls s)[cur s := ?c\<lparr>call_handler := h\<rparr>]\<rparr>"
    using p t unfolding request_def Let_def z r by auto
  have o: "host.owned_by (\<lambda>a'. a' = cur s) (call_handler ?c) (timers s)" and w: "timers_wf (timers s)"
    using inv by (simp_all add: inv2_def the_call_def)
  have "{x \<in> live ts. snd x = cur s} = {(h, cur s)}"
    using host.rearm(1,3) [OF w o r refl] by (auto simp: host.owned_by_def)
  then show ?thesis using inv2_request [OF inv, of t] inv unfolding e
    by (intro exI [of _ h]) (simp add: the_call_def inv2_def)
qed

section \<open>Properties\<close>

text \<open>
  \<open>AsyncRefresh\<close> never has two refreshes pending: after any sequence of requests, enabling,
  disabling and timers firing, every pending timer is the one whose handle is remembered, and a
  request leaves exactly that one pending.
\<close>

theorem refresh_single_timer:
  "live (r_timers (refresh_run es (new_AsyncRefresh interval))) \<subseteq>
     {(r_handler (refresh_run es (new_AsyncRefresh interval)), ())} \<and>
   live (r_timers (refresh_request t (refresh_run es (new_AsyncRefresh interval)))) =
     {(r_handler (refresh_request t (refresh_run es (new_AsyncRefresh interval))), ())}"
proof -
  let ?s = "refresh_run es (new_AsyncRefresh interval)"
  have "refresh_inv (new_AsyncRefresh interval)"
    by (simp add: refresh_inv_def new_AsyncRefresh_def no_timers_wf live_no_timers host.owned_by_def)
  then have inv: "refresh_inv ?s" by (rule refresh_inv_run)
  have "refresh_inv (refresh_request t ?s)" using refresh_inv_step [OF inv, of "RRequest t"] by simp
  moreover have "\<exists>h. (h, ()) \<in> live (r_timers (refresh_request t ?s))"
    using live_set by (fastforce simp: refresh_request_def Let_def split: prod.splits)
  ultimately show ?thesis using inv by (auto simp: refresh_inv_def host.owned_by_def)
qed

text \<open>
  C4. The console's refresher never calls a page's function after the page was left: once
  \<open>refresh_change\<close> has installed a new function, no later event, whatever timers fire and whatever
  hooks and page functions do, invokes a call that was current before.
\<close>

theorem replaced_refresh_never_runs:
  assumes "reachable s"
  shows "\<exists>ys. invoked (loop_run es (refresh_change f t s)) = invoked s @ ys \<and> (\<forall>a \<in> set ys. cur s < a)"
proof -
  have inv: "inv2 s" by (rule reachable_inv2 [OF assms])
  have c: "Suc (cur s) \<le> cur (refresh_change f t s)" and i: "invoked (refresh_change f t s) = invoked s"
    using inv op_invoked [of "Change f t" s] by (simp_all add: refresh_change_eq [OF inv] inv2_def)
  show ?thesis using run_invoked [OF inv2_change [OF inv] c, of es] unfolding i by (simp add: Suc_le_eq)
qed

theorem replaced_refresh_never_runs_witness:
  "\<exists>ys. invoked (loop_run [Op (Request Undef), Fire 2 [] True [], Fire 1 [] True []]
      (refresh_change (Some ''streams'') (Num (num_of 3000))
        (request (Num (num_of 0)) (refresh_change (Some ''vhosts'') (Num (num_of 3000)) new_AsyncRefresh2)))) = ys \<and>
     (\<forall>a \<in> set ys. 1 < a)"
proof -
  let ?s = "request (Num (num_of 0)) (refresh_change (Some ''vhosts'') (Num (num_of 3000)) new_AsyncRefresh2)"
  have "reachable (loop_step (Op (Request (Num (num_of 0))))
      (loop_step (Op (Change (Some ''vhosts'') (Num (num_of 3000)))) new_AsyncRefresh2))"
    by (intro reachable.intros)
  then have r: "reachable ?s" by simp
  have c: "cur ?s = 1" "invoked ?s = []"
    by (simp_all add: request_def refresh_change_def new_AsyncRefresh2_def the_call_def nullish_def
        set_timeout_def Let_def)
  show ?thesis using replaced_refresh_never_runs [OF r, of "[Op (Request Undef), Fire 2 [] True [], Fire 1 [] True []]"
      "Some ''streams''" "Num (num_of 3000)"] unfolding c by simp
qed

text \<open>
  C5. The refresh cycle makes progress and never doubles: a request for an installed function leaves
  exactly one timer pending for the current call; when it fires, the function is run if the
  refresher was not stopped and the hook, if any, agrees, and otherwise nothing is run.
\<close>

theorem request_runs_once:
  assumes "reachable s" and "pfn (the_call s) = Some f" and "\<not> nullish (timeout (the_call s)) \<or> \<not> nullish t"
  shows "\<exists>h. {x \<in> live (timers (request t s)). snd x = cur s} = {(h, cur s)} \<and>
    (\<forall>hook_ops answer pfn_ops.
       invoked (fire h hook_ops answer pfn_ops (request t s)) =
         invoked s @ (if call_enabled (the_call s) \<and> (on_before_call_pfn s \<longrightarrow> answer) then [cur s] else []))"
proof -
  obtain h where h: "{x \<in> live (timers (request t s)). snd x = cur s} = {(h, cur s)}"
    "inv2 (request t s)" "cur (request t s) = cur s" "invoked (request t s) = invoked s"
    "on_before_call_pfn (request t s) = on_before_call_pfn s"
    "call_enabled (the_call (request t s)) = call_enabled (the_call s)"
    using request_arms [OF reachable_inv2 [OF assms(1)] assms(2,3)] by blast
  then have l: "(h, cur (request t s)) \<in> live (timers (request t s))" by auto
  have "invoked (fire h hook_ops answer pfn_ops (request t s)) =
      invoked s @ (if call_enabled (the_call s) \<and> (on_before_call_pfn s \<longrightarrow> answer) then [cur s] else [])"
    for hook_ops answer pfn_ops
  proof (cases "call_enabled (the_call s)")
    case False
    then show ?thesis using fire_blocked [OF h(2) l] h by simp
  next
    case en: True
    show ?thesis
    proof (cases "on_before_call_pfn s \<longrightarrow> answer")
      case True
      then show ?thesis using fire_runs [OF h(2) l] en h by simp
    next
      case False
      have "take_timer h (timers (request t s)) = Some (cur s, clear_timeout h (timers (request t s)))"
        using h(2) l h(3) by (intro take_timer_live) (simp_all add: inv2_def)
      then show ?thesis using False h by (simp add: fire_def Let_def ops_invoked)
    qed
  qed
  with h(1) show ?thesis by blast
qed

theorem request_runs_once_witness:
  "\<exists>h. {x \<in> live (timers (request Undef (refresh_change (Some ()) (Num (num_of 3000)) new_AsyncRefresh2))). snd x = 1} = {(h, 1)}"
proof -
  let ?s = "refresh_change (Some ()) (Num (num_of 3000)) new_AsyncRefresh2"
  have "reachable (loop_step (Op (Change (Some ()) (Num (num_of 3000)))) new_AsyncRefresh2)"
    by (intro reachable.intros)
  then have r: "reachable ?s" by simp
  have c: "cur ?s = 1" "pfn (the_call ?s) = Some ()" "\<not> nullish (timeout (the_call ?s))"
    by (simp_all add: refresh_change_def new_AsyncRefresh2_def the_call_def nullish_def Let_def)
  show ?thesis using request_runs_once [OF r c(2), of Undef] c by auto
qed

text \<open>
  Changing the function does not take back the timer of the function it replaces: the code
  clears a handle that nothing ever sets, so every pending timer stays pending.
\<close>

theorem refresh_change_leaks_timer:
  assumes "reachable s"
  shows "timers (refresh_change f t s) = timers s \<and>
    (\<forall>h. (h, cur s) \<in> live (timers s) \<longrightarrow> (h, cur s) \<in> live (timers (refresh_change f t s)))"
  by (simp add: refresh_change_eq [OF reachable_inv2 [OF assms]])

theorem refresh_change_leaks_timer_witness:
  "timers (refresh_change (Some ()) (Num (num_of 3000)) new_AsyncRefresh2) = timers (new_AsyncRefresh2 :: unit async_refresh2)"
  using refresh_change_leaks_timer [OF reachable.init, of "Some ()" "Num (num_of 3000)"] by simp

end
