(* ===== verification/ConsoleServer.thy ===== *)
theory ConsoleServer
  imports UrlParse
begin

text \<open>
  The console's navigator \<open>$sc_nav\<close>, the connected server \<open>$sc_server\<close> and the API service
  \<open>MSCApi\<close> of \<open>srs.console.js\<close>. What AngularJS's \<open>$location\<close> answers is a record.
\<close>

section \<open>The navigator\<close>

record sc_nav =
  selected :: jsval

definition new_sc_nav :: sc_nav where
  "new_sc_nav = \<lparr>selected = Null\<rparr>"

datatype nav_entry = Control | Summary | Vhosts | Streams | Clients | Configs

fun nav_path :: "nav_entry \<Rightarrow> string" where
  "nav_path Control = ''/console''"
| "nav_path Summary = ''/summaries''"
| "nav_path Vhosts = ''/vhosts''"
| "nav_path Streams = ''/streams''"
| "nav_path Clients = ''/clients''"
| "nav_path Configs = ''/configs''"

definition nav_in :: "nav_entry \<Rightarrow> sc_nav \<Rightarrow> sc_nav" where
  "nav_in e n = n\<lparr>selected := Str (nav_path e)\<rparr>"

definition go_summary :: string where
  "go_summary = ''/summaries''"

definition is_selected :: "sc_nav \<Rightarrow> jsval \<Rightarrow> bool" where
  "is_selected n v = strict_eq v (selected n)"

section \<open>The connected server\<close>

record ng_location =
  ng_abs_url :: string
  ng_path :: string
  ng_search :: "jsval props"
  ng_protocol :: string
  ng_host :: string
  ng_port :: jsnum

record sc_server =
  schema :: jsval
  host :: jsval
  port :: jsval
  rtmp :: "jsval list"
  http :: "jsval list"

definition new_sc_server :: sc_server where
  "new_sc_server =
     \<lparr>schema = Str ''http'', host = Null, port = Num (num_of 1985), rtmp = [Num (num_of 1935)],
      http = [Num (num_of 8080)]\<rparr>"

definition baseurl :: "sc_server \<Rightarrow> string" where
  "baseurl s =
     to_str (schema s) @ ''://'' @ to_str (host s) @
     (if strict_eq (port s) (Num (num_of 80)) then [] else '':'' @ to_str (port s))"

definition jsonp :: "sc_server \<Rightarrow> string \<Rightarrow> string" where
  "jsonp s url = baseurl s @ url @ ''?callback=JSON_CALLBACK''"

definition jsonp_delete :: "sc_server \<Rightarrow> string \<Rightarrow> string" where
  "jsonp_delete s url = jsonp s url @ ''&method=DELETE''"

definition jsonp_query :: "sc_server \<Rightarrow> string \<Rightarrow> string \<Rightarrow> string" where
  "jsonp_query s url query = baseurl s @ url @ ''?callback=JSON_CALLBACK&'' @ query"

definition nav_query :: "sc_server \<Rightarrow> jsval props \<Rightarrow> jsval props" where
  "nav_query s search =
     (let query = foldl (\<lambda>q (k, v). prop_set q k v) [] search;
          query = prop_set query ''schema'' (schema s);
          query = prop_set query ''host'' (host s)
      in prop_set query ''port'' (port s))"

definition query_values :: "jsval \<Rightarrow> jsval list" where
  "query_values v = (case v of Arr vs \<Rightarrow> vs | _ \<Rightarrow> [v])"

definition query_pairs :: "jsval props \<Rightarrow> string list" where
  "query_pairs query =
     concat (map (\<lambda>(k, v). map (\<lambda>x. k @ ''='' @ to_str x) (query_values v)) query)"

definition buildNavUrl :: "sc_server \<Rightarrow> ng_location \<Rightarrow> string" where
  "buildNavUrl s loc =
     (let url = ng_abs_url loc;
          url = (if 0 < index_of url ''?'' then slice url 0 (index_of url ''?'') else url)
      in url @ ''?'' @ join ''&'' (query_pairs (nav_query s (ng_search loc))))"

definition init :: "ng_location \<Rightarrow> sc_server \<Rightarrow> sc_server" where
  "init loc s =
     (let q = field (ng_search loc);
          s = s\<lparr>schema := (if truthy (q ''schema'') then q ''schema'' else Str (ng_protocol loc))\<rparr>;
          s = s\<lparr>host := (if truthy (q ''host'') then q ''host'' else Str (ng_host loc))\<rparr>;
          s = s\<lparr>port := (if truthy (q ''port'') then q ''port'' else Num (ng_port loc))\<rparr>
      in if truthy (q ''http'') then s\<lparr>http := [q ''http'']\<rparr> else s)"

section \<open>The API service\<close>

text \<open>Every operation sends one JSONP request; the model is the address it is sent to.\<close>

datatype api_call =
    Versions_get
  | Summaries_get
  | Vhosts_get
  | Vhosts_get2 jsval
  | Streams_get
  | Streams_get2 jsval
  | Clients_get
  | Clients_get2 jsval
  | Clients_delete jsval
  | Configs_raw
  | Configs_get

fun api_url :: "sc_server \<Rightarrow> api_call \<Rightarrow> string" where
  "api_url s Versions_get = jsonp s ''/api/v1/versions''"
| "api_url s Summaries_get = jsonp s ''/api/v1/summaries''"
| "api_url s Vhosts_get = jsonp s ''/api/v1/vhosts/''"
| "api_url s (Vhosts_get2 oid) = jsonp s (''/api/v1/vhosts/'' @ to_str oid)"
| "api_url s Streams_get = jsonp s ''/api/v1/streams/''"
| "api_url s (Streams_get2 oid) = jsonp s (''/api/v1/streams/'' @ to_str oid)"
| "api_url s Clients_get = jsonp s ''/api/v1/clients/''"
| "api_url s (Clients_get2 oid) = jsonp s (''/api/v1/clients/'' @ to_str oid)"
| "api_url s (Clients_delete oid) = jsonp_delete s (''/api/v1/clients/'' @ to_str oid)"
| "api_url s Configs_raw = jsonp_query s ''/api/v1/raw'' ''rpc=raw''"
| "api_url s Configs_get = jsonp_query s ''/api/v1/raw'' ''rpc=query&scope=global''"

section \<open>Facts\<close>

lemma nav_query_get:
  "prop_get (nav_query s search) k =
     (if k = ''port'' then Some (port s) else if k = ''host'' then Some (host s)
      else if k = ''schema'' then Some (schema s) else map_of (rev search) k)"
  using props.get_puts [of "[]" search k]
  by (simp add: nav_query_def Let_def props.get_put props.get_none split: option.splits)

lemma nav_query_wf: "props_wf (nav_query s search)"
  using props.wf_puts [OF props.wf_none, of search] by (simp add: nav_query_def Let_def props.wf_put)

lemma prop_get_mem: "props_wf ps \<Longrightarrow> prop_get ps k = Some v \<longleftrightarrow> (k, v) \<in> set ps"
  by (simp add: prop_get_def props_wf_def prop_keys_def)

lemma query_pairs_mem:
  "p \<in> set (query_pairs q) \<longleftrightarrow> (\<exists>k v x. (k, v) \<in> set q \<and> x \<in> set (query_values v) \<and> p = k @ ''='' @ to_str x)"
  by (fastforce simp: query_pairs_def)

section \<open>Properties\<close>

text \<open>
  The navigation address carries the connection: it is the current address without its query,
  then as \<open>key=value\<close> pairs the server's scheme, host and port, each under its own key only, and
  every other parameter of the current search, arrays value by value.
\<close>

theorem nav_url_parameters:
  "\<exists>base. buildNavUrl s loc = base @ ''?'' @ join ''&'' (query_pairs (nav_query s (ng_search loc))) \<and>
     prefix base (ng_abs_url loc) \<and>
   (\<forall>p. p \<in> set (query_pairs (nav_query s (ng_search loc))) \<longleftrightarrow>
     (\<exists>x \<in> set (query_values (schema s)). p = ''schema='' @ to_str x) \<or>
     (\<exists>x \<in> set (query_values (host s)). p = ''host='' @ to_str x) \<or>
     (\<exists>x \<in> set (query_values (port s)). p = ''port='' @ to_str x) \<or>
     (\<exists>k v. k \<notin> {''schema'', ''host'', ''port''} \<and> map_of (rev (ng_search loc)) k = Some v \<and>
        (\<exists>x \<in> set (query_values v). p = k @ ''='' @ to_str x)))"
proof -
  let ?u = "ng_abs_url loc"
  let ?base = "if 0 < index_of ?u ''?'' then slice ?u 0 (index_of ?u ''?'') else ?u"
  have b: "prefix ?base ?u"
  proof (cases "find_sub ''?'' ?u")
    case (Some i)
    then have i: "index_of ?u ''?'' = int i" by (simp only: index_of_def option.case)
    show ?thesis unfolding i by (simp add: slice_0_nat take_is_prefix)
  next
    case None
    then have i: "index_of ?u ''?'' = - 1" by (simp only: index_of_def option.case)
    show ?thesis unfolding i by simp
  qed
  have m: "(k, v) \<in> set (nav_query s (ng_search loc)) \<longleftrightarrow>
      prop_get (nav_query s (ng_search loc)) k = Some v" for k v
    using prop_get_mem [OF nav_query_wf] by blast
  let ?q = "nav_query s (ng_search loc)"
  have "p \<in> set (query_pairs ?q) \<longleftrightarrow>
     (\<exists>x \<in> set (query_values (schema s)). p = ''schema='' @ to_str x) \<or>
     (\<exists>x \<in> set (query_values (host s)). p = ''host='' @ to_str x) \<or>
     (\<exists>x \<in> set (query_values (port s)). p = ''port='' @ to_str x) \<or>
     (\<exists>k v. k \<notin> {''schema'', ''host'', ''port''} \<and> map_of (rev (ng_search loc)) k = Some v \<and>
        (\<exists>x \<in> set (query_values v). p = k @ ''='' @ to_str x))" (is "?l \<longleftrightarrow> ?r") for p
  proof
    assume ?l
    then obtain k v x where p: "prop_get ?q k = Some v" "x \<in> set (query_values v)" "p = k @ ''='' @ to_str x"
      using m query_pairs_mem by blast
    consider "k = ''schema''" | "k = ''host''" | "k = ''port''" | "k \<notin> {''schema'', ''host'', ''port''}" by blast
    then show ?r
    proof cases
      case 4
      then have "map_of (rev (ng_search loc)) k = Some v" using p(1) by (simp add: nav_query_get)
      with 4 p show ?thesis by blast
    qed (use p in \<open>auto simp: nav_query_get\<close>)
  next
    have i: "prop_get ?q k = Some v \<Longrightarrow> x \<in> set (query_values v) \<Longrightarrow> k @ ''='' @ to_str x \<in> set (query_pairs ?q)" for k v x
      using m query_pairs_mem by blast
    have g: "prop_get ?q ''schema'' = Some (schema s)" "prop_get ?q ''host'' = Some (host s)"
      "prop_get ?q ''port'' = Some (port s)" by (simp_all add: nav_query_get)
    assume ?r
    then consider x where "x \<in> set (query_values (schema s))" "p = ''schema='' @ to_str x"
      | x where "x \<in> set (query_values (host s))" "p = ''host='' @ to_str x"
      | x where "x \<in> set (query_values (port s))" "p = ''port='' @ to_str x"
      | k v x where "k \<notin> {''schema'', ''host'', ''port''}" "map_of (rev (ng_search loc)) k = Some v"
          "x \<in> set (query_values v)" "p = k @ ''='' @ to_str x" by blast
    then show ?l
    proof cases
      case (4 k v x)
      then have "prop_get ?q k = Some v" by (simp add: nav_query_get)
      with 4 show ?thesis using i by blast
    qed (use i [OF g(1)] i [OF g(2)] i [OF g(3)] in simp_all)
  qed
  moreover have "buildNavUrl s loc = ?base @ ''?'' @ join ''&'' (query_pairs ?q)"
    unfolding buildNavUrl_def Let_def by (rule refl)
  ultimately show ?thesis using b by blast
qed

text \<open>
  Reloading the console from its own navigation address connects to the same server: the scheme,
  host and port read back are the texts of the ones written, and every API address stays the
  same, except that port 80, once it has become a string, is no longer left out.
\<close>

theorem reconnect_same_server:
  assumes "field (ng_search loc) ''schema'' = Str (to_str (schema s))" "to_str (schema s) \<noteq> []"
    and "field (ng_search loc) ''host'' = Str (to_str (host s))" "to_str (host s) \<noteq> []"
    and "field (ng_search loc) ''port'' = Str (to_str (port s))" "to_str (port s) \<noteq> []"
  shows "baseurl (init loc s') =
      to_str (schema s) @ ''://'' @ to_str (host s) @ '':'' @ to_str (port s) \<and>
    (\<not> strict_eq (port s) (Num (num_of 80)) \<longrightarrow> (\<forall>c. api_url (init loc s') c = api_url s c))"
proof -
  have b: "baseurl (init loc s') = to_str (schema s) @ ''://'' @ to_str (host s) @ '':'' @ to_str (port s)"
    using assms by (simp add: baseurl_def init_def Let_def strict_eq_def)
  moreover have "api_url (init loc s') c = api_url s c" if "\<not> strict_eq (port s) (Num (num_of 80))" for c
  proof -
    have "baseurl (init loc s') = baseurl s" using that b by (simp add: baseurl_def)
    then show ?thesis by (cases c) (simp_all add: jsonp_def jsonp_delete_def jsonp_query_def)
  qed
  ultimately show ?thesis by blast
qed

theorem reconnect_same_server_witness:
  "baseurl (init \<lparr>ng_abs_url = [], ng_path = [],
      ng_search = [(''schema'', Str ''http''), (''host'', Str ''srs''), (''port'', Str ''80'')],
      ng_protocol = ''http'', ng_host = ''srs'', ng_port = num_of 80\<rparr> new_sc_server) = ''http://srs:80'' \<and>
   baseurl \<lparr>schema = Str ''http'', host = Str ''srs'', port = Num (num_of 80), rtmp = [], http = []\<rparr> = ''http://srs''"
proof -
  let ?loc = "\<lparr>ng_abs_url = [], ng_path = [],
      ng_search = [(''schema'', Str ''http''), (''host'', Str ''srs''), (''port'', Str ''80'')],
      ng_protocol = ''http'', ng_host = ''srs'', ng_port = num_of 80\<rparr>"
    and ?s = "\<lparr>schema = Str ''http'', host = Str ''srs'', port = Num (num_of 80), rtmp = [], http = []\<rparr>"
  have p: "pos_str 80 = ''80''"
    using num_to_str_int [of 80] by (simp add: digits_two digit_char_def)
  have "baseurl (init ?loc new_sc_server) = ''http://srs:80''"
    using reconnect_same_server [of ?loc ?s new_sc_server] by (simp add: field_Cons field_Nil p)
  moreover have "baseurl ?s = ''http://srs''" by (simp add: baseurl_def strict_eq_def num_eq_def)
  ultimately show ?thesis by blast
qed

end
