(* ===== verification/ConsoleFilters.thy ===== *)
theory ConsoleFilters
  imports ConsoleServer
begin

text \<open>
  The display filters of \<open>srs.console.js\<close> and the label filters of \<open>srs.cn.js\<close> and \<open>srs.en.js\<close>.
  A filter that looks into its argument returns a result: reading a property of \<open>undefined\<close> or
  calling a string method on something else throws. The API promises strings where a filter calls a
  string method, so arrays, which also have some of these methods, count as something else.
\<close>

section \<open>Sizes and rates\<close>

definition scaled :: "int \<Rightarrow> nat \<Rightarrow> jsval \<Rightarrow> jsnum" where
  "scaled base k v = ((\<lambda>x. num_div x (num_of base)) ^^ k) (to_num v)"

text \<open>The six filters share their chain of thresholds; the last letter group names the quantity.\<close>

definition unit_text :: "int \<Rightarrow> nat \<Rightarrow> string \<Rightarrow> jsval \<Rightarrow> string" where
  "unit_text base dg u v =
     (if js_less (Num (num_of (base * base * base * base))) v then to_fixed (scaled base 4 v) dg @ ''P'' @ u
      else if js_less (Num (num_of (base * base * base))) v then to_fixed (scaled base 3 v) dg @ ''T'' @ u
      else if js_less (Num (num_of (base * base))) v then to_fixed (scaled base 2 v) dg @ ''G'' @ u
      else if js_less (Num (num_of base)) v then to_fixed (scaled base 1 v) dg @ ''M'' @ u
      else to_fixed (scaled base 0 v) dg @ ''K'' @ u)"

definition sc_filter_filesize_k :: "jsval \<Rightarrow> string" where
  "sc_filter_filesize_k = unit_text 1024 2 ''B''"

definition sc_filter_filesize_k2 :: "jsval \<Rightarrow> string" where
  "sc_filter_filesize_k2 = unit_text 1024 0 ''B''"

definition sc_filter_filerate_k :: "jsval \<Rightarrow> string" where
  "sc_filter_filerate_k = unit_text 1024 2 ''Bps''"

definition sc_filter_filerate_k2 :: "jsval \<Rightarrow> string" where
  "sc_filter_filerate_k2 = unit_text 1024 0 ''Bps''"

definition sc_filter_bitrate_k :: "jsval \<Rightarrow> string" where
  "sc_filter_bitrate_k = unit_text 1000 2 ''bps''"

definition sc_filter_bitrate_k2 :: "jsval \<Rightarrow> string" where
  "sc_filter_bitrate_k2 = unit_text 1000 0 ''bps''"

definition sc_filter_percent :: "jsval \<Rightarrow> string" where
  "sc_filter_percent v = to_fixed (to_num v) 2 @ ''%''"

definition sc_filter_percent2 :: "jsval \<Rightarrow> string" where
  "sc_filter_percent2 v = to_fixed (to_num v) 0 @ ''%''"

definition sc_filter_percentf :: "jsval \<Rightarrow> string" where
  "sc_filter_percentf v = to_fixed (num_mul (to_num v) (num_of 100)) 2 @ ''%''"

definition sc_filter_percentf2 :: "jsval \<Rightarrow> string" where
  "sc_filter_percentf2 v = to_fixed (num_mul (to_num v) (num_of 100)) 0 @ ''%''"

definition sc_filter_number :: "jsval \<Rightarrow> string" where
  "sc_filter_number v = to_fixed (to_num v) 2"

section \<open>Labels\<close>

definition sc_filter_log_level :: "jsval \<Rightarrow> string" where
  "sc_filter_log_level v =
     (if strict_eq v (Str ''warn'') \<or> strict_eq v (Str ''error'') then ''alert-warn'' else ''alert-success'')"

definition sc_filter_nav_active :: "sc_nav \<Rightarrow> jsval \<Rightarrow> string" where
  "sc_filter_nav_active n v = (if is_selected n v then ''active'' else [])"

definition sc_filter_style_error :: "jsval \<Rightarrow> string" where
  "sc_filter_style_error v = (if truthy v then ''alert-danger'' else [])"

record language =
  l_yesno :: "string \<times> string"
  l_enabled :: "string \<times> string"
  l_has_stream :: "string \<times> string"
  l_ctype :: "string \<times> string"
  l_unset :: string
  l_allow :: "string \<times> string"
  l_any :: string
  l_all :: string

definition chinese :: language where
  "chinese =
     \<lparr>l_yesno = (utf8 [0x662f], utf8 [0x5426]),
      l_enabled = (utf8 [0x5f00, 0x542f], utf8 [0x5173, 0x95ed]),
      l_has_stream = (utf8 [0x6709, 0x6d41], utf8 [0x65e0, 0x6d41]),
      l_ctype = (utf8 [0x63a8, 0x6d41], utf8 [0x64ad, 0x653e]),
      l_unset = utf8 [0x672a, 0x8bbe, 0x7f6e],
      l_allow = (utf8 [0x5141, 0x8bb8], utf8 [0x7981, 0x6b62]),
      l_any = utf8 [0x4efb, 0x4f55, 0x64cd, 0x4f5c],
      l_all = utf8 [0x6240, 0x6709, 0x4eba]\<rparr>"

definition english :: language where
  "english =
     \<lparr>l_yesno = (''Yes'', ''No''), l_enabled = (''Enabled'', ''Disabled''), l_has_stream = (''Y'', ''N''),
      l_ctype = (''Publish'', ''Play''), l_unset = ''Unknown'', l_allow = (''Allow'', ''Denied''),
      l_any = ''Any'', l_all = ''All''\<rparr>"

definition label_for :: "string \<times> string \<Rightarrow> jsval \<Rightarrow> string" where
  "label_for p v = (if truthy v then fst p else snd p)"

definition sc_filter_yesno :: "language \<Rightarrow> jsval \<Rightarrow> string" where
  "sc_filter_yesno l = label_for (l_yesno l)"

definition sc_filter_enabled :: "language \<Rightarrow> jsval \<Rightarrow> string" where
  "sc_filter_enabled l = label_for (l_enabled l)"

definition sc_filter_yn :: "jsval \<Rightarrow> string" where
  "sc_filter_yn = label_for (''Y'', ''N'')"

definition sc_filter_has_stream :: "language \<Rightarrow> jsval \<Rightarrow> string" where
  "sc_filter_has_stream l = label_for (l_has_stream l)"

definition sc_filter_ctype :: "language \<Rightarrow> jsval \<Rightarrow> string" where
  "sc_filter_ctype l = label_for (l_ctype l)"

definition sc_filter_obj :: "language \<Rightarrow> jsval \<Rightarrow> jsval" where
  "sc_filter_obj l v = (if v \<noteq> Undef then v else Str (l_unset l))"

definition sc_filter_security :: "language \<Rightarrow> jsval \<Rightarrow> string result" where
  "sc_filter_security l v =
     bind_result (get_prop v ''action'') (\<lambda>action.
     bind_result (get_prop v ''method'') (\<lambda>method.
     bind_result (get_prop v ''entry'') (\<lambda>entry.
       Inr ((if strict_eq action (Str ''allow'') then fst (l_allow l) else snd (l_allow l)) @ '' '' @
            (if strict_eq entry (Str ''all'') then l_all l else to_str entry) @ '' '' @
            (if strict_eq method (Str ''all'') then l_any l
             else if strict_eq method (Str ''publish'') then fst (l_ctype l) else snd (l_ctype l))))))"

section \<open>Streams\<close>

text \<open>\<open>v.width = v.width? v.width : 0\<close>; assigning to a property of a primitive has no effect.\<close>

definition default_zero :: "string \<Rightarrow> jsval \<Rightarrow> jsval result" where
  "default_zero k v =
     bind_result (get_prop v k) (\<lambda>x.
       Inr (case v of Obj ps \<Rightarrow> Obj (prop_set ps k (if truthy x then x else Num (num_of 0))) | _ \<Rightarrow> v))"

definition prop_text :: "jsval \<Rightarrow> string \<Rightarrow> string" where
  "prop_text v k = (case get_prop v k of Inl _ \<Rightarrow> [] | Inr x \<Rightarrow> to_str x)"

definition sc_filter_video :: "jsval \<Rightarrow> (string \<times> jsval) result" where
  "sc_filter_video v =
     bind_result (default_zero ''width'' v) (\<lambda>v.
     bind_result (default_zero ''height'' v) (\<lambda>v.
       Inr (if truthy v
            then prop_text v ''codec'' @ ''/'' @ prop_text v ''profile'' @ ''/'' @ prop_text v ''level'' @
                 ''/'' @ prop_text v ''width'' @ ''x'' @ prop_text v ''height''
            else utf8 [0x65e0, 0x89c6, 0x9891], v)))"

definition sc_filter_audio :: "jsval \<Rightarrow> string" where
  "sc_filter_audio v =
     (if truthy v
      then prop_text v ''codec'' @ ''/'' @ prop_text v ''sample_rate'' @ ''/'' @
           (case get_prop v ''channel'' of
              Inr c \<Rightarrow> if strict_eq c (Num (num_of 2)) then ''Stereo'' else ''Mono''
            | Inl _ \<Rightarrow> []) @ ''/'' @ prop_text v ''profile''
      else utf8 [0x65e0, 0x97f3, 0x9891])"

definition sc_filter_less :: "jsval \<Rightarrow> jsval result" where
  "sc_filter_less v =
     (case v of
        Str s \<Rightarrow> Inr (if 15 < length s then Str (slice s 0 15 @ ''...'') else v)
      | Arr vs \<Rightarrow> Inr (if 15 < length vs then Str (to_str (Arr (take 15 vs)) @ ''...'') else v)
      | Obj ps \<Rightarrow> if js_less (Num (num_of 15)) (field ps ''length'') then Inl TypeError else Inr v
      | _ \<Rightarrow> Inr v)"

definition sc_filter_preview_url :: "sc_server \<Rightarrow> jsval \<Rightarrow> string result" where
  "sc_filter_preview_url s v =
     (let page = to_str (schema s) @ ''://'' @ to_str (host s) @ '':'' @ to_str (Arr (http s)) @
                 ''/players/srs_player.html'';
          port = (case http s of [] \<Rightarrow> Undef | _ \<Rightarrow> last (http s))
      in bind_result (get_prop v ''owner'') (\<lambda>owner.
         bind_result (get_prop owner ''name'') (\<lambda>vhost.
           Inr (if truthy v
                then page @ ''?vhost='' @ to_str vhost @ ''&app='' @ prop_text v ''app'' @ ''&stream='' @
                     prop_text v ''name'' @ ''.flv'' @ ''&server='' @ to_str (host s) @ ''&port='' @
                     to_str port @ ''&autostart=true&schema='' @ to_str (schema s)
                else ''javascript:void(0)''))))"

definition as_string :: "jsval \<Rightarrow> string result" where
  "as_string v = (case v of Str s \<Rightarrow> Inr s | _ \<Rightarrow> Inl TypeError)"

definition sc_filter_streamURL :: "jsval \<Rightarrow> string result" where
  "sc_filter_streamURL v =
     (if \<not> truthy v \<or> (case get_prop v ''url'' of Inr u \<Rightarrow> \<not> truthy u | Inl _ \<Rightarrow> True) then Inr []
      else
        bind_result (bind_result (get_prop v ''url'') as_string) (\<lambda>url.
        bind_result (get_prop v ''name'') (\<lambda>name.
        let pos = last_index_of url ''/'';
            stream = (if pos < 0 then [] else substr_from url pos);
            streamName = (if truthy name then name else Str stream)
        in bind_result (if truthy streamName then bind_result (as_string streamName) (\<lambda>n.
                          Inr (if index_of n ''/'' \<noteq> 0 then ''/'' @ n else n))
                        else Inr (to_str streamName)) (\<lambda>streamName.
           bind_result (bind_result (get_prop v ''tcUrl'') as_string) (\<lambda>tc.
             let pos2 = index_of tc ''?'';
                 tcUrl = (if pos2 < 0 then tc else substr tc 0 pos2);
                 params = (if pos2 < 0 then [] else substr_from tc pos2);
                 params = (if params = ''?vhost=__defaultVhost__'' \<or> params = ''?domain=__defaultVhost__''
                           then [] else params)
             in Inr (tcUrl @ streamName @ params))))))"

section \<open>Facts about scaling\<close>

lemma fl_between:
  assumes "is_double a" "is_double b" "a \<le> z" "z \<le> b"
  shows "\<exists>y. fl z = Fin y \<and> a \<le> y \<and> y \<le> b"
proof -
  have "rnd a \<le> rnd z" "rnd z \<le> rnd b" using assms by (auto intro: rnd_mono)
  then have r: "a \<le> rnd z" "rnd z \<le> b" using assms by (simp_all add: is_double_def)
  then have "\<bar>rnd z\<bar> < 2 ^ 1024" using assms by (auto simp: is_double_def abs_less_iff)
  then have "fl z = Fin (rnd z)" by (auto simp: fl_def Let_def abs_less_iff)
  with r show ?thesis by blast
qed

locale unit_scale =
  fixes base :: int
  assumes base_gt: "1 < base" and base_fits: "base ^ 5 \<le> 2 ^ 53"
begin

lemma power_double: "i \<le> 5 \<Longrightarrow> is_double (of_int base ^ i)"
proof -
  assume "i \<le> 5"
  then have "base ^ i \<le> base ^ 5" using base_gt by (intro power_increasing) auto
  then have "base ^ i \<le> 2 ^ 53" using base_fits by (rule order_trans)
  moreover have "0 \<le> base ^ i" using base_gt by simp
  ultimately have "\<bar>base ^ i\<bar> \<le> 2 ^ 53" by simp
  then show ?thesis using is_double_of_int [of "base ^ i"] by simp
qed

lemma scaled_bounds:
  assumes x: "is_double x" "of_int base ^ k \<le> x" and k: "k \<le> 4" and j: "j \<le> k"
  shows "\<exists>y. scaled base j (Num (Fin x)) = Fin y \<and> of_int base ^ (k - j) \<le> y \<and> y \<le> x \<and>
    (x \<le> of_int base ^ Suc k \<longrightarrow> y \<le> of_int base ^ (Suc k - j))"
  using j
proof (induction j)
  case 0
  then show ?case using x by (simp add: scaled_def)
next
  case (Suc j)
  then obtain y where y: "scaled base j (Num (Fin x)) = Fin y" "of_int base ^ (k - j) \<le> y" "y \<le> x"
    "x \<le> of_int base ^ Suc k \<longrightarrow> y \<le> of_int base ^ (Suc k - j)" by auto
  have b: "1 < (of_int base :: rat)" using base_gt by simp
  then have b0: "0 < (of_int base :: rat)" by linarith
  have lo: "of_int base ^ (k - Suc j) \<le> y / of_int base"
  proof -
    have "of_int base * (of_int base :: rat) ^ (k - Suc j) = of_int base ^ (k - j)"
      using Suc.prems by (simp flip: power_Suc add: Suc_diff_Suc)
    then show ?thesis using y(2) b0 by (simp add: le_divide_eq mult.commute)
  qed
  have y0: "0 \<le> y" using y(2) b0 by (meson less_le_trans order.strict_implies_order zero_less_power)
  then have "y * 1 \<le> y * of_int base" using b by (intro mult_left_mono) auto
  then have "y / of_int base \<le> y" using b0 by (simp add: divide_le_eq)
  then have hi: "y / of_int base \<le> x" using y(3) by (rule order_trans)
  have s: "scaled base (Suc j) (Num (Fin x)) = fl (y / of_int base)"
    using y(1) b0 by (simp add: scaled_def)
  obtain z where z: "fl (y / of_int base) = Fin z" "of_int base ^ (k - Suc j) \<le> z" "z \<le> x"
    using fl_between [OF power_double x(1) lo hi] k by fastforce
  have "z \<le> of_int base ^ (Suc k - Suc j)" if "x \<le> of_int base ^ Suc k"
  proof -
    have "(of_int base :: rat) ^ (Suc k - j) = of_int base * of_int base ^ (Suc k - Suc j)"
      using Suc.prems by (simp flip: power_Suc add: Suc_diff_le)
    then have "y / of_int base \<le> of_int base ^ (Suc k - Suc j)"
      using y(4) that b0 by (simp add: divide_le_eq mult.commute)
    then show ?thesis using fl_upper [OF power_double _ z(1)] k by simp
  qed
  with s z show ?case by auto
qed

lemma zero_case:
  assumes x: "is_double x" "0 \<le> x" "\<not> of_int base < x"
  shows "\<exists>j y. j \<le> 4 \<and> to_fixed (scaled base 0 (Num (Fin x))) dg @ CHR ''K'' # u = to_fixed (Fin y) dg @ [''KMGTP'' ! j] @ u \<and>
      (0 < j \<longrightarrow> of_int base ^ j < x \<and> 1 \<le> y) \<and>
      (j < 4 \<longrightarrow> x \<le> of_int base ^ Suc j \<and> y \<le> of_int base) \<and> (j = 0 \<longrightarrow> y = x)"
  using x by (intro exI [of _ 0] exI [of _ x]) (auto simp: scaled_def)

text \<open>The unit is the largest whose threshold the value exceeds, and the number shown stays in range.\<close>

lemma unit_text_bounds:
  assumes x: "is_double x" "0 \<le> x"
  shows "\<exists>k y. k \<le> 4 \<and> unit_text base dg u (Num (Fin x)) = to_fixed (Fin y) dg @ [''KMGTP'' ! k] @ u \<and>
    (0 < k \<longrightarrow> of_int base ^ k < x \<and> 1 \<le> y) \<and>
    (k < 4 \<longrightarrow> x \<le> of_int base ^ Suc k \<and> y \<le> of_int base) \<and> (k = 0 \<longrightarrow> y = x)"
proof -
  have l: "js_less (Num (Fin a)) (Num (Fin x)) \<longleftrightarrow> a < x" for a by (simp add: js_less_def)
  have p: "of_int (base * base * base * base) = (of_int base :: rat) ^ 4"
    "of_int (base * base * base) = (of_int base :: rat) ^ 3" "of_int (base * base) = (of_int base :: rat) ^ 2"
    by (simp_all add: power_numeral_reduce power2_eq_square mult.assoc)
  have pick: "\<exists>j y. j \<le> 4 \<and> to_fixed (scaled base k (Num (Fin x))) dg @ c # u = to_fixed (Fin y) dg @ [''KMGTP'' ! j] @ u \<and>
      (0 < j \<longrightarrow> of_int base ^ j < x \<and> 1 \<le> y) \<and>
      (j < 4 \<longrightarrow> x \<le> of_int base ^ Suc j \<and> y \<le> of_int base) \<and> (j = 0 \<longrightarrow> y = x)"
    if k: "of_int base ^ k < x" "k \<le> 4" "0 < k" and n: "k < 4 \<longrightarrow> x \<le> of_int base ^ Suc k"
      and c: "c = ''KMGTP'' ! k" for k c
  proof -
    obtain y where "scaled base k (Num (Fin x)) = Fin y" "1 \<le> y" "x \<le> of_int base ^ Suc k \<longrightarrow> y \<le> of_int base"
      using scaled_bounds [OF x(1) less_imp_le [OF k(1)] k(2) order_refl] by auto
    with k n c show ?thesis by (intro exI [of _ k] exI [of _ y]) auto
  qed
  have c: "CHR ''P'' = ''KMGTP'' ! 4" "CHR ''T'' = ''KMGTP'' ! 3" "CHR ''G'' = ''KMGTP'' ! 2"
    "CHR ''M'' = ''KMGTP'' ! 1" by simp_all
  have sc: "Suc 3 = 4" "Suc 2 = 3" "Suc 1 = 2" by simp_all
  show ?thesis unfolding unit_text_def l p append_Cons append_Nil
    using pick [OF _ _ _ _ c(1)] pick [OF _ _ _ _ c(2), unfolded sc] pick [OF _ _ _ _ c(3), unfolded sc]
      pick [OF _ _ _ _ c(4), unfolded sc power_one_right] zero_case [OF x]
    by (simp only: append_Cons append_Nil not_less split: if_split) auto
qed

end

interpretation bytes: unit_scale 1024
  by unfold_locales simp_all

interpretation bits: unit_scale 1000
  by unfold_locales simp_all

lemma substr_split:
  assumes "CHR ''?'' \<notin> set base"
  shows "substr (base @ CHR ''?'' # q) 0 (index_of (base @ CHR ''?'' # q) ''?'') = base"
    and "substr_from (base @ CHR ''?'' # q) (index_of (base @ CHR ''?'' # q) ''?'') = CHR ''?'' # q"
  using find_sub_single [OF assms, of q]
  by (simp_all add: index_of_def substr_def substr_from_def rel_index_def)

section \<open>Properties\<close>

text \<open>
  The six size and rate filters show every non-negative number in the right unit: the number
  shown is at least 1 in every unit above the smallest and at most the base below the largest,
  the unit being the one whose range contains the value, for all rounding of the divisions.
\<close>

theorem unit_filters_in_range:
  assumes "is_double x" and "0 \<le> x"
    and "(f, base, dg, u) \<in>
      {(sc_filter_filesize_k, 1024, 2, ''B''), (sc_filter_filesize_k2, 1024, 0, ''B''),
       (sc_filter_filerate_k, 1024, 2, ''Bps''), (sc_filter_filerate_k2, 1024, 0, ''Bps''),
       (sc_filter_bitrate_k, 1000, 2, ''bps''), (sc_filter_bitrate_k2, 1000, 0, ''bps'')}"
  shows "\<exists>k y. k \<le> 4 \<and> f (Num (Fin x)) = to_fixed (Fin y) dg @ [''KMGTP'' ! k] @ u \<and>
    (0 < k \<longrightarrow> base ^ k < x \<and> 1 \<le> y) \<and> (k < 4 \<longrightarrow> x \<le> base ^ Suc k \<and> y \<le> base) \<and> (k = 0 \<longrightarrow> y = x)"
proof -
  have "f = unit_text 1024 dg u \<and> base = of_int 1024 \<or> f = unit_text 1000 dg u \<and> base = of_int 1000"
    using assms(3) by (auto simp: sc_filter_filesize_k_def sc_filter_filesize_k2_def sc_filter_filerate_k_def
        sc_filter_filerate_k2_def sc_filter_bitrate_k_def sc_filter_bitrate_k2_def)
  then show ?thesis
    using bytes.unit_text_bounds [OF assms(1,2), of dg u] bits.unit_text_bounds [OF assms(1,2), of dg u] by blast
qed

theorem unit_filters_in_range_witness:
  "\<exists>k y. k \<le> 4 \<and> sc_filter_filesize_k (Num (Fin 5)) = to_fixed (Fin y) 2 @ [''KMGTP'' ! k] @ ''B'' \<and>
    (0 < k \<longrightarrow> 1024 ^ k < (5 :: rat) \<and> 1 \<le> y) \<and> (k < 4 \<longrightarrow> 5 \<le> (1024 :: rat) ^ Suc k \<and> y \<le> 1024) \<and> (k = 0 \<longrightarrow> y = 5)"
proof -
  have d: "is_double 5" using is_double_of_int [of 5] by simp
  show ?thesis by (rule unit_filters_in_range [OF d]) simp_all
qed

text \<open>
  The video filter and the preview address dereference their argument before they test it: on
  \<open>null\<close> and \<open>undefined\<close>, and only there for video, they throw instead of returning the text they
  provide for it, unlike the audio filter. On an object the video filter fills in zero sizes.
\<close>

theorem stream_filters_on_missing:
  "((\<exists>e. sc_filter_video v = Inl e) \<longleftrightarrow> nullish v) \<and>
   (nullish v \<longrightarrow> sc_filter_preview_url s v = Inl TypeError \<and> sc_filter_audio v = utf8 [0x65e0, 0x97f3, 0x9891]) \<and>
   (\<exists>t ps'. sc_filter_video (Obj ps) = Inr (t, Obj ps') \<and>
      (\<not> truthy (field ps ''width'') \<longrightarrow> field ps' ''width'' = Num (num_of 0)) \<and>
      (\<not> truthy (field ps ''height'') \<longrightarrow> field ps' ''height'' = Num (num_of 0)) \<and>
      (\<forall>k. k \<notin> {''width'', ''height''} \<longrightarrow> field ps' k = field ps k))"
proof (intro conjI impI)
  have d: "default_zero k v = Inl TypeError \<longleftrightarrow> nullish v" "\<exists>w. \<not> nullish v \<longrightarrow> default_zero k v = Inr w \<and> \<not> nullish w"
    for k v by (cases v; simp add: default_zero_def get_prop_def nullish_def)+
  show "(\<exists>e. sc_filter_video v = Inl e) \<longleftrightarrow> nullish v"
  proof (cases "nullish v")
    case True
    then show ?thesis using d(1) [of "''width''" v] by (simp add: sc_filter_video_def)
  next
    case False
    then obtain w where w: "default_zero ''width'' v = Inr w" "\<not> nullish w" using d(2) by blast
    then obtain w' where "default_zero ''height'' w = Inr w'" using d(2) by blast
    then show ?thesis using False w by (simp add: sc_filter_video_def)
  qed
  assume "nullish v"
  then show "sc_filter_preview_url s v = Inl TypeError" "sc_filter_audio v = utf8 [0x65e0, 0x97f3, 0x9891]"
    by (auto simp: nullish_def sc_filter_preview_url_def sc_filter_audio_def get_prop_def Let_def)
next
  show "\<exists>t ps'. sc_filter_video (Obj ps) = Inr (t, Obj ps') \<and>
      (\<not> truthy (field ps ''width'') \<longrightarrow> field ps' ''width'' = Num (num_of 0)) \<and>
      (\<not> truthy (field ps ''height'') \<longrightarrow> field ps' ''height'' = Num (num_of 0)) \<and>
      (\<forall>k. k \<notin> {''width'', ''height''} \<longrightarrow> field ps' k = field ps k)"
    by (simp add: sc_filter_video_def default_zero_def get_prop_def field_def [symmetric] field_set)
qed

theorem stream_filters_on_missing_witness:
  "sc_filter_preview_url new_sc_server Null = Inl TypeError"
  using stream_filters_on_missing [of Null new_sc_server "[]"] by (simp add: nullish_def)

text \<open>
  The publish address of a stream: the client's connection address without its query, a slash
  and the stream's name, then the query again unless it only names the default virtual host.
\<close>

theorem stream_url_composition:
  assumes "field ps ''url'' = Str url" "url \<noteq> []" and "field ps ''name'' = Str name" "name \<noteq> []" "hd name \<noteq> CHR ''/''"
    and "field ps ''tcUrl'' = Str (base @ q)" "CHR ''?'' \<notin> set base" "q = [] \<or> hd q = CHR ''?''"
  shows "sc_filter_streamURL (Obj ps) =
    Inr (base @ ''/'' @ name @ (if q \<in> {''?vhost=__defaultVhost__'', ''?domain=__defaultVhost__''} then [] else q))"
proof -
  have g: "get_prop (Obj ps) k = Inr (field ps k)" for k by (simp add: get_prop_def field_def)
  have n: "index_of name ''/'' \<noteq> 0" using assms(4,5) by (cases name) auto
  let ?t = "base @ q" and ?i = "index_of (base @ q) ''?''"
  have t: "(if ?i < 0 then ?t else substr ?t 0 ?i) = base" "(if ?i < 0 then [] else substr_from ?t ?i) = q"
  proof -
    obtain r where "q = [] \<or> q = CHR ''?'' # r" using assms(8) by (cases q) auto
    then have "(if ?i < 0 then ?t else substr ?t 0 ?i) = base \<and> (if ?i < 0 then [] else substr_from ?t ?i) = q"
    proof
      assume "q = []"
      then show ?thesis using assms(7) by simp
    next
      assume "q = CHR ''?'' # r"
      then show ?thesis using assms(7) substr_split [OF assms(7), of r] by simp
    qed
    then show "(if ?i < 0 then ?t else substr ?t 0 ?i) = base" "(if ?i < 0 then [] else substr_from ?t ?i) = q"
      by blast+
  qed
  show ?thesis
    unfolding sc_filter_streamURL_def g Let_def
    using assms(1-6) n t by (simp add: as_string_def Let_def del: index_of_0 index_of_less0)
qed

theorem stream_url_composition_witness:
  "sc_filter_streamURL (Obj [(''url'', Str ''/live/a''), (''name'', Str ''a''),
      (''tcUrl'', Str (''rtmp://srs/live'' @ ''?vhost=__defaultVhost__''))]) =
    Inr (''rtmp://srs/live'' @ ''/'' @ ''a'' @ (if ''?vhost=__defaultVhost__'' \<in>
      {''?vhost=__defaultVhost__'', ''?domain=__defaultVhost__''} then [] else ''?vhost=__defaultVhost__''))"
  by (rule stream_url_composition [where url = "''/live/a''"]) (simp_all add: field_Cons field_Nil)

end
