(* ===== verification/ConsoleUtility.thy ===== *)
theory ConsoleUtility
  imports PageUrl StringUtil ConsoleServer
begin

text \<open>
  The service \<open>$sc_utility\<close>, the HTTP interceptor that reports through it and the \<open>scCollapse\<close>
  directive of \<open>srs.console.js\<close>. The service's broadcasts are values; JSON data is a tree.
\<close>

section \<open>Broadcasts and the interceptor\<close>

datatype broadcast =
    Log string jsval
  | Http_error jsval jsval

definition sc_log :: "string \<Rightarrow> jsval \<Rightarrow> broadcast" where
  "sc_log level msg = Log level msg"

definition http_error :: "jsval \<Rightarrow> jsval \<Rightarrow> broadcast" where
  "http_error status response = Http_error status response"

record http_response =
  rsp_status :: jsval
  rsp_data :: jsval

datatype http_outcome = Resolve http_response | Reject http_response

definition interceptor_response :: "http_response \<Rightarrow> (broadcast list \<times> http_outcome) result" where
  "interceptor_response response =
     bind_result (get_prop (rsp_data response) ''code'') (\<lambda>code.
       Inr (if truthy code \<and> \<not> strict_eq code (Num (num_of 0))
            then ([http_error (rsp_status response) (rsp_data response)], Reject response)
            else ([], Resolve response)))"

definition interceptor_responseError :: "http_response \<Rightarrow> broadcast list \<times> http_outcome" where
  "interceptor_responseError rejection =
     ([http_error (rsp_status rejection) (rsp_data rejection)], Reject rejection)"

section \<open>Siblings\<close>

text \<open>
  An element and its following siblings, each with its classes; the result is the position of
  the element found.
\<close>

fun find_siblings :: "string \<Rightarrow> string list list \<Rightarrow> nat option" where
  "find_siblings cls [] = None"
| "find_siblings cls (e # es) = (if cls \<in> set e then Some 0 else map_option Suc (find_siblings cls es))"

definition toggle_class :: "string \<Rightarrow> string list \<Rightarrow> string list" where
  "toggle_class c cs = (if c \<in> set cs then remove_class c cs else add_class c cs)"

definition collapse_with :: "(string list \<Rightarrow> string list) \<Rightarrow> string list list \<Rightarrow> string list list result" where
  "collapse_with f es =
     (case find_siblings ''accordion-body'' es of
        None \<Rightarrow> Inl TypeError
      | Some i \<Rightarrow> Inr (es[i := f (es ! i)]))"

definition collapse_link :: "jsval \<Rightarrow> string list list \<Rightarrow> string list list result" where
  "collapse_link attr es =
     (if strict_eq attr (Str ''in'') then collapse_with (add_class ''in'') es else Inr es)"

definition collapse_click :: "string list list \<Rightarrow> string list list result" where
  "collapse_click = collapse_with (toggle_class ''in'')"

section \<open>Arrays and objects\<close>

definition array_actual_equals :: "jsval list \<Rightarrow> jsval list \<Rightarrow> bool" where
  "array_actual_equals a b \<longleftrightarrow>
     list_all (\<lambda>x. system_array_contains b (ByValue x)) a \<and>
     list_all (\<lambda>x. system_array_contains a (ByValue x)) b"

definition enum_values :: "jsval \<Rightarrow> jsval list" where
  "enum_values v =
     (case v of
        Obj ps \<Rightarrow> map snd ps
      | Arr vs \<Rightarrow> vs
      | Str s \<Rightarrow> map (\<lambda>c. Str [c]) s
      | _ \<Rightarrow> [])"

text \<open>\<open>each\<close> may change the element it is given; the array holds the changed elements.\<close>

fun map_result :: "('a \<Rightarrow> 'b result) \<Rightarrow> 'a list \<Rightarrow> 'b list result" where
  "map_result f [] = Inr []"
| "map_result f (x # xs) = bind_result (f x) (\<lambda>y. bind_result (map_result f xs) (\<lambda>ys. Inr (y # ys)))"

definition object2arr :: "jsval \<Rightarrow> (jsval \<Rightarrow> jsval result) option \<Rightarrow> jsval list result" where
  "object2arr obj each =
     map_result (case each of None \<Rightarrow> Inr | Some f \<Rightarrow> f) (enum_values obj)"

text \<open>\<open>function(e) { e.vid = e.name; }\<close>\<close>

definition set_vid :: "jsval \<Rightarrow> jsval result" where
  "set_vid e =
     bind_result (get_prop e ''name'') (\<lambda>n.
       Inr (case e of Obj ps \<Rightarrow> Obj (prop_set ps ''vid'' n) | _ \<Rightarrow> e))"

definition complex_leaf :: "string \<Rightarrow> jsval \<Rightarrow> jsval" where
  "complex_leaf key v =
     Obj [(''key'', Str (system_string_trim key (Str ''global.''))), (''value'', v), (''error'', Bool False)]"

definition complex_key :: "string \<Rightarrow> string \<Rightarrow> string" where
  "complex_key pfx k = (if pfx \<noteq> [] then pfx @ ''.'' @ k else k)"

text \<open>\<open>typeof null\<close> is \<open>object\<close> too, and its \<open>constructor\<close> cannot be read.\<close>

fun object2complex :: "jsval props \<Rightarrow> (string \<times> jsval) list \<Rightarrow> string \<Rightarrow> jsval props result" where
  "object2complex complex [] pfx = Inr complex"
| "object2complex complex ((k, v) # ps) pfx =
     (let key = complex_key pfx k in
      if key = ''vhosts''
      then bind_result (object2arr v (Some set_vid)) (\<lambda>vs. object2complex (prop_set complex k (Arr vs)) ps pfx)
      else case v of
             Null \<Rightarrow> Inl TypeError
           | Obj qs \<Rightarrow> bind_result (object2complex [] qs key) (\<lambda>cv.
               object2complex (prop_set complex k (Obj cv)) ps pfx)
           | _ \<Rightarrow> object2complex
                 (prop_set complex k
                   (complex_leaf key (if key = ''pithy_print_ms'' then Str (to_str v) else v)))
                 ps pfx)"

definition copy_object :: "jsval props \<Rightarrow> jsval props \<Rightarrow> jsval props" where
  "copy_object dst src = foldl (\<lambda>t (k, v). prop_set t k v) dst src"

definition dvr_name :: "jsval \<Rightarrow> string result" where
  "dvr_name v = (case v of Str s \<Rightarrow> Inr (escape (replace_first s ''/'' ''___'')) | _ \<Rightarrow> Inl TypeError)"

definition dvr_id :: "jsval \<Rightarrow> string result" where
  "dvr_id stream =
     bind_result (get_prop stream ''owner'') (\<lambda>owner.
     bind_result (get_prop owner ''name'') (\<lambda>vhost.
     bind_result (get_prop stream ''id'') (\<lambda>sid.
     bind_result (bind_result (get_prop stream ''app'') dvr_name) (\<lambda>app.
     bind_result (bind_result (get_prop stream ''name'') dvr_name) (\<lambda>name.
       Inr (''/dvr/'' @ to_str vhost @ ''/'' @ to_str sid @ ''/'' @ app @ ''/'' @ name))))))"

definition and_then :: "jsval \<Rightarrow> (jsval \<Rightarrow> jsval result) \<Rightarrow> jsval result" where
  "and_then v f = (if truthy v then f v else Inr v)"

definition raw_api_enabled :: "jsval \<Rightarrow> jsval result" where
  "raw_api_enabled data =
     bind_result (get_prop data ''http_api'') (\<lambda>api. and_then api (\<lambda>api.
     bind_result (get_prop api ''enabled'') (\<lambda>e. and_then e (\<lambda>_.
     bind_result (get_prop api ''raw_api'') (\<lambda>raw. and_then raw (\<lambda>raw.
       get_prop raw ''enabled''))))))"

section \<open>Facts\<close>

lemma contains_Str: "system_array_contains (map Str ys) (ByValue (Str x)) \<longleftrightarrow> x \<in> set ys"
  using system_array_contains_proper [of "map Str ys" "ByValue (Str x)"] by (auto simp: nullish_def)

text \<open>What \<open>object2complex\<close> makes of one property.\<close>

definition complex_image :: "string \<Rightarrow> jsval \<Rightarrow> jsval \<Rightarrow> bool" where
  "complex_image key v w \<longleftrightarrow>
     (if key = ''vhosts'' then \<exists>vs. object2arr v (Some set_vid) = Inr vs \<and> w = Arr vs
      else case v of
             Null \<Rightarrow> False
           | Obj qs \<Rightarrow> \<exists>cv. object2complex [] qs key = Inr cv \<and> w = Obj cv
           | _ \<Rightarrow> w = complex_leaf key (if key = ''pithy_print_ms'' then Str (to_str v) else v))"

lemma object2complex_Cons:
  assumes "object2complex complex ((k, v) # ps) pfx = Inr c"
  shows "\<exists>w. complex_image (complex_key pfx k) v w \<and> object2complex (prop_set complex k w) ps pfx = Inr c"
  using assms by (auto simp: complex_image_def Let_def bind_result_Inr_conv split: if_splits jsval.splits)

lemma object2complex_other:
  "object2complex complex ps pfx = Inr c \<Longrightarrow> k \<notin> fst ` set ps \<Longrightarrow> prop_get c k = prop_get complex k"
proof (induction ps arbitrary: complex)
  case (Cons p ps)
  obtain k' v where p: "p = (k', v)" by (cases p)
  obtain w where "object2complex (prop_set complex k' w) ps pfx = Inr c"
    using object2complex_Cons Cons.prems(1) unfolding p by blast
  then show ?case using Cons.IH Cons.prems(2) p by (auto simp: props.get_put)
qed simp

lemma object2complex_get:
  "object2complex complex ps pfx = Inr c \<Longrightarrow> distinct (map fst ps) \<Longrightarrow> (k, v) \<in> set ps \<Longrightarrow>
     \<exists>w. prop_get c k = Some w \<and> complex_image (complex_key pfx k) v w"
proof (induction ps arbitrary: complex)
  case (Cons p ps)
  obtain k' v' where p: "p = (k', v')" by (cases p)
  obtain w where w: "complex_image (complex_key pfx k') v' w" "object2complex (prop_set complex k' w) ps pfx = Inr c"
    using object2complex_Cons Cons.prems(1) unfolding p by blast
  show ?case
  proof (cases "(k, v) = p")
    case True
    then have "k = k'" "v = v'" "k \<notin> fst ` set ps" using p Cons.prems(2) by auto
    then show ?thesis using w object2complex_other [OF w(2), of k] by (auto simp: props.get_put)
  next
    case False
    then show ?thesis using Cons.IH [OF w(2)] Cons.prems p by auto
  qed
qed simp

text \<open>A path of keys through a tree of objects, and the key text it becomes.\<close>

fun at_path :: "(string \<times> jsval) list \<Rightarrow> string list \<Rightarrow> jsval option" where
  "at_path ps [] = None"
| "at_path ps [k] = map_of ps k"
| "at_path ps (k # j # ks) = (case map_of ps k of Some (Obj qs) \<Rightarrow> at_path qs (j # ks) | _ \<Rightarrow> None)"

definition path_key :: "string \<Rightarrow> string list \<Rightarrow> string" where
  "path_key pfx ks = foldl complex_key pfx ks"

fun tree_wf :: "jsval \<Rightarrow> bool" where
  "tree_wf (Obj ps) \<longleftrightarrow> distinct (map fst ps) \<and> list_all (\<lambda>(k, v). k \<noteq> [] \<and> tree_wf v) ps"
| "tree_wf _ \<longleftrightarrow> True"

lemma tree_wf_mem: "tree_wf (Obj ps) \<Longrightarrow> (k, v) \<in> set ps \<Longrightarrow> k \<noteq> [] \<and> tree_wf v"
  by (auto simp: list_all_iff)

lemma map_of_path:
  "map_of qs k = Some v \<Longrightarrow> at_path ((k, v) # qs) [k] = Some v"
  by simp

lemma complex_key_vhosts:
  assumes "pfx = [] \<longrightarrow> k \<noteq> ''vhosts''"
  shows "complex_key pfx k \<noteq> ''vhosts''"
proof (cases "pfx = []")
  case True
  then show ?thesis using assms by (simp add: complex_key_def)
next
  case False
  then have "CHR ''.'' \<in> set (complex_key pfx k)" by (simp add: complex_key_def)
  then show ?thesis by auto
qed

lemma object2complex_path:
  "object2complex [] ps pfx = Inr c \<Longrightarrow> tree_wf (Obj ps) \<Longrightarrow> at_path ps ks = Some v \<Longrightarrow>
     (\<forall>qs. v \<noteq> Obj qs) \<Longrightarrow> pfx = [] \<longrightarrow> hd ks \<noteq> ''vhosts'' \<Longrightarrow>
     at_path c ks = Some (complex_leaf (path_key pfx ks) (if path_key pfx ks = ''pithy_print_ms'' then Str (to_str v) else v))"
proof (induction ks arbitrary: ps pfx c rule: induct_list012)
  case (2 k)
  have mem: "(k, v) \<in> set ps" using 2(3) by (auto dest: map_of_SomeD)
  have d: "distinct (map fst ps)" using 2(2) by simp
  obtain w where w: "prop_get c k = Some w" "complex_image (complex_key pfx k) v w"
    using object2complex_get [OF 2(1) d mem] by blast
  have nv: "complex_key pfx k \<noteq> ''vhosts''"
    using 2(5) by (intro complex_key_vhosts) simp
  show ?case using w nv 2(4)
    by (auto simp: complex_image_def path_key_def prop_get_def split: jsval.splits)
next
  case (3 k j ks)
  then obtain qs where q: "map_of ps k = Some (Obj qs)" "at_path qs (j # ks) = Some v"
    by (auto split: option.splits jsval.splits)
  have mem: "(k, Obj qs) \<in> set ps" using q(1) by (rule map_of_SomeD)
  have d: "distinct (map fst ps)" using 3(4) by simp
  obtain w where w: "prop_get c k = Some w" "complex_image (complex_key pfx k) (Obj qs) w"
    using object2complex_get [OF 3(3) d mem] by blast
  have wf: "k \<noteq> []" "tree_wf (Obj qs)" using tree_wf_mem [OF 3(4) mem] by auto
  have nv: "complex_key pfx k \<noteq> ''vhosts''" "complex_key pfx k \<noteq> []"
    using 3(7) wf complex_key_vhosts [of pfx k] by (auto simp: complex_key_def)
  obtain cv where cv: "object2complex [] qs (complex_key pfx k) = Inr cv" "w = Obj cv"
    using w(2) nv by (auto simp: complex_image_def)
  have "at_path cv (j # ks) = Some (complex_leaf (path_key (complex_key pfx k) (j # ks))
      (if path_key (complex_key pfx k) (j # ks) = ''pithy_print_ms'' then Str (to_str v) else v))"
    by (rule 3(2) [OF cv(1) wf(2) q(2) 3(6)]) (use nv in simp)
  then show ?case using w(1) cv(2) by (simp add: path_key_def prop_get_def)
qed simp

section \<open>Properties\<close>

text \<open>
  Two lists of strings are equal for the console exactly when they have the same elements,
  whatever their order and repetitions.
\<close>

theorem array_actual_equals_sets:
  "array_actual_equals (map Str xs) (map Str ys) \<longleftrightarrow> set xs = set ys"
  by (auto simp: array_actual_equals_def list_all_iff contains_Str)

text \<open>
  The transformation of configuration data keeps its shape: every value that is not an object is
  found under the same path in the result, wrapped with its dotted path (less \<open>global.\<close>) as key, the
  value itself (as text for \<open>pithy_print_ms\<close>) and a cleared error mark.
\<close>

theorem object2complex_leaves:
  assumes "object2complex [] ps [] = Inr c" and "tree_wf (Obj ps)"
    and "at_path ps ks = Some v" and "\<forall>qs. v \<noteq> Obj qs" and "hd ks \<noteq> ''vhosts''"
  shows "at_path c ks = Some (Obj
    [(''key'', Str (system_string_trim (path_key [] ks) (Str ''global.''))),
     (''value'', if path_key [] ks = ''pithy_print_ms'' then Str (to_str v) else v),
     (''error'', Bool False)])"
  using object2complex_path [OF assms(1-4)] assms(5) by (simp add: complex_leaf_def)

theorem object2complex_leaves_witness:
  "at_path [(''http_api'', Obj [(''enabled'', complex_leaf ''http_api.enabled'' (Bool True))])] [''http_api'', ''enabled''] =
   Some (Obj [(''key'', Str (system_string_trim (path_key [] [''http_api'', ''enabled'']) (Str ''global.''))),
     (''value'', if path_key [] [''http_api'', ''enabled''] = ''pithy_print_ms'' then Str (to_str (Bool True)) else Bool True),
     (''error'', Bool False)])"
  by (rule object2complex_leaves [where ps = "[(''http_api'', Obj [(''enabled'', Bool True)])]"])
    (simp_all add: complex_key_def Let_def prop_set_def prop_keys_def)

text \<open>
  Errors answered by the server with status 200: the interceptor reports an answer and rejects
  it exactly when it carries a non-zero error code, and passes it on unchanged otherwise; it
  throws only on an answer without a body.
\<close>

theorem interceptor_rejects_errors:
  "(interceptor_response r = Inl e \<longleftrightarrow> e = TypeError \<and> nullish (rsp_data r)) \<and>
   (interceptor_response r = Inr (bs, out) \<longrightarrow>
      (\<exists>code. get_prop (rsp_data r) ''code'' = Inr code \<and>
        (if truthy code then bs = [Http_error (rsp_status r) (rsp_data r)] \<and> out = Reject r
         else bs = [] \<and> out = Resolve r)))"
proof -
  have t: "truthy c \<Longrightarrow> \<not> strict_eq c (Num (Fin 0))" for c
    by (cases c) (auto simp: strict_eq_def same_ref_def num_eq_def)
  show ?thesis
    by (cases "rsp_data r")
      (auto simp: interceptor_response_def http_error_def get_prop_def nullish_def t split: if_splits)
qed

theorem interceptor_rejects_errors_witness:
  "interceptor_response \<lparr>rsp_status = Num (num_of 200), rsp_data = Null\<rparr> = Inl TypeError"
  using interceptor_rejects_errors [of "\<lparr>rsp_status = Num (num_of 200), rsp_data = Null\<rparr>" TypeError "[]"]
  by (simp add: nullish_def)

text \<open>
  Collapsing panels: the directive changes the first following element (itself included) that is an
  accordion body and no other, a second click undoes the first, and it throws when there is none.
\<close>

theorem collapse_toggles:
  "collapse_click es = (case find_siblings ''accordion-body'' es of None \<Rightarrow> Inl TypeError
      | Some i \<Rightarrow> Inr (es[i := toggle_class ''in'' (es ! i)])) \<and>
   (\<forall>i. find_siblings ''accordion-body'' es = Some i \<longrightarrow>
      i < length es \<and> ''accordion-body'' \<in> set (es ! i) \<and> (\<forall>j < i. ''accordion-body'' \<notin> set (es ! j)) \<and>
      set (toggle_class ''in'' (toggle_class ''in'' (es ! i))) = set (es ! i))"
proof (intro conjI allI impI)
  show "collapse_click es = (case find_siblings ''accordion-body'' es of None \<Rightarrow> Inl TypeError
      | Some i \<Rightarrow> Inr (es[i := toggle_class ''in'' (es ! i)]))"
    by (simp add: collapse_click_def collapse_with_def)
  fix i assume *: "find_siblings ''accordion-body'' es = Some i"
  have f: "find_siblings c es = Some i \<Longrightarrow> i < length es \<and> c \<in> set (es ! i) \<and> (\<forall>j < i. c \<notin> set (es ! j))" for c es i
    by (induction es arbitrary: i) (auto split: if_splits simp: less_Suc_eq_0_disj)
  from f [OF *] show "i < length es" "''accordion-body'' \<in> set (es ! i)"
    "\<And>j. j < i \<Longrightarrow> ''accordion-body'' \<notin> set (es ! j)" by auto
  show "set (toggle_class ''in'' (toggle_class ''in'' (es ! i))) = set (es ! i)"
    by (auto simp: toggle_class_def add_class_def remove_class_def)
qed

theorem collapse_toggles_witness:
  "collapse_click [[''accordion-heading''], [''accordion-body'', ''in'']] = Inr [[''accordion-heading''], [''accordion-body'']]"
  using collapse_toggles [of "[[''accordion-heading''], [''accordion-body'', ''in'']]"]
  by (simp add: toggle_class_def remove_class_def)

end
