(* ===== verification/ConsoleControllers.thy ===== *)
theory ConsoleControllers
  imports ConsoleUtility AsyncRefresh
begin

text \<open>
  The controllers of \<open>srs.console.js\<close>: the main controller with its message list and error
  handler, the bandwidth computation of the summary page, and the pages as clients of the shared
  refresher and of the API service. A request that was sent waits in \<open>sent\<close> with the handler its
  answer will be given to; answers may arrive in any order, also after their page was left.
\<close>

section \<open>Messages of the main controller\<close>

record message =
  level :: string
  msg_text :: jsval
  create :: int

definition push_log :: "int \<Rightarrow> string \<Rightarrow> jsval \<Rightarrow> message list \<Rightarrow> message list" where
  "push_log now lvl txt logs =
     drop (length logs - 2) logs @ [\<lparr>level = lvl, msg_text = txt, create = now\<rparr>]"

text \<open>The interval's callback removes the first expired message and stops looking.\<close>

fun expire_log :: "int \<Rightarrow> message list \<Rightarrow> message list" where
  "expire_log now [] = []"
| "expire_log now (m # ms) = (if create m + 10000 < now then ms else m # expire_log now ms)"

text \<open>The texts the handler shows for known error codes.\<close>

definition known_codes :: "(string \<times> string) list" where
  "known_codes =
     [(''1061'', ''RAW API'' @ utf8 [0x88ab, 0x7981, 0x7528]),
      (''1062'', utf8 [0x670d, 0x52a1, 0x5668, 0x4e0d, 0x5141, 0x8bb8, 0x8fd9, 0x4e2a, 0x64cd, 0x4f5c]),
      (''1063'', ''RawApi'' @ utf8 [0x53c2, 0x6570, 0x4e0d, 0x7b26, 0x5408, 0x8981, 0x6c42])]"

text \<open>
  The handler of the HTTP error broadcast: the level and message it logs. For an unknown error code
  the code assigns the text to a misspelt variable, so the message stays the answer itself.
\<close>

definition on_http_error :: "jsval \<Rightarrow> jsval \<Rightarrow> (string \<times> jsval) result" where
  "on_http_error status response =
     bind_result (get_prop response ''code'') (\<lambda>code.
       let shown =
         (if \<not> strict_eq status (Num (num_of 200))
          then if \<not> truthy status \<and> \<not> truthy response
               then Str (utf8 [0x65e0, 0x6cd5, 0x8bbf, 0x95ee, 0x670d, 0x52a1, 0x5668])
               else Str (''HTTP/'' @ to_str status @ '', '' @ to_str response)
          else (case map_of known_codes (to_str code) of
                  Some t \<Rightarrow> Str (''code='' @ to_str code @ '', '' @ t)
                | None \<Rightarrow> response))
       in Inr (if strict_eq code (Num (num_of 1061)) then ''trace'' else ''warn'', shown))"

definition goto_url :: "sc_server \<Rightarrow> ng_location \<Rightarrow> string \<Rightarrow> string" where
  "goto_url s loc path = replace_first (buildNavUrl s loc) (ng_path loc) path"

definition redirect_url :: "sc_server \<Rightarrow> ng_location \<Rightarrow> string \<Rightarrow> string \<Rightarrow> string" where
  "redirect_url s loc src dst = replace_first (buildNavUrl s loc) src dst"

section \<open>Bandwidth of the summary page\<close>

record sample =
  now_ms :: jsnum
  net_sample_time :: jsnum
  net_recv_bytes :: jsnum
  net_recvi_bytes :: jsnum
  net_send_bytes :: jsnum
  net_sendi_bytes :: jsnum
  srs_sample_time :: jsnum
  srs_recv_bytes :: jsnum
  srs_send_bytes :: jsnum

record kbps =
  initialized :: bool
  in_srs :: jsnum
  in_sys :: jsnum
  in_inner :: jsnum
  out_srs :: jsnum
  out_sys :: jsnum
  out_inner :: jsnum

record summary_scope =
  pre_kbps :: "sample option"
  shown_kbps :: "kbps option"
  global :: "sample option"

definition new_summary :: summary_scope where
  "new_summary = \<lparr>pre_kbps = None, shown_kbps = None, global = None\<rparr>"

definition zero_kbps :: kbps where
  "zero_kbps =
     \<lparr>initialized = False, in_srs = Fin 0, in_sys = Fin 0, in_inner = Fin 0, out_srs = Fin 0,
      out_sys = Fin 0, out_inner = Fin 0\<rparr>"

definition rate :: "jsnum \<Rightarrow> jsnum \<Rightarrow> jsnum \<Rightarrow> jsnum" where
  "rate new old diff = num_div (num_mul (num_sub new old) (num_of 8)) diff"

definition compute_kbps :: "sample \<Rightarrow> sample \<Rightarrow> kbps" where
  "compute_kbps d p =
     (let k = zero_kbps\<lparr>initialized := True\<rparr>;
          diff = num_sub (net_sample_time d) (net_sample_time p);
          k = (if num_less (num_of 0) diff
               then k\<lparr>in_sys := rate (net_recv_bytes d) (net_recv_bytes p) diff,
                      in_inner := rate (net_recvi_bytes d) (net_recvi_bytes p) diff,
                      out_sys := rate (net_send_bytes d) (net_send_bytes p) diff,
                      out_inner := rate (net_sendi_bytes d) (net_sendi_bytes p) diff\<rparr>
               else k);
          diff = num_sub (srs_sample_time d) (srs_sample_time p)
      in if num_less (num_of 0) diff
         then k\<lparr>in_srs := rate (srs_recv_bytes d) (srs_recv_bytes p) diff,
                out_srs := rate (srs_send_bytes d) (srs_send_bytes p) diff\<rparr>
         else k)"

definition on_summary :: "sample \<Rightarrow> summary_scope \<Rightarrow> summary_scope result" where
  "on_summary d s =
     bind_result
       (case pre_kbps s of
          None \<Rightarrow> Inr (s, zero_kbps)
        | Some p \<Rightarrow>
            let k = compute_kbps d p;
                diff = num_sub (now_ms d) (now_ms p)
            in case shown_kbps s of
                 None \<Rightarrow> Inl TypeError
               | Some old \<Rightarrow>
                   Inr (if \<not> initialized old \<or> num_le (num_of 20000) diff
                        then s\<lparr>pre_kbps := Some d, shown_kbps := Some k\<rparr> else s, k))
       (\<lambda>(s, k).
          let s = (if shown_kbps s = None then s\<lparr>pre_kbps := Some d, shown_kbps := Some k\<rparr> else s)
          in Inr (s\<lparr>global := Some d\<rparr>))"

section \<open>Streams and their virtual hosts\<close>

definition same_id :: "jsval \<Rightarrow> jsval \<Rightarrow> bool" where
  "same_id vid vhost = (case get_prop vhost ''id'' of Inr x \<Rightarrow> strict_eq x vid | Inl _ \<Rightarrow> False)"

definition join_owners :: "jsval list \<Rightarrow> jsval props list \<Rightarrow> jsval props list" where
  "join_owners vhosts streams =
     map (\<lambda>s. prop_set s ''owner'' (system_array_get vhosts (ByFun (same_id (field s ''vhost''))))) streams"

section \<open>Pages\<close>

datatype reply =
    R_versions
  | R_summaries
  | R_vhosts
  | R_vhost
  | R_stream_vhosts
  | R_streams
  | R_stream
  | R_stream_owner
  | R_clients
  | R_client
  | R_raw
  | R_configs
  | R_kickoff string

type_synonym poll = "api_call \<times> reply"

record console =
  nav :: sc_nav
  server :: sc_server
  refresh :: "poll async_refresh2"
  logs :: "message list"
  sent :: "(string \<times> reply) list"
  now :: int
  place :: ng_location
  assigned :: "string list"

definition new_console :: "sc_server \<Rightarrow> ng_location \<Rightarrow> console" where
  "new_console s loc =
     \<lparr>nav = new_sc_nav, server = s, refresh = new_AsyncRefresh2, logs = [], sent = [], now = 0, place = loc, assigned = []\<rparr>"

definition with_refresh :: "poll refresh_op \<Rightarrow> console \<Rightarrow> console" where
  "with_refresh p c = c\<lparr>refresh := apply_op p (refresh c)\<rparr>"

definition send :: "poll \<Rightarrow> console \<Rightarrow> console" where
  "send p c = c\<lparr>sent := sent c @ [(api_url (server c) (fst p), snd p)]\<rparr>"

definition add_log :: "string \<Rightarrow> string \<Rightarrow> console \<Rightarrow> console" where
  "add_log lvl txt c = c\<lparr>logs := push_log (now c) lvl (Str txt) (logs c)\<rparr>"

text \<open>\<open>$scope.goto\<close> assigns an address to the window; the router enters its page when the browser has followed it.\<close>

definition go_to :: "string \<Rightarrow> console \<Rightarrow> console" where
  "go_to path c = c\<lparr>assigned := assigned c @ [goto_url (server c) (place c) path]\<rparr>"

definition enter :: "nav_entry \<Rightarrow> console \<Rightarrow> console" where
  "enter e c = c\<lparr>nav := nav_in e (nav c)\<rparr>"

datatype page =
    Connect
  | Summary_page
  | Vhosts_page
  | Vhost_page jsval
  | Streams_page
  | Stream_page jsval
  | Clients_page
  | Client_page jsval
  | Configs_page

definition poll_page :: "nav_entry \<Rightarrow> poll \<Rightarrow> string \<Rightarrow> console \<Rightarrow> console" where
  "poll_page e p txt c =
     with_refresh (Request (Num (num_of 0))) (add_log ''trace'' txt
       (with_refresh (Change (Some p) (Num (num_of 3000))) (enter e c)))"

definition csc_connect :: "console \<Rightarrow> console" where
  "csc_connect c = with_refresh Stop (enter Control c)"

definition csc_summary :: "console \<Rightarrow> console" where
  "csc_summary c = poll_page Summary (Summaries_get, R_summaries) ''Retrieve summary from SRS.'' c"

definition csc_vhosts :: "console \<Rightarrow> console" where
  "csc_vhosts c = poll_page Vhosts (Vhosts_get, R_vhosts) ''Retrieve vhosts from SRS'' c"

definition csc_vhost :: "jsval \<Rightarrow> console \<Rightarrow> console" where
  "csc_vhost vid c =
     add_log ''trace'' ''Retrieve vhost info from SRS'' (send (Vhosts_get2 vid, R_vhost)
       (with_refresh Stop (enter Vhosts c)))"

definition csc_streams :: "console \<Rightarrow> console" where
  "csc_streams c =
     add_log ''trace'' ''Retrieve vhost info from SRS''
       (send (Vhosts_get, R_stream_vhosts) (send (Configs_raw, R_raw) (enter Streams c)))"

definition csc_stream :: "jsval \<Rightarrow> console \<Rightarrow> console" where
  "csc_stream sid c =
     add_log ''trace'' ''Retrieve stream info from SRS'' (send (Streams_get2 sid, R_stream)
       (send (Configs_raw, R_raw) (with_refresh Stop (enter Streams c))))"

definition csc_clients :: "console \<Rightarrow> console" where
  "csc_clients c = poll_page Clients (Clients_get, R_clients) ''Retrieve clients from SRS'' c"

definition csc_client :: "jsval \<Rightarrow> console \<Rightarrow> console" where
  "csc_client cid c =
     add_log ''trace'' ''Retrieve client info from SRS'' (send (Clients_get2 cid, R_client)
       (with_refresh Stop (enter Clients c)))"

definition csc_configs :: "console \<Rightarrow> console" where
  "csc_configs c =
     add_log ''trace'' ''Retrieve config info from SRS'' (send (Configs_raw, R_configs)
       (with_refresh Stop (enter Configs c)))"

fun controller :: "page \<Rightarrow> console \<Rightarrow> console" where
  "controller Connect c = csc_connect c"
| "controller Summary_page c = csc_summary c"
| "controller Vhosts_page c = csc_vhosts c"
| "controller (Vhost_page vid) c = csc_vhost vid c"
| "controller Streams_page c = csc_streams c"
| "controller (Stream_page sid) c = csc_stream sid c"
| "controller Clients_page c = csc_clients c"
| "controller (Client_page cid) c = csc_client cid c"
| "controller Configs_page c = csc_configs c"

lemmas page_defs [simp] = csc_connect_def csc_summary_def csc_vhosts_def csc_vhost_def csc_streams_def
  csc_stream_def csc_clients_def csc_client_def csc_configs_def

text \<open>
  The routes of the console: the page of a path, \<open>/connect\<close> for every other path. The router
  also accepts each path with a slash at its end.
\<close>

definition route :: "string \<Rightarrow> page" where
  "route url =
     (let path = (if url \<noteq> ''/'' \<and> suffix ''/'' url then butlast url else url) in
      if path = ''/connect'' then Connect
      else if path = ''/vhosts'' then Vhosts_page
      else if path = ''/streams'' then Streams_page
      else if path = ''/clients'' then Clients_page
      else if path = ''/configs'' then Configs_page
      else if path = ''/summaries'' then Summary_page
      else case split_on path ''/'' of
             [[], dir, oid] \<Rightarrow>
               if oid = [] then Connect
               else if dir = ''vhosts'' then Vhost_page (Str oid)
               else if dir = ''streams'' then Stream_page (Str oid)
               else if dir = ''clients'' then Client_page (Str oid)
               else Connect
           | _ \<Rightarrow> Connect)"

text \<open>The connect button: adopt the address of the form, then ask for the version.\<close>

definition connect :: "jsval \<Rightarrow> jsval \<Rightarrow> jsval \<Rightarrow> console \<Rightarrow> console" where
  "connect sch ip prt c =
     send (Versions_get, R_versions)
       (c\<lparr>server := (server c)\<lparr>schema := sch, host := ip, port := prt\<rparr>\<rparr>)"

definition kickoff :: "jsval \<Rightarrow> string \<Rightarrow> console \<Rightarrow> console" where
  "kickoff cid what c = send (Clients_delete cid, R_kickoff what) c"

text \<open>
  What the handlers of answers do to the refresher, the messages, the outbox and the window; \<open>d\<close> is the
  answer's data where a further request depends on it, \<open>owned\<close> whether the stream page already
  knows its owner.
\<close>

fun on_reply :: "jsval \<Rightarrow> bool \<Rightarrow> reply \<Rightarrow> console \<Rightarrow> console" where
  "on_reply d owned R_versions c =
     go_to ''/summaries'' (add_log ''trace''
       (utf8 [0x8fde, 0x63a5, 0x5230] @ ''SRS'' @ to_str (host (server c)) @ utf8 [0x6210, 0x529f] @ '', SRS/'' @ to_str d) c)"
| "on_reply d owned R_summaries c = with_refresh (Request Undef) c"
| "on_reply d owned R_vhosts c = with_refresh (Request Undef) c"
| "on_reply d owned R_stream_vhosts c =
     with_refresh (Request (Num (num_of 0))) (add_log ''trace'' ''Retrieve streams from SRS''
       (with_refresh (Change (Some (Streams_get, R_streams)) (Num (num_of 3000))) c))"
| "on_reply d owned R_streams c = with_refresh (Request Undef) c"
| "on_reply d owned R_stream c =
     (if owned then c
      else add_log ''trace'' ''Retrieve vhost info from SRS'' (send (Vhosts_get2 d, R_stream_owner) c))"
| "on_reply d owned R_clients c = with_refresh (Request Undef) c"
| "on_reply d owned (R_kickoff what) c = add_log ''warn'' (''Kickoff '' @ what @ '' ok.'') c"
| "on_reply d owned _ c = c"

text \<open>A timer of the refresher fires; the page's function sends its request.\<close>

definition on_timer :: "nat \<Rightarrow> console \<Rightarrow> console" where
  "on_timer h c =
     (let r = fire h [] True [] (refresh c);
          c' = c\<lparr>refresh := r\<rparr>
      in if invoked r = invoked (refresh c) then c'
         else case pfn (calls r ! last (invoked r)) of None \<Rightarrow> c' | Some p \<Rightarrow> send p c')"

text \<open>
  A page is entered by the user, or because the browser went to another location, whose path the router reads.
\<close>

datatype console_event =
    Enter page
  | Located ng_location
  | Submit jsval jsval jsval
  | Kickoff jsval string
  | Answer nat jsval bool
  | Timer nat
  | Tick int

fun console_step :: "console_event \<Rightarrow> console \<Rightarrow> console" where
  "console_step (Enter p) c = controller p c"
| "console_step (Located loc) c = controller (route (ng_path loc)) (c\<lparr>place := loc\<rparr>)"
| "console_step (Submit a b d) c = connect a b d c"
| "console_step (Kickoff cid what) c = kickoff cid what c"
| "console_step (Answer i d owned) c =
     (if i < length (sent c) then on_reply d owned (snd (sent c ! i)) (c\<lparr>sent := splice1 i (sent c)\<rparr>) else c)"
| "console_step (Timer h) c = on_timer h c"
| "console_step (Tick t) c = c\<lparr>now := t, logs := expire_log t (logs c)\<rparr>"

definition console_run :: "console_event list \<Rightarrow> console \<Rightarrow> console" where
  "console_run es c = foldl (\<lambda>c e. console_step e c) c es"

section \<open>Facts about pages\<close>

definition console_inv :: "console \<Rightarrow> bool" where
  "console_inv c \<longleftrightarrow>
     reachable (refresh c) \<and> \<not> on_before_call_pfn (refresh c) \<and> length (logs c) \<le> 3"

lemma op_hook: "(\<forall>b. p \<noteq> SetHook b) \<Longrightarrow> on_before_call_pfn (apply_op p s) = on_before_call_pfn s"
  by (cases p) (auto simp: initialize_def refresh_change_def stop_def restart_def request_def Let_def
      split: prod.splits)

lemma inv_with_refresh: "console_inv c \<Longrightarrow> (\<forall>b. p \<noteq> SetHook b) \<Longrightarrow> console_inv (with_refresh p c)"
  using reachable.step [of "refresh c" "Op p"] by (simp add: console_inv_def with_refresh_def op_hook)

lemma inv_send: "console_inv c \<Longrightarrow> console_inv (send p c)"
  by (simp add: console_inv_def send_def)

lemma inv_add_log: "console_inv c \<Longrightarrow> console_inv (add_log l t c)"
  by (simp add: console_inv_def add_log_def push_log_def)

lemma inv_go_to: "console_inv c \<Longrightarrow> console_inv (go_to path c)"
  by (simp add: console_inv_def go_to_def)

lemma inv_enter: "console_inv c \<Longrightarrow> console_inv (enter e c)"
  by (simp add: console_inv_def enter_def)

lemma length_expire: "length (expire_log t ms) \<le> length ms"
  by (induction ms) auto

lemmas inv_intros = inv_with_refresh inv_send inv_add_log inv_go_to inv_enter

lemma inv_poll_page: "console_inv c \<Longrightarrow> console_inv (poll_page e p t c)"
  by (simp add: poll_page_def inv_intros)

lemma inv_controller: "console_inv c \<Longrightarrow> console_inv (controller p c)"
  by (cases p) (simp_all add: inv_poll_page inv_intros)

lemma inv_on_reply: "console_inv c \<Longrightarrow> console_inv (on_reply d owned r c)"
  by (cases r) (simp_all add: inv_intros)

lemma fire_hook: "on_before_call_pfn (fire h [] True [] s) = on_before_call_pfn s"
  by (auto simp: fire_def apply_ops_def Let_def split: option.splits)

lemma inv_on_timer: "console_inv c \<Longrightarrow> console_inv (on_timer h c)"
proof -
  assume inv: "console_inv c"
  then have "console_inv (c\<lparr>refresh := fire h [] True [] (refresh c)\<rparr>)"
    using reachable.step [of "refresh c" "Fire h [] True []"] by (simp add: console_inv_def fire_hook)
  then show ?thesis by (auto simp: on_timer_def Let_def intro: inv_send split: option.splits)
qed

lemma inv_step: "console_inv c \<Longrightarrow> console_inv (console_step e c)"
proof (cases e)
  case (Tick t)
  assume "console_inv c"
  then show ?thesis using Tick length_expire [of t "logs c"] by (auto simp: console_inv_def)
next
  case (Submit a b d)
  assume "console_inv c"
  then show ?thesis using Submit by (simp add: connect_def console_inv_def send_def)
next
  case (Located loc)
  assume "console_inv c"
  then have "console_inv (c\<lparr>place := loc\<rparr>)" by (simp add: console_inv_def)
  then show ?thesis using Located inv_controller by simp
next
  case (Answer i d owned)
  assume "console_inv c"
  then have "console_inv (c\<lparr>sent := splice1 i (sent c)\<rparr>)" by (simp add: console_inv_def)
  with \<open>console_inv c\<close> show ?thesis using Answer inv_on_reply by simp
qed (simp_all add: inv_controller inv_on_timer kickoff_def inv_send)

lemma inv_run: "console_inv c \<Longrightarrow> console_inv (console_run es c)"
  by (induction es arbitrary: c) (simp_all add: console_run_def inv_step)

lemma inv_new: "console_inv (new_console s loc)"
  by (simp add: console_inv_def new_console_def reachable.init) (simp add: new_AsyncRefresh2_def)

text \<open>A stopped refresher stays silent until a page or the late answer of the streams page starts it.\<close>

definition stopped :: "console \<Rightarrow> bool" where
  "stopped c \<longleftrightarrow> \<not> call_enabled (the_call (refresh c))"

lemma request_enabled: "inv2 s \<Longrightarrow> call_enabled (the_call (request t s)) = call_enabled (the_call s)"
  by (auto simp: request_def the_call_def Let_def inv2_def split: prod.splits)

lemma stopped_on_timer:
  assumes "console_inv c" "stopped c"
  shows "sent (on_timer h c) = sent c \<and> stopped (on_timer h c) \<and> assigned (on_timer h c) = assigned c"
proof -
  have i: "inv2 (refresh c)" using assms(1) by (simp add: console_inv_def reachable_inv2)
  have "fire h [] True [] (refresh c) \<in> {refresh c, (refresh c)\<lparr>timers := clear_timeout h (timers (refresh c))\<rparr>}"
  proof (cases "take_timer h (timers (refresh c))")
    case None
    then show ?thesis by (simp add: fire_def)
  next
    case (Some p)
    then obtain a where "take_timer h (timers (refresh c)) = Some (a, clear_timeout h (timers (refresh c)))"
      by (cases p) (auto dest: take_timer_Some(2))
    then have "(h, a) \<in> live (timers (refresh c))" by (rule take_timer_Some)
    from fire_blocked [OF i this] assms(2) show ?thesis by (simp add: stopped_def)
  qed
  then show ?thesis using assms(2) by (auto simp: on_timer_def Let_def stopped_def the_call_def)
qed

lemma stopped_on_reply:
  assumes "console_inv c" "stopped c" "r \<notin> {R_stream_vhosts, R_versions}"
  shows "stopped (on_reply d owned r c) \<and> snd ` set (sent (on_reply d owned r c)) \<subseteq> snd ` set (sent c) \<union> {R_stream_owner} \<and>
    assigned (on_reply d owned r c) = assigned c"
proof -
  have i: "inv2 (refresh c)" using assms(1) by (simp add: console_inv_def reachable_inv2)
  show ?thesis using assms(2,3) request_enabled [OF i]
    by (cases r) (auto simp: stopped_def with_refresh_def add_log_def send_def)
qed

lemma streams_answer:
  assumes "console_inv c"
  shows "pfn (the_call (refresh (on_reply d owned R_stream_vhosts c))) = Some (Streams_get, R_streams) \<and>
    call_enabled (the_call (refresh (on_reply d owned R_stream_vhosts c))) \<and> nav (on_reply d owned R_stream_vhosts c) = nav c"
proof -
  have i: "inv2 (refresh c)" using assms by (simp add: console_inv_def reachable_inv2)
  let ?r = "refresh_change (Some (Streams_get, R_streams)) (Num (num_of 3000)) (refresh c)"
  have ch: "inv2 ?r" "pfn (the_call ?r) = Some (Streams_get, R_streams)" "call_enabled (the_call ?r)"
    using inv2_change [OF i] i by (simp_all add: refresh_change_eq [OF i] the_call_def inv2_def nth_append)
  have p: "pfn (the_call (request t ?r)) = pfn (the_call ?r)" for t
    using ch(1) by (auto simp: request_def the_call_def Let_def inv2_def split: prod.splits)
  show ?thesis using ch p request_enabled [OF ch(1)] by (simp add: with_refresh_def add_log_def)
qed

lemma stopped_stop: "console_inv c \<Longrightarrow> stopped (with_refresh Stop c)"
  using reachable_inv2 [of "refresh c"]
  by (simp add: console_inv_def stopped_def with_refresh_def stop_def the_call_def inv2_def)

lemma stopped_controller:
  assumes "console_inv c" "p \<notin> {Summary_page, Vhosts_page, Streams_page, Clients_page}"
  shows "stopped (controller p c)"
  using assms stopped_stop [OF inv_enter [OF assms(1)]]
  by (cases p) (simp_all add: stopped_def add_log_def send_def)

fun passive_event :: "console_event \<Rightarrow> bool" where
  "passive_event (Timer h) \<longleftrightarrow> True"
| "passive_event (Answer i d owned) \<longleftrightarrow> True"
| "passive_event (Tick t) \<longleftrightarrow> True"
| "passive_event _ \<longleftrightarrow> False"

lemma set_splice1: "set (splice1 i xs) \<subseteq> set xs"
  by (auto simp: splice1_def dest: in_set_takeD in_set_dropD)

text \<open>A page is quiet as long as the refresher is stopped, no request but the stream page's own is sent, and the window stays.\<close>

definition kinds :: "console \<Rightarrow> reply set" where
  "kinds c = snd ` set (sent c)"

lemma kind_sent: "i < length (sent c) \<Longrightarrow> snd (sent c ! i) \<in> kinds c"
  unfolding kinds_def by (intro imageI nth_mem)

definition quiet :: "console \<Rightarrow> console \<Rightarrow> bool" where
  "quiet c b \<longleftrightarrow> stopped b \<and> kinds b \<subseteq> kinds c \<union> {R_stream_owner} \<and> assigned b = assigned c"

text \<open>
  The two answers that end it: the virtual hosts a streams page asked for start its poller; the version the connect button
  asked for sends the window to the summary page.
\<close>

definition late_answer :: "nat \<Rightarrow> console \<Rightarrow> console \<Rightarrow> bool" where
  "late_answer i b a \<longleftrightarrow>
     i < length (sent b) \<and>
     (snd (sent b ! i) = R_stream_vhosts \<and> pfn (the_call (refresh a)) = Some (Streams_get, R_streams) \<and>
        call_enabled (the_call (refresh a)) \<or>
      snd (sent b ! i) = R_versions \<and> stopped a \<and> assigned a = assigned b @ [goto_url (server b) (place b) ''/summaries''])"

lemma quiet_trans: "quiet c b \<Longrightarrow> quiet b a \<Longrightarrow> quiet c a"
  unfolding quiet_def by auto

lemma passive_step:
  assumes inv: "console_inv c" and st: "stopped c" and e: "passive_event e"
  shows "quiet c (console_step e c) \<or> (\<exists>i d owned. e = Answer i d owned \<and> late_answer i c (console_step e c))"
proof (cases e)
  case (Timer h)
  then show ?thesis using stopped_on_timer [OF inv st] by (auto simp: quiet_def kinds_def)
next
  case (Answer i d owned)
  show ?thesis
  proof (cases "i < length (sent c)")
    case True
    let ?c = "c\<lparr>sent := splice1 i (sent c)\<rparr>"
    have c: "console_inv ?c" "stopped ?c" using inv st by (simp_all add: console_inv_def stopped_def)
    have sub: "kinds ?c \<subseteq> kinds c"
      unfolding kinds_def using image_mono [OF set_splice1 [of i "sent c"], of snd] by simp
    consider "snd (sent c ! i) = R_stream_vhosts" | "snd (sent c ! i) = R_versions" | "snd (sent c ! i) \<notin> {R_stream_vhosts, R_versions}"
      by blast
    then show ?thesis
    proof cases
      case 1
      then have "late_answer i c (console_step e c)" using streams_answer [OF c(1), of d owned] True Answer by (simp add: late_answer_def)
      then show ?thesis using Answer by blast
    next
      case 2
      then have "late_answer i c (console_step e c)"
        using True Answer st by (simp add: late_answer_def stopped_def go_to_def add_log_def)
      then show ?thesis using Answer by blast
    next
      case 3
      have "quiet c (on_reply d owned (snd (sent c ! i)) ?c)" using stopped_on_reply [OF c 3, of d owned] sub unfolding quiet_def kinds_def [symmetric] by auto
      then have "quiet c (console_step e c)" using True Answer by simp
      then show ?thesis ..
    qed
  next
    case False
    then show ?thesis using Answer st by (auto simp: quiet_def)
  qed
next
  case (Tick t)
  then show ?thesis using st by (auto simp: quiet_def stopped_def kinds_def)
qed (use e in simp_all)

lemma run_Cons: "console_run (e # es) c = console_run es (console_step e c)"
  by (simp add: console_run_def)

lemma passive_run:
  assumes "console_inv c" "stopped c" "list_all passive_event es"
  shows "quiet c (console_run es c) \<or>
    (\<exists>es1 i d owned es2. es = es1 @ Answer i d owned # es2 \<and> quiet c (console_run es1 c) \<and>
       late_answer i (console_run es1 c) (console_step (Answer i d owned) (console_run es1 c)))"
  using assms
proof (induction es arbitrary: c)
  case Nil
  then show ?case by (auto simp: console_run_def quiet_def)
next
  case (Cons e es)
  consider "quiet c (console_step e c)" | i d owned where "e = Answer i d owned" "late_answer i c (console_step e c)"
    using passive_step [of c e] Cons.prems by auto
  then show ?case
  proof cases
    case 1
    then have "quiet (console_step e c) (console_run es (console_step e c)) \<or>
      (\<exists>es1 i d owned es2. es = es1 @ Answer i d owned # es2 \<and> quiet (console_step e c) (console_run es1 (console_step e c)) \<and>
         late_answer i (console_run es1 (console_step e c)) (console_step (Answer i d owned) (console_run es1 (console_step e c))))"
      using Cons.prems by (intro Cons.IH) (simp_all add: inv_step quiet_def)
    then show ?thesis
    proof
      assume "quiet (console_step e c) (console_run es (console_step e c))"
      then show ?thesis using quiet_trans [OF 1] by (simp add: run_Cons)
    next
      assume "\<exists>es1 i d owned es2. es = es1 @ Answer i d owned # es2 \<and> quiet (console_step e c) (console_run es1 (console_step e c)) \<and>
         late_answer i (console_run es1 (console_step e c)) (console_step (Answer i d owned) (console_run es1 (console_step e c)))"
      then obtain es1 i d owned es2 where "es = es1 @ Answer i d owned # es2"
        "quiet (console_step e c) (console_run es1 (console_step e c))"
        "late_answer i (console_run es1 (console_step e c)) (console_step (Answer i d owned) (console_run es1 (console_step e c)))"
        by blast
      then have "e # es = (e # es1) @ Answer i d owned # es2 \<and> quiet c (console_run (e # es1) c) \<and>
          late_answer i (console_run (e # es1) c) (console_step (Answer i d owned) (console_run (e # es1) c))"
        using quiet_trans [OF 1] by (simp add: run_Cons)
      then show ?thesis by blast
    qed
  next
    case 2
    have "quiet c c" using Cons.prems(2) by (auto simp: quiet_def)
    then have "e # es = [] @ Answer i d owned # es \<and> quiet c (console_run [] c) \<and>
        late_answer i (console_run [] c) (console_step (Answer i d owned) (console_run [] c))"
      using 2 by (simp add: console_run_def)
    then show ?thesis by blast
  qed
qed

text \<open>The events that ask for one of these answers: entering the streams page and the connect button.\<close>

fun asks_late :: "console_event \<Rightarrow> bool" where
  "asks_late (Enter p) \<longleftrightarrow> p = Streams_page"
| "asks_late (Located loc) \<longleftrightarrow> route (ng_path loc) = Streams_page"
| "asks_late (Submit a b d) \<longleftrightarrow> True"
| "asks_late _ \<longleftrightarrow> False"

definition late :: "reply set" where
  "late = {R_stream_vhosts, R_versions}"

text \<open>No such answer is outstanding, and no call of the refresher asks for one.\<close>

definition call_ok :: "poll call \<Rightarrow> bool" where
  "call_ok k \<longleftrightarrow> (case pfn k of None \<Rightarrow> True | Some p \<Rightarrow> snd p \<notin> late)"

definition no_late :: "console \<Rightarrow> bool" where
  "no_late c \<longleftrightarrow> kinds c \<inter> late = {} \<and> (\<forall>k \<in> set (calls (refresh c)). call_ok k)"

lemma late_poll_update:
  assumes "cur r < length (calls r)" "\<forall>k \<in> set (calls r). call_ok k" "pfn k' = pfn (the_call r)"
  shows "\<forall>k \<in> set ((calls r)[cur r := k']). call_ok k"
proof
  fix k assume "k \<in> set ((calls r)[cur r := k'])"
  then have "k = k' \<or> k \<in> set (calls r)" using set_update_subset_insert [of "calls r" "cur r" k'] by blast
  moreover have "the_call r \<in> set (calls r)" unfolding the_call_def by (rule nth_mem [OF assms(1)])
  then have "call_ok k'" using assms(2,3) unfolding call_ok_def by force
  ultimately show "call_ok k" using assms(2) by blast
qed

lemma no_late_op:
  assumes "console_inv c" "no_late c" "(\<exists>t. p = Request t) \<or> p = Stop \<or> (\<exists>q t. p = Change (Some q) t \<and> snd q \<notin> late)"
  shows "no_late (with_refresh p c)"
proof -
  let ?r = "refresh c"
  have i: "inv2 ?r" "cur ?r < length (calls ?r)" using reachable_inv2 [of ?r] assms(1) by (simp_all add: console_inv_def inv2_def)
  have k: "\<forall>k \<in> set (calls ?r). call_ok k" using assms(2) by (simp add: no_late_def kinds_def)
  note u = late_poll_update [OF i(2) k]
  have "\<forall>k \<in> set (calls (apply_op p ?r)). call_ok k"
    using assms(3)
  proof (elim disjE exE conjE)
    fix t assume p: "p = Request t"
    have "calls (request t ?r) = calls ?r \<or> (\<exists>h. calls (request t ?r) = (calls ?r)[cur ?r := (the_call ?r)\<lparr>call_handler := h\<rparr>])"
      by (auto simp: request_def Let_def split: prod.split)
    then show ?thesis using p k u [of "(the_call ?r)\<lparr>call_handler := h\<rparr>" for h] by auto
  next
    assume "p = Stop"
    then show ?thesis using u [of "(the_call ?r)\<lparr>call_enabled := False\<rparr>"] by (simp add: stop_def)
  next
    fix q t assume "p = Change (Some q) t" "snd q \<notin> late"
    then show ?thesis using u [of "(the_call ?r)\<lparr>call_enabled := False\<rparr>"] by (auto simp: refresh_change_eq [OF i(1)] call_ok_def [of "\<lparr>pfn = _, timeout = _, call_enabled = _, call_handler = _\<rparr>"])
  qed
  then show ?thesis using assms(2) by (simp add: no_late_def kinds_def with_refresh_def)
qed

lemma no_late_simps:
  "no_late c \<Longrightarrow> no_late (add_log l t c)" "no_late c \<Longrightarrow> no_late (enter n c)" "no_late c \<Longrightarrow> no_late (go_to path c)"
  "no_late c \<Longrightarrow> snd p \<notin> late \<Longrightarrow> no_late (send p c)"
  by (auto simp: no_late_def kinds_def add_log_def enter_def go_to_def send_def)

lemma no_late_poll_page: "console_inv c \<Longrightarrow> no_late c \<Longrightarrow> snd p \<notin> late \<Longrightarrow> no_late (poll_page n p txt c)"
  unfolding poll_page_def by (intro no_late_op no_late_simps inv_intros) auto

lemma no_late_controller: "console_inv c \<Longrightarrow> no_late c \<Longrightarrow> p \<noteq> Streams_page \<Longrightarrow> no_late (controller p c)"
proof (cases p)
  case Streams_page
  assume "p \<noteq> Streams_page"
  then show ?thesis using Streams_page by simp
qed (simp_all add: no_late_poll_page no_late_simps no_late_op inv_enter late_def)

lemma no_late_on_timer: "console_inv c \<Longrightarrow> no_late c \<Longrightarrow> no_late (on_timer h c)"
proof -
  assume inv: "console_inv c" and n: "no_late c"
  let ?r = "refresh c" and ?f = "fire h [] True [] (refresh c)"
  have i: "inv2 ?r" using inv by (simp add: console_inv_def reachable_inv2)
  have cs: "calls ?f = calls ?r" by (simp add: fire_def apply_ops_def Let_def split: option.split prod.split)
  then have f: "no_late (c\<lparr>refresh := ?f\<rparr>)" using n by (simp add: no_late_def kinds_def)
  have "snd p \<notin> late" if "invoked ?f \<noteq> invoked ?r" "pfn (calls ?f ! last (invoked ?f)) = Some p" for p
  proof -
    have "last (invoked ?f) = cur ?r" using fire_invoked [OF i, of h "[]" True "[]"] that(1) by auto
    then have "calls ?f ! last (invoked ?f) \<in> set (calls ?r)" using i cs by (simp add: inv2_def)
    then show ?thesis using n that(2) by (force simp: no_late_def call_ok_def)
  qed
  then show ?thesis using f by (auto simp: on_timer_def Let_def intro!: no_late_simps split: option.split)
qed

lemma no_late_step: "console_inv c \<Longrightarrow> no_late c \<Longrightarrow> \<not> asks_late e \<Longrightarrow> no_late (console_step e c)"
proof (cases e)
  case (Located loc)
  assume "console_inv c" "no_late c" "\<not> asks_late e"
  then have "console_inv (c\<lparr>place := loc\<rparr>)" "no_late (c\<lparr>place := loc\<rparr>)" by (simp_all add: console_inv_def no_late_def kinds_def)
  then show ?thesis using \<open>\<not> asks_late e\<close> Located no_late_controller by simp
next
  case (Answer i d owned)
  assume inv: "console_inv c" and n: "no_late c"
  show ?thesis
  proof (cases "i < length (sent c)")
    case True
    let ?c = "c\<lparr>sent := splice1 i (sent c)\<rparr>"
    have r: "snd (sent c ! i) \<notin> late" using kind_sent [OF True] n by (auto simp: no_late_def)
    have c: "console_inv ?c" using inv by (simp add: console_inv_def)
    have "kinds ?c \<subseteq> kinds c"
      unfolding kinds_def using image_mono [OF set_splice1 [of i "sent c"], of snd] by simp
    then have "no_late ?c" using n by (auto simp: no_late_def)
    then have "no_late (on_reply d owned (snd (sent c ! i)) ?c)"
      using r c by (cases "snd (sent c ! i)") (simp_all add: late_def no_late_op no_late_simps)
    then show ?thesis using Answer True by simp
  qed (use Answer n in simp)
next
  case (Tick t)
  assume "no_late c"
  then show ?thesis using Tick by (simp add: no_late_def kinds_def)
next
  case (Kickoff cid what)
  assume "no_late c"
  then show ?thesis using Kickoff by (simp add: kickoff_def no_late_simps late_def)
qed (simp_all add: no_late_controller no_late_on_timer)

lemma no_late_run:
  "console_inv c \<Longrightarrow> no_late c \<Longrightarrow> list_all (\<lambda>e. \<not> asks_late e) es \<Longrightarrow> no_late (console_run es c)"
proof (induction es arbitrary: c)
  case (Cons e es)
  then show ?case using Cons.IH [OF inv_step no_late_step] by (simp add: run_Cons)
qed (simp add: console_run_def)

lemma no_late_new: "no_late (new_console srv loc)"
  by (simp add: no_late_def kinds_def new_console_def new_AsyncRefresh2_def call_ok_def)

section \<open>Facts about the summary\<close>

definition nonneg :: "jsnum \<Rightarrow> bool" where
  "nonneg n \<longleftrightarrow> n = PInf \<or> (\<exists>y \<ge> 0. n = Fin y)"

lemma nonneg_fl: "0 \<le> x \<Longrightarrow> nonneg (fl x)"
  using fl_nonneg [of x] by (auto simp: nonneg_def)

lemma nonneg_mul: "nonneg a \<Longrightarrow> 0 < k \<Longrightarrow> nonneg (num_mul a (Fin k))"
  using nonneg_fl [of "the (case a of Fin y \<Rightarrow> Some y | _ \<Rightarrow> None) * k"]
  by (cases a) (auto simp: nonneg_def inf_sgn_def)

lemma nonneg_div: "nonneg a \<Longrightarrow> 0 < k \<Longrightarrow> nonneg (num_div a (Fin k))"
  using nonneg_fl [of "the (case a of Fin y \<Rightarrow> Some y | _ \<Rightarrow> None) / k"]
  by (cases a) (auto simp: nonneg_def)

lemma nonneg_rate:
  assumes "y \<le> x" "num_less (num_of 0) d" "d = Fin k"
  shows "nonneg (rate (Fin x) (Fin y) d)"
proof -
  have "nonneg (num_sub (Fin x) (Fin y))" using assms(1) nonneg_fl [of "x - y"] by (simp add: num_sub_def)
  then show ?thesis using assms(2,3) nonneg_mul [of "num_sub (Fin x) (Fin y)" 8]
    by (auto simp: rate_def intro!: nonneg_div)
qed

definition summary_inv :: "summary_scope \<Rightarrow> bool" where
  "summary_inv s \<longleftrightarrow>
     (pre_kbps s = None \<longleftrightarrow> shown_kbps s = None) \<and> (pre_kbps s \<noteq> None \<longrightarrow> global s \<noteq> None)"

lemma on_summary_None:
  "pre_kbps s = None \<Longrightarrow> shown_kbps s = None \<Longrightarrow>
     on_summary d s = Inr (s\<lparr>pre_kbps := Some d, shown_kbps := Some zero_kbps, global := Some d\<rparr>)"
  by (simp add: on_summary_def)

lemma on_summary_Some:
  "pre_kbps s = Some p \<Longrightarrow> shown_kbps s = Some k \<Longrightarrow>
     on_summary d s =
       Inr (if \<not> initialized k \<or> num_le (num_of 20000) (num_sub (now_ms d) (now_ms p))
            then s\<lparr>pre_kbps := Some d, shown_kbps := Some (compute_kbps d p), global := Some d\<rparr>
            else s\<lparr>global := Some d\<rparr>)"
  by (simp add: on_summary_def Let_def)

lemma on_summary_inv: "summary_inv s \<Longrightarrow> \<exists>s'. on_summary d s = Inr s' \<and> summary_inv s'"
  by (cases "pre_kbps s"; cases "shown_kbps s") (auto simp: summary_inv_def on_summary_None on_summary_Some)

fun feed :: "sample list \<Rightarrow> summary_scope \<Rightarrow> summary_scope result" where
  "feed [] s = Inr s"
| "feed (d # ds) s = bind_result (on_summary d s) (feed ds)"

lemma feed_inv: "summary_inv s \<Longrightarrow> \<exists>s'. feed ds s = Inr s' \<and> summary_inv s'"
proof (induction ds arbitrary: s)
  case (Cons d ds)
  then show ?case using on_summary_inv [of s d] by auto
qed simp

lemma compute_initialized: "initialized (compute_kbps d p)"
  by (simp add: compute_kbps_def Let_def zero_kbps_def)

lemma matches_ByFun: "matches (ByFun p) = p"
  by (rule ext) simp

section \<open>Properties\<close>

text \<open>
  C30. What can start polling on a page of details. After such a page was entered, at any time, whatever timers of earlier
  pages fire and whatever answers arrive in whatever order: nothing is polled, the window stays, and the only request that
  follows is the stream page's own question for its owner, until one of two late answers arrives. The virtual hosts
  that a streams page asked for start the poller of the streams page; the version that the connect button asked for sends the
  window to the summary page. If no streams page was entered and the connect button not pressed before, there is no such
  answer and the page stays quiet.
\<close>

theorem detail_page_polling:
  assumes "p \<notin> {Summary_page, Vhosts_page, Streams_page, Clients_page}" and "list_all passive_event es"
    and "c = controller p (console_run es0 (new_console srv loc))"
  shows "(quiet c (console_run es c) \<or>
     (\<exists>es1 i d owned es2. es = es1 @ Answer i d owned # es2 \<and> quiet c (console_run es1 c) \<and>
        late_answer i (console_run es1 c) (console_step (Answer i d owned) (console_run es1 c)))) \<and>
    (list_all (\<lambda>e. \<not> asks_late e) es0 \<longrightarrow> quiet c (console_run es c))"
proof -
  let ?b = "console_run es0 (new_console srv loc)"
  have inv: "console_inv ?b" by (rule inv_run [OF inv_new])
  have c: "console_inv c" "stopped c" using inv_controller [OF inv] stopped_controller [OF inv assms(1)] assms(3) by simp_all
  note r = passive_run [OF c assms(2)]
  have "quiet c (console_run es c)" if l: "list_all (\<lambda>e. \<not> asks_late e) es0"
  proof -
    have "no_late ?b" by (rule no_late_run [OF inv_new no_late_new l])
    then have "no_late c" using no_late_controller [OF inv] assms(1,3) by simp
    then have n: "kinds c \<inter> late = {}" by (simp add: no_late_def)
    have "\<not> late_answer i b a" if "quiet c b" for i b a
    proof
      assume "late_answer i b a"
      then have k: "snd (sent b ! i) \<in> kinds b" and l: "snd (sent b ! i) \<in> late"
        using kind_sent by (auto simp: late_answer_def late_def)
      have "snd (sent b ! i) \<in> kinds c \<union> {R_stream_owner}" using that k unfolding quiet_def by blast
      then show False using n l by (auto simp: late_def)
    qed
    then show ?thesis using r by blast
  qed
  then show ?thesis using r by blast
qed

definition demo_place :: ng_location where
  "demo_place = \<lparr>ng_abs_url = ''http://h/#/connect'', ng_path = ''/connect'', ng_search = [], ng_protocol = ''http'', ng_host = ''h'', ng_port = Fin 80\<rparr>"

theorem detail_page_polling_witness:
  "quiet (controller Configs_page (console_run [Enter Clients_page] (new_console new_sc_server demo_place)))
     (console_run [Timer 1, Answer 0 Null True] (controller Configs_page (console_run [Enter Clients_page] (new_console new_sc_server demo_place))))"
  using detail_page_polling [of Configs_page "[Timer 1, Answer 0 Null True]" _ "[Enter Clients_page]" new_sc_server demo_place] by simp

text \<open>The window is sent to the summary page, and when the browser has followed, its poller is installed.\<close>

lemma version_answer_leads_to_polling:
  assumes "console_inv c" "route (ng_path loc) = Summary_page"
  shows "pfn (the_call (refresh (console_step (Located loc) c))) = Some (Summaries_get, R_summaries) \<and>
    call_enabled (the_call (refresh (console_step (Located loc) c)))"
proof -
  have i: "inv2 (refresh c)" using assms(1) by (simp add: console_inv_def reachable_inv2)
  let ?r = "refresh_change (Some (Summaries_get, R_summaries)) (Num (num_of 3000)) (refresh c)"
  have ch: "inv2 ?r" "pfn (the_call ?r) = Some (Summaries_get, R_summaries)" "call_enabled (the_call ?r)"
    using inv2_change [OF i] i by (simp_all add: refresh_change_eq [OF i] the_call_def inv2_def nth_append)
  have p: "pfn (the_call (request t ?r)) = pfn (the_call ?r)" for t
    using ch(1) by (auto simp: request_def the_call_def Let_def inv2_def split: prod.splits)
  show ?thesis using assms(2) ch p request_enabled [OF ch(1)]
    by (simp add: poll_page_def with_refresh_def add_log_def enter_def)
qed

text \<open>
  When the streams page was left before its virtual hosts arrived, their
  late answer installs the streams poller, whatever page is shown then, and replaces its function.
\<close>

theorem late_streams_answer_takes_over:
  assumes "i < length (sent (console_run es (new_console srv loc)))"
    and "snd (sent (console_run es (new_console srv loc)) ! i) = R_stream_vhosts"
  shows "let c = console_step (Answer i d owned) (console_run es (new_console srv loc)) in
    pfn (the_call (refresh c)) = Some (Streams_get, R_streams) \<and> call_enabled (the_call (refresh c)) \<and>
    nav c = nav (console_run es (new_console srv loc))"
proof -
  let ?c = "console_run es (new_console srv loc)"
  have inv: "console_inv ?c" by (rule inv_run [OF inv_new])
  then have i: "inv2 (refresh ?c)" by (simp add: console_inv_def reachable_inv2)
  let ?r = "refresh_change (Some (Streams_get, R_streams)) (Num (num_of 3000)) (refresh ?c)"
  have ch: "inv2 ?r" "pfn (the_call ?r) = Some (Streams_get, R_streams)" "call_enabled (the_call ?r)"
    using inv2_change [OF i] i by (simp_all add: refresh_change_eq [OF i] the_call_def inv2_def nth_append)
  have p: "pfn (the_call (request t ?r)) = pfn (the_call ?r)" for t
    using ch(1) by (auto simp: request_def the_call_def Let_def inv2_def split: prod.splits)
  show ?thesis using assms ch p request_enabled [OF ch(1)]
    by (simp add: with_refresh_def add_log_def)
qed

theorem late_streams_answer_takes_over_witness:
  "let c = console_step (Answer 1 Null True) (console_run [Enter Streams_page, Enter Clients_page] (new_console new_sc_server demo_place)) in
    pfn (the_call (refresh c)) = Some (Streams_get, R_streams) \<and> selected (nav c) = Str ''/clients''"
proof -
  have l: "map snd (sent (console_run [Enter Streams_page, Enter Clients_page] (new_console new_sc_server demo_place))) = [R_raw, R_stream_vhosts]"
    and n: "selected (nav (console_run [Enter Streams_page, Enter Clients_page] (new_console new_sc_server demo_place))) = Str ''/clients''"
    by (simp_all add: console_run_def poll_page_def with_refresh_def add_log_def enter_def nav_in_def send_def new_console_def)
  have len: "length (sent (console_run [Enter Streams_page, Enter Clients_page] (new_console new_sc_server demo_place))) = 2"
    using arg_cong [OF l, of length] by simp
  moreover have "snd (sent (console_run [Enter Streams_page, Enter Clients_page] (new_console new_sc_server demo_place)) ! 1) = R_stream_vhosts"
    using arg_cong [OF l, of "\<lambda>xs. xs ! 1"] len by simp
  ultimately show ?thesis
    using late_streams_answer_takes_over [of 1 "[Enter Streams_page, Enter Clients_page]" new_sc_server demo_place Null True] n
    by (simp add: Let_def)
qed

text \<open>
  The message list never holds more than three entries, over all sequences of pages, answers,
  timers and ticks, and a message just logged is its last.
\<close>

theorem logs_bounded:
  "length (logs (console_run es (new_console srv loc))) \<le> 3 \<and>
   last (push_log t lvl txt ms) = \<lparr>level = lvl, msg_text = txt, create = t\<rparr> \<and>
   length (push_log t lvl txt ms) = min (length ms) 2 + 1"
  using inv_run [OF inv_new, of es srv] by (simp add: console_inv_def push_log_def)

text \<open>
  The bandwidth computation never runs into \<open>undefined\<close>: from the fresh scope every sequence of
  samples is processed without an exception, and once a rate is shown it is replaced only by a
  sample taken at least twenty seconds after the one it is based on.
\<close>

theorem summary_never_fails:
  "\<exists>s. feed ds new_summary = Inr s \<and>
     (\<forall>d s' k p. on_summary d s = Inr s' \<longrightarrow> shown_kbps s = Some k \<longrightarrow> initialized k \<longrightarrow> pre_kbps s = Some p \<longrightarrow>
        shown_kbps s' \<noteq> shown_kbps s \<longrightarrow> num_le (num_of 20000) (num_sub (now_ms d) (now_ms p)))"
proof -
  have "summary_inv new_summary" by (simp add: summary_inv_def new_summary_def)
  then obtain s where s: "feed ds new_summary = Inr s" using feed_inv by blast
  show ?thesis by (rule exI [of _ s]) (use s in \<open>auto simp: on_summary_Some split: if_splits\<close>)
qed

theorem summary_never_fails_witness:
  "\<exists>s. feed [] new_summary = Inr s"
  using summary_never_fails [of "[]"] by blast

text \<open>
  Counters that do not decrease never show a negative or undefined bandwidth, in any of the six
  figures, whatever the sampling times; without progress of time the figure is zero.
\<close>

theorem bandwidth_nonneg:
  assumes "net_recv_bytes d = Fin a" "net_recv_bytes p = Fin a'" "a' \<le> a"
    and "net_recvi_bytes d = Fin b" "net_recvi_bytes p = Fin b'" "b' \<le> b"
    and "net_send_bytes d = Fin e" "net_send_bytes p = Fin e'" "e' \<le> e"
    and "net_sendi_bytes d = Fin f" "net_sendi_bytes p = Fin f'" "f' \<le> f"
    and "srs_recv_bytes d = Fin g" "srs_recv_bytes p = Fin g'" "g' \<le> g"
    and "srs_send_bytes d = Fin h" "srs_send_bytes p = Fin h'" "h' \<le> h"
    and "num_sub (net_sample_time d) (net_sample_time p) = Fin t"
    and "num_sub (srs_sample_time d) (srs_sample_time p) = Fin u"
  shows "\<forall>r \<in> {in_sys, in_inner, out_sys, out_inner, in_srs, out_srs}. nonneg (r (compute_kbps d p))"
proof -
  have z: "nonneg (Fin 0)" by (simp add: nonneg_def)
  have n: "y \<le> x \<Longrightarrow> 0 < k \<Longrightarrow> nonneg (rate (Fin x) (Fin y) (Fin k))" for x y k
    by (rule nonneg_rate) simp_all
  show ?thesis using assms by (simp add: compute_kbps_def Let_def zero_kbps_def z n)
qed

theorem bandwidth_nonneg_witness:
  "nonneg (in_sys (compute_kbps
     \<lparr>now_ms = Fin 9, net_sample_time = Fin 3, net_recv_bytes = Fin 7, net_recvi_bytes = Fin 7, net_send_bytes = Fin 7,
      net_sendi_bytes = Fin 7, srs_sample_time = Fin 3, srs_recv_bytes = Fin 7, srs_send_bytes = Fin 7\<rparr>
     \<lparr>now_ms = Fin 9, net_sample_time = Fin 3, net_recv_bytes = Fin 5, net_recvi_bytes = Fin 5, net_send_bytes = Fin 5,
      net_sendi_bytes = Fin 5, srs_sample_time = Fin 3, srs_recv_bytes = Fin 5, srs_send_bytes = Fin 5\<rparr>))"
  by (rule bspec [OF bandwidth_nonneg [of _ 7 _ 5 7 5 7 5 7 5 7 5 7 5 0 0]]) (simp_all add: num_sub_def)

text \<open>
  The handler of HTTP errors: it throws on an answer without a body, so the message for an
  unreachable server is never shown for it; a known error code is explained; for an unknown one the
  answer itself is logged instead of the text the code prepared.
\<close>

theorem http_error_messages:
  "(nullish response \<longrightarrow> on_http_error status response = Inl TypeError) \<and>
   (response = Obj ps \<and> strict_eq status (Num (num_of 200)) \<and> map_of known_codes (to_str (field ps ''code'')) = None \<longrightarrow>
      (\<exists>lvl. on_http_error status response = Inr (lvl, response))) \<and>
   (response = Obj ps \<and> strict_eq status (Num (num_of 200)) \<and> map_of known_codes (to_str (field ps ''code'')) = Some t \<longrightarrow>
      (\<exists>lvl. on_http_error status response = Inr (lvl, Str (''code='' @ to_str (field ps ''code'') @ '', '' @ t))))"
  by (auto simp: on_http_error_def get_prop_def nullish_def Let_def field_def)

theorem http_error_messages_witness:
  "on_http_error (Num (num_of 0)) Undef = Inl TypeError"
  using http_error_messages [of Undef "Num (num_of 0)" "[]" "[]"] by (simp add: nullish_def)

text \<open>
  The streams page joins every stream to its virtual host: the owner is the first virtual host
  with the stream's identifier, or \<open>null\<close> when there is none, and nothing else of a stream changes.
\<close>

theorem owners_joined:
  assumes "i < length streams"
  shows "field (join_owners vhosts streams ! i) ''owner'' =
      (case find (same_id (field (streams ! i) ''vhost'')) vhosts of None \<Rightarrow> Null | Some v \<Rightarrow> v) \<and>
    (\<forall>k. k \<noteq> ''owner'' \<longrightarrow> field (join_owners vhosts streams ! i) k = field (streams ! i) k) \<and>
    length (join_owners vhosts streams) = length streams"
  using assms by (simp add: join_owners_def field_set system_array_get_find matches_ByFun)

theorem owners_joined_witness:
  "field (join_owners [Obj [(''id'', Str ''v1'')]] [[(''vhost'', Str ''v1'')]] ! 0) ''owner'' = Obj [(''id'', Str ''v1'')]"
  using owners_joined [of 0 "[[(''vhost'', Str ''v1'')]]" "[Obj [(''id'', Str ''v1'')]]"]
  by (simp add: field_Cons field_Nil same_id_def get_prop_def prop_get_def strict_eq_def)

end
