(* ===== verification/ConsoleWidgets.thy ===== *)
theory ConsoleWidgets
  imports StringUtil
begin

text \<open>
  The interactive widgets of the console: the configuration row \<open>scDirective\<close> and the key of
  \<open>scPretty2\<close> (\<open>srs.console.js\<close>), the popover with its position service (\<open>popover.js\<close>) and the
  closable alert (\<open>alert.js\<close>). A user action is one step: the handler, then the digest in which
  AngularJS calls the watcher if the watched value changed. An exception ends the handler or
  watcher it happens in, and the changes made until then stay: a step returns both.
\<close>

section \<open>The configuration row\<close>

text \<open>\<open>d_value\<close> is \<open>data.value\<close>, \<open>None\<close> when the server did not send the option at all.\<close>

record directive =
  d_array :: jsval
  d_bool :: jsval
  d_default :: jsval
  d_value :: "jsval option"
  editing :: bool
  old_init :: bool
  old_value :: jsval

definition row_key :: "string \<Rightarrow> string" where
  "row_key attr = system_string_trim attr (Str ''global.'')"

definition row_selects :: "jsval \<Rightarrow> jsval \<Rightarrow> jsval" where
  "row_selects select selects =
     (case select of
        Str s \<Rightarrow> if s \<noteq> [] \<and> \<not> truthy selects then Arr (map Str (split_on s '','')) else selects
      | _ \<Rightarrow> selects)"

definition is_true :: "jsval \<Rightarrow> bool" where
  "is_true v \<longleftrightarrow> strict_eq v (Str ''true'')"

type_synonym 's outcome = "'s \<times> js_error option"

definition reset_old :: "directive \<Rightarrow> directive" where
  "reset_old s = s\<lparr>old_init := False, old_value := Undef\<rparr>"

text \<open>The watcher of \<open>editing\<close>; its test \<open>!nv && !nv\<close> leaves unless editing has begun.\<close>

definition watch_editing :: "bool \<Rightarrow> bool \<Rightarrow> directive \<Rightarrow> directive outcome" where
  "watch_editing nv ov s =
     (if \<not> nv \<and> \<not> nv then (s, None)
      else
        let v = (case d_value s of None \<Rightarrow> Undef | Some v \<Rightarrow> v);
            s = s\<lparr>d_value := Some v\<rparr>;
            s = (if \<not> old_init s then s\<lparr>old_value := v, old_init := True\<rparr> else s)
        in if nv \<and> \<not> ov \<and> is_true (d_array s)
           then (case v of
                   Arr vs \<Rightarrow> (s\<lparr>d_value := Some (Str (to_str v))\<rparr>, None)
                 | _ \<Rightarrow> (s, Some TypeError))
           else (s, None))"

definition digest :: "directive \<Rightarrow> directive outcome \<Rightarrow> directive outcome" where
  "digest before r =
     (case r of (s, e) \<Rightarrow>
        if editing s \<noteq> editing before
        then let (s', e') = watch_editing (editing s) (editing before) s
             in (s', if e = None then e' else e)
        else (s, e))"

definition row_edit :: "directive \<Rightarrow> directive outcome" where
  "row_edit s = digest s (s\<lparr>editing := True\<rparr>, None)"

text \<open>\<open>ok\<close> is the answer of the page's \<open>submit\<close>, which is asked only while an old value is held.\<close>

definition row_commit :: "bool \<Rightarrow> directive \<Rightarrow> directive outcome" where
  "row_commit ok s =
     digest s
       (if is_true (d_array s) \<and> d_value s = None then (s, Some TypeError)
        else
          let s = (case d_value s of
                     Some (Str t) \<Rightarrow> if is_true (d_array s)
                                     then s\<lparr>d_value := Some (Arr (map Str (split_on t '','')))\<rparr> else s
                   | _ \<Rightarrow> s)
          in if old_init s \<and> \<not> ok then (s, None)
             else (reset_old (s\<lparr>editing := False\<rparr>), None))"

definition row_load_default :: "directive \<Rightarrow> directive outcome" where
  "row_load_default s =
     (if d_default s = Undef then (s, None)
      else if d_value s = None then (s, Some TypeError)
      else if is_true (d_bool s) then (s\<lparr>d_value := Some (Bool (is_true (d_default s)))\<rparr>, None)
      else if is_true (d_array s)
      then (case d_default s of
              Str t \<Rightarrow> (s\<lparr>d_value := Some (Arr (map Str (split_on t '','')))\<rparr>, None)
            | _ \<Rightarrow> (s, Some TypeError))
      else (s\<lparr>d_value := Some (d_default s)\<rparr>, None))"

definition row_cancel :: "directive \<Rightarrow> directive outcome" where
  "row_cancel s =
     digest s
       (if (old_init s \<or> is_true (d_array s)) \<and> d_value s = None then (s, Some TypeError)
        else
          let s = (if old_init s \<or> is_true (d_array s) then s\<lparr>d_value := Some (old_value s)\<rparr> else s)
          in (reset_old (s\<lparr>editing := False\<rparr>), None))"

text \<open>The row's inputs are bound to \<open>data.value\<close>.\<close>

datatype row_event = Edit | Type jsval | Load_default | Commit bool | Cancel

fun row_step :: "row_event \<Rightarrow> directive \<Rightarrow> directive" where
  "row_step Edit s = fst (row_edit s)"
| "row_step (Type v) s = s\<lparr>d_value := Some v\<rparr>"
| "row_step Load_default s = fst (row_load_default s)"
| "row_step (Commit ok) s = fst (row_commit ok s)"
| "row_step Cancel s = fst (row_cancel s)"

definition row_run :: "row_event list \<Rightarrow> directive \<Rightarrow> directive" where
  "row_run es s = foldl (\<lambda>s e. row_step e s) s es"

section \<open>The popover\<close>

record popover =
  pop_shown :: bool
  pop_trigger :: jsval
  pop_confirmed :: nat
  pop_has_confirm :: bool

definition new_popover :: "jsval \<Rightarrow> jsval \<Rightarrow> popover" where
  "new_popover confirm_attr trigger_attr =
     \<lparr>pop_shown = False,
      pop_trigger = (if truthy confirm_attr then Str ''click'' else trigger_attr),
      pop_confirmed = 0, pop_has_confirm = truthy confirm_attr\<rparr>"

datatype pop_event = Pop_click | Pop_enter | Pop_leave | Pop_focus | Pop_blur | Pop_cancel | Pop_confirm

definition by_click :: "popover \<Rightarrow> bool" where
  "by_click p \<longleftrightarrow> \<not> truthy (pop_trigger p) \<or> loose_eq (pop_trigger p) (Str ''click'')"

definition by_hover :: "popover \<Rightarrow> bool" where
  "by_hover p \<longleftrightarrow> \<not> by_click p \<and> loose_eq (pop_trigger p) (Str ''hover'')"

fun pop_step :: "pop_event \<Rightarrow> popover \<Rightarrow> popover" where
  "pop_step Pop_click p = (if by_click p then p\<lparr>pop_shown := \<not> pop_shown p\<rparr> else p)"
| "pop_step Pop_enter p = (if by_hover p then p\<lparr>pop_shown := True\<rparr> else p)"
| "pop_step Pop_leave p = (if by_hover p then p\<lparr>pop_shown := False\<rparr> else p)"
| "pop_step Pop_focus p = (if by_click p \<or> by_hover p then p else p\<lparr>pop_shown := True\<rparr>)"
| "pop_step Pop_blur p = (if by_click p \<or> by_hover p then p else p\<lparr>pop_shown := False\<rparr>)"
| "pop_step Pop_cancel p = (if pop_has_confirm p \<and> pop_shown p then p\<lparr>pop_shown := False\<rparr> else p)"
| "pop_step Pop_confirm p =
     (if pop_has_confirm p \<and> pop_shown p
      then p\<lparr>pop_confirmed := pop_confirmed p + 1, pop_shown := False\<rparr> else p)"

subsection \<open>Positions\<close>

record rect =
  r_top :: jsnum
  r_left :: jsnum
  r_width :: jsnum
  r_height :: jsnum

text \<open>What the position service reads of an element and of the window.\<close>

record element =
  e_rect :: rect
  offset_width :: jsnum
  offset_height :: jsnum
  client_top :: jsnum
  client_left :: jsnum
  scroll_top :: jsnum
  scroll_left :: jsnum
  e_style :: string

record window =
  page_y :: jsnum
  page_x :: jsnum
  doc_scroll_top :: jsnum
  doc_scroll_left :: jsnum

definition num_or :: "jsnum \<Rightarrow> jsnum \<Rightarrow> jsnum" where
  "num_or a b = (if num_truthy a then a else b)"

definition is_static :: "element \<Rightarrow> bool" where
  "is_static e \<longleftrightarrow> (if e_style e = [] then ''static'' else e_style e) = ''static''"

text \<open>The chain of offset parents up to the document; \<open>None\<close> is the document.\<close>

fun parent_offset :: "element list \<Rightarrow> element option" where
  "parent_offset [] = None"
| "parent_offset (e # es) = (if is_static e then parent_offset es else Some e)"

definition pos_offset :: "window \<Rightarrow> element \<Rightarrow> rect" where
  "pos_offset w e =
     \<lparr>r_top = num_add (r_top (e_rect e)) (num_or (page_y w) (doc_scroll_top w)),
      r_left = num_add (r_left (e_rect e)) (num_or (page_x w) (doc_scroll_left w)),
      r_width = num_or (r_width (e_rect e)) (offset_width e),
      r_height = num_or (r_height (e_rect e)) (offset_height e)\<rparr>"

definition pos_position :: "window \<Rightarrow> element \<Rightarrow> element list \<Rightarrow> rect" where
  "pos_position w e parents =
     (let b = pos_offset w e;
          (pt, pl) = (case parent_offset parents of
              None \<Rightarrow> (Fin 0, Fin 0)
            | Some p \<Rightarrow>
                let q = pos_offset w p
                in (num_add (r_top q) (num_sub (client_top p) (scroll_top p)),
                    num_add (r_left q) (num_sub (client_left p) (scroll_left p))))
      in \<lparr>r_top = num_sub (r_top b) pt, r_left = num_sub (r_left b) pl,
          r_width = num_or (r_width (e_rect e)) (offset_width e),
          r_height = num_or (r_height (e_rect e)) (offset_height e)\<rparr>)"

definition half :: "jsnum \<Rightarrow> jsnum" where
  "half n = num_div n (num_of 2)"

definition shift_width :: "rect \<Rightarrow> jsnum \<Rightarrow> string \<Rightarrow> jsnum result" where
  "shift_width h w pos =
     (if pos = ''center'' then Inr (num_sub (num_add (r_left h) (half (r_width h))) (half w))
      else if pos = ''left'' then Inr (r_left h)
      else if pos = ''right'' then Inr (num_add (r_left h) (r_width h))
      else Inl TypeError)"

definition shift_height :: "rect \<Rightarrow> jsnum \<Rightarrow> string \<Rightarrow> jsnum result" where
  "shift_height h ht pos =
     (if pos = ''center'' then Inr (num_sub (num_add (r_top h) (half (r_height h))) (half ht))
      else if pos = ''top'' then Inr (r_top h)
      else if pos = ''bottom'' then Inr (num_add (r_top h) (r_height h))
      else Inl TypeError)"

text \<open>The top and left of a target of the given size next to the host box.\<close>

definition position_elements :: "rect \<Rightarrow> jsnum \<Rightarrow> jsnum \<Rightarrow> string \<Rightarrow> (jsnum \<times> jsnum) result" where
  "position_elements h w ht positionStr =
     (let parts = split_on positionStr ''-'';
          pos0 = parts ! 0;
          pos1 = (case arr_at parts 1 of Some p \<Rightarrow> if p = [] then ''center'' else p | None \<Rightarrow> ''center'')
      in if pos0 = ''right''
         then bind_result (shift_height h ht pos1) (\<lambda>t. bind_result (shift_width h w pos0) (\<lambda>l. Inr (t, l)))
         else if pos0 = ''left''
         then bind_result (shift_height h ht pos1) (\<lambda>t. Inr (t, num_sub (r_left h) w))
         else if pos0 = ''bottom''
         then bind_result (shift_height h ht pos0) (\<lambda>t. bind_result (shift_width h w pos1) (\<lambda>l. Inr (t, l)))
         else bind_result (shift_width h w pos1) (\<lambda>l. Inr (num_sub (r_top h) ht, l)))"

section \<open>The alert\<close>

record alert =
  al_manual :: bool
  al_show :: jsval
  al_hidden :: bool
  al_closes :: nat
  al_closeds :: nat

definition alert_watch :: "jsval \<Rightarrow> jsval \<Rightarrow> alert \<Rightarrow> alert" where
  "alert_watch nv ov a =
     (if \<not> loose_eq nv ov
      then if \<not> truthy nv then a\<lparr>al_hidden := True, al_closeds := al_closeds a + 1\<rparr>
           else a\<lparr>al_hidden := False\<rparr>
      else a)"

definition on_destory :: "alert \<Rightarrow> alert" where
  "on_destory a =
     (if \<not> al_manual a
      then a\<lparr>al_closes := al_closes a + 1, al_hidden := True, al_closeds := al_closeds a + 1\<rparr>
      else alert_watch (Bool False) (al_show a)
             (a\<lparr>al_closes := al_closes a + 1, al_show := Bool False\<rparr>))"

definition set_shown :: "jsval \<Rightarrow> alert \<Rightarrow> alert" where
  "set_shown v a = alert_watch v (al_show a) (a\<lparr>al_show := v\<rparr>)"

definition click_alert :: "jsval \<Rightarrow> alert \<Rightarrow> alert" where
  "click_alert dismiss a = (if truthy dismiss then on_destory a else a)"

section \<open>Facts\<close>

definition editing_inv :: "jsval \<Rightarrow> directive \<Rightarrow> bool" where
  "editing_inv v s \<longleftrightarrow> editing s \<and> old_init s \<and> old_value s = v \<and> d_value s \<noteq> None"

fun keeps_editing :: "row_event \<Rightarrow> bool" where
  "keeps_editing (Commit ok) \<longleftrightarrow> \<not> ok"
| "keeps_editing Cancel \<longleftrightarrow> False"
| "keeps_editing _ \<longleftrightarrow> True"

lemma editing_inv_step: "editing_inv v s \<Longrightarrow> keeps_editing e \<Longrightarrow> editing_inv v (row_step e s)"
  by (cases e) (auto simp: editing_inv_def row_edit_def row_load_default_def row_commit_def digest_def
      split: jsval.splits)

lemma editing_inv_run: "editing_inv v s \<Longrightarrow> list_all keeps_editing es \<Longrightarrow> editing_inv v (row_run es s)"
  by (induction es arbitrary: s) (simp_all add: row_run_def editing_inv_step)

lemma editing_inv_edit:
  assumes "\<not> editing s" "\<not> old_init s" "d_value s = Some v"
  shows "editing_inv v (row_step Edit s)"
  using assms by (auto simp: editing_inv_def row_edit_def digest_def watch_editing_def Let_def split: jsval.splits)

lemma row_cancel_editing:
  assumes "editing_inv v s"
  shows "d_value (row_step Cancel s) = Some v \<and> \<not> editing (row_step Cancel s) \<and> \<not> old_init (row_step Cancel s)"
  using assms by (auto simp: editing_inv_def row_cancel_def digest_def reset_old_def watch_editing_def Let_def)

section \<open>Properties\<close>

text \<open>
  C31. Cancelling undoes an edit: whatever was typed, defaulted or submitted without success since editing
  began, the row has its original value again and is ready for the next edit.
\<close>

theorem row_cancel_restores:
  assumes "\<not> editing s" "\<not> old_init s" "d_value s = Some v" and "list_all keeps_editing es"
  shows "d_value (row_step Cancel (row_run es (row_step Edit s))) = Some v \<and>
    \<not> editing (row_step Cancel (row_run es (row_step Edit s))) \<and>
    \<not> old_init (row_step Cancel (row_run es (row_step Edit s)))"
  by (intro row_cancel_editing editing_inv_run editing_inv_edit assms)

definition demo_row :: "jsval option \<Rightarrow> directive" where
  "demo_row v = \<lparr>d_array = Str ''true'', d_bool = Undef, d_default = Str ''1935'', d_value = v,
     editing = False, old_init = False, old_value = Undef\<rparr>"

theorem row_cancel_restores_witness:
  "d_value (row_step Cancel (row_run [Type (Str ''1''), Load_default, Commit False]
     (row_step Edit (demo_row (Some (Arr [Str ''1935''])))))) = Some (Arr [Str ''1935''])"
  using row_cancel_restores [of "demo_row (Some (Arr [Str ''1935'']))" "Arr [Str ''1935'']"
      "[Type (Str ''1''), Load_default, Commit False]"] by (simp add: demo_row_def)

text \<open>
  A list option that is edited and submitted unchanged comes back the same as long as it is not
  empty and its entries have no commas; the empty list comes back as a list of one empty entry.
  Editing a list option that the server did not send throws and leaves the row open.
\<close>

theorem array_row_round_trip:
  assumes "\<not> editing s" "\<not> old_init s" "is_true (d_array s)"
  shows "(d_value s = Some (Arr (map Str xs)) \<longrightarrow> xs \<noteq> [] \<longrightarrow> (\<forall>x \<in> set xs. CHR '','' \<notin> set x) \<longrightarrow>
      d_value (row_step (Commit True) (row_step Edit s)) = Some (Arr (map Str xs))) \<and>
    (d_value s = Some (Arr []) \<longrightarrow> d_value (row_step (Commit True) (row_step Edit s)) = Some (Arr [Str []])) \<and>
    (d_value s = None \<longrightarrow> snd (row_edit s) = Some TypeError \<and> editing (fst (row_edit s)))"
proof (intro conjI)
  have e: "row_edit s = (s\<lparr>editing := True, d_value := Some (Str (to_str (Arr vs))), old_value := Arr vs, old_init := True\<rparr>, None)"
    if "d_value s = Some (Arr vs)" for vs
    using assms that by (simp add: row_edit_def digest_def watch_editing_def Let_def)
  have c: "d_value (row_step (Commit True) (row_step Edit s)) = Some (Arr (map Str (split_on (to_str (Arr vs)) '','')))"
    if "d_value s = Some (Arr vs)" for vs
    using assms(3) by (simp add: e [OF that] row_commit_def digest_def reset_old_def watch_editing_def Let_def del: to_str.simps)
  show "d_value s = Some (Arr (map Str xs)) \<longrightarrow> xs \<noteq> [] \<longrightarrow> (\<forall>x \<in> set xs. CHR '','' \<notin> set x) \<longrightarrow>
      d_value (row_step (Commit True) (row_step Edit s)) = Some (Arr (map Str xs))"
  proof (intro impI)
    assume v: "d_value s = Some (Arr (map Str xs))" and x: "xs \<noteq> []" "\<forall>x \<in> set xs. CHR '','' \<notin> set x"
    have "to_str (Arr (map Str xs)) = join '','' xs" by (simp add: o_def)
    moreover have "split_on (join '','' xs) '','' = xs" using x by (intro split_on_join)
    ultimately show "d_value (row_step (Commit True) (row_step Edit s)) = Some (Arr (map Str xs))"
      unfolding c [OF v] by (simp only:)
  qed
  show "d_value s = Some (Arr []) \<longrightarrow> d_value (row_step (Commit True) (row_step Edit s)) = Some (Arr [Str []])"
    using c [of "[]"] by (simp add: split_on_absent)
  show "d_value s = None \<longrightarrow> snd (row_edit s) = Some TypeError \<and> editing (fst (row_edit s))"
    using assms by (simp add: row_edit_def digest_def watch_editing_def Let_def)
qed

theorem array_row_round_trip_witness:
  "d_value (row_step (Commit True) (row_step Edit (demo_row (Some (Arr []))))) = Some (Arr [Str []])"
  using array_row_round_trip [of "demo_row (Some (Arr []))"]
  by (simp add: demo_row_def is_true_def strict_eq_def)

text \<open>
  The popover is placed against its host without overlap: on the side asked for, the target's
  edge lies exactly on the host's, for all boxes with whole coordinates.
\<close>

theorem popover_touches_host:
  assumes "h = \<lparr>r_top = num_of t, r_left = num_of l, r_width = num_of hw, r_height = num_of hh\<rparr>"
    and "\<forall>x \<in> {t, l, hw, hh, w, ht}. \<bar>x\<bar> \<le> 2 ^ 50"
  shows "(\<exists>y. position_elements h (num_of w) (num_of ht) ''left'' = Inr (y, num_of (l - w))) \<and>
    (\<exists>y. position_elements h (num_of w) (num_of ht) ''right'' = Inr (y, num_of (l + hw))) \<and>
    (\<exists>x. position_elements h (num_of w) (num_of ht) ''top'' = Inr (num_of (t - ht), x)) \<and>
    (\<exists>x. position_elements h (num_of w) (num_of ht) ''bottom'' = Inr (num_of (t + hh), x))"
proof -
  have add: "num_add (num_of a) (num_of b) = num_of (a + b)" if "\<bar>a\<bar> \<le> 2 ^ 50" "\<bar>b\<bar> \<le> 2 ^ 50" for a b
    using fl_of_int [of "a + b"] that by simp
  have sub: "num_sub (num_of a) (num_of b) = num_of (a - b)" if "\<bar>a\<bar> \<le> 2 ^ 50" "\<bar>b\<bar> \<le> 2 ^ 50" for a b
    using fl_of_int [of "a - b"] that by (simp add: num_sub_def)
  have s: "split_on ''left'' ''-'' = [''left'']" "split_on ''right'' ''-'' = [''right'']"
    "split_on ''top'' ''-'' = [''top'']" "split_on ''bottom'' ''-'' = [''bottom'']"
    by (simp_all add: split_on_single)
  have b: "\<bar>t\<bar> \<le> 2 ^ 50" "\<bar>l\<bar> \<le> 2 ^ 50" "\<bar>hw\<bar> \<le> 2 ^ 50" "\<bar>hh\<bar> \<le> 2 ^ 50" "\<bar>w\<bar> \<le> 2 ^ 50" "\<bar>ht\<bar> \<le> 2 ^ 50"
    using assms(2) by simp_all
  show ?thesis
    unfolding position_elements_def s Let_def assms(1)
    by (simp add: shift_height_def shift_width_def add [OF b(2,3)] sub [OF b(2,5)] sub [OF b(1,6)] add [OF b(1,4)]
        del: num_add.simps of_int_add of_int_diff)
qed

theorem popover_touches_host_witness:
  "\<exists>y. position_elements \<lparr>r_top = num_of 10, r_left = num_of 20, r_width = num_of 30, r_height = num_of 5\<rparr>
     (num_of 8) (num_of 6) ''right'' = Inr (y, num_of (20 + 30))"
proof -
  have "\<forall>x \<in> {10, 20, 30, 5, 8, 6 :: int}. \<bar>x\<bar> \<le> 2 ^ 50" by simp
  from popover_touches_host [OF refl this] show ?thesis by blast
qed

end
