(* ===== verification/RtcSdk.thy ===== *)
theory RtcSdk
  imports UrlParse
begin

text \<open>
  The WebRTC SDK \<open>srs.sdk.js\<close>, in the copy of the players and the older one of the demos: the
  addresses it builds (\<open>prepareUrl\<close>, \<open>parse\<close>, \<open>fill_query\<close>), the negotiation of a publisher, a player
  and a WHIP/WHEP session as a state machine over the browser's answers, and the helpers
  \<open>parseId\<close> and \<open>SrsRtcFormatSenders\<close>.
\<close>

section \<open>Addresses\<close>

text \<open>The SDK reads two more fields of the link element.\<close>

record sdk_anchor = anchor +
  a_host :: string
  a_protocol :: string

text \<open>
  The file is strict code: writing to a property of a string throws, as does one of \<open>undefined\<close>.
\<close>

definition sdk_fill_elem :: "string \<Rightarrow> jsval props \<Rightarrow> jsval props result" where
  "sdk_fill_elem elem obj =
     (let query = split_on elem ''='';
          k = query ! 0;
          v = str_at query 1;
          obj = assign_prop obj k v
      in case field obj ''user_query'' of
           Obj uq \<Rightarrow> Inr (assign_prop obj ''user_query'' (Obj (assign_prop uq k v)))
         | _ \<Rightarrow> Inl TypeError)"

fun sdk_fill_loop :: "string list \<Rightarrow> jsval props \<Rightarrow> jsval props result" where
  "sdk_fill_loop [] obj = Inr obj"
| "sdk_fill_loop (q # qs) obj = bind_result (sdk_fill_elem q obj) (sdk_fill_loop qs)"

definition sdk_fill_query :: "string \<Rightarrow> jsval props \<Rightarrow> jsval props result" where
  "sdk_fill_query query_string obj =
     (let obj = assign_prop obj ''user_query'' (Obj [])
      in if query_string = [] then Inr obj
         else let query_string = (if 0 \<le> index_of query_string ''?''
                                  then split_on query_string ''?'' ! 1 else query_string)
              in bind_result (sdk_fill_loop (split_on query_string ''&'') obj) (\<lambda>obj.
                   Inr (if truthy (field obj ''domain'')
                        then assign_prop obj ''vhost'' (field obj ''domain'') else obj)))"

text \<open>
  The port of an address. The players' copy looks for an explicit HTTP or HTTPS port, which the
  browser's parser hides because the address was rewritten to \<open>http\<close>; the demos' copy does not.
\<close>

datatype sdk_copy = Players | Demos

definition sdk_port :: "sdk_copy \<Rightarrow> sdk_anchor \<Rightarrow> string \<Rightarrow> string \<Rightarrow> jsval" where
  "sdk_port copy a url schema =
     (if a_port a \<noteq> [] then Str (a_port a)
      else
        let host_colon = ''webrtc://'' @ a_host a @ '':'';
            port = (if copy = Players \<and> schema = ''webrtc'' \<and> index_of url host_colon = 0
                    then if index_of url (host_colon @ ''80'') = 0 then Num (num_of 80) else Num (num_of 443)
                    else Str (a_port a))
        in if schema = ''http'' then Num (num_of 80)
           else if schema = ''https'' then Num (num_of 443)
           else if schema = ''rtmp'' then Num (num_of 1935)
           else port)"

definition sdk_parse :: "sdk_copy \<Rightarrow> (string \<Rightarrow> sdk_anchor) \<Rightarrow> location \<Rightarrow> string \<Rightarrow> jsval props result" where
  "sdk_parse copy anchor_of loc url =
     (let a = anchor_of (http_form url);
          i = last_index_of (a_pathname a) ''/'';
          stream = slice_from (a_pathname a) (i + 1);
          (app, vhost) = split_app (substring (a_pathname a) 1 i) (a_hostname a);
          vhost = (if a_hostname a = vhost \<and> is_ipv4 (a_hostname a) then ''__defaultVhost__'' else vhost);
          schema = url_schema url;
          ret = [(''url'', Str url), (''schema'', Str schema), (''server'', Str (a_hostname a)),
                 (''port'', sdk_port copy a url schema), (''vhost'', Str vhost),
                 (''app'', Str app), (''stream'', Str stream)]
      in bind_result (sdk_fill_query (a_search a) ret) (rtc_port 1985 loc schema))"

record conf =
  apiUrl :: string
  streamUrl :: jsval
  conf_schema :: string
  urlObject :: "jsval props"
  conf_port :: jsval
  tid :: string

text \<open>\<open>Number(parseInt(noise)).toString(16).slice(0, 7)\<close> for the product of time and chance.\<close>

definition make_tid :: "jsnum \<Rightarrow> string" where
  "make_tid noise =
     (case parse_int_num noise of Fin x \<Rightarrow> take 7 (hex_str (trunc x)) | n \<Rightarrow> take 7 (num_to_str n))"

definition slash_end :: "string \<Rightarrow> string" where
  "slash_end api = (if last_index_of api ''/'' \<noteq> int (length api) - 1 then api @ ''/'' else api)"

fun pass_query :: "jsval props \<Rightarrow> string \<Rightarrow> string" where
  "pass_query [] url = url"
| "pass_query ((k, v) # ps) url =
     (if k \<noteq> ''api'' \<and> k \<noteq> ''play'' then pass_query ps (url @ ''&'' @ k @ ''='' @ to_str v)
      else pass_query ps url)"

definition sdk_prepareUrl ::
    "string \<Rightarrow> sdk_copy \<Rightarrow> (string \<Rightarrow> sdk_anchor) \<Rightarrow> location \<Rightarrow> jsnum \<Rightarrow> string \<Rightarrow> conf result" where
  "sdk_prepareUrl defaultPath copy anchor_of loc noise url =
     bind_result (sdk_parse copy anchor_of loc url) (\<lambda>obj.
     bind_result (get_prop (field obj ''user_query'') ''schema'') (\<lambda>s.
     bind_result (get_prop (field obj ''user_query'') ''play'') (\<lambda>play.
       let schema = (if truthy s then to_str s @ '':'' else loc_protocol loc);
           p = field obj ''port'';
           port = (if truthy p then p else Num (num_of (if schema = ''https:'' then 443 else 1985)));
           api = slash_end (if truthy play then to_str play else defaultPath);
           url0 = schema @ ''//'' @ to_str (field obj ''server'') @ '':'' @ to_str port @ api;
           url1 = (case field obj ''user_query'' of Obj uq \<Rightarrow> pass_query uq url0 | _ \<Rightarrow> url0)
       in Inr \<lparr>apiUrl = replace_first url1 (api @ ''&'') (api @ ''?''), streamUrl = field obj ''url'',
               conf_schema = schema, urlObject = obj, conf_port = port, tid = make_tid noise\<rparr>)))"

text \<open>The four copies of the address code.\<close>

definition publisher_parse where "publisher_parse = sdk_parse Players"
definition player_parse where "player_parse = sdk_parse Players"
definition demo_publisher_parse where "demo_publisher_parse = sdk_parse Demos"
definition demo_player_parse where "demo_player_parse = sdk_parse Demos"

definition publisher_prepareUrl where "publisher_prepareUrl = sdk_prepareUrl ''/rtc/v1/publish/'' Players"
definition player_prepareUrl where "player_prepareUrl = sdk_prepareUrl ''/rtc/v1/play/'' Players"
definition demo_publisher_prepareUrl where "demo_publisher_prepareUrl = sdk_prepareUrl ''/rtc/v1/publish/'' Demos"
definition demo_player_prepareUrl where "demo_player_prepareUrl = sdk_prepareUrl ''/rtc/v1/play/'' Demos"

section \<open>Sessions\<close>

text \<open>Calls on the peer connection, in the order they are made.\<close>

datatype track = Track string nat

datatype pc_op =
    AddTransceiver string string
  | AddTrack track
  | CreateOffer
  | SetLocal string
  | SetRemote jsval
  | PcClose

text \<open>Why a session failed: an exception of the code, or the reason a promise was rejected with.\<close>

datatype failure = Thrown js_error | Rejected jsval

text \<open>Where the asynchronous function waits, with the values it has computed so far.\<close>

datatype target = Api conf | Direct string

datatype phase =
    Ready
  | Await_media target
  | Await_offer target
  | Await_local target string
  | Await_answer target string
  | Await_remote target string jsval
  | Settled "failure + jsval"

record rtc =
  pc_open :: bool
  pc_ops :: "pc_op list"
  tracks :: "track list"
  phase :: phase
  posts :: "(string \<times> string \<times> jsval) list"

definition new_rtc :: rtc where
  "new_rtc = \<lparr>pc_open = True, pc_ops = [], tracks = [], phase = Ready, posts = []\<rparr>"

definition settle :: "failure + jsval \<Rightarrow> rtc \<Rightarrow> rtc" where
  "settle r s = s\<lparr>phase := Settled r\<rparr>"

definition pc_do :: "pc_op list \<Rightarrow> (rtc \<Rightarrow> rtc) \<Rightarrow> rtc \<Rightarrow> rtc" where
  "pc_do ops k s =
     (if pc_open s then k (s\<lparr>pc_ops := pc_ops s @ ops\<rparr>) else settle (Inl (Thrown TypeError)) s)"

text \<open>\<open>self.ontrack\<close> adds the track to the SDK's stream.\<close>

definition ontrack :: "track \<Rightarrow> rtc \<Rightarrow> rtc" where
  "ontrack t s = s\<lparr>tracks := tracks s @ [t]\<rparr>"

definition close :: "rtc \<Rightarrow> rtc" where
  "close s = (if pc_open s then s\<lparr>pc_ops := pc_ops s @ [PcClose], pc_open := False\<rparr> else s)"

definition transceivers :: "string \<Rightarrow> pc_op list" where
  "transceivers dir = [AddTransceiver ''audio'' dir, AddTransceiver ''video'' dir]"

text \<open>What the SDK asks the browser before it captures: whether media devices are available.\<close>

record browser =
  media_devices :: bool
  br_location :: location

definition https_error :: js_error where
  "https_error = SrsError ''HttpsRequiredError''
     ''Please use HTTPS or localhost to publish, read https://github.com/ossrs/srs/issues/2762#issuecomment-983147576''"

definition capture :: "sdk_copy \<Rightarrow> browser \<Rightarrow> target \<Rightarrow> rtc \<Rightarrow> rtc" where
  "capture copy b t s =
     (if copy = Players \<and> \<not> media_devices b \<and> loc_protocol (br_location b) = ''http:'' \<and>
         loc_hostname (br_location b) \<noteq> ''localhost''
      then settle (Inl (Thrown https_error)) s
      else if \<not> media_devices b then settle (Inl (Thrown TypeError)) s
      else s\<lparr>phase := Await_media t\<rparr>)"

definition start_publish :: "sdk_copy \<Rightarrow> browser \<Rightarrow> conf result \<Rightarrow> rtc \<Rightarrow> rtc" where
  "start_publish copy b c s =
     (case c of
        Inl e \<Rightarrow> settle (Inl (Thrown e)) s
      | Inr conf \<Rightarrow> pc_do (transceivers ''sendonly'') (capture copy b (Api conf)) s)"

definition offer :: "target \<Rightarrow> rtc \<Rightarrow> rtc" where
  "offer t = pc_do [CreateOffer] (\<lambda>s. s\<lparr>phase := Await_offer t\<rparr>)"

definition start_play :: "conf result \<Rightarrow> rtc \<Rightarrow> rtc" where
  "start_play c s =
     (case c of
        Inl e \<Rightarrow> settle (Inl (Thrown e)) s
      | Inr conf \<Rightarrow> pc_do (transceivers ''recvonly'') (offer (Api conf)) s)"

definition whip_publish :: "browser \<Rightarrow> string \<Rightarrow> rtc \<Rightarrow> rtc" where
  "whip_publish b url s =
     (if index_of url ''/whip/'' = - 1 then settle (Inl (Thrown (JsError (''invalid WHIP url '' @ url)))) s
      else pc_do (transceivers ''sendonly'') (capture Players b (Direct url)) s)"

definition whep_play :: "string \<Rightarrow> rtc \<Rightarrow> rtc" where
  "whep_play url s =
     (if index_of url ''/whip-play/'' = - 1 \<and> index_of url ''/whep/'' = - 1
      then settle (Inl (Thrown (JsError (''invalid WHEP url '' @ url)))) s
      else pc_do (transceivers ''recvonly'') (offer (Direct url)) s)"

text \<open>The captured tracks: each is added to the connection and reported, then the offer is made.\<close>

fun add_tracks :: "track list \<Rightarrow> (rtc \<Rightarrow> rtc) \<Rightarrow> rtc \<Rightarrow> rtc" where
  "add_tracks [] k s = k s"
| "add_tracks (t # ts) k s = pc_do [AddTrack t] (\<lambda>s. add_tracks ts k (ontrack t s)) s"

definition post_body :: "target \<Rightarrow> string \<Rightarrow> string \<times> string \<times> jsval" where
  "post_body t sdp =
     (case t of
        Api c \<Rightarrow> (apiUrl c, ''application/json'',
          Obj [(''api'', Str (apiUrl c)), (''tid'', Str (tid c)), (''streamurl'', streamUrl c),
               (''clientip'', Null), (''sdp'', Str sdp)])
      | Direct url \<Rightarrow> (url, ''application/sdp'', Str sdp))"

text \<open>
  What came of a request: an answer with its status and text, the text also as parsed JSON (\<open>None\<close>
  when it does not parse), or no answer at all.
\<close>

datatype http_result = Http int string "jsval option" | Network_error

definition ok_status :: "int \<Rightarrow> bool" where
  "ok_status st \<longleftrightarrow> st = 200 \<or> st = 201"

text \<open>
  What the promise around the request does. An exception in \<open>onload\<close> goes to the browser's console and
  a network error to the \<open>onerror\<close> nobody installed: in both cases the promise is never settled,
  \<open>None\<close>. The demos' copy uses jQuery, which reports both to \<open>fail\<close>.
\<close>

definition answer_of :: "sdk_copy \<Rightarrow> target \<Rightarrow> http_result \<Rightarrow> (jsval + jsval) option" where
  "answer_of copy t r =
     (case (copy, r) of
        (Players, Network_error) \<Rightarrow> None
      | (Players, Http st body js) \<Rightarrow>
          if \<not> ok_status st then Some (Inl (Num (num_of st)))
          else (case t of
                  Direct _ \<Rightarrow> Some (Inr (Str body))
                | Api _ \<Rightarrow>
                    (case js of
                       None \<Rightarrow> None
                     | Some d \<Rightarrow>
                         (case get_prop d ''code'' of
                            Inl _ \<Rightarrow> None
                          | Inr code \<Rightarrow> if truthy code then Some (Inl (Num (num_of st))) else Some (Inr d))))
      | (Demos, Network_error) \<Rightarrow> Some (Inl Undef)
      | (Demos, Http st body js) \<Rightarrow>
          if st < 200 \<or> 300 \<le> st then Some (Inl (Num (num_of st)))
          else (case js of
                  None \<Rightarrow> Some (Inl (Num (num_of st)))
                | Some d \<Rightarrow>
                    (case get_prop d ''code'' of
                       Inl _ \<Rightarrow> None
                     | Inr code \<Rightarrow> if truthy code then Some (Inl d) else Some (Inr d))))"

definition answer_sdp :: "target \<Rightarrow> jsval \<Rightarrow> jsval result" where
  "answer_sdp t d = (case t of Api _ \<Rightarrow> get_prop d ''sdp'' | Direct _ \<Rightarrow> Inr d)"

text \<open>\<open>parseId\<close> of a WHIP session: the fragments of the offer and of the answer.\<close>

definition ufrag_at :: "string \<Rightarrow> string" where
  "ufrag_at sdp = substr_from sdp (index_of sdp ''a=ice-ufrag:'' + 12)"

definition parseId :: "sdk_anchor \<Rightarrow> string \<Rightarrow> string \<Rightarrow> jsval" where
  "parseId a offer_sdp answer =
     (let sid = ufrag_at offer_sdp;
          sid = substr sid 0 (index_of sid [char_of (10::nat)] - 1) @ '':'';
          sid = sid @ ufrag_at answer;
          sid = substr sid 0 (index_of sid [char_of (10::nat)])
      in Obj [(''sessionid'', Str sid), (''simulator'', Str (a_protocol a @ ''//'' @ a_host a @ ''/rtc/v1/nack/''))])"

definition simulator :: "conf \<Rightarrow> string" where
  "simulator c =
     conf_schema c @ ''//'' @ to_str (field (urlObject c) ''server'') @ '':'' @ to_str (conf_port c) @
     ''/rtc/v1/nack/''"

text \<open>
  The result of a finished session. An answer of the API that is a JSON array has no session description to hand over, and
  its value with the simulator's address would be an array with a named property, which values do not
  have: it counts as an answer that is no object.
\<close>

definition finish :: "(string \<Rightarrow> sdk_anchor) \<Rightarrow> target \<Rightarrow> string \<Rightarrow> jsval \<Rightarrow> failure + jsval" where
  "finish anchor_of t sdp d =
     (case t of
        Direct url \<Rightarrow> Inr (parseId (anchor_of url) sdp (to_str d))
      | Api c \<Rightarrow>
          (case d of
             Obj ps \<Rightarrow> Inr (Obj (prop_set ps ''simulator'' (Str (simulator c))))
           | _ \<Rightarrow> Inl (Thrown TypeError)))"

datatype rtc_event =
    Media "jsval + track list"
  | Offered "jsval + string"
  | Local_set "jsval option"
  | Answered http_result
  | Remote_set "jsval option"
  | Remote_track track
  | Close

definition answered :: "sdk_copy \<Rightarrow> target \<Rightarrow> string \<Rightarrow> http_result \<Rightarrow> rtc \<Rightarrow> rtc" where
  "answered copy t sdp r s =
     (case answer_of copy t r of
        None \<Rightarrow> s
      | Some (Inl e) \<Rightarrow> settle (Inl (Rejected e)) s
      | Some (Inr d) \<Rightarrow>
          (case answer_sdp t d of
             Inl e \<Rightarrow> settle (Inl (Thrown e)) s
           | Inr a \<Rightarrow> pc_do [SetRemote a] (\<lambda>s. s\<lparr>phase := Await_remote t sdp d\<rparr>) s))"

fun rtc_step :: "sdk_copy \<Rightarrow> (string \<Rightarrow> sdk_anchor) \<Rightarrow> rtc_event \<Rightarrow> rtc \<Rightarrow> rtc" where
  "rtc_step copy anchor_of (Media r) s =
     (case phase s of
        Await_media t \<Rightarrow>
          (case r of Inl e \<Rightarrow> settle (Inl (Rejected e)) s | Inr ts \<Rightarrow> add_tracks ts (offer t) s)
      | _ \<Rightarrow> s)"
| "rtc_step copy anchor_of (Offered r) s =
     (case phase s of
        Await_offer t \<Rightarrow>
          (case r of
             Inl e \<Rightarrow> settle (Inl (Rejected e)) s
           | Inr sdp \<Rightarrow> pc_do [SetLocal sdp] (\<lambda>s. s\<lparr>phase := Await_local t sdp\<rparr>) s)
      | _ \<Rightarrow> s)"
| "rtc_step copy anchor_of (Local_set r) s =
     (case phase s of
        Await_local t sdp \<Rightarrow>
          (case r of
             Some e \<Rightarrow> settle (Inl (Rejected e)) s
           | None \<Rightarrow> s\<lparr>phase := Await_answer t sdp, posts := posts s @ [post_body t sdp]\<rparr>)
      | _ \<Rightarrow> s)"
| "rtc_step copy anchor_of (Answered r) s =
     (case phase s of Await_answer t sdp \<Rightarrow> answered copy t sdp r s | _ \<Rightarrow> s)"
| "rtc_step copy anchor_of (Remote_set r) s =
     (case phase s of
        Await_remote t sdp d \<Rightarrow>
          (case r of
             Some e \<Rightarrow> settle (Inl (Rejected e)) s
           | None \<Rightarrow> settle (finish anchor_of t sdp d) s)
      | _ \<Rightarrow> s)"
| "rtc_step copy anchor_of (Remote_track t) s = ontrack t s"
| "rtc_step copy anchor_of Close s = close s"

definition rtc_run :: "sdk_copy \<Rightarrow> (string \<Rightarrow> sdk_anchor) \<Rightarrow> rtc_event list \<Rightarrow> rtc \<Rightarrow> rtc" where
  "rtc_run copy anchor_of es s = foldl (\<lambda>s e. rtc_step copy anchor_of e s) s es"

section \<open>Formatting of senders\<close>

record codec =
  mimeType :: string
  clockRate :: jsval
  channels :: jsval
  payloadType :: jsval

record sender =
  track_kind :: string
  codecs :: "codec list option"

definition excluded :: "codec \<Rightarrow> bool" where
  "excluded c \<longleftrightarrow>
     0 < index_of (mimeType c) ''/red'' \<or> 0 < index_of (mimeType c) ''/rtx'' \<or> 0 < index_of (mimeType c) ''/fec''"

definition codec_text :: "string \<Rightarrow> codec \<Rightarrow> string" where
  "codec_text kind c =
     replace_first (replace_first (mimeType c) ''audio/'' []) ''video/'' [] @
     '', '' @ to_str (clockRate c) @ ''HZ'' @
     (if kind = ''audio'' then '', channels: '' @ to_str (channels c) else []) @
     '', pt: '' @ to_str (payloadType c)"

fun sender_codecs :: "string option \<Rightarrow> string \<Rightarrow> codec list \<Rightarrow> string list \<Rightarrow> string list" where
  "sender_codecs kind tk [] acc = acc"
| "sender_codecs kind tk (c # cs) acc =
     (if (case kind of None \<Rightarrow> False | Some k \<Rightarrow> k \<noteq> [] \<and> tk \<noteq> k) then sender_codecs kind tk cs acc
      else if excluded c then sender_codecs kind tk cs acc
      else sender_codecs kind tk cs (acc @ [codec_text tk c]))"

fun senders_codecs :: "string option \<Rightarrow> sender list \<Rightarrow> string list \<Rightarrow> string list" where
  "senders_codecs kind [] acc = acc"
| "senders_codecs kind (s # ss) acc =
     senders_codecs kind ss
       (case codecs s of None \<Rightarrow> acc | Some cs \<Rightarrow> sender_codecs kind (track_kind s) cs acc)"

definition SrsRtcFormatSenders :: "sender list \<Rightarrow> string option \<Rightarrow> string" where
  "SrsRtcFormatSenders senders kind = join '', '' (senders_codecs kind senders [])"

section \<open>The six sessions\<close>

text \<open>
  A session is the call of \<open>publish\<close> or \<open>play\<close> on a new object, followed by whatever the browser, the
  server and the page do, in any order.
\<close>

definition publisher_publish where
  "publisher_publish anchor_of loc noise b url es =
     rtc_run Players anchor_of es (start_publish Players b (publisher_prepareUrl anchor_of loc noise url) new_rtc)"

definition player_play where
  "player_play anchor_of loc noise url es =
     rtc_run Players anchor_of es (start_play (player_prepareUrl anchor_of loc noise url) new_rtc)"

definition demo_publisher_publish where
  "demo_publisher_publish anchor_of loc noise b url es =
     rtc_run Demos anchor_of es (start_publish Demos b (demo_publisher_prepareUrl anchor_of loc noise url) new_rtc)"

definition demo_player_play where
  "demo_player_play anchor_of loc noise url es =
     rtc_run Demos anchor_of es (start_play (demo_player_prepareUrl anchor_of loc noise url) new_rtc)"

definition whip_session where
  "whip_session anchor_of b url es = rtc_run Players anchor_of es (whip_publish b url new_rtc)"

definition whep_session where
  "whep_session anchor_of url es = rtc_run Players anchor_of es (whep_play url new_rtc)"

section \<open>The invariant of a session\<close>

text \<open>
  Calls on the connection come in the order of their ranks; transceivers and tracks may repeat,
  the rest is done once.
\<close>

fun rank :: "pc_op \<Rightarrow> nat" where
  "rank (AddTransceiver _ _) = 0"
| "rank (AddTrack _) = 1"
| "rank CreateOffer = 2"
| "rank (SetLocal _) = 3"
| "rank (SetRemote _) = 4"
| "rank PcClose = 5"

definition op_before :: "pc_op \<Rightarrow> pc_op \<Rightarrow> bool" where
  "op_before a b \<longleftrightarrow> rank a < rank b \<or> rank a = rank b \<and> rank a \<le> 1"

fun phase_rank :: "phase \<Rightarrow> nat" where
  "phase_rank Ready = 0"
| "phase_rank (Await_media _) = 1"
| "phase_rank (Await_offer _) = 2"
| "phase_rank (Await_local _ _) = 3"
| "phase_rank (Await_answer _ _) = 3"
| "phase_rank (Await_remote _ _ _) = 4"
| "phase_rank (Settled _) = 4"

fun posts_ok :: "phase \<Rightarrow> nat \<Rightarrow> bool" where
  "posts_ok (Await_answer _ _) n \<longleftrightarrow> n = 1"
| "posts_ok (Await_remote _ _ _) n \<longleftrightarrow> n = 1"
| "posts_ok (Settled (Inr _)) n \<longleftrightarrow> n = 1"
| "posts_ok (Settled (Inl _)) n \<longleftrightarrow> n \<le> 1"
| "posts_ok _ n \<longleftrightarrow> n = 0"

definition rtc_inv :: "rtc \<Rightarrow> bool" where
  "rtc_inv s \<longleftrightarrow>
     sorted_wrt op_before (pc_ops s) \<and> (pc_open s \<longleftrightarrow> PcClose \<notin> set (pc_ops s)) \<and>
     (\<forall>a \<in> set (pc_ops s). a \<noteq> PcClose \<longrightarrow> rank a \<le> phase_rank (phase s)) \<and>
     posts_ok (phase s) (length (posts s)) \<and>
     (\<forall>t sdp d. phase s = Await_remote t sdp d \<longrightarrow> (\<exists>a. SetRemote a \<in> set (pc_ops s))) \<and>
     (\<forall>v. phase s = Settled (Inr v) \<longrightarrow> (\<exists>a. SetRemote a \<in> set (pc_ops s)))"

lemma rank_le5: "rank a \<le> 5" and rank_5: "rank a = 5 \<longleftrightarrow> a = PcClose"
  by (cases a; simp)+

lemma rank_le4: "a \<noteq> PcClose \<Longrightarrow> rank a \<le> 4"
  by (cases a) simp_all

lemma rtc_inv_new: "rtc_inv new_rtc"
  by (simp add: rtc_inv_def new_rtc_def)

lemma rtc_inv_fail: "rtc_inv s \<Longrightarrow> length (posts s) \<le> 1 \<Longrightarrow> rtc_inv (settle (Inl e) s)"
  using rank_le4 by (auto simp: rtc_inv_def settle_def)

lemma posts_le1: "rtc_inv s \<Longrightarrow> length (posts s) \<le> 1"
  by (cases "(phase s, length (posts s))" rule: posts_ok.cases) (auto simp: rtc_inv_def)

lemma rtc_inv_op:
  assumes "rtc_inv s" "pc_open s" "rank a = phase_rank p" "rank a \<le> 4"
    and "phase_rank (phase s) < rank a \<or> phase_rank (phase s) = rank a \<and> rank a \<le> 1"
    and "posts_ok p (length (posts s))"
    and "\<forall>t sdp d. p = Await_remote t sdp d \<longrightarrow> rank a = 4" and "\<forall>v. p \<noteq> Settled (Inr v)"
  shows "rtc_inv (s\<lparr>pc_ops := pc_ops s @ [a], phase := p\<rparr>)"
proof -
  have "\<exists>v. a = SetRemote v" if "rank a = 4" using that by (cases a) simp_all
  moreover have "a \<noteq> PcClose" using assms(4) by auto
  moreover have "\<forall>b \<in> set (pc_ops s). rank b \<le> phase_rank (phase s)"
    using assms(1,2) by (auto simp: rtc_inv_def)
  ultimately show ?thesis
    using assms by (fastforce simp: rtc_inv_def sorted_wrt_append op_before_def)
qed

lemma rtc_inv_ontrack: "rtc_inv s \<Longrightarrow> rtc_inv (ontrack t s)"
  by (simp add: rtc_inv_def ontrack_def)

lemma rtc_inv_close: "rtc_inv s \<Longrightarrow> rtc_inv (close s)"
proof (cases "pc_open s")
  case True
  assume i: "rtc_inv s"
  have "rank a < 5" if "a \<in> set (pc_ops s)" for a
  proof -
    have "a \<noteq> PcClose" using that i True by (auto simp: rtc_inv_def)
    then show ?thesis using rank_le4 [of a] by simp
  qed
  then have "sorted_wrt op_before (pc_ops s @ [PcClose])"
    using i by (simp add: rtc_inv_def sorted_wrt_append op_before_def)
  then show ?thesis using i True by (auto simp: close_def rtc_inv_def)
qed (simp add: close_def)

lemma rtc_inv_offer:
  assumes "rtc_inv s" "phase_rank (phase s) \<le> 1" "posts s = []"
  shows "rtc_inv (offer t s)"
  using assms rtc_inv_op [of s CreateOffer "Await_offer t"] rtc_inv_fail [of s]
  by (simp add: offer_def pc_do_def)

lemma rtc_inv_add_tracks:
  "rtc_inv s \<Longrightarrow> phase s = Await_media t \<Longrightarrow> rtc_inv (add_tracks ts (offer t) s)"
proof (induction ts arbitrary: s)
  case Nil
  then show ?case using rtc_inv_offer [of s t] by (simp add: rtc_inv_def)
next
  case (Cons x ts)
  have p: "posts s = []" using Cons.prems by (simp add: rtc_inv_def)
  show ?case
  proof (cases "pc_open s")
    case False
    then show ?thesis using rtc_inv_fail [of s] Cons.prems p by (simp add: pc_do_def)
  next
    case True
    have e: "s\<lparr>pc_ops := pc_ops s @ [AddTrack x], phase := Await_media t\<rparr> = s\<lparr>pc_ops := pc_ops s @ [AddTrack x]\<rparr>"
      using Cons.prems(2) by simp
    have "rtc_inv (s\<lparr>pc_ops := pc_ops s @ [AddTrack x], phase := Await_media t\<rparr>)"
      using True Cons.prems p by (intro rtc_inv_op) simp_all
    then have "rtc_inv (ontrack x (s\<lparr>pc_ops := pc_ops s @ [AddTrack x]\<rparr>))"
      unfolding e by (rule rtc_inv_ontrack)
    then show ?thesis using Cons.IH [of "ontrack x (s\<lparr>pc_ops := pc_ops s @ [AddTrack x]\<rparr>)"] True Cons.prems(2)
      by (simp add: pc_do_def ontrack_def)
  qed
qed

lemma rtc_inv_answered:
  assumes "rtc_inv s" "phase s = Await_answer t sdp"
  shows "rtc_inv (answered copy t sdp r s)"
proof -
  have l: "length (posts s) = 1" "phase_rank (phase s) = 3" using assms by (simp_all add: rtc_inv_def)
  have f: "rtc_inv (settle (Inl e) s)" for e by (rule rtc_inv_fail) (simp_all add: assms l)
  have o: "rtc_inv (s\<lparr>pc_ops := pc_ops s @ [SetRemote a], phase := Await_remote t sdp d\<rparr>)" if "pc_open s" for a d
    using that l by (intro rtc_inv_op [OF assms(1)]) simp_all
  show ?thesis
    using f o assms(1) by (simp add: answered_def pc_do_def split: option.split sum.split)
qed

lemma rtc_inv_step: "rtc_inv s \<Longrightarrow> rtc_inv (rtc_step copy anchor_of e s)"
proof (cases e)
  case (Media r)
  assume i: "rtc_inv s"
  show ?thesis
    using i rtc_inv_fail [OF i] posts_le1 [OF i] by (auto simp: Media rtc_inv_add_tracks split: phase.splits sum.splits)
next
  case (Offered r)
  assume i: "rtc_inv s"
  show ?thesis
  proof (cases "phase s")
    case (Await_offer t)
    then have "posts s = []" using i by (simp add: rtc_inv_def)
    then show ?thesis
      using Await_offer i rtc_inv_fail [OF i] rtc_inv_op [OF i, of "SetLocal sdp" "Await_local t sdp" for sdp]
      by (auto simp: Offered pc_do_def split: sum.splits)
  qed (simp_all add: i Offered)
next
  case (Local_set r)
  assume i: "rtc_inv s"
  show ?thesis
  proof (cases "phase s")
    case (Await_local t sdp)
    then have "rtc_inv (s\<lparr>phase := Await_answer t sdp, posts := posts s @ [post_body t sdp]\<rparr>)"
      using i by (simp add: rtc_inv_def)
    then show ?thesis
      using Await_local rtc_inv_fail [OF i] posts_le1 [OF i] by (auto simp: Local_set split: option.splits)
  qed (simp_all add: i Local_set)
next
  case (Answered r)
  assume i: "rtc_inv s"
  then show ?thesis by (simp add: Answered rtc_inv_answered split: phase.splits)
next
  case (Remote_set r)
  assume i: "rtc_inv s"
  show ?thesis
  proof (cases "phase s")
    case (Await_remote t sdp d)
    then have "rtc_inv (settle x s)" for x
      using i by (cases x) (simp_all add: rtc_inv_def settle_def)
    then show ?thesis by (simp add: Remote_set Await_remote split: option.split)
  qed (simp_all add: i Remote_set)
qed (simp_all add: rtc_inv_ontrack rtc_inv_close)

lemma rtc_inv_run: "rtc_inv s \<Longrightarrow> rtc_inv (rtc_run copy anchor_of es s)"
  by (induction es arbitrary: s) (simp_all add: rtc_run_def rtc_inv_step)

lemma rtc_inv_transceivers: "rtc_inv (new_rtc\<lparr>pc_ops := transceivers dir\<rparr>)"
  by (simp add: rtc_inv_def new_rtc_def transceivers_def op_before_def)

lemma transceivers_start: "pc_do (transceivers dir) k new_rtc = k (new_rtc\<lparr>pc_ops := transceivers dir\<rparr>)"
  by (simp add: pc_do_def new_rtc_def)

lemma rtc_inv_capture:
  assumes "rtc_inv s" "phase s = Ready" shows "rtc_inv (capture copy b t s)"
  using assms rtc_inv_fail [of s] posts_le1 [of s] by (auto simp: capture_def rtc_inv_def)

lemma rtc_inv_starts:
  "rtc_inv (start_publish copy b c new_rtc)" "rtc_inv (start_play c new_rtc)"
  "rtc_inv (whip_publish b url new_rtc)" "rtc_inv (whep_play url new_rtc)"
proof -
  note i = rtc_inv_transceivers
  note f = rtc_inv_fail [OF rtc_inv_new]
  have p: "length (posts new_rtc) \<le> 1" "posts new_rtc = []" "phase new_rtc = Ready" by (simp_all add: new_rtc_def)
  have c: "rtc_inv (capture copy b t (new_rtc\<lparr>pc_ops := transceivers dir\<rparr>))" for copy b t dir
    by (rule rtc_inv_capture [OF i]) (simp add: p)
  have o: "rtc_inv (offer t (new_rtc\<lparr>pc_ops := transceivers dir\<rparr>))" for t dir
    by (rule rtc_inv_offer [OF i]) (simp_all add: p)
  show "rtc_inv (start_publish copy b c new_rtc)"
    using c f p by (simp add: start_publish_def transceivers_start split: sum.split)
  show "rtc_inv (start_play c new_rtc)"
    using o f p by (simp add: start_play_def transceivers_start split: sum.split)
  show "rtc_inv (whip_publish b url new_rtc)"
    using c f p by (simp add: whip_publish_def transceivers_start)
  show "rtc_inv (whep_play url new_rtc)"
    using o f p by (simp add: whep_play_def transceivers_start)
qed

section \<open>What success rests on\<close>

definition accepted :: "sdk_copy \<Rightarrow> target \<Rightarrow> rtc_event list \<Rightarrow> pc_op list \<Rightarrow> jsval \<Rightarrow> bool" where
  "accepted copy t es ops d \<longleftrightarrow>
     (\<exists>r a. Answered r \<in> set es \<and> answer_of copy t r = Some (Inr d) \<and> answer_sdp t d = Inr a \<and>
            SetRemote a \<in> set ops)"

fun grounded :: "sdk_copy \<Rightarrow> (string \<Rightarrow> sdk_anchor) \<Rightarrow> target \<Rightarrow> rtc_event list \<Rightarrow> pc_op list \<Rightarrow> phase \<Rightarrow> bool" where
  "grounded copy anchor_of t0 es ops (Await_media t) \<longleftrightarrow> t = t0"
| "grounded copy anchor_of t0 es ops (Await_offer t) \<longleftrightarrow> t = t0"
| "grounded copy anchor_of t0 es ops (Await_local t sdp) \<longleftrightarrow> t = t0"
| "grounded copy anchor_of t0 es ops (Await_answer t sdp) \<longleftrightarrow> t = t0"
| "grounded copy anchor_of t0 es ops (Await_remote t sdp d) \<longleftrightarrow> t = t0 \<and> accepted copy t0 es ops d"
| "grounded copy anchor_of t0 es ops (Settled (Inr v)) \<longleftrightarrow>
     (\<exists>sdp d. finish anchor_of t0 sdp d = Inr v \<and> accepted copy t0 es ops d)"
| "grounded copy anchor_of t0 es ops (Settled (Inl v)) \<longleftrightarrow> True"
| "grounded copy anchor_of t0 es ops Ready \<longleftrightarrow> True"

lemma accepted_mono:
  "accepted copy t es ops d \<Longrightarrow> set es \<subseteq> set es' \<Longrightarrow> set ops \<subseteq> set ops' \<Longrightarrow> accepted copy t es' ops' d"
  unfolding accepted_def by blast

lemma grounded_mono:
  "grounded copy anchor_of t es ops p \<Longrightarrow> set es \<subseteq> set es' \<Longrightarrow> set ops \<subseteq> set ops' \<Longrightarrow>
   grounded copy anchor_of t es' ops' p"
  by (induction copy anchor_of t es ops p rule: grounded.induct) (auto intro: accepted_mono)

lemma grounded_fail: "phase s' = Settled (Inl e) \<Longrightarrow> grounded copy anchor_of t es ops (phase s')"
  by simp

lemma grounded_add_tracks:
  "phase s = Await_media t \<Longrightarrow>
   grounded copy anchor_of t es (pc_ops (add_tracks ts (offer t) s)) (phase (add_tracks ts (offer t) s))"
  by (induction ts arbitrary: s) (simp_all add: offer_def pc_do_def settle_def ontrack_def)

lemma grounded_answered:
  assumes "phase s = Await_answer t sdp" "Answered r \<in> set es"
  shows "grounded copy anchor_of t es (pc_ops (answered copy t sdp r s)) (phase (answered copy t sdp r s))"
  using assms by (auto simp: answered_def pc_do_def settle_def accepted_def split: option.split sum.split)

lemma grounded_step:
  assumes "grounded copy anchor_of t0 es (pc_ops s) (phase s)"
  shows "grounded copy anchor_of t0 (es @ [e]) (pc_ops (rtc_step copy anchor_of e s)) (phase (rtc_step copy anchor_of e s))"
proof -
  have k: "grounded copy anchor_of t0 (es @ [e]) (pc_ops s) (phase s)"
    using assms by (rule grounded_mono) auto
  show ?thesis
  proof (cases e)
    case (Media r)
    show ?thesis
    proof (cases "phase s")
      case (Await_media t)
      then show ?thesis using k grounded_add_tracks [OF Await_media]
        by (cases r) (simp_all add: Media settle_def)
    qed (use k in \<open>simp_all add: Media\<close>)
  next
    case (Offered r)
    show ?thesis
      using k by (cases "phase s"; cases r) (simp_all add: Offered pc_do_def settle_def)
  next
    case (Local_set r)
    show ?thesis
      using k by (cases "phase s"; cases r) (simp_all add: Local_set settle_def)
  next
    case (Answered r)
    show ?thesis
    proof (cases "phase s")
      case (Await_answer t sdp)
      then show ?thesis using k grounded_answered [OF Await_answer, of r "es @ [e]"]
        by (simp add: Answered)
    qed (use k in \<open>simp_all add: Answered\<close>)
  next
    case (Remote_set r)
    show ?thesis
    proof (cases "phase s")
      case (Await_remote t sdp d)
      then have a: "t = t0" "accepted copy t0 (es @ [e]) (pc_ops s) d" using k by simp_all
      show ?thesis
      proof (cases r)
        case None
        show ?thesis
        proof (cases "finish anchor_of t0 sdp d")
          case (Inr v)
          then have "\<exists>sdp d. finish anchor_of t0 sdp d = Inr v \<and> accepted copy t0 (es @ [e]) (pc_ops s) d"
            using a by blast
          then show ?thesis
            using Await_remote None a(1) Inr Remote_set by (simp add: settle_def)
        qed (simp add: Remote_set Await_remote None a(1) settle_def)
      qed (simp add: Remote_set Await_remote settle_def)
    qed (use k in \<open>simp_all add: Remote_set\<close>)
  next
    case (Remote_track t)
    show ?thesis using k by (simp add: Remote_track ontrack_def)
  next
    case Close
    have "set (pc_ops s) \<subseteq> set (pc_ops (close s))" and p: "phase (close s) = phase s"
      by (auto simp: close_def)
    then have "grounded copy anchor_of t0 (es @ [e]) (pc_ops (close s)) (phase s)"
      by (intro grounded_mono [OF k subset_refl])
    then show ?thesis using p Close by simp
  qed
qed

lemma grounded_run:
  "grounded copy anchor_of t0 [] (pc_ops s) (phase s) \<Longrightarrow>
   grounded copy anchor_of t0 es (pc_ops (rtc_run copy anchor_of es s)) (phase (rtc_run copy anchor_of es s))"
proof (induction es rule: rev_induct)
  case (snoc e es)
  then show ?case using grounded_step by (fastforce simp: rtc_run_def)
qed (simp add: rtc_run_def)

lemma grounded_capture: "phase s = Ready \<Longrightarrow> grounded copy' anchor_of t [] ops (phase (capture copy b t s))"
  by (simp add: capture_def settle_def)

lemma grounded_starts:
  "c = Inr conf \<Longrightarrow> grounded copy anchor_of (Api conf) [] (pc_ops (start_publish copy b c new_rtc)) (phase (start_publish copy b c new_rtc))"
  "c = Inr conf \<Longrightarrow> grounded copy anchor_of (Api conf) [] (pc_ops (start_play c new_rtc)) (phase (start_play c new_rtc))"
  "grounded Players anchor_of (Direct url) [] (pc_ops (whip_publish b url new_rtc)) (phase (whip_publish b url new_rtc))"
  "grounded Players anchor_of (Direct url) [] (pc_ops (whep_play url new_rtc)) (phase (whep_play url new_rtc))"
proof -
  have r: "phase (new_rtc\<lparr>pc_ops := transceivers dir\<rparr>) = Ready" for dir by (simp add: new_rtc_def)
  have o: "grounded copy anchor_of t [] ops (phase (offer t s))" for copy anchor_of t ops s
    by (simp add: offer_def pc_do_def settle_def)
  note c = grounded_capture [OF r]
  show "c = Inr conf \<Longrightarrow> grounded copy anchor_of (Api conf) [] (pc_ops (start_publish copy b c new_rtc)) (phase (start_publish copy b c new_rtc))"
    using c by (simp add: start_publish_def transceivers_start)
  show "c = Inr conf \<Longrightarrow> grounded copy anchor_of (Api conf) [] (pc_ops (start_play c new_rtc)) (phase (start_play c new_rtc))"
    using o by (simp add: start_play_def transceivers_start)
  show "grounded Players anchor_of (Direct url) [] (pc_ops (whip_publish b url new_rtc)) (phase (whip_publish b url new_rtc))"
    using c by (simp add: whip_publish_def transceivers_start settle_def)
  show "grounded Players anchor_of (Direct url) [] (pc_ops (whep_play url new_rtc)) (phase (whep_play url new_rtc))"
    using o by (simp add: whep_play_def transceivers_start settle_def)
qed

lemma answer_accepted_api:
  assumes "answer_of Players (Api c) r = Some (Inr d)"
  shows "\<exists>st body code. r = Http st body (Some d) \<and> st \<in> {200, 201} \<and> get_prop d ''code'' = Inr code \<and> \<not> truthy code"
  using assms
  by (auto simp: answer_of_def ok_status_def split: sdk_copy.splits http_result.splits if_splits option.splits sum.splits)

section \<open>Properties of sessions\<close>

text \<open>
  C2. Whatever the browser, the server and the page do, every session of the SDK keeps the order of
  negotiation: transceivers before tracks before one offer before one local and one remote
  description, at most one request, nothing after the connection is closed; a session that reports success
  has made its request and set the answer.
\<close>

theorem sessions_keep_order:
  "rtc_inv (publisher_publish anchor_of loc noise b url es) \<and>
   rtc_inv (player_play anchor_of loc noise url es) \<and>
   rtc_inv (demo_publisher_publish anchor_of loc noise b url es) \<and>
   rtc_inv (demo_player_play anchor_of loc noise url es) \<and>
   rtc_inv (whip_session anchor_of b url es) \<and> rtc_inv (whep_session anchor_of url es)"
  by (simp add: publisher_publish_def player_play_def demo_publisher_publish_def demo_player_play_def
      whip_session_def whep_session_def rtc_inv_run rtc_inv_starts)

lemma start_publish_fails: "phase (start_publish copy b (Inl e) s) = Settled (Inl (Thrown e))"
  by (simp add: start_publish_def settle_def)

lemma start_play_fails: "phase (start_play (Inl e) s) = Settled (Inl (Thrown e))"
  by (simp add: start_play_def settle_def)

lemma add_tracks_settled: "phase s = p \<Longrightarrow> (\<forall>t. p \<noteq> Await_media t) \<Longrightarrow> phase (rtc_step copy anchor_of (Media r) s) = p"
  by (cases p) simp_all

lemma settled_step: "phase s = Settled x \<Longrightarrow> phase (rtc_step copy anchor_of e s) = Settled x"
  by (cases e) (simp_all add: ontrack_def close_def)

lemma settled_run: "phase s = Settled x \<Longrightarrow> phase (rtc_run copy anchor_of es s) = Settled x"
  by (induction es arbitrary: s) (simp_all add: rtc_run_def settled_step)

lemma api_success:
  assumes "grounded Players anchor_of (Api conf) es ops (Settled (Inr v))"
  shows "\<exists>st body d code a ps. Answered (Http st body (Some d)) \<in> set es \<and> st \<in> {200, 201} \<and>
    get_prop d ''code'' = Inr code \<and> \<not> truthy code \<and> get_prop d ''sdp'' = Inr a \<and> SetRemote a \<in> set ops \<and>
    d = Obj ps \<and> v = Obj (prop_set ps ''simulator'' (Str (simulator conf)))"
proof -
  from assms obtain sdp d where f: "finish anchor_of (Api conf) sdp d = Inr v" and a: "accepted Players (Api conf) es ops d"
    by auto
  from f obtain ps where d: "d = Obj ps" "v = Obj (prop_set ps ''simulator'' (Str (simulator conf)))"
    by (auto simp: finish_def split: jsval.splits)
  from a obtain r x where r: "Answered r \<in> set es" "answer_of Players (Api conf) r = Some (Inr d)"
      "get_prop d ''sdp'' = Inr x" "SetRemote x \<in> set ops"
    by (auto simp: accepted_def answer_sdp_def)
  from answer_accepted_api [OF r(2)] r(1,3,4) d show ?thesis by blast
qed

text \<open>
  C1. A publisher reports success only when its address could be prepared and the server answered with
  a status of success, an object without an error code and a session description, which was handed
  to the connection; what it reports is that answer with the simulator address added.
\<close>

theorem publish_success_accepted:
  assumes "phase (publisher_publish anchor_of loc noise b url es) = Settled (Inr v)"
  shows "\<exists>conf st body code a ps. publisher_prepareUrl anchor_of loc noise url = Inr conf \<and>
    Answered (Http st body (Some (Obj ps))) \<in> set es \<and> st \<in> {200, 201} \<and>
    get_prop (Obj ps) ''code'' = Inr code \<and> \<not> truthy code \<and> get_prop (Obj ps) ''sdp'' = Inr a \<and>
    SetRemote a \<in> set (pc_ops (publisher_publish anchor_of loc noise b url es)) \<and>
    v = Obj (prop_set ps ''simulator'' (Str (simulator conf)))"
proof (cases "publisher_prepareUrl anchor_of loc noise url")
  case (Inl e)
  then have "phase (publisher_publish anchor_of loc noise b url es) = Settled (Inl (Thrown e))"
    unfolding publisher_publish_def by (intro settled_run) (simp add: start_publish_fails)
  then show ?thesis using assms by simp
next
  case (Inr conf)
  have "grounded Players anchor_of (Api conf) es (pc_ops (publisher_publish anchor_of loc noise b url es))
      (phase (publisher_publish anchor_of loc noise b url es))"
    unfolding publisher_publish_def by (intro grounded_run grounded_starts Inr)
  then show ?thesis using api_success Inr unfolding assms by blast
qed

definition demo_link :: sdk_anchor where
  "demo_link = \<lparr>a_hostname = ''ossrs.net'', a_port = [], a_pathname = ''/live/one'',
     a_search = ''?token=1&play=/api'', a_host = ''ossrs.net'', a_protocol = ''http:''\<rparr>"

definition demo_url :: string where
  "demo_url = ''webrtc://ossrs.net/live/one?token=1&play=/api''"

lemma demo_prepare:
  "map_sum id (\<lambda>c. (apiUrl c, conf_schema c, conf_port c, field (urlObject c) ''user_query''))
     (player_prepareUrl (\<lambda>_. demo_link) demo_loc NaN demo_url) =
   Inr (''http://ossrs.net:1985/api/?token=1'', ''http:'', Num (num_of 1985),
        Obj [(''token'', Str ''1''), (''play'', Str ''/api'')])"
  by code_simp

text \<open>A complete negotiation, used to instantiate the properties.\<close>

definition demo_conf :: conf where
  "demo_conf = (case publisher_prepareUrl (\<lambda>_. demo_link) demo_loc NaN demo_url of Inr c \<Rightarrow> c | Inl _ \<Rightarrow> undefined)"

lemma demo_publisher_conf: "publisher_prepareUrl (\<lambda>_. demo_link) demo_loc NaN demo_url = Inr demo_conf"
proof -
  have "isl (publisher_prepareUrl (\<lambda>_. demo_link) demo_loc NaN demo_url) = False" by code_simp
  then show ?thesis by (auto simp: demo_conf_def split: sum.splits)
qed

definition demo_browser :: browser where
  "demo_browser = \<lparr>media_devices = True, br_location = demo_loc\<rparr>"

definition demo_events :: "rtc_event list" where
  "demo_events = [Media (Inr [Track ''audio'' 0, Track ''video'' 1]), Offered (Inr ''v=0''), Local_set None,
     Answered (Http 200 [] (Some (Obj [(''code'', Num (Fin 0)), (''sdp'', Str ''v=1'')]))), Remote_set None]"

lemma answer_ok_api:
  assumes "ok_status st" "get_prop d ''code'' = Inr code" "\<not> truthy code"
  shows "answer_of Players (Api c) (Http st body (Some d)) = Some (Inr d)"
  using assms by (simp add: answer_of_def)

lemma add_tracks_open:
  "pc_open s \<Longrightarrow> add_tracks ts k s = k (s\<lparr>pc_ops := pc_ops s @ map AddTrack ts, tracks := tracks s @ ts\<rparr>)"
  by (induction ts arbitrary: s) (simp_all add: pc_do_def ontrack_def)

text \<open>
  C3. A publisher whose address can be prepared, whose browser captures tracks and makes an offer, and
  whose server accepts it, completes: exactly the expected calls are made on the connection in order,
  one request carries the offer, every captured track is in the SDK's stream, and the session is the
  server's answer with the simulator address added.
\<close>

theorem publish_completes:
  assumes "publisher_prepareUrl anchor_of loc noise url = Inr conf" and "media_devices b"
    and "ok_status st" "get_prop (Obj ps) ''code'' = Inr code" "\<not> truthy code" "get_prop (Obj ps) ''sdp'' = Inr a"
  shows "publisher_publish anchor_of loc noise b url
      [Media (Inr ts), Offered (Inr sdp), Local_set None, Answered (Http st body (Some (Obj ps))), Remote_set None] =
    \<lparr>pc_open = True,
     pc_ops = [AddTransceiver ''audio'' ''sendonly'', AddTransceiver ''video'' ''sendonly''] @ map AddTrack ts @
       [CreateOffer, SetLocal sdp, SetRemote a],
     tracks = ts, phase = Settled (Inr (Obj (prop_set ps ''simulator'' (Str (simulator conf))))),
     posts = [(apiUrl conf, ''application/json'',
       Obj [(''api'', Str (apiUrl conf)), (''tid'', Str (tid conf)), (''streamurl'', streamUrl conf),
            (''clientip'', Null), (''sdp'', Str sdp)])]\<rparr>"
  using assms(2,6)
  by (simp add: publisher_publish_def rtc_run_def start_publish_def assms(1) transceivers_start capture_def
      add_tracks_open offer_def pc_do_def answered_def answer_ok_api [OF assms(3-5)] answer_sdp_def
      settle_def finish_def transceivers_def post_body_def new_rtc_def)

theorem publish_completes_witness:
  "phase (publisher_publish (\<lambda>_. demo_link) demo_loc NaN demo_browser demo_url demo_events) =
     Settled (Inr (Obj (prop_set [(''code'', Num (Fin 0)), (''sdp'', Str ''v=1'')] ''simulator''
       (Str (simulator demo_conf)))))"
proof -
  have "get_prop (Obj [(''code'', Num (Fin 0)), (''sdp'', Str ''v=1'')]) ''code'' = Inr (Num (Fin 0))"
    "\<not> truthy (Num (Fin 0))"
    "get_prop (Obj [(''code'', Num (Fin 0)), (''sdp'', Str ''v=1'')]) ''sdp'' = Inr (Str ''v=1'')" by code_simp+
  from publish_completes [OF demo_publisher_conf _ _ this, of demo_browser 200] show ?thesis
    by (simp add: demo_events_def demo_browser_def ok_status_def)
qed

lemma demo_run: "phase (publisher_publish (\<lambda>_. demo_link) demo_loc NaN demo_browser demo_url demo_events) =
     Settled (Inr (Obj (prop_set [(''code'', Num (Fin 0)), (''sdp'', Str ''v=1'')] ''simulator''
       (Str (simulator demo_conf)))))"
proof -
  have c: "get_prop (Obj [(''code'', Num (Fin 0)), (''sdp'', Str ''v=1'')]) ''code'' = Inr (Num (Fin 0))"
    "\<not> truthy (Num (Fin 0))"
    "get_prop (Obj [(''code'', Num (Fin 0)), (''sdp'', Str ''v=1'')]) ''sdp'' = Inr (Str ''v=1'')" by code_simp+
  have "ok_status 200" by (simp add: ok_status_def)
  note a = answer_ok_api [OF this c(1,2)]
  show ?thesis
    by (simp add: publisher_publish_def rtc_run_def start_publish_def demo_publisher_conf transceivers_start capture_def
        ontrack_def offer_def pc_do_def answered_def a answer_sdp_def demo_events_def demo_browser_def
        settle_def finish_def new_rtc_def c(3))
qed

theorem publish_success_accepted_witness:
  "\<exists>st body ps. Answered (Http st body (Some (Obj ps))) \<in> set demo_events \<and> st \<in> {200, 201}"
  using publish_success_accepted [OF demo_run] by blast

definition is_answer :: "rtc_event \<Rightarrow> bool" where
  "is_answer e = (case e of Answered _ \<Rightarrow> True | _ \<Rightarrow> False)"

lemma awaiting_step:
  "phase s = Await_answer t sdp \<Longrightarrow> \<not> is_answer e \<Longrightarrow> phase (rtc_step copy anchor_of e s) = Await_answer t sdp"
  by (cases e) (simp_all add: is_answer_def ontrack_def close_def)

lemma awaiting_run:
  "phase s = Await_answer t sdp \<Longrightarrow> list_all (\<lambda>e. \<not> is_answer e) es \<Longrightarrow>
   phase (rtc_run copy anchor_of es s) = Await_answer t sdp"
  by (induction es arbitrary: s) (simp_all add: rtc_run_def awaiting_step)

lemma rtc_run_Cons: "rtc_run copy anchor_of (e # es) s = rtc_run copy anchor_of es (rtc_step copy anchor_of e s)"
  by (simp add: rtc_run_def)

text \<open>
  A session of the players' SDK whose request finds no server, or gets an answer that is not JSON,
  never settles: whatever else happens, closing it included, it still waits for the answer. The SDK of
  the demos rejects the session in both cases.
\<close>

theorem lost_answer_hangs:
  assumes "phase s = Await_answer (Api c) sdp" and "list_all (\<lambda>e. \<not> is_answer e) es"
    and "r = Network_error \<or> r = Http 200 body None"
  shows "phase (rtc_run Players anchor_of (Answered r # es) s) = Await_answer (Api c) sdp \<and>
    (\<exists>e. phase (rtc_run Demos anchor_of (Answered r # es) s) = Settled (Inl (Rejected e)))"
proof
  have "answer_of Players (Api c) r = None" using assms(3) by (auto simp: answer_of_def ok_status_def)
  then have "rtc_step Players anchor_of (Answered r) s = s" using assms(1) by (simp add: answered_def)
  then show "phase (rtc_run Players anchor_of (Answered r # es) s) = Await_answer (Api c) sdp"
    using awaiting_run [OF assms(1,2)] by (simp add: rtc_run_Cons)
  have "\<exists>e. answer_of Demos (Api c) r = Some (Inl e)" using assms(3) by (auto simp: answer_of_def)
  then obtain e where "phase (rtc_step Demos anchor_of (Answered r) s) = Settled (Inl (Rejected e))"
    using assms(1) by (auto simp: answered_def settle_def)
  then have "phase (rtc_run Demos anchor_of (Answered r # es) s) = Settled (Inl (Rejected e))"
    unfolding rtc_run_Cons by (rule settled_run)
  then show "\<exists>e. phase (rtc_run Demos anchor_of (Answered r # es) s) = Settled (Inl (Rejected e))" by blast
qed

theorem lost_answer_hangs_witness:
  "phase (rtc_run Players (\<lambda>_. demo_link) [Answered Network_error, Close]
     (publisher_publish (\<lambda>_. demo_link) demo_loc NaN demo_browser demo_url (take 3 demo_events))) =
   Await_answer (Api demo_conf) ''v=0''"
proof -
  have "phase (publisher_publish (\<lambda>_. demo_link) demo_loc NaN demo_browser demo_url (take 3 demo_events)) =
      Await_answer (Api demo_conf) ''v=0''"
    by (simp add: publisher_publish_def rtc_run_def start_publish_def demo_publisher_conf transceivers_start
        capture_def ontrack_def offer_def pc_do_def demo_events_def demo_browser_def new_rtc_def)
  from lost_answer_hangs [OF this, of "[Close]" Network_error] show ?thesis by (simp add: is_answer_def)
qed

section \<open>Properties of addresses\<close>

lemma pass_query_text:
  "pass_query ps url =
   url @ concat (map (\<lambda>(k, v). ''&'' @ pair_text (k, to_str v)) (filter (\<lambda>(k, v). k \<noteq> ''api'' \<and> k \<noteq> ''play'') ps))"
  by (induction ps url rule: pass_query.induct) (simp_all add: pair_text_def)

lemma concat_query_text:
  "concat (map (\<lambda>(k, v). ''&'' @ pair_text (k, f v)) kvs) =
   (if kvs = [] then [] else CHR ''&'' # query_text (map (\<lambda>(k, v). (k, f v)) kvs))"
proof (induction kvs)
  case (Cons kv kvs)
  then show ?case by (cases kvs) (auto simp: query_text_def case_prod_beta)
qed simp

lemma find_sub_ampersand:
  assumes "CHR ''&'' \<notin> set (pre @ api)"
  shows "find_sub (api @ ''&'') (pre @ api @ CHR ''&'' # rest) = Some (length pre)"
proof -
  let ?s = "pre @ api @ CHR ''&'' # rest"
  have "prefix (api @ ''&'') (drop (length pre) ?s)" by (auto simp: prefix_def)
  then have "sublist (api @ ''&'') ?s"
    by (metis prefix_imp_sublist sublist_drop sublist_order.order_trans)
  then obtain i where i: "find_sub (api @ ''&'') ?s = Some i"
    using find_sub_None_iff [of "api @ ''&''" ?s] by (cases "find_sub (api @ ''&'') ?s") auto
  have i': "prefix (api @ ''&'') (drop i ?s)" "\<forall>j < i. \<not> prefix (api @ ''&'') (drop j ?s)"
    using find_sub_SomeD [OF i] by auto
  have "i \<le> length pre" using i'(2) \<open>prefix (api @ ''&'') (drop (length pre) ?s)\<close> not_less by blast
  moreover have "\<not> i < length pre"
  proof
    assume l: "i < length pre"
    obtain zs where "drop i ?s = (api @ ''&'') @ zs" using i'(1) by (metis prefixE)
    then have "drop i ?s ! length api = ((api @ ''&'') @ zs) ! length api" by (rule arg_cong)
    then have "drop i ?s ! length api = CHR ''&''" by (simp add: nth_append)
    moreover have "i \<le> length ?s" using l by simp
    ultimately have "?s ! (i + length api) = CHR ''&''" by (simp only: nth_drop)
    moreover have "?s ! (i + length api) = (pre @ api) ! (i + length api)"
      using l nth_append [of "pre @ api" "CHR ''&'' # rest" "i + length api"] by simp
    ultimately have "CHR ''&'' \<in> set (pre @ api)" using l by (metis add_less_mono1 length_append nth_mem)
    then show False using assms by simp
  qed
  ultimately show ?thesis using i by simp
qed

lemma replace_ampersand:
  assumes "CHR ''&'' \<notin> set (pre @ api)" "CHR 0x24 \<notin> set api"
  shows "replace_first (pre @ api @ CHR ''&'' # rest) (api @ ''&'') (api @ ''?'') = pre @ api @ ''?'' @ rest"
  using replace_first_plain [OF find_sub_ampersand [OF assms(1)], of "api @ ''?''" rest] assms(2) by simp

text \<open>The server part of an API address and its path.\<close>

definition api_base :: "conf \<Rightarrow> string" where
  "api_base c = conf_schema c @ ''//'' @ to_str (field (urlObject c) ''server'') @ '':'' @ to_str (conf_port c)"

definition api_path :: "string \<Rightarrow> jsval props \<Rightarrow> string" where
  "api_path defaultPath uq =
     (if truthy (field uq ''play'') then slash_end (to_str (field uq ''play'')) else slash_end defaultPath)"

lemma get_prop_Obj: "get_prop (Obj ps) k = Inr (field ps k)"
  by (simp add: get_prop_def field_def)

lemma prepareUrl_raw:
  assumes "sdk_prepareUrl defaultPath copy anchor_of loc noise url = Inr c"
    and "field (urlObject c) ''user_query'' = Obj uq"
  shows "apiUrl c = replace_first (pass_query uq (api_base c @ api_path defaultPath uq))
      (api_path defaultPath uq @ ''&'') (api_path defaultPath uq @ ''?'')" (is ?url)
    and "conf_schema c = (if truthy (field uq ''schema'') then to_str (field uq ''schema'') @ '':'' else loc_protocol loc)"
      (is ?schema)
proof -
  obtain obj where o: "sdk_parse copy anchor_of loc url = Inr obj"
    using assms(1) by (auto simp: sdk_prepareUrl_def bind_result_Inr_conv)
  have "urlObject c = obj"
    using assms(1) by (auto simp: sdk_prepareUrl_def o bind_result_Inr_conv Let_def)
  then have u: "field obj ''user_query'' = Obj uq" using assms(2) by simp
  have c: "c = (case sdk_prepareUrl defaultPath copy anchor_of loc noise url of Inr c \<Rightarrow> c)" using assms(1) by simp
  show ?url unfolding c api_base_def api_path_def
    by (simp add: sdk_prepareUrl_def o u get_prop_Obj Let_def)
  show ?schema unfolding c by (simp add: sdk_prepareUrl_def o u get_prop_Obj Let_def)
qed

text \<open>
  The address a session posts to: the API server and path, then exactly the options of the stream
  address other than \<open>api\<close> and \<open>play\<close>, in order, as a query that starts with a question mark. An
  option \<open>play\<close> replaces the path and an option \<open>schema\<close> the scheme of the page.
\<close>

theorem api_url_text:
  assumes "sdk_prepareUrl defaultPath copy anchor_of loc noise url = Inr c"
    and "field (urlObject c) ''user_query'' = Obj uq"
    and "CHR ''&'' \<notin> set (api_base c @ api_path defaultPath uq)" "CHR 0x24 \<notin> set (api_path defaultPath uq)"
    and "kept = map (\<lambda>(k, v). (k, to_str v)) (filter (\<lambda>(k, v). k \<noteq> ''api'' \<and> k \<noteq> ''play'') uq)"
  shows "apiUrl c = api_base c @ api_path defaultPath uq @ (if kept = [] then [] else ''?'' @ query_text kept) \<and>
    conf_schema c = (if truthy (field uq ''schema'') then to_str (field uq ''schema'') @ '':'' else loc_protocol loc)"
proof
  let ?b = "api_base c" and ?p = "api_path defaultPath uq"
  have r: "apiUrl c = replace_first (?b @ ?p @ (if kept = [] then [] else CHR ''&'' # query_text kept)) (?p @ ''&'') (?p @ ''?'')"
    using concat_query_text [of to_str "filter (\<lambda>(k, v). k \<noteq> ''api'' \<and> k \<noteq> ''play'') uq"]
    unfolding prepareUrl_raw(1) [OF assms(1,2)] pass_query_text assms(5) by simp
  show "apiUrl c = ?b @ ?p @ (if kept = [] then [] else ''?'' @ query_text kept)"
  proof (cases "kept = []")
    case True
    have "\<not> sublist (?p @ ''&'') (?b @ ?p)"
      using assms(3) by (auto dest: set_mono_sublist)
    then show ?thesis using r True by (simp add: replace_first_absent)
  next
    case False
    then show ?thesis using r replace_ampersand [OF assms(3,4), of "query_text kept"] by simp
  qed
  show "conf_schema c = (if truthy (field uq ''schema'') then to_str (field uq ''schema'') @ '':'' else loc_protocol loc)"
    by (rule prepareUrl_raw(2) [OF assms(1,2)])
qed

theorem api_url_text_witness:
  "apiUrl demo_conf = ''http://ossrs.net:1985/api/?token=1''"
proof -
  have d: "sdk_prepareUrl ''/rtc/v1/publish/'' Players (\<lambda>_. demo_link) demo_loc NaN demo_url = Inr demo_conf"
    using demo_publisher_conf by (simp add: publisher_prepareUrl_def)
  have f: "map_sum id (\<lambda>c. (field (urlObject c) ''user_query'', api_base c))
      (publisher_prepareUrl (\<lambda>_. demo_link) demo_loc NaN demo_url) =
      Inr (Obj [(''token'', Str ''1''), (''play'', Str ''/api'')], ''http://ossrs.net:1985'')"
    by code_simp
  then have u: "field (urlObject demo_conf) ''user_query'' = Obj [(''token'', Str ''1''), (''play'', Str ''/api'')]"
    "api_base demo_conf = ''http://ossrs.net:1985''"
    by (simp_all add: demo_publisher_conf)
  have p: "api_path ''/rtc/v1/publish/'' [(''token'', Str ''1''), (''play'', Str ''/api'')] = ''/api/''" by code_simp
  from api_url_text [OF d u(1) _ _ refl] show ?thesis
    by (simp add: u(2) p query_text_def pair_text_def)
qed

lemma ufrag_at_tag:
  assumes "index_of sdp ''a=ice-ufrag:'' = int (length u)" "sdp = u @ ''a=ice-ufrag:'' @ v"
  shows "ufrag_at sdp = v"
proof -
  have "ufrag_at sdp = drop (length u + 12) sdp"
    using assms by (simp add: ufrag_at_def substr_from_def rel_index_def min_def nat_add_distrib)
  then show ?thesis using assms(2) by simp
qed

text \<open>
  The session id of WHIP and WHEP: the fragment of the offer, a colon and the fragment of the answer,
  in this order. The last character of the offer's line is cut, so a carriage return goes; the one of
  the answer's line stays in the id.
\<close>

theorem session_id_fragments:
  assumes "index_of offer_sdp ''a=ice-ufrag:'' = int (length u)"
    "offer_sdp = u @ ''a=ice-ufrag:'' @ f @ [cr, CHR 0x0A] @ v"
    and "index_of answer ''a=ice-ufrag:'' = int (length u')"
    "answer = u' @ ''a=ice-ufrag:'' @ f' @ [CHR 0x0A] @ v'"
    and "CHR 0x0A \<notin> set (f @ cr # f')"
  shows "parseId a offer_sdp answer =
    Obj [(''sessionid'', Str (f @ '':'' @ f')), (''simulator'', Str (a_protocol a @ ''//'' @ a_host a @ ''/rtc/v1/nack/''))]"
proof -
  have o: "ufrag_at offer_sdp = (f @ [cr]) @ CHR 0x0A # v" "ufrag_at answer = f' @ CHR 0x0A # v'"
    using ufrag_at_tag [OF assms(1,2)] ufrag_at_tag [OF assms(3,4)] by simp_all
  have i: "index_of ((f @ [cr]) @ CHR 0x0A # v) [CHR 0x0A] = int (length f) + 1"
    "index_of ((f @ '':'' @ f') @ CHR 0x0A # v') [CHR 0x0A] = int (length (f @ '':'' @ f'))"
    using find_sub_single [of "CHR 0x0A" "f @ [cr]" v] find_sub_single [of "CHR 0x0A" "f @ '':'' @ f'" v'] assms(5)
    by (simp_all add: index_of_def)
  have t: "substr s 0 (int n) = take n s" for s n by (simp add: substr_def rel_index_def)
  have s: "substr ((f @ [cr]) @ CHR 0x0A # v) 0 (int (length f) + 1 - 1) = f"
    "substr ((f @ '':'' @ f') @ CHR 0x0A # v') 0 (int (length (f @ '':'' @ f'))) = f @ '':'' @ f'"
    unfolding t by (simp_all add: t)
  have n: "[char_of (10::nat)] = [CHR 0x0A]" by code_simp
  have e: "(f @ '':'') @ f' @ CHR 0x0A # v' = (f @ '':'' @ f') @ CHR 0x0A # v'" by simp
  show ?thesis unfolding parseId_def Let_def n o i(1) s(1) e i(2) s(2) ..
qed

theorem session_id_fragments_witness:
  "parseId demo_link (''a=ice-ufrag:'' @ ''ab'' @ [CHR 0x0D, CHR 0x0A] @ ''m'') (''v a=ice-ufrag:'' @ (''cd'' @ [CHR 0x0D]) @ [CHR 0x0A] @ []) =
    Obj [(''sessionid'', Str (''ab'' @ '':'' @ (''cd'' @ [CHR 0x0D]))), (''simulator'', Str ''http://ossrs.net/rtc/v1/nack/'')]"
proof -
  have i: "index_of (''a=ice-ufrag:'' @ ''ab'' @ [CHR 0x0D, CHR 0x0A] @ ''m'') ''a=ice-ufrag:'' = int (length [])"
    "index_of (''v a=ice-ufrag:'' @ (''cd'' @ [CHR 0x0D]) @ [CHR 0x0A] @ []) ''a=ice-ufrag:'' = int (length ''v '')"
    by code_simp+
  from session_id_fragments [OF i(1) _ i(2), of "''ab''" "CHR 0x0D" "''m''" "''cd'' @ [CHR 0x0D]" "[]" demo_link]
  show ?thesis by (simp add: demo_link_def)
qed

lemma sender_codecs_acc:
  "sender_codecs kind tk cs acc =
   acc @ map (codec_text tk) (filter (\<lambda>c. (kind = None \<or> kind = Some [] \<or> kind = Some tk) \<and> \<not> excluded c) cs)"
  by (induction kind tk cs acc rule: sender_codecs.induct) (auto split: option.splits)

lemma senders_codecs_acc:
  "senders_codecs kind ss acc =
   acc @ concat (map (\<lambda>s. senders_codecs kind [s] []) ss)"
  by (induction kind ss acc rule: senders_codecs.induct) (simp_all add: sender_codecs_acc split: option.split)

text \<open>
  Formatting senders lists, sender by sender, the codecs of the requested kind (all when none is
  requested) that are not retransmission or error correction, and keeps their order.
\<close>

theorem format_senders_lists_codecs:
  "SrsRtcFormatSenders senders kind =
   join '', '' [codec_text (track_kind s) c. s \<leftarrow> senders, c \<leftarrow> (case codecs s of None \<Rightarrow> [] | Some cs \<Rightarrow> cs),
     kind = None \<or> kind = Some [] \<or> kind = Some (track_kind s), \<not> excluded c]"
proof -
  have "senders_codecs kind [s] [] = [codec_text (track_kind s) c. c \<leftarrow> (case codecs s of None \<Rightarrow> [] | Some cs \<Rightarrow> cs),
     kind = None \<or> kind = Some [] \<or> kind = Some (track_kind s), \<not> excluded c]" for s
  proof -
    have "concat (map (\<lambda>c. if P then if Q c then [f c] else [] else []) cs) = map f (filter (\<lambda>c. P \<and> Q c) cs)"
      for P Q cs and f :: "codec \<Rightarrow> string" by (induction cs) auto
    then show ?thesis by (simp add: sender_codecs_acc split: option.split)
  qed
  then show ?thesis unfolding SrsRtcFormatSenders_def by (subst senders_codecs_acc) simp
qed

end
