(* ===== verification/Signaling.thy ===== *)
theory Signaling
  imports RtcSdk
begin

text \<open>
  The signalling client of the demos (\<open>srs.sig.js\<close>): requests over a WebSocket matched to replies by
  a transaction identifier, and the parser of its page parameters. Promises are a list with their
  states; sockets the client has opened stay in a list, of which the last opened is \<open>self.ws\<close>. What
  the browser reports is an event, the text of a message already parsed (\<open>None\<close> when it is not JSON).
\<close>

section \<open>The client\<close>

datatype promise = Pending | Resolved jsval | Refused jsval

datatype ws_state = Connecting | Opened | Ended

record socket =
  ws_url :: string
  ws_state :: ws_state
  ws_promise :: nat

record signaling =
  sockets :: "socket list"
  current_ws :: "nat option"
  msgs :: "nat props"
  promises :: "promise list"
  delivered :: "jsval list"
  wire :: "(nat \<times> string \<times> jsval) list"

definition new_signaling :: signaling where
  "new_signaling = \<lparr>sockets = [], current_ws = None, msgs = [], promises = [], delivered = [], wire = []\<rparr>"

text \<open>A promise is settled once.\<close>

definition settle_promise :: "nat \<Rightarrow> promise \<Rightarrow> promise list \<Rightarrow> promise list" where
  "settle_promise p r ps = (if p < length ps \<and> ps ! p = Pending then ps[p := r] else ps)"

definition sig_connect :: "string \<Rightarrow> string \<Rightarrow> string \<Rightarrow> string \<Rightarrow> signaling \<Rightarrow> signaling" where
  "sig_connect scheme server room display s =
     (let url = scheme @ ''://'' @ server @ ''/sig/v1/rtc''
      in s\<lparr>sockets := sockets s @ [\<lparr>ws_url = url @ ''?room='' @ room @ ''&display='' @ display,
             ws_state = Connecting, ws_promise = length (promises s)\<rparr>],
           current_ws := Some (length (sockets s)), promises := promises s @ [Pending]\<rparr>)"

definition set_ws :: "nat \<Rightarrow> ws_state \<Rightarrow> signaling \<Rightarrow> signaling" where
  "set_ws k st s = s\<lparr>sockets := (sockets s)[k := (sockets s ! k)\<lparr>ws_state := st\<rparr>]\<rparr>"

definition is_ws :: "nat \<Rightarrow> ws_state \<Rightarrow> signaling \<Rightarrow> bool" where
  "is_ws k st s \<longleftrightarrow> k < length (sockets s) \<and> ws_state (sockets s ! k) = st"

definition on_open :: "nat \<Rightarrow> signaling \<Rightarrow> signaling" where
  "on_open k s =
     (if is_ws k Connecting s
      then (set_ws k Opened s)\<lparr>promises := settle_promise (ws_promise (sockets s ! k)) (Resolved Undef) (promises s)\<rparr>
      else s)"

definition on_error :: "nat \<Rightarrow> signaling \<Rightarrow> signaling" where
  "on_error k s =
     (if k < length (sockets s)
      then (set_ws k Ended s)\<lparr>promises := settle_promise (ws_promise (sockets s ! k)) (Refused Undef) (promises s)\<rparr>
      else s)"

text \<open>Names every plain object inherits: reading them gives something truthy without a \<open>resolve\<close>.\<close>

definition inherited :: "string list" where
  "inherited = [''constructor'', ''__defineGetter__'', ''__defineSetter__'', ''hasOwnProperty'',
     ''__lookupGetter__'', ''__lookupSetter__'', ''isPrototypeOf'', ''propertyIsEnumerable'',
     ''toString'', ''valueOf'', ''__proto__'', ''toLocaleString'']"

definition deliver :: "jsval \<Rightarrow> signaling \<Rightarrow> signaling \<times> js_error option" where
  "deliver r s =
     (case get_prop r ''tid'' of
        Inl e \<Rightarrow> (s, Some e)
      | Inr t \<Rightarrow>
          let msg = (case get_prop r ''msg'' of Inr m \<Rightarrow> m | Inl _ \<Rightarrow> Undef)
          in (case prop_get (msgs s) (to_str t) of
                Some p \<Rightarrow> (s\<lparr>promises := settle_promise p (Resolved msg) (promises s),
                            msgs := prop_del (msgs s) (to_str t)\<rparr>, None)
              | None \<Rightarrow> if to_str t \<in> set inherited then (s, Some TypeError)
                        else (s\<lparr>delivered := delivered s @ [msg]\<rparr>, None)))"

definition on_message :: "nat \<Rightarrow> jsval option \<Rightarrow> signaling \<Rightarrow> signaling \<times> js_error option" where
  "on_message k data s =
     (if \<not> is_ws k Opened s then (s, None)
      else case data of None \<Rightarrow> (s, Some (JsError ''SyntaxError'')) | Some r \<Rightarrow> deliver r s)"

text \<open>
  \<open>send\<close> registers the promise before it uses the socket: without a socket, or with one that is still
  connecting, the exception inside the promise rejects it; on a socket that ended the text is dropped.
\<close>

definition sig_send :: "jsnum \<Rightarrow> jsval \<Rightarrow> signaling \<Rightarrow> signaling" where
  "sig_send noise message s =
     (let t = make_tid noise;
          p = length (promises s);
          s = s\<lparr>promises := promises s @ [Pending], msgs := prop_set (msgs s) t p\<rparr>;
          refused = s\<lparr>promises := settle_promise p (Refused Undef) (promises s)\<rparr>
      in case current_ws s of
           None \<Rightarrow> refused
         | Some k \<Rightarrow>
             if is_ws k Connecting s then refused
             else if is_ws k Opened s then s\<lparr>wire := wire s @ [(k, t, message)]\<rparr>
             else s)"

definition sig_close :: "signaling \<Rightarrow> signaling" where
  "sig_close s =
     (let s = (case current_ws s of Some k \<Rightarrow> set_ws k Ended s | None \<Rightarrow> s)
      in s\<lparr>current_ws := None,
           promises := foldl (\<lambda>ps p. settle_promise p (Refused (Str ''close'')) ps) (promises s) (map snd (msgs s))\<rparr>)"

datatype sig_event =
    Connect string string string string
  | Ws_open nat
  | Ws_error nat
  | Ws_message nat "jsval option"
  | Send jsnum jsval
  | Close_sig

fun sig_step :: "sig_event \<Rightarrow> signaling \<Rightarrow> signaling" where
  "sig_step (Connect scheme server room display) s = sig_connect scheme server room display s"
| "sig_step (Ws_open k) s = on_open k s"
| "sig_step (Ws_error k) s = on_error k s"
| "sig_step (Ws_message k data) s = fst (on_message k data s)"
| "sig_step (Send noise message) s = sig_send noise message s"
| "sig_step Close_sig s = sig_close s"

definition sig_run :: "sig_event list \<Rightarrow> signaling \<Rightarrow> signaling" where
  "sig_run es s = foldl (\<lambda>s e. sig_step e s) s es"

section \<open>Page parameters\<close>

text \<open>\<open>href.split(key)[1]\<close>, cut at the next ampersand; \<open>None\<close> stands for a falsy value.\<close>

definition param_text :: "string \<Rightarrow> string \<Rightarrow> string option" where
  "param_text href key =
     (case arr_at (split_on href key) 1 of
        None \<Rightarrow> None
      | Some v \<Rightarrow> if v = [] then None else Some (split_on v ''&'' ! 0))"

function squeeze :: "string \<Rightarrow> string" where
  "squeeze q = (if 0 \<le> index_of q ''&&'' then squeeze (replace_first q ''&&'' ''&'') else q)"
  by pat_completeness auto

lemma replace_pair_shorter:
  assumes "sublist ''&&'' q" shows "length (replace_first q ''&&'' ''&'') < length q"
proof -
  obtain i where i: "find_sub ''&&'' q = Some i"
    using assms find_sub_None_iff [of "''&&''" q] by (cases "find_sub ''&&'' q") auto
  have "i + 2 \<le> length q" using find_sub_le [OF i] by simp
  then show ?thesis using replace_first_plain [OF i, of "''&''"] by simp
qed

termination squeeze
  by (relation "measure length") (simp_all add: replace_pair_shorter)

declare squeeze.simps [simp del]

definition cut_end :: "string \<Rightarrow> string \<Rightarrow> string" where
  "cut_end c q = (if last_index_of q c = int (length q) - 1 then slice q 0 (int (length q) - 1) else q)"

record sig_params =
  sig_query :: jsval
  raw_query :: jsval
  ws_schema :: string
  ws_host :: string
  sig_host :: string
  sig_room :: jsval
  sig_display :: string
  sig_autostart :: jsval

definition opt_str :: "string option \<Rightarrow> jsval" where
  "opt_str v = (case v of None \<Rightarrow> Undef | Some s \<Rightarrow> Str s)"

definition SrsRtcSignalingParse :: "location \<Rightarrow> jsnum \<Rightarrow> sig_params" where
  "SrsRtcSignalingParse loc noise =
     (let href = loc_href loc;
          query = (case arr_at (split_on href ''?'') 1 of
                     Some q \<Rightarrow> if q = [] then None else Some (''?'' @ q) | None \<Rightarrow> None);
          wsSchema = (case param_text href ''wss='' of Some v \<Rightarrow> v
                      | None \<Rightarrow> if loc_protocol loc = ''http:'' then ''ws'' else ''wss'');
          wsHost = (case param_text href ''wsh='' of Some v \<Rightarrow> v | None \<Rightarrow> loc_hostname loc);
          wsPort = (case param_text href ''wsp='' of Some v \<Rightarrow> Some v
                    | None \<Rightarrow> arr_at (split_on (loc_host loc) '':'') 1);
          server = (case param_text href ''host='' of Some v \<Rightarrow> v | None \<Rightarrow> loc_hostname loc);
          room = (case param_text href ''room='' of Some v \<Rightarrow> Str v | None \<Rightarrow> Null);
          display = (case param_text href ''display='' of Some v \<Rightarrow> v | None \<Rightarrow> make_tid noise);
          autostart = (case arr_at (split_on href ''autostart='') 1 of
                         None \<Rightarrow> Undef
                       | Some v \<Rightarrow> if v = [] then Str v else Bool (split_on v ''&'' ! 0 = ''true''));
          cleaned = (case query of
             None \<Rightarrow> Null
           | Some q \<Rightarrow>
               let q = replace_first q (''wss='' @ wsSchema) [];
                   q = replace_first q (''wsh='' @ wsHost) [];
                   q = replace_first q (''wsp='' @ to_str (opt_str wsPort)) [];
                   q = replace_first q (''host='' @ server) [];
                   q = (if truthy room then replace_first q (''room='' @ to_str room) [] else q);
                   q = replace_first q (''display='' @ display) [];
                   q = replace_first q (''autostart='' @ to_str autostart) [];
                   q = squeeze q;
                   q = replace_first q ''?&'' ''?'';
                   q = cut_end ''?'' q;
                   q = cut_end ''&'' q
               in Str q)
      in \<lparr>sig_query = cleaned, raw_query = (case query of None \<Rightarrow> Null | Some q \<Rightarrow> Str q),
          ws_schema = wsSchema,
          ws_host = (case wsPort of
             Some p \<Rightarrow> if p = [] then wsHost else split_on wsHost '':'' ! 0 @ '':'' @ p | None \<Rightarrow> wsHost),
          sig_host = server, sig_room = room, sig_display = display, sig_autostart = autostart\<rparr>)"

section \<open>Facts\<close>

lemma settle_length [simp]: "length (settle_promise p r ps) = length ps"
  by (simp add: settle_promise_def)

lemma settle_nth: "q < length ps \<Longrightarrow> settle_promise p r ps ! q = (if q = p \<and> ps ! p = Pending then r else ps ! q)"
  by (auto simp: settle_promise_def nth_list_update)

lemma settle_all_length [simp]: "length (foldl (\<lambda>ps p. settle_promise p r ps) ps qs) = length ps"
  by (induction qs arbitrary: ps) simp_all

lemma settle_all_nth:
  "r \<noteq> Pending \<Longrightarrow> q < length ps \<Longrightarrow>
   foldl (\<lambda>ps p. settle_promise p r ps) ps qs ! q = (if q \<in> set qs \<and> ps ! q = Pending then r else ps ! q)"
  by (induction qs arbitrary: ps) (auto simp: settle_nth)

lemma set_ws_fields [simp]:
  "promises (set_ws k st s) = promises s" "msgs (set_ws k st s) = msgs s" "current_ws (set_ws k st s) = current_ws s"
  "length (sockets (set_ws k st s)) = length (sockets s)"
  "map ws_promise (sockets (set_ws k st s)) = map ws_promise (sockets s)"
  by (cases "k < length (sockets s)"; simp add: set_ws_def map_update list_update_same_conv list_update_beyond)+

lemma sig_send_fields:
  "length (promises (sig_send noise m s)) = Suc (length (promises s))"
  "q < length (promises s) \<Longrightarrow> promises (sig_send noise m s) ! q = promises s ! q"
  "msgs (sig_send noise m s) = prop_set (msgs s) (make_tid noise) (length (promises s))"
  "sockets (sig_send noise m s) = sockets s"
  by (simp_all add: sig_send_def Let_def settle_nth nth_append split: option.split)

lemma sig_close_promises:
  "promises (sig_close s) = foldl (\<lambda>ps p. settle_promise p (Refused (Str ''close'')) ps) (promises s) (map snd (msgs s))"
  "map ws_promise (sockets (sig_close s)) = map ws_promise (sockets s)" "msgs (sig_close s) = msgs s"
  by (simp_all add: sig_close_def Let_def split: option.split)

lemma deliver_cases:
  obtains (threw) e where "deliver r s = (s, Some e)"
    | (reply) t p v where "get_prop r ''tid'' = Inr t" "prop_get (msgs s) (to_str t) = Some p" "get_prop r ''msg'' = Inr v"
        "deliver r s = (s\<lparr>promises := settle_promise p (Resolved v) (promises s), msgs := prop_del (msgs s) (to_str t)\<rparr>, None)"
    | (other) v where "deliver r s = (s\<lparr>delivered := delivered s @ [v]\<rparr>, None)"
proof (cases "get_prop r ''tid''")
  case (Inl e)
  then show ?thesis using threw by (simp add: deliver_def)
next
  case (Inr t)
  obtain v where v: "get_prop r ''msg'' = Inr v" using Inr by (auto simp: get_prop_def split: jsval.splits)
  show ?thesis
  proof (cases "prop_get (msgs s) (to_str t)")
    case None
    then show ?thesis using threw other Inr v
      by (cases "to_str t \<in> set inherited") (simp_all add: deliver_def)
  next
    case (Some p)
    then show ?thesis using reply [OF Inr Some v] Inr v by (simp add: deliver_def)
  qed
qed

text \<open>
  The states the client reaches when no transaction identifier is used again while it is registered.
\<close>

inductive sig_reach :: "signaling \<Rightarrow> bool" where
  init: "sig_reach new_signaling"
| connect: "sig_reach s \<Longrightarrow> sig_reach (sig_step (Connect a b c d) s)"
| opened: "sig_reach s \<Longrightarrow> sig_reach (sig_step (Ws_open k) s)"
| failed: "sig_reach s \<Longrightarrow> sig_reach (sig_step (Ws_error k) s)"
| arrived: "sig_reach s \<Longrightarrow> sig_reach (sig_step (Ws_message k d) s)"
| send: "sig_reach s \<Longrightarrow> prop_get (msgs s) (make_tid noise) = None \<Longrightarrow> sig_reach (sig_step (Send noise m) s)"
| close: "sig_reach s \<Longrightarrow> sig_reach (sig_step Close_sig s)"

definition accounted :: "signaling \<Rightarrow> bool" where
  "accounted s \<longleftrightarrow> (\<forall>p < length (promises s). promises s ! p = Pending \<longrightarrow>
     p \<in> set (map ws_promise (sockets s)) \<or> (\<exists>t. prop_get (msgs s) t = Some p))"

lemma accountedD:
  "accounted s \<Longrightarrow> p < length (promises s) \<Longrightarrow> promises s ! p = Pending \<Longrightarrow>
   p \<in> set (map ws_promise (sockets s)) \<or> (\<exists>t. prop_get (msgs s) t = Some p)"
  by (simp add: accounted_def)

lemma accounted_settle:
  assumes "accounted s" "map ws_promise (sockets s') = map ws_promise (sockets s)" "msgs s' = msgs s"
    and "promises s' = settle_promise q r (promises s)" "r \<noteq> Pending"
  shows "accounted s'"
  using assms by (auto simp: accounted_def settle_nth split: if_splits)

lemma sig_reach_accounted: "sig_reach s \<Longrightarrow> accounted s"
proof (induction rule: sig_reach.induct)
  case init
  show ?case by (simp add: accounted_def new_signaling_def)
next
  case (connect s a b c d)
  then show ?case by (auto simp: accounted_def sig_connect_def Let_def nth_append less_Suc_eq)
next
  case (opened s k)
  then show ?case
    using accounted_settle [OF opened.IH, of "on_open k s" "ws_promise (sockets s ! k)" "Resolved Undef"]
    by (cases "is_ws k Connecting s") (simp_all add: on_open_def)
next
  case (failed s k)
  then show ?case
    using accounted_settle [OF failed.IH, of "on_error k s" "ws_promise (sockets s ! k)" "Refused Undef"]
    by (cases "k < length (sockets s)") (simp_all add: on_error_def)
next
  case (arrived s k d)
  show ?case
  proof (cases "is_ws k Opened s \<and> d \<noteq> None")
    case False
    then show ?thesis using arrived.IH by (auto simp: on_message_def split: option.splits)
  next
    case True
    then obtain r where d: "d = Some r" and o: "is_ws k Opened s" by auto
    show ?thesis
    proof (rule deliver_cases [of r s])
      fix t p v
      let ?s = "s\<lparr>promises := settle_promise p (Resolved v) (promises s), msgs := prop_del (msgs s) (to_str t)\<rparr>"
      assume *: "prop_get (msgs s) (to_str t) = Some p" "deliver r s = (?s, None)"
      have g: "prop_get (prop_del (msgs s) (to_str t)) u = (if u = to_str t then None else prop_get (msgs s) u)" for u
        by (simp add: prop_get_def prop_del_def map_of_prop_del)
      have "q \<in> set (map ws_promise (sockets ?s)) \<or> (\<exists>u. prop_get (msgs ?s) u = Some q)"
        if q: "q < length (promises ?s)" "promises ?s ! q = Pending" for q
      proof -
        have q': "q < length (promises s)" "promises s ! q = Pending" "q \<noteq> p" using q by (auto simp: settle_nth split: if_splits)
        show ?thesis using accountedD [OF arrived.IH q'(1,2)] * q'(3) g by auto (metis option.inject)
      qed
      then have "accounted ?s" unfolding accounted_def by blast
      then show ?thesis using * d o by (simp add: on_message_def)
    next
      fix v
      assume "deliver r s = (s\<lparr>delivered := delivered s @ [v]\<rparr>, None)"
      then show ?thesis using arrived.IH d o by (simp add: on_message_def accounted_def)
    qed (use arrived.IH d o in \<open>simp add: on_message_def\<close>)
  qed
next
  case (send s noise m)
  show ?case
    unfolding accounted_def
  proof (intro allI impI)
    fix q
    assume q: "q < length (promises (sig_step (Send noise m) s))" "promises (sig_step (Send noise m) s) ! q = Pending"
    show "q \<in> set (map ws_promise (sockets (sig_step (Send noise m) s))) \<or> (\<exists>t. prop_get (msgs (sig_step (Send noise m) s)) t = Some q)"
    proof (cases "q = length (promises s)")
      case True
      then have "prop_get (msgs (sig_step (Send noise m) s)) (make_tid noise) = Some q"
        by (simp add: sig_send_fields props.get_put)
      then show ?thesis by blast
    next
      case False
      then have q': "q < length (promises s)" "promises s ! q = Pending" using q by (simp_all add: sig_send_fields)
      from accountedD [OF send.IH q'] show ?thesis
      proof
        assume "\<exists>t. prop_get (msgs s) t = Some q"
        then obtain t where t: "prop_get (msgs s) t = Some q" by blast
        then have "t \<noteq> make_tid noise" using send.hyps by auto
        then show ?thesis using t by (auto simp: sig_send_fields props.get_put)
      qed (simp add: sig_send_fields)
    qed
  qed
next
  case (close s)
  then show ?case
    by (auto simp: accounted_def sig_close_promises settle_all_nth split: if_splits)
qed

section \<open>Properties\<close>

lemma step_keeps:
  assumes "p < length (promises s)" "promises s ! p = Pending" "promises (sig_step e s) ! p = Resolved v"
  shows "(\<exists>k. e = Ws_open k) \<or> (\<exists>k r. e = Ws_message k (Some r) \<and> is_ws k Opened s)"
  using assms
  by (cases e) (auto simp: sig_connect_def Let_def nth_append on_error_def settle_nth sig_send_fields sig_close_promises
      settle_all_nth on_message_def split: if_splits option.splits)

text \<open>
  C37. Requests and replies are matched: a pending promise is resolved only when its own socket opens, or
  by a message on an open socket whose transaction identifier is registered for exactly this promise; it
  gets that message's payload, and the identifier is no longer registered, so a second message with it
  goes to the page's \<open>onmessage\<close>.
\<close>

theorem reply_matches_request:
  assumes "p < length (promises s)" "promises s ! p = Pending" "promises (sig_step e s) ! p = Resolved v"
  shows "(\<exists>k. e = Ws_open k \<and> ws_promise (sockets s ! k) = p) \<or>
    (\<exists>k r t. e = Ws_message k (Some r) \<and> is_ws k Opened s \<and> get_prop r ''tid'' = Inr t \<and>
       prop_get (msgs s) (to_str t) = Some p \<and> get_prop r ''msg'' = Inr v \<and>
       prop_get (msgs (sig_step e s)) (to_str t) = None)"
  using step_keeps [OF assms]
proof
  assume "\<exists>k. e = Ws_open k"
  then show ?thesis using assms by (auto simp: on_open_def settle_nth split: if_splits)
next
  assume "\<exists>k r. e = Ws_message k (Some r) \<and> is_ws k Opened s"
  then obtain k r where e: "e = Ws_message k (Some r)" "is_ws k Opened s" by blast
  show ?thesis
  proof (rule deliver_cases [of r s])
    fix t q u
    assume *: "get_prop r ''tid'' = Inr t" "prop_get (msgs s) (to_str t) = Some q" "get_prop r ''msg'' = Inr u"
      "deliver r s = (s\<lparr>promises := settle_promise q (Resolved u) (promises s), msgs := prop_del (msgs s) (to_str t)\<rparr>, None)"
    have "prop_get (prop_del (msgs s) (to_str t)) (to_str t) = None"
      by (simp add: prop_get_def prop_del_def map_of_prop_del)
    moreover have "q = p \<and> u = v" using assms * e by (simp add: on_message_def settle_nth split: if_splits)
    ultimately show ?thesis using * e by (auto simp: on_message_def)
  qed (use assms e in \<open>simp_all add: on_message_def\<close>)
qed

definition demo_sig :: signaling where
  "demo_sig = sig_run [Connect ''ws'' ''srs'' ''live'' ''me'', Ws_open 0, Send NaN (Str ''join'')] new_signaling"

theorem reply_matches_request_witness:
  "prop_get (msgs (sig_step (Ws_message 0 (Some (Obj [(''tid'', Str ''NaN''), (''msg'', Str ''ok'')]))) demo_sig)) ''NaN'' = None"
proof -
  have "1 < length (promises demo_sig)" "promises demo_sig ! 1 = Pending"
    "promises (sig_step (Ws_message 0 (Some (Obj [(''tid'', Str ''NaN''), (''msg'', Str ''ok'')]))) demo_sig) ! 1 = Resolved (Str ''ok'')"
    by code_simp+
  from reply_matches_request [OF this] show ?thesis by (auto simp: get_prop_def prop_get_def)
qed

text \<open>
  C34. Closing leaves nobody waiting: in every state reached without reusing a registered identifier, the
  only promises still pending after \<open>close\<close> are those of connections that were never established; every
  request is settled.
\<close>

theorem close_settles_requests:
  assumes "sig_reach s" "p < length (promises (sig_close s))" "promises (sig_close s) ! p = Pending"
  shows "p \<in> set (map ws_promise (sockets (sig_close s)))"
proof -
  have p: "p < length (promises s)" "promises s ! p = Pending" "p \<notin> set (map snd (msgs s))"
    using assms(2,3) by (auto simp: sig_close_promises settle_all_nth split: if_splits)
  have "\<nexists>t. prop_get (msgs s) t = Some p"
    using p(3) by (force simp: prop_get_def dest: map_of_SomeD)
  then show ?thesis
    using accountedD [OF sig_reach_accounted [OF assms(1)] p(1,2)] sig_close_promises(2) [of s] by metis
qed

theorem close_settles_requests_witness:
  "promises (sig_close demo_sig) ! 1 \<noteq> Pending"
proof
  assume p: "promises (sig_close demo_sig) ! 1 = Pending"
  have "prop_get (msgs (sig_step (Ws_open 0) (sig_step (Connect ''ws'' ''srs'' ''live'' ''me'') new_signaling))) (make_tid NaN) = None"
    by code_simp
  then have "sig_reach (sig_step (Send NaN (Str ''join'')) (sig_step (Ws_open 0) (sig_step (Connect ''ws'' ''srs'' ''live'' ''me'') new_signaling)))"
    by (intro sig_reach.intros)
  then have r: "sig_reach demo_sig" by (simp add: demo_sig_def sig_run_def)
  have l: "1 < length (promises (sig_close demo_sig))" "1 \<notin> set (map ws_promise (sockets (sig_close demo_sig)))" by code_simp+
  from close_settles_requests [OF r l(1) p] l(2) show False by contradiction
qed

text \<open>The condition is needed: of two requests with the same identifier the first is lost, closing included.\<close>

lemma identifier_collision:
  "promises (sig_step Close_sig (sig_step (Send NaN (Str ''again'')) demo_sig)) ! 1 = Pending"
  by code_simp

lemma squeeze_clean: "\<not> sublist ''&&'' (squeeze q)"
proof (induction q rule: squeeze.induct)
  case (1 q)
  then show ?case by (cases "sublist ''&&'' q") (simp_all add: squeeze.simps [of q])
qed

lemma sublist_pair_append:
  "sublist [c, c] (u @ v) \<longleftrightarrow> sublist [c, c] u \<or> sublist [c, c] v \<or> suffix [c] u \<and> prefix [c] v"
  unfolding sublist_append by (auto simp: append_eq_Cons_conv Cons_eq_append_conv)

lemma drop_mark_pair:
  assumes "\<not> sublist [c, c] (u @ [d, c] @ v)" "d \<noteq> c" shows "\<not> sublist [c, c] (u @ [d] @ v)"
  using assms unfolding sublist_pair_append by (auto simp: sublist_Cons_right suffix_def)

lemma cut_end_take: "cut_end c q = q \<or> cut_end c q = butlast q"
proof (cases q rule: rev_cases)
  case (snoc xs x)
  have "slice (xs @ [x]) 0 (int (length (xs @ [x])) - 1) = xs" using slice_0_nat [of "xs @ [x]" "length xs"] by simp
  then show ?thesis unfolding snoc cut_end_def by simp
qed (simp add: cut_end_def slice_def rel_index_def)

lemma sublist_butlast: "sublist p (butlast q) \<Longrightarrow> sublist p q"
  by (metis butlast_conv_take sublist_order.order_trans sublist_take)

lemma cut_end_clean: "\<not> sublist p q \<Longrightarrow> \<not> sublist p (cut_end c q)"
  using cut_end_take [of c q] sublist_butlast [of p q] by auto

lemma last_cut:
  assumes "\<not> sublist [c, c] q" shows "cut_end [c] q = [] \<or> last (cut_end [c] q) \<noteq> c"
proof (cases q rule: rev_cases)
  case Nil
  then show ?thesis by (simp add: cut_end_def slice_def rel_index_def)
next
  case (snoc xs x)
  show ?thesis
  proof (cases "x = c")
    case True
    have "find_last [c] (xs @ [c]) = Some (length xs)" using find_last_single [of c "[]" xs] by simp
    then have "cut_end [c] q = xs"
      using slice_0_nat [of "xs @ [c]" "length xs"] by (simp add: cut_end_def snoc True last_index_of_def)
    moreover have "xs = [] \<or> last xs \<noteq> c"
      using assms unfolding snoc True sublist_pair_append
      by (metis append_butlast_last_id prefix_order.order_refl suffixI)
    ultimately show ?thesis by simp
  next
    case False
    have "last_index_of q [c] \<noteq> int (length q) - 1"
    proof
      assume l: "last_index_of q [c] = int (length q) - 1"
      then have "find_last [c] q = Some (length xs)"
        by (auto simp: last_index_of_def snoc split: option.splits)
      then have "prefix [c] (drop (length xs) q)" using find_last_SomeD by blast
      then show False using False by (simp add: snoc)
    qed
    then show ?thesis using False by (simp add: cut_end_def snoc)
  qed
qed

text \<open>
  The query of a signalling page is cleaned up in finitely many rounds: when there is one, the text
  handed on has no empty option in it, \<open>&&\<close>, and does not end in an ampersand, whatever was removed.
\<close>

theorem signaling_query_clean:
  "sig_query (SrsRtcSignalingParse loc noise) = Null \<or>
   (\<exists>q. sig_query (SrsRtcSignalingParse loc noise) = Str q \<and> \<not> sublist ''&&'' q \<and> \<not> suffix ''&'' q)"
proof -
  have "\<exists>q'. cut_end ''&'' (cut_end ''?'' (replace_first (squeeze q) ''?&'' ''?'')) = q' \<and> \<not> sublist ''&&'' q' \<and>
      \<not> suffix ''&'' q'" for q
  proof -
    let ?q = "squeeze q"
    have "\<not> sublist ''&&'' (replace_first ?q ''?&'' ''?'')"
    proof (cases "find_sub ''?&'' ?q")
      case None
      then show ?thesis using squeeze_clean by (simp add: replace_first_def)
    next
      case (Some i)
      have "\<not> sublist ''&&'' (take i ?q @ ''?&'' @ drop (i + 2) ?q)"
        using squeeze_clean find_sub_split [OF Some] by (metis length_Cons list.size(3) numeral_2_eq_2)
      then show ?thesis using drop_mark_pair [of "CHR ''&''" "take i ?q" "CHR ''?''" "drop (i + 2) ?q"]
        unfolding replace_first_def Some by simp
    qed
    then have c: "\<not> sublist ''&&'' (cut_end ''?'' (replace_first ?q ''?&'' ''?''))" by (rule cut_end_clean)
    show ?thesis using cut_end_clean [OF c] last_cut [OF c] by (auto simp: suffix_def)
  qed
  then show ?thesis
    unfolding SrsRtcSignalingParse_def Let_def
    by (cases "arr_at (split_on (loc_href loc) ''?'') 1") simp_all
qed

end
