(* ===== verification/Players.thy ===== *)
theory Players
  imports PageUrl
begin

text \<open>
  The Flash player and publisher objects of the player pages (\<open>srs.player.js\<close>,
  \<open>srs.publisher.js\<close>): objects live at addresses, the class keeps the list of registered ones, and
  the Flash plug-in calls global functions that look an object up by its identifier. Calls into
  the plug-in (\<open>callbackObj.ref\<close>) are a trace; calls of the functions a page may override are
  notices. An operation returns the state with the exception it threw, if any.
\<close>

section \<open>Registries\<close>

datatype callback = No_callback | Embedded bool

type_synonym 'w outcome = "'w \<times> js_error option"

definition ok :: "'w \<Rightarrow> 'w outcome" where
  "ok w = (w, None)"

definition and_run :: "'w outcome \<Rightarrow> ('w \<Rightarrow> 'w outcome) \<Rightarrow> 'w outcome" where
  "and_run r f = (case r of (w, None) \<Rightarrow> f w | (w, Some e) \<Rightarrow> (w, Some e))"

lemma and_run_simps [simp]:
  "and_run (w, None) f = f w" "and_run (w, Some e) f = (w, Some e)" "and_run (ok w) f = f w"
  by (simp_all add: and_run_def ok_def)

text \<open>The loop that looks for an object with \<open>obj.id == id\<close>.\<close>

fun find_id :: "int list \<Rightarrow> nat list \<Rightarrow> jsval \<Rightarrow> nat option" where
  "find_id ids [] i = None"
| "find_id ids (a # as) i = (if loose_eq (Num (num_of (ids ! a))) i then Some a else find_id ids as i)"

text \<open>
  What the plug-in's callbacks rely on: identifiers are unique, so a registered object is found by its
  own identifier, and whatever is found has the identifier asked for.
\<close>

locale id_registry =
  fixes wf :: "'w \<Rightarrow> bool"
    and ids :: "'w \<Rightarrow> int list"
    and reg :: "'w \<Rightarrow> nat list"
    and look :: "jsval \<Rightarrow> 'w \<Rightarrow> nat result"
    and missing :: "jsval \<Rightarrow> js_error"
  assumes wf_distinct: "wf w \<Longrightarrow> distinct (ids w)"
    and wf_reg: "wf w \<Longrightarrow> set (reg w) \<subseteq> {..<length (ids w)}"
    and look_find: "look i w = (case find_id (ids w) (reg w) i of Some a \<Rightarrow> Inr a | None \<Rightarrow> Inl (missing i))"
begin

lemma loose_eq_id: "loose_eq (Num (num_of m)) (Num (num_of n)) \<longleftrightarrow> m = n"
  by (simp add: loose_eq_def prim_eq_def nullish_def num_eq_def)

lemma find_own:
  "distinct is \<Longrightarrow> set as \<subseteq> {..<length is} \<Longrightarrow> a < length is \<Longrightarrow>
   find_id is as (Num (num_of (is ! a))) = (if a \<in> set as then Some a else None)"
proof (induction as)
  case (Cons b as)
  then have "is ! b = is ! a \<longleftrightarrow> b = a" by (simp add: nth_eq_iff_index_eq)
  then show ?case using Cons by (simp only: find_id.simps loose_eq_id) auto
qed simp

lemma look_own:
  assumes "wf w" "a < length (ids w)"
  shows "look (Num (num_of (ids w ! a))) w =
    (if a \<in> set (reg w) then Inr a else Inl (missing (Num (num_of (ids w ! a)))))"
  unfolding look_find find_own [OF wf_distinct [OF assms(1)] wf_reg [OF assms(1)] assms(2)] by simp

lemma find_id_SomeD: "find_id is as i = Some a \<Longrightarrow> a \<in> set as \<and> loose_eq (Num (num_of (is ! a))) i"
  by (induction as) (auto split: if_splits)

lemma look_sound: "look i w = Inr a \<Longrightarrow> a \<in> set (reg w) \<and> loose_eq (Num (num_of (ids w ! a))) i"
  unfolding look_find by (auto split: option.splits dest: find_id_SomeD)

end

section \<open>The player\<close>

record fluency =
  total_empty_count :: jsnum
  total_empty_time :: jsnum
  current_empty_time :: jsnum

definition on_stream_empty :: "jsnum \<Rightarrow> fluency \<Rightarrow> fluency" where
  "on_stream_empty t f =
     f\<lparr>total_empty_count := num_add (total_empty_count f) (num_of 1), current_empty_time := t\<rparr>"

definition on_stream_full :: "jsnum \<Rightarrow> fluency \<Rightarrow> fluency" where
  "on_stream_full t f =
     (if num_less (num_of 0) (current_empty_time f)
      then f\<lparr>total_empty_time := num_add (total_empty_time f) (num_sub t (current_empty_time f)),
             current_empty_time := num_of 0\<rparr>
      else f)"

definition calc :: "jsnum \<Rightarrow> fluency \<Rightarrow> jsnum" where
  "calc t f =
     (let den = num_add (num_add (num_mul (total_empty_count f) (num_of 4))
                          (num_mul (total_empty_time f) (num_of 2))) t
      in if num_less (num_of 0) den then num_div (num_mul t (num_of 100)) den else num_of 0)"

record player =
  pl_id :: int
  pl_container :: string
  pl_width :: jsnum
  pl_height :: jsnum
  pl_private :: jsval
  stream_url :: jsval
  buffer_time :: jsnum
  max_buffer_time :: jsnum
  volume :: jsval
  pl_callback :: callback
  srs_player_url :: string
  pl_metadata :: jsval
  pl_time :: jsnum
  buffer_length :: jsnum
  pl_kbps :: jsnum
  pl_fps :: jsnum
  rtime :: jsnum
  pl_fluency :: fluency

datatype flash_call =
    Play "jsval list"
  | Stop
  | Pause
  | Resume
  | Dump_log
  | Set_dar jsval jsval
  | Set_fs jsval jsval
  | Set_bt jsnum
  | Set_mbt jsnum
  | Embed string string "jsval props"

datatype notice =
    Ready
  | Metadata jsval
  | Timer jsnum jsnum jsnum jsnum jsnum
  | Empty jsnum
  | Full jsnum
  | Status jsval jsval

text \<open>\<open>next_player\<close> is \<open>SrsPlayer.__id\<close>, 0 when it is not set; \<open>window_id\<close> is \<open>window.id\<close>.\<close>

record players =
  all_players :: "player list"
  registered :: "nat list"
  next_player :: int
  flash :: "(nat \<times> flash_call) list"
  pl_notices :: "(nat \<times> notice) list"
  window_id :: jsval

definition no_players :: players where
  "no_players = \<lparr>all_players = [], registered = [], next_player = 0, flash = [], pl_notices = [], window_id = Undef\<rparr>"

definition upd :: "nat \<Rightarrow> (player \<Rightarrow> player) \<Rightarrow> players \<Rightarrow> players" where
  "upd a f w = w\<lparr>all_players := (all_players w)[a := f (all_players w ! a)]\<rparr>"

definition first_id :: "int \<Rightarrow> int" where
  "first_id n = (if n = 0 then 100 else n)"

definition default_buffer :: jsnum where
  "default_buffer = fl (3 / 10)"

definition new_SrsPlayer :: "string \<Rightarrow> jsnum \<Rightarrow> jsnum \<Rightarrow> jsval \<Rightarrow> players \<Rightarrow> players" where
  "new_SrsPlayer cont w h priv s =
     (let i = first_id (next_player s)
      in s\<lparr>all_players := all_players s @
             [\<lparr>pl_id = i, pl_container = cont, pl_width = w, pl_height = h, pl_private = priv,
               stream_url = Null, buffer_time = default_buffer,
               max_buffer_time = num_mul default_buffer (num_of 3), volume = Num (num_of 1),
               pl_callback = No_callback,
               srs_player_url = ''srs_player/release/srs_player.swf?_version='' @ srs_get_version_code,
               pl_metadata = Undef, pl_time = num_of 0, buffer_length = num_of 0, pl_kbps = num_of 0,
               pl_fps = num_of 0, rtime = num_of 0,
               pl_fluency = \<lparr>total_empty_count = num_of 0, total_empty_time = num_of 0,
                             current_empty_time = num_of 0\<rparr>\<rparr>],
           registered := registered s @ [length (all_players s)], next_player := i + 1\<rparr>)"

definition call_flash :: "nat \<Rightarrow> flash_call \<Rightarrow> players \<Rightarrow> players outcome" where
  "call_flash a c w =
     (case pl_callback (all_players w ! a) of
        Embedded True \<Rightarrow> ok (w\<lparr>flash := flash w @ [(a, c)]\<rparr>)
      | _ \<Rightarrow> (w, Some TypeError))"

definition start :: "nat \<Rightarrow> jsval \<Rightarrow> players \<Rightarrow> players" where
  "start a url w =
     (let w = (if truthy url then upd a (\<lambda>p. p\<lparr>stream_url := url\<rparr>) w else w);
          p = all_players w ! a
      in w\<lparr>flash := flash w @ [(a, Embed (srs_player_url p) (pl_container p)
             [(''id'', Num (num_of (pl_id p))),
              (''on_player_ready'', Str ''__srs_on_player_ready''),
              (''on_player_metadata'', Str ''__srs_on_player_metadata''),
              (''on_player_timer'', Str ''__srs_on_player_timer''),
              (''on_player_empty'', Str ''__srs_on_player_empty''),
              (''on_player_full'', Str ''__srs_on_player_full''),
              (''on_player_status'', Str ''__srs_on_player_status'')])]\<rparr>)"

text \<open>The callback of \<open>embedSWF\<close>: the reference is there when embedding succeeded.\<close>

definition embedded :: "nat \<Rightarrow> bool \<Rightarrow> players \<Rightarrow> players" where
  "embedded a success = upd a (\<lambda>p. p\<lparr>pl_callback := Embedded success\<rparr>)"

definition stop_player :: "nat \<Rightarrow> players \<Rightarrow> players outcome" where
  "stop_player a = call_flash a Stop"

definition pause :: "nat \<Rightarrow> players \<Rightarrow> players outcome" where
  "pause a = call_flash a Pause"

definition resume :: "nat \<Rightarrow> players \<Rightarrow> players outcome" where
  "resume a = call_flash a Resume"

definition dump_log :: "nat \<Rightarrow> players \<Rightarrow> players outcome" where
  "dump_log a = call_flash a Dump_log"

definition set_dar :: "nat \<Rightarrow> jsval \<Rightarrow> jsval \<Rightarrow> players \<Rightarrow> players outcome" where
  "set_dar a n d = call_flash a (Set_dar n d)"

definition set_fs :: "nat \<Rightarrow> jsval \<Rightarrow> jsval \<Rightarrow> players \<Rightarrow> players outcome" where
  "set_fs a refer pct = call_flash a (Set_fs refer pct)"

definition play :: "nat \<Rightarrow> jsval \<Rightarrow> jsval \<Rightarrow> players \<Rightarrow> players outcome" where
  "play a url vol w =
     and_run (stop_player a w) (\<lambda>w.
       let w = w\<lparr>registered := registered w @ [a]\<rparr>;
           w = (if truthy url then upd a (\<lambda>p. p\<lparr>stream_url := url\<rparr>) w else w);
           w = (if \<not> nullish vol then upd a (\<lambda>p. p\<lparr>volume := vol\<rparr>) w else w);
           p = all_players w ! a
       in call_flash a (Play [stream_url p, Num (pl_width p), Num (pl_height p), Num (buffer_time p),
            Num (max_buffer_time p), volume p]) w)"

definition mbt_value :: "jsnum \<Rightarrow> player \<Rightarrow> jsnum" where
  "mbt_value m p = num_max (buffer_time p) (num_max (fl (6 / 10)) m)"

definition tenths :: "jsnum \<Rightarrow> jsnum" where
  "tenths n = parse_int_num (num_mul n (num_of 10))"

definition set_mbt :: "nat \<Rightarrow> jsnum \<Rightarrow> players \<Rightarrow> players outcome" where
  "set_mbt a m w =
     (let p = all_players w ! a; m = mbt_value m p
      in if num_eq (tenths (max_buffer_time p)) (tenths m) then ok w
         else call_flash a (Set_mbt m) (upd a (\<lambda>p. p\<lparr>max_buffer_time := m\<rparr>) w))"

definition set_bt :: "nat \<Rightarrow> jsnum \<Rightarrow> players \<Rightarrow> players outcome" where
  "set_bt a b w =
     (if num_eq (buffer_time (all_players w ! a)) b then ok w
      else and_run (call_flash a (Set_bt b) (upd a (\<lambda>p. p\<lparr>buffer_time := b\<rparr>) w))
             (set_mbt a (num_mul b (num_of 3))))"

definition set_srs_player_url :: "nat \<Rightarrow> string \<Rightarrow> jsval props option \<Rightarrow> players \<Rightarrow> players" where
  "set_srs_player_url a url params w =
     (let params = assign_prop (case params of Some ps \<Rightarrow> ps | None \<Rightarrow> []) ''_version'' (Str srs_get_version_code);
          query = map (\<lambda>(p, v). p @ ''='' @ encode_component (to_str v)) params
      in upd a (\<lambda>p. p\<lparr>srs_player_url := url @ ''?'' @ join ''&'' query\<rparr>) w)"

definition player_fluency :: "nat \<Rightarrow> players \<Rightarrow> jsnum" where
  "player_fluency a w = (let p = all_players w ! a in calc (rtime p) (pl_fluency p))"

definition empty_count :: "nat \<Rightarrow> players \<Rightarrow> jsnum" where
  "empty_count a w = total_empty_count (pl_fluency (all_players w ! a))"

subsection \<open>Callbacks of the plug-in\<close>

definition not_found :: "string \<Rightarrow> jsval \<Rightarrow> js_error" where
  "not_found what i = JsError (what @ '' not found. id='' @ to_str i)"

definition srs_find_player :: "jsval \<Rightarrow> players \<Rightarrow> nat result" where
  "srs_find_player i w =
     (case find_id (map pl_id (all_players w)) (registered w) i of
        Some a \<Rightarrow> Inr a | None \<Rightarrow> Inl (not_found ''player'' i))"

definition with_player :: "jsval \<Rightarrow> (nat \<Rightarrow> players \<Rightarrow> players) \<Rightarrow> players \<Rightarrow> players outcome" where
  "with_player i f w = (case srs_find_player i w of Inl e \<Rightarrow> (w, Some e) | Inr a \<Rightarrow> ok (f a w))"

definition notify :: "nat \<Rightarrow> notice \<Rightarrow> players \<Rightarrow> players" where
  "notify a n w = w\<lparr>pl_notices := pl_notices w @ [(a, n)]\<rparr>"

definition on_player_ready :: "jsval \<Rightarrow> players \<Rightarrow> players outcome" where
  "on_player_ready i = with_player i (\<lambda>a. notify a Ready)"

definition on_player_metadata :: "jsval \<Rightarrow> jsval \<Rightarrow> players \<Rightarrow> players outcome" where
  "on_player_metadata i m = with_player i (\<lambda>a w. notify a (Metadata m) (upd a (\<lambda>p. p\<lparr>pl_metadata := m\<rparr>) w))"

definition on_player_timer ::
    "jsval \<Rightarrow> jsnum \<Rightarrow> jsnum \<Rightarrow> jsnum \<Rightarrow> jsnum \<Rightarrow> jsnum \<Rightarrow> players \<Rightarrow> players outcome" where
  "on_player_timer i t b kbps fps r =
     with_player i (\<lambda>a w.
       let b = num_max (num_of 0) b;
           b = num_min (buffer_time (all_players w ! a)) b;
           t = num_max (num_of 0) t
       in notify a (Timer t b kbps fps r)
            (upd a (\<lambda>p. p\<lparr>pl_time := t, buffer_length := b, pl_kbps := kbps, pl_fps := fps, rtime := r\<rparr>) w))"

definition on_player_empty :: "jsval \<Rightarrow> jsnum \<Rightarrow> players \<Rightarrow> players outcome" where
  "on_player_empty i t =
     with_player i (\<lambda>a w. notify a (Empty t) (upd a (\<lambda>p. p\<lparr>pl_fluency := on_stream_empty t (pl_fluency p)\<rparr>) w))"

definition on_player_full :: "jsval \<Rightarrow> jsnum \<Rightarrow> players \<Rightarrow> players outcome" where
  "on_player_full i t =
     with_player i (\<lambda>a w. notify a (Full t) (upd a (\<lambda>p. p\<lparr>pl_fluency := on_stream_full t (pl_fluency p)\<rparr>) w))"

text \<open>The removal loop compares with \<open>this.id\<close>, and \<open>this\<close> is the window in a plain function call.\<close>

fun drop_id :: "int list \<Rightarrow> jsval \<Rightarrow> nat list \<Rightarrow> nat list" where
  "drop_id ids i [] = []"
| "drop_id ids i (a # as) = (if loose_eq (Num (num_of (ids ! a))) i then as else a # drop_id ids i as)"

definition on_player_status :: "jsval \<Rightarrow> jsval \<Rightarrow> jsval \<Rightarrow> players \<Rightarrow> players outcome" where
  "on_player_status i code desc =
     with_player i (\<lambda>a w.
       let w = notify a (Status code desc) w
       in if \<not> loose_eq code (Str ''closed'') then w
          else w\<lparr>registered := drop_id (map pl_id (all_players w)) (window_id w) (registered w)\<rparr>)"

section \<open>The publisher\<close>

record publisher =
  pb_id :: int
  pb_container :: string
  pb_width :: jsnum
  pb_height :: jsnum
  pb_private :: jsval
  pb_callback :: callback
  pb_url :: jsval
  vcodec :: jsval
  acodec :: jsval
  cameras :: jsval
  microphones :: jsval
  pb_code :: jsval
  pb_on_error :: "jsval \<Rightarrow> jsval \<Rightarrow> js_error option"
  pb_on_warn :: "jsval \<Rightarrow> jsval \<Rightarrow> js_error option"

datatype pub_call =
    Publish jsval jsnum jsnum jsval jsval
  | Stop_publish
  | Embed_publisher string string "jsval props"

record publishers =
  all_publishers :: "publisher list"
  pb_registered :: "nat list"
  next_publisher :: int
  pb_flash :: "(nat \<times> pub_call) list"
  pb_notices :: "(nat \<times> jsval \<times> jsval) list"

definition no_publishers :: publishers where
  "no_publishers = \<lparr>all_publishers = [], pb_registered = [], next_publisher = 0, pb_flash = [], pb_notices = []\<rparr>"

definition publisher_errors :: "jsval props" where
  "publisher_errors =
     [(''100'', Str (utf8 [0x65e0, 0x6cd5, 0x83b7, 0x53d6, 0x6307, 0x5b9a, 0x7684, 0x6444, 0x50cf, 0x5934, 0x3002])),
      (''101'', Str (utf8 [0x65e0, 0x6cd5, 0x83b7, 0x53d6, 0x6307, 0x5b9a, 0x7684, 0x9ea6, 0x514b, 0x98ce, 0x3002])),
      (''102'', Str (utf8 [0x6444, 0x50cf, 0x5934, 0x4e3a, 0x7981, 0x7528, 0x72b6, 0x6001, 0xff0c, 0x63a8, 0x6d41, 0x65f6, 0x8bf7, 0x5141, 0x8bb8, 0x66, 0x6c, 0x61, 0x73, 0x68, 0x8bbf, 0x95ee, 0x6444, 0x50cf, 0x5934, 0x3002])),
      (''103'', Str (utf8 [0x670d, 0x52a1, 0x5668, 0x5173, 0x95ed, 0x4e86, 0x8fde, 0x63a5, 0x3002])),
      (''104'', Str (utf8 [0x670d, 0x52a1, 0x5668, 0x8fde, 0x63a5, 0x5931, 0x8d25, 0x3002])),
      (''199'', Str (utf8 [0x672a, 0x77e5, 0x9519, 0x8bef, 0x3002]))]"

text \<open>The functions of the prototype, which a page may replace.\<close>

definition default_error :: "string \<Rightarrow> jsval \<Rightarrow> jsval \<Rightarrow> js_error option" where
  "default_error what code desc =
     Some (JsError (''publisher '' @ what @ ''. code='' @ to_str code @ '', desc='' @ to_str desc))"

definition pb_upd :: "nat \<Rightarrow> (publisher \<Rightarrow> publisher) \<Rightarrow> publishers \<Rightarrow> publishers" where
  "pb_upd a f w = w\<lparr>all_publishers := (all_publishers w)[a := f (all_publishers w ! a)]\<rparr>"

definition new_SrsPublisher :: "string \<Rightarrow> jsnum \<Rightarrow> jsnum \<Rightarrow> jsval \<Rightarrow> publishers \<Rightarrow> publishers" where
  "new_SrsPublisher cont w h priv s =
     (let i = first_id (next_publisher s)
      in s\<lparr>all_publishers := all_publishers s @
             [\<lparr>pb_id = i, pb_container = cont, pb_width = w, pb_height = h, pb_private = priv,
               pb_callback = No_callback, pb_url = Null, vcodec = Obj [], acodec = Obj [],
               cameras = Arr [], microphones = Arr [], pb_code = Num (num_of 0),
               pb_on_error = default_error ''error'', pb_on_warn = default_error ''warn''\<rparr>],
           pb_registered := pb_registered s @ [length (all_publishers s)], next_publisher := i + 1\<rparr>)"

definition pb_start :: "nat \<Rightarrow> publishers \<Rightarrow> publishers" where
  "pb_start a w =
     (let p = all_publishers w ! a
      in w\<lparr>pb_flash := pb_flash w @ [(a, Embed_publisher
             (''srs_publisher/release/srs_publisher.swf?_version='' @ srs_get_version_code) (pb_container p)
             [(''id'', Num (num_of (pb_id p))), (''width'', Num (pb_width p)), (''height'', Num (pb_height p)),
              (''on_publisher_ready'', Str ''__srs_on_publisher_ready''),
              (''on_publisher_error'', Str ''__srs_on_publisher_error''),
              (''on_publisher_warn'', Str ''__srs_on_publisher_warn'')])]\<rparr>)"

definition pb_embedded :: "nat \<Rightarrow> bool \<Rightarrow> publishers \<Rightarrow> publishers" where
  "pb_embedded a success = pb_upd a (\<lambda>p. p\<lparr>pb_callback := Embedded success\<rparr>)"

definition pb_call :: "nat \<Rightarrow> pub_call \<Rightarrow> publishers \<Rightarrow> publishers outcome" where
  "pb_call a c w =
     (case pb_callback (all_publishers w ! a) of
        Embedded True \<Rightarrow> ok (w\<lparr>pb_flash := pb_flash w @ [(a, c)]\<rparr>)
      | _ \<Rightarrow> (w, Some TypeError))"

definition pb_stop :: "nat \<Rightarrow> publishers \<Rightarrow> publishers outcome" where
  "pb_stop a w =
     (let ids = map pb_id (all_publishers w)
      in pb_call a Stop_publish
           (w\<lparr>pb_registered := drop_id ids (Num (num_of (ids ! a))) (pb_registered w)\<rparr>))"

definition publish :: "nat \<Rightarrow> jsval \<Rightarrow> jsval \<Rightarrow> jsval \<Rightarrow> publishers \<Rightarrow> publishers outcome" where
  "publish a url vc ac w =
     and_run (pb_stop a w) (\<lambda>w.
       let w = w\<lparr>pb_registered := pb_registered w @ [a]\<rparr>;
           w = (if truthy url then pb_upd a (\<lambda>p. p\<lparr>pb_url := url\<rparr>) w else w);
           w = (if truthy vc then pb_upd a (\<lambda>p. p\<lparr>vcodec := vc\<rparr>) w else w);
           w = (if truthy ac then pb_upd a (\<lambda>p. p\<lparr>acodec := ac\<rparr>) w else w);
           p = all_publishers w ! a
       in pb_call a (Publish (pb_url p) (pb_width p) (pb_height p) (vcodec p) (acodec p)) w)"

definition srs_find_publisher :: "jsval \<Rightarrow> publishers \<Rightarrow> nat result" where
  "srs_find_publisher i w =
     (case find_id (map pb_id (all_publishers w)) (pb_registered w) i of
        Some a \<Rightarrow> Inr a | None \<Rightarrow> Inl (not_found ''publisher'' i))"

definition on_publisher_ready :: "jsval \<Rightarrow> jsval \<Rightarrow> jsval \<Rightarrow> publishers \<Rightarrow> publishers outcome" where
  "on_publisher_ready i cams mics w =
     (case srs_find_publisher i w of
        Inl e \<Rightarrow> (w, Some e)
      | Inr a \<Rightarrow> ok (let w = pb_upd a (\<lambda>p. p\<lparr>cameras := cams, microphones := mics\<rparr>) w
                    in w\<lparr>pb_notices := pb_notices w @ [(a, cams, mics)]\<rparr>))"

definition report :: "(publisher \<Rightarrow> jsval \<Rightarrow> jsval \<Rightarrow> js_error option) \<Rightarrow> jsval \<Rightarrow> jsval \<Rightarrow> publishers \<Rightarrow> publishers outcome" where
  "report handler i code w =
     (case srs_find_publisher i w of
        Inl e \<Rightarrow> (w, Some e)
      | Inr a \<Rightarrow>
          (let w = pb_upd a (\<lambda>p. p\<lparr>pb_code := code\<rparr>) w;
               desc = field publisher_errors (to_str code)
           in (w, handler (all_publishers w ! a) code desc)))"

definition on_publisher_error :: "jsval \<Rightarrow> jsval \<Rightarrow> publishers \<Rightarrow> publishers outcome" where
  "on_publisher_error = report pb_on_error"

definition on_publisher_warn :: "jsval \<Rightarrow> jsval \<Rightarrow> publishers \<Rightarrow> publishers outcome" where
  "on_publisher_warn = report pb_on_warn"

section \<open>Reachable states\<close>

text \<open>
  The states a page and the plug-in can bring about: any operation on any existing object, any call
  back from the plug-in.
\<close>

inductive player_reach :: "players \<Rightarrow> bool" where
  init: "player_reach no_players"
| create: "player_reach w \<Longrightarrow> player_reach (new_SrsPlayer cont wd ht priv w)"
| start: "player_reach w \<Longrightarrow> a < length (all_players w) \<Longrightarrow> player_reach (start a url w)"
| embedded: "player_reach w \<Longrightarrow> a < length (all_players w) \<Longrightarrow> player_reach (embedded a s w)"
| play: "player_reach w \<Longrightarrow> a < length (all_players w) \<Longrightarrow> player_reach (fst (play a url vol w))"
| call: "player_reach w \<Longrightarrow> a < length (all_players w) \<Longrightarrow> player_reach (fst (call_flash a c w))"
| set_mbt: "player_reach w \<Longrightarrow> a < length (all_players w) \<Longrightarrow> player_reach (fst (set_mbt a m w))"
| set_bt: "player_reach w \<Longrightarrow> a < length (all_players w) \<Longrightarrow> player_reach (fst (set_bt a m w))"
| set_url: "player_reach w \<Longrightarrow> a < length (all_players w) \<Longrightarrow> player_reach (set_srs_player_url a u ps w)"
| ready: "player_reach w \<Longrightarrow> player_reach (fst (on_player_ready i w))"
| metadata: "player_reach w \<Longrightarrow> player_reach (fst (on_player_metadata i md w))"
| timer: "player_reach w \<Longrightarrow> player_reach (fst (on_player_timer i t b kbps fps r w))"
| empty: "player_reach w \<Longrightarrow> player_reach (fst (on_player_empty i t w))"
| full: "player_reach w \<Longrightarrow> player_reach (fst (on_player_full i t w))"
| status: "player_reach w \<Longrightarrow> player_reach (fst (on_player_status i code desc w))"

definition player_ids :: "players \<Rightarrow> int list" where
  "player_ids w = map pl_id (all_players w)"

definition players_wf :: "players \<Rightarrow> bool" where
  "players_wf w \<longleftrightarrow>
     player_ids w = map (\<lambda>k. 100 + int k) [0..<length (all_players w)] \<and>
     next_player w = (if all_players w = [] then 0 else 100 + int (length (all_players w))) \<and>
     window_id w = Undef \<and> set (registered w) = {..<length (all_players w)}"

text \<open>What all operations but creation leave alone: the identifiers, and who is registered up to the list.\<close>

definition same_ids :: "players \<Rightarrow> players \<Rightarrow> bool" where
  "same_ids w w' \<longleftrightarrow> player_ids w' = player_ids w \<and> next_player w' = next_player w \<and> window_id w' = window_id w \<and>
     set (registered w') \<subseteq> set (registered w) \<union> {..<length (all_players w)} \<and>
     (window_id w = Undef \<longrightarrow> set (registered w) \<subseteq> set (registered w'))"

lemma same_ids_length: "same_ids w w' \<Longrightarrow> length (all_players w') = length (all_players w)"
  unfolding same_ids_def player_ids_def by (metis length_map)

lemma same_ids_wf: "players_wf w \<Longrightarrow> same_ids w w' \<Longrightarrow> players_wf w'"
  using same_ids_length [of w w'] unfolding players_wf_def
  by (auto simp: same_ids_def)

lemma same_ids_refl [simp]: "same_ids w w"
  by (auto simp: same_ids_def)

lemma same_ids_trans: "same_ids w w' \<Longrightarrow> same_ids w' w'' \<Longrightarrow> same_ids w w''"
  using same_ids_length [of w w'] by (auto simp: same_ids_def)

lemma upd_fields [simp]:
  "registered (upd a f w) = registered w" "next_player (upd a f w) = next_player w"
  "window_id (upd a f w) = window_id w" "length (all_players (upd a f w)) = length (all_players w)"
  by (simp_all add: upd_def)

lemma upd_ids: "\<forall>p. pl_id (f p) = pl_id p \<Longrightarrow> player_ids (upd a f w) = player_ids w"
  unfolding player_ids_def upd_def
  by (cases "a < length (all_players w)") (simp_all add: map_update list_update_same_conv list_update_beyond)

lemma same_ids_upd: "\<forall>p. pl_id (f p) = pl_id p \<Longrightarrow> same_ids w (upd a f w)"
  by (simp add: same_ids_def upd_ids)

lemma same_ids_call [simp]: "same_ids w (fst (call_flash a c w))"
  by (auto simp: call_flash_def ok_def same_ids_def player_ids_def split: callback.split bool.split)

lemma same_ids_and_run:
  "same_ids w (fst r) \<Longrightarrow> (\<And>w'. same_ids w w' \<Longrightarrow> same_ids w (fst (f w'))) \<Longrightarrow> same_ids w (fst (and_run r f))"
  by (cases r; cases "snd r") simp_all

lemma same_ids_notify [simp]: "same_ids w (notify a n w') \<longleftrightarrow> same_ids w w'"
  by (simp add: notify_def same_ids_def player_ids_def)

lemma same_ids_with_player:
  "(\<And>a. same_ids w (f a w)) \<Longrightarrow> same_ids w (fst (with_player i f w))"
  by (simp add: with_player_def ok_def split: sum.split)

lemma drop_id_subset: "set (drop_id ids i as) \<subseteq> set as"
  by (induction as) auto

lemma drop_id_Undef [simp]: "drop_id ids Undef as = as"
  by (induction as) (simp_all add: loose_eq_def prim_eq_def nullish_def)

lemma same_ids_upd_call: "\<forall>p. pl_id (f p) = pl_id p \<Longrightarrow> same_ids w (fst (call_flash a c (upd b f w)))"
  by (rule same_ids_trans [OF same_ids_upd same_ids_call])

lemma same_ids_set_mbt: "same_ids w (fst (set_mbt a m w))"
  unfolding set_mbt_def Let_def ok_def
  using same_ids_upd_call [of "\<lambda>p. p\<lparr>max_buffer_time := mbt_value m (all_players w ! a)\<rparr>" w a] by simp

lemma same_ids_push:
  "same_ids w w' \<Longrightarrow> a < length (all_players w) \<Longrightarrow> same_ids w (w'\<lparr>registered := registered w' @ [a]\<rparr>)"
  by (auto simp: same_ids_def player_ids_def)

lemma same_ids_status: "same_ids w (fst (on_player_status i code desc w))"
  unfolding on_player_status_def
  using drop_id_subset by (intro same_ids_with_player) (fastforce simp: same_ids_def player_ids_def notify_def Let_def)

lemma player_reach_wf:
  assumes "player_reach w"
  shows "players_wf w"
  using assms
proof induction
  case init
  show ?case by (simp add: players_wf_def no_players_def player_ids_def)
next
  case (create w cont wd ht priv)
  have i: "first_id (next_player w) = 100 + int (length (all_players w))"
    using create.IH by (auto simp: players_wf_def first_id_def)
  show ?case using create.IH
    unfolding players_wf_def player_ids_def new_SrsPlayer_def Let_def i by (simp add: lessThan_Suc)
next
  case (start w a url)
  have "same_ids w (start a url w)"
    using same_ids_upd [of "\<lambda>p. p\<lparr>stream_url := url\<rparr>" w a]
    by (simp add: start_def Let_def same_ids_def player_ids_def)
  then show ?case using same_ids_wf start by blast
next
  case (embedded w a s)
  have "same_ids w (embedded a s w)" by (simp add: embedded_def same_ids_upd)
  then show ?case using same_ids_wf embedded by blast
next
  case (play w a url vol)
  have "same_ids w (fst (play a url vol w))"
    unfolding play_def stop_player_def Let_def
    by (intro same_ids_and_run same_ids_call same_ids_trans [OF _ same_ids_call])
      (auto intro!: same_ids_push same_ids_trans [OF _ same_ids_upd] play.hyps simp: split: if_split)
  then show ?case using same_ids_wf play by blast
next
  case (call w a c)
  then show ?case using same_ids_wf [OF _ same_ids_call] same_ids_call [of w a c] by blast
next
  case (set_mbt w a m)
  then show ?case using same_ids_wf [OF _ same_ids_set_mbt] same_ids_set_mbt [of w a m] by blast
next
  case (set_bt w a m)
  have "same_ids w (fst (set_bt a m w))"
    by (auto simp: set_bt_def ok_def same_ids_upd_call intro!: same_ids_and_run intro: same_ids_trans [OF _ same_ids_set_mbt])
  then show ?case using same_ids_wf set_bt by blast
next
  case (set_url w a u ps)
  have "same_ids w (set_srs_player_url a u ps w)" by (simp add: set_srs_player_url_def Let_def same_ids_upd)
  then show ?case using same_ids_wf set_url by blast
next
  case (ready w i)
  have "same_ids w (fst (on_player_ready i w))" by (simp add: on_player_ready_def same_ids_with_player)
  then show ?case using same_ids_wf ready by blast
next
  case (metadata w i md)
  have "same_ids w (fst (on_player_metadata i md w))"
    by (simp add: on_player_metadata_def same_ids_with_player same_ids_upd)
  then show ?case using same_ids_wf metadata by blast
next
  case (timer w i t b kbps fps r)
  have "same_ids w (fst (on_player_timer i t b kbps fps r w))"
    by (simp add: on_player_timer_def Let_def same_ids_with_player same_ids_upd)
  then show ?case using same_ids_wf timer by blast
next
  case (empty w i t)
  have "same_ids w (fst (on_player_empty i t w))"
    by (simp add: on_player_empty_def same_ids_with_player same_ids_upd)
  then show ?case using same_ids_wf empty by blast
next
  case (full w i t)
  have "same_ids w (fst (on_player_full i t w))"
    by (simp add: on_player_full_def same_ids_with_player same_ids_upd)
  then show ?case using same_ids_wf full by blast
next
  case (status w i code desc)
  then show ?case using same_ids_wf [OF _ same_ids_status] by blast
qed

lemma ids_distinct: "distinct (map (\<lambda>k. 100 + int k) [0..<n])"
  by (simp add: distinct_map inj_on_def)

interpretation player_registry:
  id_registry players_wf player_ids registered srs_find_player "not_found ''player''"
proof
  show "distinct (player_ids w)" if "players_wf w" for w
    using that ids_distinct by (simp add: players_wf_def)
  show "set (registered w) \<subseteq> {..<length (player_ids w)}" if "players_wf w" for w
    using that by (simp add: players_wf_def player_ids_def)
qed (simp add: srs_find_player_def player_ids_def)

inductive publisher_reach :: "publishers \<Rightarrow> bool" where
  init: "publisher_reach no_publishers"
| create: "publisher_reach w \<Longrightarrow> publisher_reach (new_SrsPublisher cont wd ht priv w)"
| start: "publisher_reach w \<Longrightarrow> a < length (all_publishers w) \<Longrightarrow> publisher_reach (pb_start a w)"
| embedded: "publisher_reach w \<Longrightarrow> a < length (all_publishers w) \<Longrightarrow> publisher_reach (pb_embedded a s w)"
| stop: "publisher_reach w \<Longrightarrow> a < length (all_publishers w) \<Longrightarrow> publisher_reach (fst (pb_stop a w))"
| publish: "publisher_reach w \<Longrightarrow> a < length (all_publishers w) \<Longrightarrow> publisher_reach (fst (publish a url vc ac w))"
| ready: "publisher_reach w \<Longrightarrow> publisher_reach (fst (on_publisher_ready i cams mics w))"
| error: "publisher_reach w \<Longrightarrow> publisher_reach (fst (on_publisher_error i code w))"
| warn: "publisher_reach w \<Longrightarrow> publisher_reach (fst (on_publisher_warn i code w))"

definition publisher_ids :: "publishers \<Rightarrow> int list" where
  "publisher_ids w = map pb_id (all_publishers w)"

definition publishers_wf :: "publishers \<Rightarrow> bool" where
  "publishers_wf w \<longleftrightarrow>
     publisher_ids w = map (\<lambda>k. 100 + int k) [0..<length (all_publishers w)] \<and>
     next_publisher w = (if all_publishers w = [] then 0 else 100 + int (length (all_publishers w))) \<and>
     set (pb_registered w) \<subseteq> {..<length (all_publishers w)} \<and> distinct (pb_registered w)"

lemma pb_upd_fields [simp]:
  "pb_registered (pb_upd a f w) = pb_registered w" "next_publisher (pb_upd a f w) = next_publisher w"
  "length (all_publishers (pb_upd a f w)) = length (all_publishers w)"
  "(all_publishers (pb_upd a f w) = []) = (all_publishers w = [])"
  by (simp_all add: pb_upd_def)

lemma pb_upd_ids: "\<forall>p. pb_id (f p) = pb_id p \<Longrightarrow> publisher_ids (pb_upd a f w) = publisher_ids w"
  unfolding publisher_ids_def pb_upd_def
  by (cases "a < length (all_publishers w)") (simp_all add: map_update list_update_same_conv list_update_beyond)

lemma publishers_wf_upd: "\<forall>p. pb_id (f p) = pb_id p \<Longrightarrow> publishers_wf (pb_upd a f w) = publishers_wf w"
  by (simp add: publishers_wf_def pb_upd_ids)

lemma publishers_wf_call [simp]: "publishers_wf (fst (pb_call a c w)) = publishers_wf w"
  by (simp add: pb_call_def ok_def publishers_wf_def publisher_ids_def split: callback.split bool.split)

lemma drop_own_id:
  assumes "distinct ids" "set as \<subseteq> {..<length ids}" "a < length ids"
  shows "drop_id ids (Num (num_of (ids ! a))) as = remove1 a as"
  using assms(2)
proof (induction as)
  case (Cons b as)
  then have "ids ! b = ids ! a \<longleftrightarrow> b = a" using assms(1,3) by (simp add: nth_eq_iff_index_eq)
  then show ?case using Cons by (simp only: drop_id.simps player_registry.loose_eq_id) auto
qed simp

lemma pb_stop_registered:
  assumes "publishers_wf w" "a < length (all_publishers w)"
  shows "pb_stop a w = pb_call a Stop_publish (w\<lparr>pb_registered := remove1 a (pb_registered w)\<rparr>)"
proof -
  have d: "distinct (publisher_ids w)" using assms(1) ids_distinct by (simp add: publishers_wf_def)
  have "drop_id (publisher_ids w) (Num (num_of (publisher_ids w ! a))) (pb_registered w) = remove1 a (pb_registered w)"
    using assms by (intro drop_own_id [OF d]) (simp_all add: publishers_wf_def publisher_ids_def)
  then show ?thesis by (simp only: pb_stop_def Let_def publisher_ids_def)
qed

lemma publishers_wf_remove:
  "publishers_wf w \<Longrightarrow> publishers_wf (w\<lparr>pb_registered := remove1 a (pb_registered w)\<rparr>)"
  using set_remove1_subset [of a "pb_registered w"] by (auto simp: publishers_wf_def publisher_ids_def)

lemma publishers_wf_push:
  "publishers_wf w \<Longrightarrow> a < length (all_publishers w) \<Longrightarrow> a \<notin> set (pb_registered w) \<Longrightarrow>
   publishers_wf (w\<lparr>pb_registered := pb_registered w @ [a]\<rparr>)"
  by (auto simp: publishers_wf_def publisher_ids_def)

text \<open>The settings of \<open>publish\<close>, which concern the object only.\<close>

definition pb_settings :: "nat \<Rightarrow> jsval \<Rightarrow> jsval \<Rightarrow> jsval \<Rightarrow> publishers \<Rightarrow> publishers" where
  "pb_settings a url vc ac w =
     (let w = (if truthy url then pb_upd a (\<lambda>p. p\<lparr>pb_url := url\<rparr>) w else w);
          w = (if truthy vc then pb_upd a (\<lambda>p. p\<lparr>vcodec := vc\<rparr>) w else w)
      in if truthy ac then pb_upd a (\<lambda>p. p\<lparr>acodec := ac\<rparr>) w else w)"

lemma pb_settings_facts [simp]:
  "publishers_wf (pb_settings a url vc ac w) = publishers_wf w"
  "pb_registered (pb_settings a url vc ac w) = pb_registered w"
  by (simp_all add: pb_settings_def publishers_wf_upd)

lemma publish_settings:
  "publish a url vc ac w = and_run (pb_stop a w) (\<lambda>w.
     let w = pb_settings a url vc ac (w\<lparr>pb_registered := pb_registered w @ [a]\<rparr>); p = all_publishers w ! a
     in pb_call a (Publish (pb_url p) (pb_width p) (pb_height p) (vcodec p) (acodec p)) w)"
  by (simp add: publish_def pb_settings_def Let_def)

lemma pb_call_cases:
  "pb_call a c w = (w, Some TypeError) \<or> pb_call a c w = (w\<lparr>pb_flash := pb_flash w @ [(a, c)]\<rparr>, None)"
  by (auto simp: pb_call_def ok_def split: callback.split bool.split)

lemma publish_wf:
  assumes "publishers_wf w" "a < length (all_publishers w)"
  shows "publishers_wf (fst (publish a url vc ac w))"
proof -
  let ?w = "w\<lparr>pb_registered := remove1 a (pb_registered w)\<rparr>"
  have r: "publishers_wf ?w" using assms(1) by (rule publishers_wf_remove)
  have n: "a \<notin> set (remove1 a (pb_registered w))" using assms(1) by (simp add: publishers_wf_def)
  show ?thesis
  proof (cases "pb_call a Stop_publish ?w = (?w, Some TypeError)")
    case True
    then show ?thesis using r by (simp add: publish_settings pb_stop_registered [OF assms])
  next
    case False
    then have c: "pb_call a Stop_publish ?w = (?w\<lparr>pb_flash := pb_flash ?w @ [(a, Stop_publish)]\<rparr>, None)" (is "_ = (?v, None)")
      using pb_call_cases [of a Stop_publish ?w] by blast
    have "publishers_wf ?v" using r by (simp add: publishers_wf_def publisher_ids_def)
    then have "publishers_wf (?v\<lparr>pb_registered := pb_registered ?v @ [a]\<rparr>)"
      using n assms(2) by (intro publishers_wf_push) simp_all
    then show ?thesis by (simp add: publish_settings pb_stop_registered [OF assms] c Let_def)
  qed
qed

lemma publisher_reach_wf:
  assumes "publisher_reach w" shows "publishers_wf w"
  using assms
proof induction
  case init
  show ?case by (simp add: publishers_wf_def no_publishers_def publisher_ids_def)
next
  case (create w cont wd ht priv)
  have i: "first_id (next_publisher w) = 100 + int (length (all_publishers w))"
    using create.IH by (auto simp: publishers_wf_def first_id_def)
  show ?case using create.IH
    unfolding publishers_wf_def publisher_ids_def new_SrsPublisher_def Let_def i by (auto simp: lessThan_Suc)
next
  case (start w a)
  then show ?case by (simp add: pb_start_def Let_def publishers_wf_def publisher_ids_def)
next
  case (embedded w a s)
  then show ?case by (simp add: pb_embedded_def publishers_wf_upd)
next
  case (stop w a)
  then show ?case by (simp add: pb_stop_registered publishers_wf_remove)
next
  case (publish w a url vc ac)
  then show ?case by (simp add: publish_wf)
next
  case (ready w i cams mics)
  have "publishers_wf (pb_upd a (\<lambda>p. p\<lparr>cameras := cams, microphones := mics\<rparr>) w)" for a
    using ready.IH by (simp add: publishers_wf_upd)
  then show ?case using ready.IH
    by (auto simp: on_publisher_ready_def ok_def Let_def publishers_wf_def publisher_ids_def split: sum.split)
next
  case (error w i code)
  then show ?case by (simp add: on_publisher_error_def report_def Let_def publishers_wf_upd split: sum.split)
next
  case (warn w i code)
  then show ?case by (simp add: on_publisher_warn_def report_def Let_def publishers_wf_upd split: sum.split)
qed

interpretation publisher_registry:
  id_registry publishers_wf publisher_ids pb_registered srs_find_publisher "not_found ''publisher''"
proof
  show "distinct (publisher_ids w)" if "publishers_wf w" for w
    using that ids_distinct by (simp add: publishers_wf_def)
  show "set (pb_registered w) \<subseteq> {..<length (publisher_ids w)}" if "publishers_wf w" for w
    using that by (simp add: publishers_wf_def publisher_ids_def)
qed (simp add: srs_find_publisher_def publisher_ids_def)

section \<open>Properties of the registries\<close>

lemma count_list_distinct: "distinct xs \<Longrightarrow> count_list xs a \<le> 1"
  by (induction xs) (auto simp: count_notin)

lemma pb_call_registered [simp]: "pb_registered (fst (pb_call a c w)) = pb_registered w"
  by (simp add: pb_call_def ok_def split: callback.split bool.split)

lemma pb_call_object [simp]: "all_publishers (fst (pb_call a c w)) = all_publishers w"
  by (simp add: pb_call_def ok_def split: callback.split bool.split)

text \<open>
  C35. A publisher is registered at most once, whatever is called in whatever order: publishing ends with
  exactly one registration when the plug-in took the stop, stopping ends with none, so that the plug-in's
  callbacks no longer find it, and a registered publisher is found by its identifier.
\<close>

theorem publisher_registered_once:
  assumes "publisher_reach w" "a < length (all_publishers w)"
  shows "count_list (pb_registered w) a \<le> 1 \<and>
    (pb_callback (all_publishers w ! a) = Embedded True \<longrightarrow>
       count_list (pb_registered (fst (publish a url vc ac w))) a = 1) \<and>
    a \<notin> set (pb_registered (fst (pb_stop a w))) \<and>
    srs_find_publisher (Num (num_of (pb_id (all_publishers w ! a)))) w =
      (if a \<in> set (pb_registered w) then Inr a
       else Inl (not_found ''publisher'' (Num (num_of (pb_id (all_publishers w ! a))))))"
proof (intro conjI impI)
  note wf = publisher_reach_wf [OF assms(1)]
  have d: "distinct (pb_registered w)" using wf by (simp add: publishers_wf_def)
  then show "count_list (pb_registered w) a \<le> 1" by (rule count_list_distinct)
  show "a \<notin> set (pb_registered (fst (pb_stop a w)))"
    using d by (simp add: pb_stop_registered [OF wf assms(2)])
  show "srs_find_publisher (Num (num_of (pb_id (all_publishers w ! a)))) w =
      (if a \<in> set (pb_registered w) then Inr a
       else Inl (not_found ''publisher'' (Num (num_of (pb_id (all_publishers w ! a))))))"
    using publisher_registry.look_own [OF wf, of a] assms(2) by (simp add: publisher_ids_def)
  assume "pb_callback (all_publishers w ! a) = Embedded True"
  then show "count_list (pb_registered (fst (publish a url vc ac w))) a = 1"
    using d count_notin [of a "remove1 a (pb_registered w)"]
    by (simp add: publish_settings pb_stop_registered [OF wf assms(2)] pb_call_def [of a Stop_publish] ok_def Let_def)
qed

theorem publisher_registered_once_witness:
  "count_list (pb_registered (fst (publish 0 (Str ''rtmp://srs/live/one'') Undef Undef
     (pb_embedded 0 True (new_SrsPublisher ''pub'' (num_of 640) (num_of 480) Null no_publishers))))) 0 = 1"
proof -
  let ?w = "pb_embedded 0 True (new_SrsPublisher ''pub'' (num_of 640) (num_of 480) Null no_publishers)"
  have r: "publisher_reach ?w"
    by (intro publisher_reach.intros) (simp add: new_SrsPublisher_def no_publishers_def Let_def)
  have l: "0 < length (all_publishers ?w)" "pb_callback (all_publishers ?w ! 0) = Embedded True"
    by (simp_all add: pb_embedded_def pb_upd_def new_SrsPublisher_def no_publishers_def Let_def)
  from publisher_registered_once [OF r l(1)] l(2) show ?thesis by blast
qed

text \<open>
  A player is never forgotten: the loop that should take a closed player out of the registry compares
  with the identifier of the window, so every player ever created is still found by its identifier, the
  status \<open>closed\<close> removes nothing, and every successful \<open>play\<close> registers the player once more.
\<close>

theorem player_never_forgotten:
  assumes "player_reach w" "a < length (all_players w)"
  shows "srs_find_player (Num (num_of (pl_id (all_players w ! a)))) w = Inr a \<and>
    registered (fst (on_player_status i code desc w)) = registered w \<and>
    (snd (play a url vol w) = None \<longrightarrow> registered (fst (play a url vol w)) = registered w @ [a])"
proof (intro conjI impI)
  have wf: "players_wf w" by (rule player_reach_wf [OF assms(1)])
  then have "a < length (player_ids w)" "a \<in> set (registered w)"
    using assms(2) by (simp_all add: player_ids_def players_wf_def)
  with player_registry.look_own [OF wf, of a]
  show "srs_find_player (Num (num_of (pl_id (all_players w ! a)))) w = Inr a"
    by (simp only: player_ids_def nth_map length_map if_True)
  show "registered (fst (on_player_status i code desc w)) = registered w"
    using wf by (simp add: on_player_status_def with_player_def ok_def notify_def Let_def players_wf_def split: sum.split)
  assume s: "snd (play a url vol w) = None"
  have c: "registered (fst (call_flash b c v)) = registered v" for b c v
    by (simp add: call_flash_def ok_def split: callback.split bool.split)
  have t: "call_flash a Stop w = (fst (call_flash a Stop w), None)"
    using s by (cases "call_flash a Stop w"; cases "snd (call_flash a Stop w)") (simp_all add: play_def stop_player_def)
  show "registered (fst (play a url vol w)) = registered w @ [a]"
    unfolding play_def stop_player_def by (subst t) (simp add: c Let_def)
qed

theorem player_never_forgotten_witness:
  "srs_find_player (Num (num_of 100)) (fst (on_player_status (Num (num_of 100)) (Str ''closed'') Undef
     (new_SrsPlayer ''player'' (num_of 640) (num_of 480) Null no_players))) = Inr 0"
proof -
  let ?w = "new_SrsPlayer ''player'' (num_of 640) (num_of 480) Null no_players"
  let ?v = "fst (on_player_status (Num (num_of 100)) (Str ''closed'') Undef ?w)"
  have r: "player_reach ?v" by (intro player_reach.intros)
  have "same_ids ?w ?v" by (rule same_ids_status)
  then have p: "player_ids ?v = [100]"
    by (simp add: same_ids_def player_ids_def new_SrsPlayer_def no_players_def first_id_def Let_def)
  then have l: "0 < length (all_players ?v)" unfolding player_ids_def by (cases "all_players ?v") simp_all
  with p have "pl_id (all_players ?v ! 0) = 100" unfolding player_ids_def by (cases "all_players ?v") simp_all
  with player_never_forgotten [OF r l] show ?thesis by metis
qed

section \<open>Buffer times\<close>

lemma rnd_error:
  assumes "1 \<le> x" shows "\<bar>rnd x - x\<bar> \<le> x / 2 ^ 53"
proof -
  have "ilog2 1 = 0" by (rule ilog2_unique) simp_all
  then have "0 \<le> ilog2 x" using ilog2_mono [of 1 x] assms by simp
  then have e: "ulp_exp x = ilog2 x - 52" using assms by (simp add: ulp_exp_def)
  have u: "(2 :: rat) powi ulp_exp x = 2 powi ilog2 x / 2 ^ 52"
    by (simp add: e power_int_diff)
  have b: "2 powi ilog2 x \<le> x" using ilog2_bounds [of x] assms by simp
  let ?u = "(2 :: rat) powi ulp_exp x"
  have u0: "0 < ?u" by simp
  have "rnd x - x = (of_int (round_even (x / ?u)) - x / ?u) * ?u"
    using assms u0 by (simp add: rnd_def left_diff_distrib)
  then have "\<bar>rnd x - x\<bar> = \<bar>of_int (round_even (x / ?u)) - x / ?u\<bar> * ?u"
    using u0 by (simp add: abs_mult)
  also have "\<dots> \<le> 1 / 2 * ?u" using u0 round_even_error by (intro mult_right_mono) auto
  also have "\<dots> \<le> x / 2 ^ 53" using b by (simp add: u)
  finally show ?thesis .
qed

definition buffer_ok :: "player \<Rightarrow> bool" where
  "buffer_ok p \<longleftrightarrow> (\<exists>b m. buffer_time p = Fin b \<and> max_buffer_time p = Fin m \<and> 0 \<le> b \<and> b \<le> m \<and>
     rnd (6 / 10) \<le> m \<and> m \<le> 2 ^ 42)"

lemma rnd_06: "59 / 100 \<le> rnd (6 / 10)" "rnd (6 / 10) \<le> 1"
  by (simp_all add: num_eval)

lemma fl_Fin: "\<bar>x\<bar> \<le> 2 ^ 50 \<Longrightarrow> fl x = Fin (rnd x)"
  by (rule fl_finite) simp

lemma tenths_Fin: "59 / 100 \<le> x \<Longrightarrow> x \<le> 2 ^ 42 \<Longrightarrow> tenths (Fin x) = num_of \<lfloor>rnd (x * 10)\<rfloor>"
proof -
  assume x: "59 / 100 \<le> x" "x \<le> 2 ^ 42"
  have r: "rnd 1 \<le> rnd (x * 10)" "rnd (x * 10) \<le> rnd (2 ^ 46)" using x by (auto intro: rnd_mono)
  have "rnd 1 = 1" "rnd (2 ^ 46) = 2 ^ 46" using rnd_of_int [of 1] rnd_of_int [of "2 ^ 46"] by simp_all
  then have "1 \<le> rnd (x * 10)" "rnd (x * 10) \<le> 2 ^ 46" using r by simp_all
  moreover have "fl (x * 10) = Fin (rnd (x * 10))" using x by (intro fl_Fin) simp
  ultimately show ?thesis by (simp add: tenths_def trunc_def)
qed

text \<open>When a new maximum is not taken because it agrees in tenths of a second, the old one was large enough.\<close>

lemma tenths_far:
  assumes "59 / 100 \<le> x" "59 / 100 \<le> m" "m \<le> 2 ^ 42" "2 * x \<le> m"
  shows "\<lfloor>rnd (x * 10)\<rfloor> < \<lfloor>rnd (m * 10)\<rfloor>"
proof -
  have e: "\<bar>rnd (x * 10) - x * 10\<bar> \<le> x * 10 / 2 ^ 53" "\<bar>rnd (m * 10) - m * 10\<bar> \<le> m * 10 / 2 ^ 53"
    using assms by (intro rnd_error; linarith)+
  have "rnd (x * 10) \<le> x * 10 + x * 10 / 2 ^ 53" "m * 10 - m * 10 / 2 ^ 53 \<le> rnd (m * 10)"
    using e by linarith+
  moreover have "x * 10 / 2 ^ 53 \<le> x / 1000" "m * 10 / 2 ^ 53 \<le> m / 1000" using assms by simp_all
  ultimately have "rnd (x * 10) + 1 \<le> rnd (m * 10)" using assms by linarith
  then show ?thesis by linarith
qed

lemma mbt_value_Fin:
  assumes "buffer_time p = Fin b"
  shows "mbt_value (Fin x) p = Fin (max b (max (rnd (6 / 10)) x))"
proof -
  have "fl (6 / 10) = Fin (rnd (6 / 10))" by (rule fl_Fin) simp
  then show ?thesis using assms by (simp add: mbt_value_def)
qed

lemma pl_callback_upd [simp]:
  "a < length (all_players w) \<Longrightarrow> all_players (upd a f w) ! a = f (all_players w ! a)"
  by (simp add: upd_def)

lemma set_mbt_buffer:
  assumes "a < length (all_players w)" "pl_callback (all_players w ! a) = Embedded True"
    and b: "buffer_time (all_players w ! a) = Fin b" "0 \<le> b" "b \<le> 2 ^ 40" and x: "0 \<le> x" "x \<le> 2 ^ 42"
    and m: "max_buffer_time (all_players w ! a) = Fin m" "rnd (6 / 10) \<le> m" "m \<le> 2 ^ 42"
    and old: "b \<le> m \<or> 2 * b \<le> x"
  shows "buffer_ok (all_players (fst (set_mbt a (Fin x) w)) ! a) \<and> snd (set_mbt a (Fin x) w) = None \<and>
    buffer_time (all_players (fst (set_mbt a (Fin x) w)) ! a) = Fin b \<and>
    pl_callback (all_players (fst (set_mbt a (Fin x) w)) ! a) = Embedded True \<and>
    length (all_players (fst (set_mbt a (Fin x) w))) = length (all_players w)"
proof -
  let ?y = "max b (max (rnd (6 / 10)) x)"
  have v: "mbt_value (Fin x) (all_players w ! a) = Fin ?y" using b(1) by (rule mbt_value_Fin)
  have y: "59 / 100 \<le> ?y" "?y \<le> 2 ^ 42" using rnd_06 x b(3) by auto
  have m': "59 / 100 \<le> m" using rnd_06(1) m(2) by simp
  show ?thesis
  proof (cases "num_eq (tenths (Fin m)) (tenths (Fin ?y))")
    case True
    then have t: "\<lfloor>rnd (m * 10)\<rfloor> = \<lfloor>rnd (?y * 10)\<rfloor>"
      using tenths_Fin [OF y] tenths_Fin [OF m' m(3)] by (simp add: num_eq_def)
    have "b \<le> m"
    proof (rule ccontr)
      assume n: "\<not> b \<le> m"
      then have "2 * m \<le> ?y" using old by auto
      then show False using tenths_far [OF m' y] t by simp
    qed
    then have "buffer_ok (all_players w ! a)" using b m by (auto simp: buffer_ok_def)
    then show ?thesis using True assms by (simp add: set_mbt_def Let_def v ok_def)
  next
    case False
    have "set_mbt a (Fin x) w =
        ok ((upd a (\<lambda>p. p\<lparr>max_buffer_time := Fin ?y\<rparr>) w)\<lparr>flash := flash w @ [(a, Set_mbt (Fin ?y))]\<rparr>)"
      using False assms(1,2) by (simp add: set_mbt_def Let_def v m(1) call_flash_def) (simp add: upd_def ok_def)
    moreover have "buffer_ok ((all_players w ! a)\<lparr>max_buffer_time := Fin ?y\<rparr>)"
      using b y by (auto simp: buffer_ok_def)
    ultimately show ?thesis using assms(1,2) b(1) by (simp add: ok_def)
  qed
qed

lemma set_bt_buffer:
  assumes "a < length (all_players w)" "pl_callback (all_players w ! a) = Embedded True"
    and ok: "buffer_ok (all_players w ! a)" and b: "0 \<le> b" "b \<le> 2 ^ 40"
  shows "buffer_ok (all_players (fst (set_bt a (Fin b) w)) ! a) \<and> snd (set_bt a (Fin b) w) = None \<and>
    buffer_time (all_players (fst (set_bt a (Fin b) w)) ! a) = Fin b \<and>
    pl_callback (all_players (fst (set_bt a (Fin b) w)) ! a) = Embedded True \<and>
    length (all_players (fst (set_bt a (Fin b) w))) = length (all_players w)"
proof -
  from ok obtain b' m where p: "buffer_time (all_players w ! a) = Fin b'" "max_buffer_time (all_players w ! a) = Fin m"
      "rnd (6 / 10) \<le> m" "m \<le> 2 ^ 42"
    by (auto simp: buffer_ok_def)
  show ?thesis
  proof (cases "b' = b")
    case True
    then show ?thesis using assms p(1) by (simp add: set_bt_def num_eq_def ok_def)
  next
    case False
    let ?w = "(upd a (\<lambda>p. p\<lparr>buffer_time := Fin b\<rparr>) w)\<lparr>flash := flash w @ [(a, Set_bt (Fin b))]\<rparr>"
    have f: "call_flash a (Set_bt (Fin b)) (upd a (\<lambda>p. p\<lparr>buffer_time := Fin b\<rparr>) w) = ok ?w"
      using assms(1,2) by (simp add: call_flash_def) (simp add: upd_def)
    have x: "num_mul (Fin b) (num_of 3) = Fin (rnd (b * 3))" using b by (simp add: fl_Fin)
    have r: "0 \<le> rnd (b * 3)" using b by (intro rnd_nonneg) simp
    have "rnd (b * 3) \<le> rnd (2 ^ 42)" using b by (intro rnd_mono) simp
    also have "rnd (2 ^ 42) = 2 ^ 42" using rnd_of_int [of "2 ^ 42"] by simp
    finally have u: "rnd (b * 3) \<le> 2 ^ 42" .
    have o: "b \<le> m \<or> 2 * b \<le> rnd (b * 3)"
    proof (cases "b \<le> m")
      case False
      then have "1 \<le> b * 3" using rnd_06(1) p(3) by simp
      from rnd_error [OF this] have "b * 3 - b * 3 / 2 ^ 53 \<le> rnd (b * 3)" by linarith
      moreover have "b * 3 / 2 ^ 53 \<le> b" using b by simp
      ultimately show ?thesis by linarith
    qed simp
    have "set_bt a (Fin b) w = set_mbt a (Fin (rnd (b * 3))) ?w"
      using False unfolding set_bt_def p(1) f x by (simp add: num_eq_def)
    then show ?thesis
      using set_mbt_buffer [of a ?w b "rnd (b * 3)" m] assms(1,2) b r u p(2-4) o by simp
  qed
qed

datatype buffer_call = Bt rat | Mbt rat

fun buffer_call_run :: "nat \<Rightarrow> buffer_call list \<Rightarrow> players \<Rightarrow> players outcome" where
  "buffer_call_run a [] w = ok w"
| "buffer_call_run a (Bt b # cs) w = and_run (set_bt a (Fin b) w) (buffer_call_run a cs)"
| "buffer_call_run a (Mbt m # cs) w = and_run (set_mbt a (Fin m) w) (buffer_call_run a cs)"

fun buffer_arg :: "buffer_call \<Rightarrow> rat" where
  "buffer_arg (Bt b) = b"
| "buffer_arg (Mbt m) = m"

definition steady :: "nat \<Rightarrow> players \<Rightarrow> bool" where
  "steady a w \<longleftrightarrow> a < length (all_players w) \<and> pl_callback (all_players w ! a) = Embedded True \<and>
     buffer_ok (all_players w ! a) \<and> (\<exists>b \<le> 2 ^ 40. buffer_time (all_players w ! a) = Fin b)"

lemma steady_bt:
  assumes "steady a w" "0 \<le> b" "b \<le> 2 ^ 40"
  shows "snd (set_bt a (Fin b) w) = None \<and> steady a (fst (set_bt a (Fin b) w))"
  using set_bt_buffer [of a w b] assms by (simp add: steady_def)

lemma steady_mbt:
  assumes "steady a w" "0 \<le> x" "x \<le> 2 ^ 40"
  shows "snd (set_mbt a (Fin x) w) = None \<and> steady a (fst (set_mbt a (Fin x) w))"
proof -
  from assms(1) obtain b m where "buffer_time (all_players w ! a) = Fin b" "0 \<le> b" "b \<le> 2 ^ 40"
      "max_buffer_time (all_players w ! a) = Fin m" "rnd (6 / 10) \<le> m" "m \<le> 2 ^ 42" "b \<le> m"
    by (auto simp: steady_def buffer_ok_def)
  then show ?thesis using set_mbt_buffer [of a w b x m] assms by (simp add: steady_def)
qed

lemma steady_run:
  "steady a w \<Longrightarrow> \<forall>c \<in> set cs. 0 \<le> buffer_arg c \<and> buffer_arg c \<le> 2 ^ 40 \<Longrightarrow>
   snd (buffer_call_run a cs w) = None \<and> steady a (fst (buffer_call_run a cs w))"
proof (induction a cs w rule: buffer_call_run.induct)
  case (2 a b cs w)
  then have "snd (set_bt a (Fin b) w) = None" "steady a (fst (set_bt a (Fin b) w))" using steady_bt by auto
  then show ?case using 2 by (cases "set_bt a (Fin b) w") simp
next
  case (3 a m cs w)
  then have "snd (set_mbt a (Fin m) w) = None" "steady a (fst (set_mbt a (Fin m) w))" using steady_mbt by auto
  then show ?case using 3 by (cases "set_mbt a (Fin m) w") simp
qed (simp add: ok_def)

lemma steady_new:
  "steady (length (all_players w)) (embedded (length (all_players w)) True (new_SrsPlayer cont wd ht priv w))"
proof -
  have b: "default_buffer = Fin (rnd (3 / 10))" unfolding default_buffer_def by (rule fl_Fin) simp
  have v: "0 \<le> rnd (3 / 10)" "rnd (3 / 10) \<le> 1" "rnd (rnd (3 / 10) * 3) \<le> 1" "rnd (3 / 10) \<le> rnd (rnd (3 / 10) * 3)"
    "rnd (6 / 10) \<le> rnd (rnd (3 / 10) * 3)"
    by (simp_all add: num_eval)
  have m: "fl (rnd (3 / 10) * 3) = Fin (rnd (rnd (3 / 10) * 3))"
    using fl_Fin [of "rnd (3 / 10) * 3"] v(1,2) by simp
  have o: "\<exists>b m. rnd (3 / 10) = b \<and> rnd (rnd (3 / 10) * 3) = m \<and> 0 \<le> b \<and> b \<le> m \<and> rnd (6 / 10) \<le> m \<and> m \<le> 2 ^ 42"
    using v by simp
  have l: "rnd (3 / 10) \<le> 2 ^ 40" using v(2) by simp
  show ?thesis
    using o l by (simp add: steady_def embedded_def upd_def new_SrsPlayer_def Let_def nth_append buffer_ok_def b m)
qed

text \<open>
  C36. Buffer times: from a new player whose plug-in is loaded, no sequence of calls of \<open>set_bt\<close> and
  \<open>set_mbt\<close> with finite times throws, and after it the maximum buffer time is at least 0.6 seconds and
  never below the buffer time, although a change of less than a tenth of a second is not taken over.
\<close>

theorem buffer_times_ordered:
  assumes "\<forall>c \<in> set cs. 0 \<le> buffer_arg c \<and> buffer_arg c \<le> 2 ^ 40"
    and "a = length (all_players w)"
  shows "\<exists>b m w'. buffer_call_run a cs (embedded a True (new_SrsPlayer cont wd ht priv w)) = (w', None) \<and>
    buffer_time (all_players w' ! a) = Fin b \<and> max_buffer_time (all_players w' ! a) = Fin m \<and>
    0 \<le> b \<and> b \<le> m \<and> rnd (6 / 10) \<le> m"
proof -
  let ?r = "buffer_call_run a cs (embedded a True (new_SrsPlayer cont wd ht priv w))"
  have "snd ?r = None \<and> steady a (fst ?r)"
    unfolding assms(2) by (rule steady_run [OF steady_new]) (rule assms(1))
  then show ?thesis by (cases ?r) (auto simp: steady_def buffer_ok_def)
qed

theorem buffer_times_ordered_witness:
  "\<exists>b m w'. buffer_call_run 0 [Bt (8 / 10), Mbt (12 / 10)]
     (embedded 0 True (new_SrsPlayer ''player'' (num_of 640) (num_of 480) Null no_players)) = (w', None) \<and>
    buffer_time (all_players w' ! 0) = Fin b \<and> max_buffer_time (all_players w' ! 0) = Fin m \<and>
    0 \<le> b \<and> b \<le> m \<and> rnd (6 / 10) \<le> m"
  by (rule buffer_times_ordered) (simp_all add: no_players_def)

section \<open>Fluency\<close>

text \<open>What the plug-in reports: the buffer ran empty or full at a time in milliseconds.\<close>

fun fluency_run :: "(bool \<times> int) list \<Rightarrow> fluency \<Rightarrow> fluency" where
  "fluency_run [] f = f"
| "fluency_run ((e, t) # es) f =
     fluency_run es (if e then on_stream_empty (num_of t) f else on_stream_full (num_of t) f)"

definition no_stalls :: fluency where
  "no_stalls = \<lparr>total_empty_count = num_of 0, total_empty_time = num_of 0, current_empty_time = num_of 0\<rparr>"

definition fluency_ok :: "int \<Rightarrow> int \<Rightarrow> fluency \<Rightarrow> bool" where
  "fluency_ok n T f \<longleftrightarrow> (\<exists>c e s. f = \<lparr>total_empty_count = num_of c, total_empty_time = num_of e, current_empty_time = num_of s\<rparr> \<and>
     0 \<le> c \<and> c \<le> n \<and> 0 \<le> e \<and> e \<le> T \<and> 0 \<le> s \<and> s \<le> T \<and> (0 < s \<longrightarrow> e \<le> s))"

lemma add_of: "\<bar>a + b\<bar> \<le> 2 ^ 53 \<Longrightarrow> num_add (num_of a) (num_of b) = num_of (a + b)"
  using fl_of_int [of "a + b"] by simp

lemma mul_of: "\<bar>a * b\<bar> \<le> 2 ^ 53 \<Longrightarrow> num_mul (num_of a) (num_of b) = num_of (a * b)"
  using fl_of_int [of "a * b"] by simp

lemma sub_of: "\<bar>a - b\<bar> \<le> 2 ^ 53 \<Longrightarrow> num_sub (num_of a) (num_of b) = num_of (a - b)"
  using fl_of_int [of "a - b"] by (simp add: num_sub_def)

lemma fluency_ok_step:
  assumes "fluency_ok n T f" "T \<le> t" "t \<le> 2 ^ 40" "0 \<le> n" "n \<le> 2 ^ 40"
  shows "fluency_ok (n + 1) t (if e then on_stream_empty (num_of t) f else on_stream_full (num_of t) f)"
proof -
  from assms(1) obtain c m s where f: "f = \<lparr>total_empty_count = num_of c, total_empty_time = num_of m, current_empty_time = num_of s\<rparr>"
    and b: "0 \<le> c" "c \<le> n" "0 \<le> m" "m \<le> T" "0 \<le> s" "s \<le> T" "0 < s \<longrightarrow> m \<le> s"
    unfolding fluency_ok_def by blast
  show ?thesis
  proof (cases e)
    case True
    have "on_stream_empty (num_of t) f =
        \<lparr>total_empty_count = num_of (c + 1), total_empty_time = num_of m, current_empty_time = num_of t\<rparr>"
      using b assms(5) add_of [of c 1] by (simp add: on_stream_empty_def f)
    then show ?thesis unfolding fluency_ok_def using True b assms(2) by (intro exI [of _ "c + 1"] exI [of _ m] exI [of _ t]) simp
  next
    case False
    show ?thesis
    proof (cases "0 < s")
      case True
      have "num_sub (num_of t) (num_of s) = num_of (t - s)" "num_add (num_of m) (num_of (t - s)) = num_of (m + (t - s))"
        using b assms(2,3) by (intro sub_of add_of; simp)+
      then have "on_stream_full (num_of t) f =
          \<lparr>total_empty_count = num_of c, total_empty_time = num_of (m + (t - s)), current_empty_time = num_of 0\<rparr>"
        using True by (simp add: on_stream_full_def f del: num_add.simps of_int_add of_int_diff)
      then show ?thesis unfolding fluency_ok_def using False True b assms(2)
        by (intro exI [of _ c] exI [of _ "m + (t - s)"] exI [of _ 0]) simp
    next
      case F: False
      then have "on_stream_full (num_of t) f = f" by (simp add: on_stream_full_def f)
      then show ?thesis unfolding fluency_ok_def using False F b assms(2) f
        by (intro exI [of _ c] exI [of _ m] exI [of _ s]) simp
    qed
  qed
qed

lemma fluency_ok_run:
  "fluency_ok n T f \<Longrightarrow> T \<le> 2 ^ 40 \<Longrightarrow> sorted_wrt (\<le>) (T # map snd es) \<Longrightarrow> \<forall>x \<in> set es. snd x \<le> 2 ^ 40 \<Longrightarrow> 0 \<le> n \<Longrightarrow>
   n + int (length es) \<le> 2 ^ 40 \<Longrightarrow> \<exists>T' \<le> 2 ^ 40. fluency_ok (n + int (length es)) T' (fluency_run es f)"
proof (induction es arbitrary: n T f)
  case Nil
  then show ?case by auto
next
  case (Cons x es)
  obtain e t where x: "x = (e, t)" by (cases x)
  let ?f = "if e then on_stream_empty (num_of t) f else on_stream_full (num_of t) f"
  have s: "fluency_ok (n + 1) t ?f" using Cons.prems x by (intro fluency_ok_step) auto
  have "\<exists>T' \<le> 2 ^ 40. fluency_ok (n + 1 + int (length es)) T' (fluency_run es ?f)"
    using Cons.prems x by (intro Cons.IH [OF s]) auto
  then show ?case by (simp add: x algebra_simps)
qed

lemma calc_bounds:
  assumes "fluency_ok n T f" "n \<le> 2 ^ 40" "T \<le> 2 ^ 40" "0 \<le> t" "t \<le> 2 ^ 40"
  shows "\<exists>q. calc (num_of t) f = Fin q \<and> 0 \<le> q \<and> q \<le> 100"
proof -
  from assms(1) obtain c m s where f: "f = \<lparr>total_empty_count = num_of c, total_empty_time = num_of m, current_empty_time = num_of s\<rparr>"
    and b: "0 \<le> c" "c \<le> 2 ^ 40" "0 \<le> m" "m \<le> 2 ^ 40"
    using assms(2,3) unfolding fluency_ok_def by force
  let ?d = "c * 4 + m * 2 + t"
  have d: "num_add (num_add (num_mul (num_of c) (num_of 4)) (num_mul (num_of m) (num_of 2))) (num_of t) = num_of ?d"
    using b assms(4,5) by (subst mul_of, simp, subst mul_of, simp, subst add_of, simp, subst add_of) simp_all
  have t: "num_mul (num_of t) (num_of 100) = num_of (t * 100)" using assms(4,5) by (intro mul_of) simp
  have c: "calc (num_of t) f = (if 0 < ?d then num_div (num_of (t * 100)) (num_of ?d) else Fin 0)"
    unfolding calc_def Let_def f fluency.simps d t by simp
  show ?thesis
  proof (cases "0 < ?d")
    case True
    let ?q = "of_int (t * 100) / of_int ?d :: rat"
    have p: "(0 :: rat) < of_int ?d" using True by (simp only: of_int_0_less_iff)
    have "t * 100 \<le> 100 * ?d" using b by simp
    then have "(of_int (t * 100) :: rat) \<le> of_int (100 * ?d)" by (simp only: of_int_le_iff)
    also have "\<dots> = 100 * of_int ?d" by (simp only: of_int_mult of_int_numeral)
    finally have "?q \<le> 100" using p by (simp only: pos_divide_le_eq)
    moreover have "(0 :: rat) \<le> of_int (t * 100)" using assms(4) by simp
    ultimately have q: "0 \<le> ?q" "?q \<le> 100" using p by (simp_all only: divide_nonneg_pos)
    have "calc (num_of t) f = fl ?q"
      using True unfolding c by (simp del: of_int_add of_int_mult)
    moreover have "fl x = Fin (rnd x)" if "0 \<le> x" "x \<le> 100" for x using that by (intro fl_finite) simp
    note this [OF q]
    moreover have "0 \<le> rnd ?q" using q(1) by (rule rnd_nonneg)
    moreover have "rnd ?q \<le> 100" using rnd_mono [OF q(2)] rnd_of_int [of 100] by simp
    ultimately show ?thesis by simp
  qed (simp add: c)
qed

text \<open>
  The fluency is a percentage: after any reports of an empty or full buffer in the order of time, and
  at any time after the start, it is a number from 0 to 100; without a report it is 100.
\<close>

theorem fluency_percentage:
  assumes "sorted_wrt (\<le>) (0 # map snd es)" "\<forall>x \<in> set es. snd x \<le> 2 ^ 40" "length es \<le> 2 ^ 40"
    and "0 \<le> t" "t \<le> 2 ^ 40"
  shows "(\<exists>q. calc (num_of t) (fluency_run es no_stalls) = Fin q \<and> 0 \<le> q \<and> q \<le> 100) \<and>
    (es = [] \<longrightarrow> 0 < t \<longrightarrow> calc (num_of t) (fluency_run es no_stalls) = num_of 100)"
proof (intro conjI impI)
  have "fluency_ok 0 0 no_stalls" unfolding fluency_ok_def no_stalls_def
    by (rule exI [of _ 0], rule exI [of _ 0], rule exI [of _ 0]) simp
  moreover have "int (length es) \<le> 2 ^ 40" using assms(3) by (metis of_nat_le_iff of_nat_numeral of_nat_power)
  ultimately obtain T' where "T' \<le> 2 ^ 40" "fluency_ok (int (length es)) T' (fluency_run es no_stalls)"
    using fluency_ok_run [of 0 0 no_stalls es] assms by auto
  then show "\<exists>q. calc (num_of t) (fluency_run es no_stalls) = Fin q \<and> 0 \<le> q \<and> q \<le> 100"
    using \<open>int (length es) \<le> 2 ^ 40\<close> assms(4,5) by (intro calc_bounds)
  assume t: "es = []" "0 < t"
  have m: "num_mul (num_of t) (num_of 100) = num_of (t * 100)" using assms(4,5) by (intro mul_of) simp
  have a: "num_add (num_of 0) (num_of t) = num_of t" using assms(4,5) by (subst add_of) simp_all
  have "of_int (t * 100) / of_int t = (of_int 100 :: rat)" using t(2) by simp
  then have "num_div (num_of (t * 100)) (num_of t) = num_of 100"
    using t(2) fl_of_int [of 100] by (simp del: of_int_mult)
  then show "calc (num_of t) (fluency_run es no_stalls) = num_of 100"
    using t a m by (simp add: calc_def no_stalls_def Let_def del: num_add.simps(9) of_int_mult)
qed

theorem fluency_percentage_witness:
  "\<exists>q. calc (num_of 5000) (fluency_run [(True, 1000), (False, 1500)] no_stalls) = Fin q \<and> 0 \<le> q \<and> q \<le> 100"
  using fluency_percentage [of "[(True, 1000), (False, 1500)]" 5000] by simp

end
