(* ===== verification/Sdp.thy ===== *)
theory Sdp
  imports UrlParse
begin

text \<open>
  The session description helpers \<open>SDPUtils\<close> of the WebRTC adapter the players and the demos load
  (\<open>adapter-7.4.0.js\<close>, the same file in both places): parsers and writers of the lines of a session
  description and of whole media sections. A table the code builds up with keys it reads from the text
  (a candidate, format parameters) is a property table; an object with fixed fields is a record. Case
  conversion is that of the code units below 256 whose counterpart lies below 256 as well.
\<close>

section \<open>Text\<close>

definition lower_char :: "char \<Rightarrow> char" where
  "lower_char c =
     (let n = of_char c :: nat
      in if 65 \<le> n \<and> n \<le> 90 \<or> 192 \<le> n \<and> n \<le> 222 \<and> n \<noteq> 215 then char_of (n + 32) else c)"

definition upper_char :: "char \<Rightarrow> string" where
  "upper_char c =
     (let n = of_char c :: nat
      in if n = 223 then ''SS''
         else if 97 \<le> n \<and> n \<le> 122 \<or> 224 \<le> n \<and> n \<le> 254 \<and> n \<noteq> 247 then [char_of (n - 32)] else [c])"

definition to_lower :: "string \<Rightarrow> string" where
  "to_lower s = map lower_char s"

definition to_upper :: "string \<Rightarrow> string" where
  "to_upper s = concat (map upper_char s)"

text \<open>\<open>parseInt(v, 10)\<close>\<close>

definition parse10 :: "string \<Rightarrow> jsnum" where
  "parse10 str =
     (let s = dropWhile is_space str;
          neg = (s \<noteq> [] \<and> hd s = CHR ''-'');
          t = (if s \<noteq> [] \<and> hd s \<in> {CHR ''-'', CHR ''+''} then tl s else s);
          ds = takeWhile is_digit t
      in if ds = [] then NaN
         else let v = fl (of_int (digits_val ds)) in if neg then num_neg v else v)"

definition int10 :: "jsval \<Rightarrow> jsval" where
  "int10 v = Num (parse10 (to_str v))"

definition or_val :: "jsval \<Rightarrow> jsval \<Rightarrow> jsval" where
  "or_val a b = (if truthy a then a else b)"

text \<open>\<open>xs.join(sep)\<close> of an array of values.\<close>

definition join_vals :: "string \<Rightarrow> jsval list \<Rightarrow> string" where
  "join_vals sep vs = join sep (map (\<lambda>v. if nullish v then [] else to_str v) vs)"

definition index_from :: "string \<Rightarrow> string \<Rightarrow> int \<Rightarrow> int" where
  "index_from s t k =
     (let n = min (nat k) (length s)
      in case find_sub t (drop n s) of None \<Rightarrow> - 1 | Some i \<Rightarrow> int (n + i))"

definition crlf :: string where
  "crlf = [CHR 0x0D, CHR 0x0A]"

definition nl :: char where
  "nl = CHR 0x0A"

section \<open>Lines and sections\<close>

definition splitLines :: "string \<Rightarrow> string list" where
  "splitLines blob = map trim_ws (split_on (trim_ws blob) [nl])"

fun section_texts :: "bool \<Rightarrow> string list \<Rightarrow> string list" where
  "section_texts first [] = []"
| "section_texts first (p # ps) =
     (trim_ws (if first then p else ''m='' @ p) @ crlf) # section_texts False ps"

definition splitSections :: "string \<Rightarrow> string list" where
  "splitSections blob = section_texts True (split_on blob ([nl] @ ''m=''))"

definition getDescription :: "string \<Rightarrow> string" where
  "getDescription blob = hd (splitSections blob)"

definition getMediaSections :: "string \<Rightarrow> string list" where
  "getMediaSections blob = tl (splitSections blob)"

definition matchPrefix :: "string \<Rightarrow> string \<Rightarrow> string list" where
  "matchPrefix blob pre = filter (\<lambda>line. index_of line pre = 0) (splitLines blob)"

text \<open>\<open>matchPrefix(...)[0]\<close> where the code tests it for truth: an empty line never matches a prefix here.\<close>

definition first_match :: "string \<Rightarrow> string \<Rightarrow> string option" where
  "first_match blob pre = arr_at (matchPrefix blob pre) 0"

section \<open>Candidates\<close>

definition candidate_put :: "string \<Rightarrow> jsval \<Rightarrow> jsval props \<Rightarrow> jsval props" where
  "candidate_put k v c =
     (if k = ''raddr'' then prop_set c ''relatedAddress'' v
      else if k = ''rport'' then prop_set c ''relatedPort'' (int10 v)
      else if k = ''tcptype'' then prop_set c ''tcpType'' v
      else if k = ''ufrag'' then prop_set (prop_set c ''ufrag'' v) ''usernameFragment'' v
      else assign_prop c k v)"

fun candidate_rest :: "string list \<Rightarrow> jsval props \<Rightarrow> jsval props" where
  "candidate_rest [] c = c"
| "candidate_rest [k] c = candidate_put k Undef c"
| "candidate_rest (k # v # ks) c = candidate_rest ks (candidate_put k (Str v) c)"

definition parseCandidate :: "string \<Rightarrow> jsval props result" where
  "parseCandidate line =
     (let parts = split_on (if index_of line ''a=candidate:'' = 0 then substring line 12 (int (length line))
                            else substring line 10 (int (length line))) '' ''
      in case arr_at parts 2 of
           None \<Rightarrow> Inl TypeError
         | Some p \<Rightarrow>
             Inr (candidate_rest (drop 8 parts)
               [(''foundation'', str_at parts 0), (''component'', int10 (str_at parts 1)),
                (''protocol'', Str (to_lower p)), (''priority'', int10 (str_at parts 3)),
                (''ip'', str_at parts 4), (''address'', str_at parts 4),
                (''port'', int10 (str_at parts 5)), (''type'', str_at parts 7)]))"

definition writeCandidate :: "jsval props \<Rightarrow> string result" where
  "writeCandidate c =
     (case field c ''protocol'' of
        Str protocol \<Rightarrow>
          let sdp = [field c ''foundation'', field c ''component'', Str (to_upper protocol), field c ''priority'',
                     or_val (field c ''address'') (field c ''ip''), field c ''port'', Str ''typ'', field c ''type''];
              sdp = (if \<not> strict_eq (field c ''type'') (Str ''host'') \<and> truthy (field c ''relatedAddress'') \<and>
                        truthy (field c ''relatedPort'')
                     then sdp @ [Str ''raddr'', field c ''relatedAddress'', Str ''rport'', field c ''relatedPort'']
                     else sdp);
              sdp = (if truthy (field c ''tcpType'') \<and> to_lower protocol = ''tcp''
                     then sdp @ [Str ''tcptype'', field c ''tcpType''] else sdp);
              frag = or_val (field c ''usernameFragment'') (field c ''ufrag'');
              sdp = (if truthy frag then sdp @ [Str ''ufrag'', frag] else sdp)
          in Inr (''candidate:'' @ join_vals '' '' sdp)
      | _ \<Rightarrow> Inl TypeError)"

definition parseIceOptions :: "string \<Rightarrow> string list" where
  "parseIceOptions line = split_on (substr_from line 14) '' ''"

section \<open>Codecs and header extensions\<close>

record feedback =
  fb_type :: string
  fb_parameter :: string

record sdp_codec =
  payloadType :: jsval
  preferredPayloadType :: jsval
  codec_name :: string
  clockRate :: jsval
  channels :: jsval
  numChannels :: jsval
  parameters :: "jsval props"
  rtcpFeedback :: "feedback list"
  maxptime :: jsval

definition parseRtpMap :: "string \<Rightarrow> sdp_codec result" where
  "parseRtpMap line =
     (let parts = split_on (substr_from line 9) '' ''
      in case arr_at parts 1 of
           None \<Rightarrow> Inl TypeError
         | Some p \<Rightarrow>
             let ps = split_on p ''/'';
                 ch = (if length ps = 3 then int10 (str_at ps 2) else Num (num_of 1))
             in Inr \<lparr>payloadType = int10 (str_at parts 0), preferredPayloadType = Undef, codec_name = ps ! 0,
                     clockRate = int10 (str_at ps 1), channels = ch, numChannels = ch, parameters = [],
                     rtcpFeedback = [], maxptime = Undef\<rparr>)"

definition codec_pt :: "sdp_codec \<Rightarrow> jsval" where
  "codec_pt c = (if preferredPayloadType c \<noteq> Undef then preferredPayloadType c else payloadType c)"

definition writeRtpMap :: "sdp_codec \<Rightarrow> string" where
  "writeRtpMap c =
     (let ch = or_val (or_val (channels c) (numChannels c)) (Num (num_of 1))
      in ''a=rtpmap:'' @ to_str (codec_pt c) @ '' '' @ codec_name c @ ''/'' @ to_str (clockRate c) @
         (if \<not> strict_eq ch (Num (num_of 1)) then ''/'' @ to_str ch else []) @ crlf)"

record extension =
  ext_id :: jsval
  ext_preferredId :: jsval
  ext_direction :: jsval
  ext_uri :: jsval

definition parseExtmap :: "string \<Rightarrow> extension" where
  "parseExtmap line =
     (let parts = split_on (substr_from line 9) '' ''; p = parts ! 0
      in \<lparr>ext_id = int10 (Str p), ext_preferredId = Undef,
          ext_direction = (if 0 < index_of p ''/'' then str_at (split_on p ''/'') 1 else Str ''sendrecv''),
          ext_uri = str_at parts 1\<rparr>)"

definition writeExtmap :: "extension \<Rightarrow> string" where
  "writeExtmap e =
     ''a=extmap:'' @ to_str (or_val (ext_id e) (ext_preferredId e)) @
     (if truthy (ext_direction e) \<and> \<not> strict_eq (ext_direction e) (Str ''sendrecv'')
      then ''/'' @ to_str (ext_direction e) else []) @
     '' '' @ to_str (ext_uri e) @ crlf"

definition after_space :: "string \<Rightarrow> string" where
  "after_space line = substr_from line (index_of line '' '' + 1)"

fun fmtp_loop :: "string list \<Rightarrow> jsval props \<Rightarrow> jsval props" where
  "fmtp_loop [] parsed = parsed"
| "fmtp_loop (p # ps) parsed =
     (let kv = split_on (trim_ws p) ''='' in fmtp_loop ps (assign_prop parsed (trim_ws (kv ! 0)) (str_at kv 1)))"

definition parseFmtp :: "string \<Rightarrow> jsval props" where
  "parseFmtp line = fmtp_loop (split_on (after_space line) '';'') []"

definition writeFmtp :: "sdp_codec \<Rightarrow> string" where
  "writeFmtp c =
     (if parameters c \<noteq> []
      then ''a=fmtp:'' @ to_str (codec_pt c) @ '' '' @
           join '';'' (map (\<lambda>(k, v). if truthy v then k @ ''='' @ to_str v else k) (parameters c)) @ crlf
      else [])"

definition parseRtcpFb :: "string \<Rightarrow> feedback" where
  "parseRtcpFb line =
     (let parts = split_on (after_space line) '' ''
      in \<lparr>fb_type = hd parts, fb_parameter = join '' '' (tl parts)\<rparr>)"

definition writeRtcpFb :: "sdp_codec \<Rightarrow> string" where
  "writeRtcpFb c =
     concat (map (\<lambda>fb. ''a=rtcp-fb:'' @ to_str (codec_pt c) @ '' '' @ fb_type fb @
       (if fb_parameter fb \<noteq> [] then '' '' @ fb_parameter fb else []) @ crlf) (rtcpFeedback c))"

section \<open>Sources\<close>

record ssrc_media =
  ss_ssrc :: jsval
  ss_attribute :: string
  ss_value :: jsval

definition parseSsrcMedia :: "string \<Rightarrow> ssrc_media" where
  "parseSsrcMedia line =
     (let sp = index_of line '' '';
          ssrc = int10 (Str (substr line 7 (sp - 7)));
          colon = index_from line '':'' sp
      in if - 1 < colon
         then \<lparr>ss_ssrc = ssrc, ss_attribute = substr line (sp + 1) (colon - sp - 1),
               ss_value = Str (substr_from line (colon + 1))\<rparr>
         else \<lparr>ss_ssrc = ssrc, ss_attribute = substr_from line (sp + 1), ss_value = Undef\<rparr>)"

definition parseSsrcGroup :: "string \<Rightarrow> string \<times> jsval list" where
  "parseSsrcGroup line =
     (let parts = split_on (substr_from line 13) '' '' in (hd parts, map (\<lambda>p. int10 (Str p)) (tl parts)))"

definition getMid :: "string \<Rightarrow> jsval" where
  "getMid mediaSection =
     (case first_match mediaSection ''a=mid:'' of Some mid \<Rightarrow> Str (substr_from mid 6) | None \<Rightarrow> Undef)"

section \<open>Security and connection parameters\<close>

record fingerprint =
  fp_algorithm :: string
  fp_value :: jsval

definition parseFingerprint :: "string \<Rightarrow> fingerprint" where
  "parseFingerprint line =
     (let parts = split_on (substr_from line 14) '' ''
      in \<lparr>fp_algorithm = to_lower (parts ! 0), fp_value = str_at parts 1\<rparr>)"

definition getDtlsParameters :: "string \<Rightarrow> string \<Rightarrow> fingerprint list" where
  "getDtlsParameters mediaSection sessionpart =
     map parseFingerprint (matchPrefix (mediaSection @ sessionpart) ''a=fingerprint:'')"

definition writeDtlsParameters :: "fingerprint list \<Rightarrow> string \<Rightarrow> string" where
  "writeDtlsParameters fps setup =
     ''a=setup:'' @ setup @ crlf @
     concat (map (\<lambda>fp. ''a=fingerprint:'' @ fp_algorithm fp @ '' '' @ to_str (fp_value fp) @ crlf) fps)"

record key_params =
  kp_method :: string
  kp_salt :: string
  kp_lifeTime :: jsval
  kp_mkiValue :: jsval
  kp_mkiLength :: jsval

definition parseCryptoKeyParams :: "string \<Rightarrow> key_params option" where
  "parseCryptoKeyParams s =
     (if index_of s ''inline:'' \<noteq> 0 then None
      else let parts = split_on (substr_from s 7) ''|'';
               mki = (case arr_at parts 2 of Some m \<Rightarrow> if m = [] then None else Some (split_on m '':'') | None \<Rightarrow> None)
           in Some \<lparr>kp_method = ''inline'', kp_salt = parts ! 0, kp_lifeTime = str_at parts 1,
                    kp_mkiValue = (case mki of Some m \<Rightarrow> str_at m 0 | None \<Rightarrow> Undef),
                    kp_mkiLength = (case mki of Some m \<Rightarrow> str_at m 1 | None \<Rightarrow> Undef)\<rparr>)"

definition writeCryptoKeyParams :: "key_params \<Rightarrow> string" where
  "writeCryptoKeyParams k =
     kp_method k @ '':'' @ kp_salt k @
     (if truthy (kp_lifeTime k) then ''|'' @ to_str (kp_lifeTime k) else []) @
     (if truthy (kp_mkiValue k) \<and> truthy (kp_mkiLength k)
      then ''|'' @ to_str (kp_mkiValue k) @ '':'' @ to_str (kp_mkiLength k) else [])"

record crypto =
  cr_tag :: jsval
  cr_suite :: jsval
  cr_key :: "jsval + key_params"
  cr_session :: "string list option"

definition parseCryptoLine :: "string \<Rightarrow> crypto" where
  "parseCryptoLine line =
     (let parts = split_on (substr_from line 9) '' ''
      in \<lparr>cr_tag = int10 (str_at parts 0), cr_suite = str_at parts 1, cr_key = Inl (str_at parts 2),
          cr_session = Some (drop 3 parts)\<rparr>)"

definition writeCryptoLine :: "crypto \<Rightarrow> string" where
  "writeCryptoLine c =
     ''a=crypto:'' @ to_str (cr_tag c) @ '' '' @ to_str (cr_suite c) @ '' '' @
     (case cr_key c of Inr k \<Rightarrow> writeCryptoKeyParams k | Inl v \<Rightarrow> to_str v) @
     (case cr_session c of Some ps \<Rightarrow> '' '' @ join '' '' ps | None \<Rightarrow> []) @ crlf"

definition getCryptoParameters :: "string \<Rightarrow> string \<Rightarrow> crypto list" where
  "getCryptoParameters mediaSection sessionpart =
     map parseCryptoLine (matchPrefix (mediaSection @ sessionpart) ''a=crypto:'')"

record ice_params =
  usernameFragment :: string
  password :: string

definition getIceParameters :: "string \<Rightarrow> string \<Rightarrow> ice_params option" where
  "getIceParameters mediaSection sessionpart =
     (case (first_match (mediaSection @ sessionpart) ''a=ice-ufrag:'',
            first_match (mediaSection @ sessionpart) ''a=ice-pwd:'') of
        (Some ufrag, Some pwd) \<Rightarrow> Some \<lparr>usernameFragment = substr_from ufrag 12, password = substr_from pwd 10\<rparr>
      | _ \<Rightarrow> None)"

definition writeIceParameters :: "ice_params \<Rightarrow> string" where
  "writeIceParameters p = ''a=ice-ufrag:'' @ usernameFragment p @ crlf @ ''a=ice-pwd:'' @ password p @ crlf"

section \<open>Media descriptions\<close>

record description =
  codecs :: "sdp_codec list"
  headerExtensions :: "extension list"
  fecMechanisms :: "string list"

fun media_codecs :: "string \<Rightarrow> string list \<Rightarrow> description \<Rightarrow> description result" where
  "media_codecs media [] d = Inr d"
| "media_codecs media (pt # pts) d =
     (case first_match media (''a=rtpmap:'' @ pt @ '' '') of
        None \<Rightarrow> media_codecs media pts d
      | Some line \<Rightarrow>
          bind_result (parseRtpMap line) (\<lambda>c.
            let fmtps = matchPrefix media (''a=fmtp:'' @ pt @ '' '');
                c = c\<lparr>parameters := (if fmtps \<noteq> [] then parseFmtp (hd fmtps) else []),
                      rtcpFeedback := map parseRtcpFb (matchPrefix media (''a=rtcp-fb:'' @ pt @ '' ''))\<rparr>;
                up = to_upper (codec_name c);
                d = d\<lparr>codecs := codecs d @ [c],
                      fecMechanisms := fecMechanisms d @ (if up = ''RED'' \<or> up = ''ULPFEC'' then [up] else [])\<rparr>
            in media_codecs media pts d))"

definition parseRtpParameters :: "string \<Rightarrow> description result" where
  "parseRtpParameters media =
     (let mline = split_on (hd (splitLines media)) '' ''
      in bind_result (media_codecs media (drop 3 mline) \<lparr>codecs = [], headerExtensions = [], fecMechanisms = []\<rparr>)
           (\<lambda>d. Inr (d\<lparr>headerExtensions := map parseExtmap (matchPrefix media ''a=extmap:'')\<rparr>)))"

definition max_ptime :: "sdp_codec list \<Rightarrow> jsval" where
  "max_ptime cs =
     foldl (\<lambda>m c. if num_less (to_num m) (to_num (maxptime c)) then maxptime c else m) (Num (num_of 0)) cs"

definition writeRtpDescription :: "string \<Rightarrow> sdp_codec list \<Rightarrow> extension list \<Rightarrow> string" where
  "writeRtpDescription kind cs exts =
     ''m='' @ kind @ '' '' @ (if 0 < length cs then ''9'' else ''0'') @ '' UDP/TLS/RTP/SAVPF '' @
     join_vals '' '' (map codec_pt cs) @ crlf @
     ''c=IN IP4 0.0.0.0'' @ crlf @
     ''a=rtcp:9 IN IP4 0.0.0.0'' @ crlf @
     concat (map (\<lambda>c. writeRtpMap c @ writeFmtp c @ writeRtcpFb c) cs) @
     (if num_less (num_of 0) (to_num (max_ptime cs)) then ''a=maxptime:'' @ to_str (max_ptime cs) @ crlf else []) @
     ''a=rtcp-mux'' @ crlf @ concat (map writeExtmap exts)"

text \<open>\<open>JSON.parse(JSON.stringify(v))\<close> of the tables built here: a number that is not finite becomes \<open>null\<close>.\<close>

definition json_number :: "jsval \<Rightarrow> jsval" where
  "json_number v = (case v of Num (Fin x) \<Rightarrow> v | Num _ \<Rightarrow> Null | _ \<Rightarrow> v)"

definition json_clone :: "jsval props \<Rightarrow> jsval props" where
  "json_clone ps =
     map (\<lambda>(k, v). (k, case v of Obj qs \<Rightarrow> Obj (map (\<lambda>(k, v). (k, json_number v)) qs) | _ \<Rightarrow> json_number v)) ps"

definition cname_sources :: "string \<Rightarrow> ssrc_media list" where
  "cname_sources media =
     filter (\<lambda>p. ss_attribute p = ''cname'') (map parseSsrcMedia (matchPrefix media ''a=ssrc:''))"

definition rtx_encodings :: "jsval \<Rightarrow> jsval \<Rightarrow> bool \<Rightarrow> bool \<Rightarrow> sdp_codec \<Rightarrow> jsval props list" where
  "rtx_encodings primary secondary hasRed hasUlpfec c =
     (if to_upper (codec_name c) = ''RTX'' \<and> truthy (field (parameters c) ''apt'')
      then let e = [(''ssrc'', primary), (''codecPayloadType'', int10 (field (parameters c) ''apt''))];
               e = (if truthy primary \<and> truthy secondary then e @ [(''rtx'', Obj [(''ssrc'', secondary)])] else e)
           in e # (if hasRed
                   then [json_clone e @ [(''fec'', Obj [(''ssrc'', primary),
                           (''mechanism'', Str (if hasUlpfec then ''red+ulpfec'' else ''red''))])]]
                   else [])
      else [])"

definition media_bandwidth :: "string list \<Rightarrow> jsval" where
  "media_bandwidth lines =
     (let b = hd lines
      in if index_of b ''b=TIAS:'' = 0 then int10 (Str (substr_from b 7))
         else if index_of b ''b=AS:'' = 0
         then Num (num_sub (num_mul (num_mul (parse10 (substr_from b 5)) (num_of 1000)) (fl (95 / 100))) (num_of 16000))
         else Undef)"

definition parseRtpEncodingParameters :: "string \<Rightarrow> jsval props list result" where
  "parseRtpEncodingParameters media =
     bind_result (parseRtpParameters media) (\<lambda>d.
       let hasRed = (''RED'' \<in> set (fecMechanisms d));
           hasUlpfec = (''ULPFEC'' \<in> set (fecMechanisms d));
           ssrcs = cname_sources media;
           primary = (if 0 < length ssrcs then ss_ssrc (ssrcs ! 0) else Bool False);
           flows = map (\<lambda>line. map (\<lambda>p. int10 (Str p)) (split_on (substr_from line 17) '' ''))
                     (matchPrefix media ''a=ssrc-group:FID'');
           secondary = (if 0 < length flows \<and> 1 < length (flows ! 0) \<and> strict_eq (flows ! 0 ! 0) primary
                        then flows ! 0 ! 1 else Undef);
           es = concat (map (rtx_encodings primary secondary hasRed hasUlpfec) (codecs d));
           es = (if es = [] \<and> truthy primary then [[(''ssrc'', primary)]] else es);
           bw = matchPrefix media ''b=''
       in Inr (if bw \<noteq> [] then map (\<lambda>e. prop_set e ''maxBitrate'' (media_bandwidth bw)) es else es))"

definition parseRtcpParameters :: "string \<Rightarrow> jsval props" where
  "parseRtcpParameters media =
     (let rsize = matchPrefix media ''a=rtcp-rsize''; mux = matchPrefix media ''a=rtcp-mux''
      in (case arr_at (cname_sources media) 0 of
            Some s \<Rightarrow> [(''cname'', ss_value s), (''ssrc'', ss_ssrc s)] | None \<Rightarrow> []) @
         [(''reducedSize'', Bool (0 < length rsize)), (''compound'', Bool (length rsize = 0)),
          (''mux'', Bool (0 < length mux))])"

definition msid_parts :: "string \<Rightarrow> jsval" where
  "msid_parts s =
     (let parts = split_on s '' '' in Obj [(''stream'', str_at parts 0), (''track'', str_at parts 1)])"

definition parseMsid :: "string \<Rightarrow> jsval result" where
  "parseMsid media =
     (let spec = matchPrefix media ''a=msid:''
      in if length spec = 1 then Inr (msid_parts (substr_from (spec ! 0) 7))
         else let planB = filter (\<lambda>p. ss_attribute p = ''msid'') (map parseSsrcMedia (matchPrefix media ''a=ssrc:''))
              in if 0 < length planB
                 then (case ss_value (planB ! 0) of Str v \<Rightarrow> Inr (msid_parts v) | _ \<Rightarrow> Inl TypeError)
                 else Inr Undef)"

record mline =
  ml_kind :: string
  ml_port :: jsval
  ml_protocol :: jsval
  ml_fmt :: string

definition parseMLine :: "string \<Rightarrow> mline" where
  "parseMLine media =
     (let parts = split_on (substr_from (hd (splitLines media)) 2) '' ''
      in \<lparr>ml_kind = parts ! 0, ml_port = int10 (str_at parts 1), ml_protocol = str_at parts 2,
          ml_fmt = join '' '' (drop 3 parts)\<rparr>)"

definition parseSctpDescription :: "string \<Rightarrow> jsval" where
  "parseSctpDescription media =
     (let mx = (case first_match media ''a=max-message-size:'' of
                  Some l \<Rightarrow> parse10 (substr_from l 19) | None \<Rightarrow> NaN);
          mx = Num (if mx = NaN then num_of 65536 else mx)
      in case first_match media ''a=sctp-port:'' of
           Some l \<Rightarrow> Obj [(''port'', int10 (Str (substr_from l 12))), (''protocol'', Str (ml_fmt (parseMLine media))),
                         (''maxMessageSize'', mx)]
         | None \<Rightarrow>
             (case first_match media ''a=sctpmap:'' of
                Some l \<Rightarrow>
                  let parts = split_on (substr_from l 10) '' ''
                  in Obj [(''port'', int10 (str_at parts 0)), (''protocol'', str_at parts 1), (''maxMessageSize'', mx)]
              | None \<Rightarrow> Undef))"

definition writeSctpDescription :: "string \<Rightarrow> string \<Rightarrow> jsval \<Rightarrow> jsval \<Rightarrow> jsval \<Rightarrow> string" where
  "writeSctpDescription kind protocol sctp_protocol sctp_port mx =
     (if protocol \<noteq> ''DTLS/SCTP''
      then ''m='' @ kind @ '' 9 '' @ protocol @ '' '' @ to_str sctp_protocol @ crlf @
           ''c=IN IP4 0.0.0.0'' @ crlf @ ''a=sctp-port:'' @ to_str sctp_port @ crlf
      else ''m='' @ kind @ '' 9 '' @ protocol @ '' '' @ to_str sctp_port @ crlf @
           ''c=IN IP4 0.0.0.0'' @ crlf @
           ''a=sctpmap:'' @ to_str sctp_port @ '' '' @ to_str sctp_protocol @ '' 65535'' @ crlf) @
     (if mx \<noteq> Undef then ''a=max-message-size:'' @ to_str mx @ crlf else [])"

text \<open>\<open>random\<close> stands for the generated session identifier.\<close>

definition writeSessionBoilerplate :: "jsval \<Rightarrow> jsval \<Rightarrow> jsval \<Rightarrow> string \<Rightarrow> string" where
  "writeSessionBoilerplate sessId sessVer sessUser random =
     (let version = (if sessVer \<noteq> Undef then sessVer else Num (num_of 2));
          session = (if truthy sessId then to_str sessId else random);
          user = or_val sessUser (Str ''thisisadapterortc'')
      in ''v=0'' @ crlf @ ''o='' @ to_str user @ '' '' @ session @ '' '' @ to_str version @ '' IN IP4 127.0.0.1'' @ crlf @
         ''s=-'' @ crlf @ ''t=0 0'' @ crlf)"

text \<open>What a media section is written from; an encoding is its source and the source of its retransmission.\<close>

record transceiver =
  tr_kind :: string
  tr_ice :: ice_params
  tr_dtls :: "fingerprint list"
  tr_mid :: jsval
  tr_direction :: jsval
  tr_sender :: "string option"
  tr_receiver :: bool
  tr_encodings :: "(jsval \<times> jsval option) list"

definition direction_line :: "transceiver \<Rightarrow> string" where
  "direction_line t =
     (if truthy (tr_direction t) then ''a='' @ to_str (tr_direction t)
      else if tr_sender t \<noteq> None \<and> tr_receiver t then ''a=sendrecv''
      else if tr_sender t \<noteq> None then ''a=sendonly''
      else if tr_receiver t then ''a=recvonly'' else ''a=inactive'')"

definition ssrc_line :: "jsval \<Rightarrow> string \<Rightarrow> string" where
  "ssrc_line ssrc what = ''a=ssrc:'' @ to_str ssrc @ '' '' @ what @ crlf"

definition writeMediaSection ::
    "transceiver \<Rightarrow> sdp_codec list \<Rightarrow> extension list \<Rightarrow> string \<Rightarrow> string option \<Rightarrow> string \<Rightarrow> string result" where
  "writeMediaSection t cs exts kind_of_sdp stream cname =
     (case tr_encodings t of
        [] \<Rightarrow> Inl TypeError
      | (ssrc, rtx) # _ \<Rightarrow>
          let sdp = writeRtpDescription (tr_kind t) cs exts @ writeIceParameters (tr_ice t) @
                    writeDtlsParameters (tr_dtls t) (if kind_of_sdp = ''offer'' then ''actpass'' else ''active'') @
                    ''a=mid:'' @ to_str (tr_mid t) @ crlf @ direction_line t @ crlf;
              names = ssrc_line ssrc (''cname:'' @ cname) @
                      (case (tr_sender t, rtx) of
                         (Some _, Some r) \<Rightarrow> ssrc_line r (''cname:'' @ cname) | _ \<Rightarrow> [])
          in (case tr_sender t of
                None \<Rightarrow> Inr (sdp @ names)
              | Some tk \<Rightarrow>
                  (case stream of
                     None \<Rightarrow> Inl TypeError
                   | Some sid \<Rightarrow>
                       let msid = ''msid:'' @ sid @ '' '' @ tk
                       in Inr (sdp @ ''a='' @ msid @ crlf @ ssrc_line ssrc msid @
                            (case rtx of
                               None \<Rightarrow> []
                             | Some r \<Rightarrow> ssrc_line r msid @
                                 ''a=ssrc-group:FID '' @ to_str ssrc @ '' '' @ to_str r @ crlf) @ names))))"

definition direction_in :: "string \<Rightarrow> string option" where
  "direction_in media =
     map_option (\<lambda>l. substr_from l 2)
       (find (\<lambda>l. l \<in> {''a=sendrecv'', ''a=sendonly'', ''a=recvonly'', ''a=inactive''}) (splitLines media))"

definition getDirection :: "string \<Rightarrow> string \<Rightarrow> string" where
  "getDirection media sessionpart =
     (case direction_in media of
        Some d \<Rightarrow> d
      | None \<Rightarrow> if sessionpart \<noteq> [] then (case direction_in sessionpart of Some d \<Rightarrow> d | None \<Rightarrow> ''sendrecv'')
                else ''sendrecv'')"

definition getKind :: "string \<Rightarrow> string" where
  "getKind media = substr_from (split_on (hd (splitLines media)) '' '' ! 0) 2"

definition isRejected :: "string \<Rightarrow> bool" where
  "isRejected media = (arr_at (split_on media '' '') 1 = Some ''0'')"

definition parseOLine :: "string \<Rightarrow> jsval props result" where
  "parseOLine media =
     (case first_match media ''o='' of
        None \<Rightarrow> Inl TypeError
      | Some line \<Rightarrow>
          let parts = split_on (substr_from line 2) '' ''
          in Inr [(''username'', str_at parts 0), (''sessionId'', str_at parts 1),
                  (''sessionVersion'', int10 (str_at parts 2)), (''netType'', str_at parts 3),
                  (''addressType'', str_at parts 4), (''address'', str_at parts 5)])"

definition isValidSDP :: "jsval \<Rightarrow> bool" where
  "isValidSDP blob =
     (case blob of
        Str s \<Rightarrow> s \<noteq> [] \<and> list_all (\<lambda>l. 2 \<le> length l \<and> l ! 1 = CHR ''='') (splitLines s)
      | _ \<Rightarrow> False)"

end
