(* ===== verification/SdpDescription.thy ===== *)
theory SdpDescription
  imports Sdp
begin

text \<open>
  Round trips of the session description helpers: lines that are written are the lines that are read
  (\<open>splitLines_text\<close>), and with them candidates and whole media descriptions (codecs with their format
  parameters and feedback, header extensions) are parsed back from what the writers produce.
\<close>

section \<open>Lines of a text\<close>

definition line_ok :: "string \<Rightarrow> bool" where
  "line_ok l \<longleftrightarrow> l \<noteq> [] \<and> nl \<notin> set l \<and> \<not> is_space (hd l) \<and> \<not> is_space (last l)"

definition text_of :: "string list \<Rightarrow> string" where
  "text_of ls = concat (map (\<lambda>l. l @ crlf) ls)"

lemma text_of_simps [simp]:
  "text_of [] = []" "text_of (l # ls) = l @ crlf @ text_of ls" "text_of (ls @ ls') = text_of ls @ text_of ls'"
  by (simp_all add: text_of_def)

lemma crlf_space: "list_all is_space crlf"
  by (simp add: crlf_def is_space_def)

lemma dropWhile_all: "list_all P u \<Longrightarrow> dropWhile P (u @ v) = dropWhile P v"
  by (induction u) auto

lemma trim_ws_line:
  assumes "l \<noteq> []" "\<not> is_space (hd l)" "\<not> is_space (last l)" "list_all is_space w"
  shows "trim_ws (l @ w) = l"
proof -
  have "dropWhile is_space (l @ w) = l @ w" using assms(1,2) by (cases l) auto
  moreover have "dropWhile is_space (rev (l @ w)) = rev l"
  proof -
    have "list_all is_space (rev w)" using assms(4) by (simp add: list_all_iff)
    then have "dropWhile is_space (rev (l @ w)) = dropWhile is_space (rev l)" by (simp add: dropWhile_all)
    also have "\<dots> = rev l" using assms(1,3) by (cases "rev l") (auto simp: last_rev [symmetric] hd_rev)
    finally show ?thesis .
  qed
  ultimately show ?thesis by (simp add: trim_ws_def)
qed

lemma trim_line: "line_ok l \<Longrightarrow> trim_ws l = l"
  using trim_ws_line [of l "[]"] by (simp add: line_ok_def)

lemma trim_line_cr: "line_ok l \<Longrightarrow> trim_ws (l @ [CHR 0x0D]) = l"
  using trim_ws_line [of l "[CHR 0x0D]"] by (simp add: line_ok_def is_space_def)

lemma text_of_join: "ls \<noteq> [] \<Longrightarrow> text_of ls = join crlf ls @ crlf"
  by (induction crlf ls rule: join.induct) simp_all

lemma split_lines_raw:
  "list_all line_ok ls \<Longrightarrow> ls \<noteq> [] \<Longrightarrow> map trim_ws (split_on (join crlf ls) [nl]) = ls"
proof (induction ls)
  case (Cons l ls)
  show ?case
  proof (cases ls)
    case Nil
    then show ?thesis using Cons.prems by (simp add: line_ok_def split_on_single trim_line)
  next
    case (Cons l' ls')
    have "nl \<notin> set (l @ [CHR 0x0D])" using Cons.prems by (simp add: line_ok_def nl_def)
    from split_on_cons [OF this, of "join crlf ls"]
    have "split_on (join crlf (l # ls)) [nl] = (l @ [CHR 0x0D]) # split_on (join crlf ls) [nl]"
      using Cons by (simp add: crlf_def nl_def)
    then show ?thesis using Cons Cons.IH Cons.prems trim_line_cr by simp
  qed
qed simp

lemma hd_join: "line_ok (hd ls) \<Longrightarrow> ls \<noteq> [] \<Longrightarrow> hd (join crlf ls) = hd (hd ls) \<and> join crlf ls \<noteq> []"
  by (cases ls; cases "tl ls") (auto simp: line_ok_def)

lemma last_join: "list_all line_ok ls \<Longrightarrow> ls \<noteq> [] \<Longrightarrow> last (join crlf ls) = last (last ls)"
proof (induction crlf ls rule: join.induct)
  case (3 x y ys)
  then have "join crlf (y # ys) \<noteq> []" using hd_join [of "y # ys"] by simp
  then show ?case using 3 by simp
qed simp_all

lemma splitLines_text:
  assumes "list_all line_ok ls" "ls \<noteq> []" shows "splitLines (text_of ls) = ls"
proof -
  have "line_ok (hd ls)" "line_ok (last ls)" using assms by (simp_all add: list_all_iff)
  then have "trim_ws (join crlf ls @ crlf) = join crlf ls"
    using hd_join [of ls] last_join [OF assms] assms(2) crlf_space by (intro trim_ws_line) (auto simp: line_ok_def)
  then show ?thesis using split_lines_raw [OF assms] by (simp add: splitLines_def text_of_join [OF assms(2)])
qed

lemma matchPrefix_text:
  assumes "list_all line_ok ls" "ls \<noteq> []" shows "matchPrefix (text_of ls) p = filter (prefix p) ls"
  by (simp add: matchPrefix_def splitLines_text [OF assms])

section \<open>Words and numbers in a line\<close>

definition word_ok :: "string \<Rightarrow> bool" where
  "word_ok w \<longleftrightarrow> w \<noteq> [] \<and> (\<forall>c \<in> set w. \<not> is_space c)"

lemma space_space: "is_space (CHR '' '')" "is_space nl" "is_space (CHR 0x0D)"
  by (simp_all add: is_space_def nl_def)

lemma digit_not_space: "is_digit c \<Longrightarrow> \<not> is_space c \<and> c \<noteq> CHR ''-'' \<and> c \<noteq> CHR ''+'' \<and> c \<noteq> CHR ''/'' \<and> c \<noteq> CHR '' ''"
  by (auto simp: is_digit_def is_space_def)

lemma digits_word: "0 \<le> n \<Longrightarrow> word_ok (digits n)"
  using digits_all_digit [of n] digit_not_space by (auto simp: word_ok_def list_all_iff)

lemma word_no_space: "word_ok w \<Longrightarrow> CHR '' '' \<notin> set w \<and> nl \<notin> set w"
  using space_space by (auto simp: word_ok_def)

lemma word_line: "word_ok w \<Longrightarrow> line_ok w"
  by (auto simp: word_ok_def line_ok_def space_space dest: word_no_space)

lemma parse10_digits:
  assumes "0 \<le> n" "n \<le> 2 ^ 53" "w = [] \<or> \<not> is_digit (hd w)"
  shows "parse10 (digits n @ w) = num_of n"
proof -
  have d: "list_all is_digit (digits n)" "digits n \<noteq> []" using digits_all_digit assms(1) by simp_all
  then have h: "is_digit (hd (digits n))" by (cases "digits n") simp_all
  have s: "dropWhile is_space (digits n @ w) = digits n @ w"
    using h d(2) digit_not_space by (cases "digits n") auto
  have t: "takeWhile is_digit (digits n @ w) = digits n"
    using d(1) assms(3) by (cases w) (auto simp: list_all_iff takeWhile_append)
  have m: "hd (digits n @ w) \<noteq> CHR ''-''" "hd (digits n @ w) \<notin> {CHR ''-'', CHR ''+''}"
    using h d(2) digit_not_space [of "hd (digits n)"] by simp_all
  have f: "fl (of_int n) = num_of n" using assms by (intro fl_of_int) simp
  show ?thesis using d(2) m unfolding parse10_def Let_def s by (simp add: t digits_val_digits assms(1) f)
qed

lemma int10_digits: "0 \<le> n \<Longrightarrow> n \<le> 2 ^ 53 \<Longrightarrow> int10 (Str (digits n)) = Num (num_of n)"
  using parse10_digits [of n "[]"] by (simp add: int10_def)

lemma to_str_num: "0 \<le> n \<Longrightarrow> n \<le> 2 ^ 53 \<Longrightarrow> to_str (Num (num_of n)) = digits n"
  using num_to_str_int by simp

lemma split_words: "ws \<noteq> [] \<Longrightarrow> \<forall>w \<in> set ws. word_ok w \<Longrightarrow> split_on (join '' '' ws) '' '' = ws"
  using word_no_space by (intro split_on_join) auto

lemma str_at_simps [simp]:
  "str_at [] i = Undef" "str_at (x # xs) 0 = Str x" "str_at (x # xs) (Suc i) = str_at xs i"
  by (simp_all add: str_at_def arr_at_def)

lemma drop_tag: "substr_from (t @ s) (int (length t)) = s"
  by (simp add: substr_from_def)

text \<open>The lines that start with a tag and a word, among lines of the same shape.\<close>

lemma takeWhile_tail_char: "c \<notin> set u \<Longrightarrow> takeWhile (\<lambda>d. d \<noteq> c) (u @ c # v) = u"
  by (induction u) auto

lemma prefix_tag_word:
  assumes "CHR '' '' \<notin> set u" "CHR '' '' \<notin> set v"
  shows "prefix (t @ u @ '' '') (t @ v @ CHR '' '' # w) \<longleftrightarrow> u = v"
proof
  assume "prefix (t @ u @ '' '') (t @ v @ CHR '' '' # w)"
  then obtain z where "u @ CHR '' '' # z = v @ CHR '' '' # w" by (auto simp: prefix_def)
  from arg_cong [OF this, of "takeWhile (\<lambda>c. c \<noteq> CHR '' '')"] show "u = v"
    using assms by (simp add: takeWhile_tail_char)
next
  assume "u = v"
  then show "prefix (t @ u @ '' '') (t @ v @ CHR '' '' # w)" by simp
qed

text \<open>
  A candidate with the usual fields: address and base, TCP type and user name fragment where it has them.
\<close>

definition candidate_table ::
    "string \<Rightarrow> int \<Rightarrow> string \<Rightarrow> int \<Rightarrow> string \<Rightarrow> int \<Rightarrow> string \<Rightarrow> (string \<times> int) option \<Rightarrow> string option \<Rightarrow>
     string option \<Rightarrow> jsval props" where
  "candidate_table f co proto prio ip pt ty rel tcp frag =
     [(''foundation'', Str f), (''component'', Num (num_of co)), (''protocol'', Str proto),
      (''priority'', Num (num_of prio)), (''ip'', Str ip), (''address'', Str ip), (''port'', Num (num_of pt)),
      (''type'', Str ty)] @
     (case rel of None \<Rightarrow> [] | Some (a, p) \<Rightarrow> [(''relatedAddress'', Str a), (''relatedPort'', Num (num_of p))]) @
     (case tcp of None \<Rightarrow> [] | Some t \<Rightarrow> [(''tcpType'', Str t)]) @
     (case frag of None \<Rightarrow> [] | Some u \<Rightarrow> [(''ufrag'', Str u), (''usernameFragment'', Str u)])"

definition candidate_words ::
    "string \<Rightarrow> int \<Rightarrow> string \<Rightarrow> int \<Rightarrow> string \<Rightarrow> int \<Rightarrow> string \<Rightarrow> (string \<times> int) option \<Rightarrow> string option \<Rightarrow>
     string option \<Rightarrow> string list" where
  "candidate_words f co proto prio ip pt ty rel tcp frag =
     [f, digits co, proto, digits prio, ip, digits pt, ''typ'', ty] @
     (case rel of None \<Rightarrow> [] | Some (a, p) \<Rightarrow> [''raddr'', a, ''rport'', digits p]) @
     (case tcp of None \<Rightarrow> [] | Some t \<Rightarrow> [''tcptype'', t]) @
     (case frag of None \<Rightarrow> [] | Some u \<Rightarrow> [''ufrag'', u])"

lemmas candidate_fields = candidate_table_def field_def prop_get_def

lemma candidate_written:
  assumes "0 \<le> co" "co \<le> 2 ^ 53" "0 \<le> prio" "prio \<le> 2 ^ 53" "0 \<le> pt" "pt \<le> 2 ^ 53" "ip \<noteq> []"
    and "\<And>a p. rel = Some (a, p) \<Longrightarrow> ty \<noteq> ''host'' \<and> a \<noteq> [] \<and> 0 < p \<and> p \<le> 2 ^ 53"
    and "\<And>t. tcp = Some t \<Longrightarrow> to_lower proto = ''tcp'' \<and> t \<noteq> []" and "\<And>u. frag = Some u \<Longrightarrow> u \<noteq> []"
  shows "writeCandidate (candidate_table f co proto prio ip pt ty rel tcp frag) =
    Inr (''candidate:'' @ join '' '' (candidate_words f co (to_upper proto) prio ip pt ty rel tcp frag))"
proof -
  let ?c = "candidate_table f co proto prio ip pt ty rel tcp frag"
  have n: "num_to_str (num_of co) = digits co" "num_to_str (num_of prio) = digits prio" "num_to_str (num_of pt) = digits pt"
    using assms(1-6) by (simp_all only: num_to_str_int)
  have c: "field ?c ''foundation'' = Str f" "field ?c ''component'' = Num (num_of co)" "field ?c ''protocol'' = Str proto"
    "field ?c ''priority'' = Num (num_of prio)" "field ?c ''address'' = Str ip" "field ?c ''port'' = Num (num_of pt)"
    "field ?c ''type'' = Str ty"
    by (simp_all add: candidate_fields)
  have r: "field ?c ''relatedAddress'' = (case rel of None \<Rightarrow> Undef | Some (a, p) \<Rightarrow> Str a)"
    "field ?c ''relatedPort'' = (case rel of None \<Rightarrow> Undef | Some (a, p) \<Rightarrow> Num (num_of p))"
    "field ?c ''tcpType'' = (case tcp of None \<Rightarrow> Undef | Some t \<Rightarrow> Str t)"
    "field ?c ''usernameFragment'' = (case frag of None \<Rightarrow> Undef | Some u \<Rightarrow> Str u)"
    "field ?c ''ufrag'' = (case frag of None \<Rightarrow> Undef | Some u \<Rightarrow> Str u)"
    by (simp_all add: candidate_fields split: option.split)
  let ?rel = "case rel of None \<Rightarrow> [] | Some (a, p) \<Rightarrow> [Str ''raddr'', Str a, Str ''rport'', Num (num_of p)]"
  let ?tcp = "case tcp of None \<Rightarrow> [] | Some t \<Rightarrow> [Str ''tcptype'', Str t]"
  let ?frag = "case frag of None \<Rightarrow> [] | Some u \<Rightarrow> [Str ''ufrag'', Str u]"
  let ?base = "[Str f, Num (num_of co), Str (to_upper proto), Num (num_of prio), Str ip, Num (num_of pt), Str ''typ'', Str ty]"
  have "writeCandidate ?c = Inr (''candidate:'' @ join_vals '' '' (?base @ ?rel @ ?tcp @ ?frag))"
  proof -
    have 1: "(if \<not> strict_eq (Str ty) (Str ''host'') \<and> truthy (case rel of None \<Rightarrow> Undef | Some (a, p) \<Rightarrow> Str a) \<and>
        truthy (case rel of None \<Rightarrow> Undef | Some (a, p) \<Rightarrow> Num (num_of p))
      then x @ [Str ''raddr'', case rel of None \<Rightarrow> Undef | Some (a, p) \<Rightarrow> Str a, Str ''rport'',
        case rel of None \<Rightarrow> Undef | Some (a, p) \<Rightarrow> Num (num_of p)] else x) = x @ ?rel" for x
      using assms(8) by (cases rel) (auto simp: strict_eq_def)
    have 2: "(if truthy (case tcp of None \<Rightarrow> Undef | Some t \<Rightarrow> Str t) \<and> to_lower proto = ''tcp''
      then x @ [Str ''tcptype'', case tcp of None \<Rightarrow> Undef | Some t \<Rightarrow> Str t] else x) = x @ ?tcp" for x
      using assms(9) by (cases tcp) auto
    have o: "or_val v v = v" for v by (simp add: or_val_def)
    have 3: "(if truthy (case frag of None \<Rightarrow> Undef | Some u \<Rightarrow> Str u)
      then x @ [Str ''ufrag'', case frag of None \<Rightarrow> Undef | Some u \<Rightarrow> Str u] else x) = x @ ?frag" for x
      using assms(10) by (cases frag) auto
    show ?thesis
      unfolding writeCandidate_def c r jsval.case Let_def o 1 2 3 using assms(7) by (simp add: or_val_def)
  qed
  moreover have "map (\<lambda>v. if nullish v then [] else to_str v) (?base @ ?rel @ ?tcp @ ?frag) =
      candidate_words f co (to_upper proto) prio ip pt ty rel tcp frag"
    using n num_to_str_int assms(8)
    by (auto simp: candidate_words_def nullish_def split: option.split)
  ultimately show ?thesis by (simp only: join_vals_def)
qed

lemma field_names_not_index:
  "\<not> is_index ''relatedAddress''" "\<not> is_index ''relatedPort''" "\<not> is_index ''tcpType''" "\<not> is_index ''ufrag''"
  "\<not> is_index ''usernameFragment''"
  by (code_simp)+

text \<open>Each optional group of words appends its properties.\<close>

lemma candidate_rest_raddr:
  assumes "''relatedAddress'' \<notin> fst ` set c" "''relatedPort'' \<notin> fst ` set c" "0 \<le> p" "p \<le> 2 ^ 53"
  shows "candidate_rest (''raddr'' # a # ''rport'' # digits p # ws) c =
    candidate_rest ws (c @ [(''relatedAddress'', Str a), (''relatedPort'', Num (num_of p))])"
proof -
  have 1: "prop_set c ''relatedAddress'' v = c @ [(''relatedAddress'', v)]" for v
    using assms(1) field_names_not_index by (intro prop_set_new) (simp_all add: prop_keys_def)
  have 2: "prop_set (c @ [(''relatedAddress'', v)]) ''relatedPort'' w =
      (c @ [(''relatedAddress'', v)]) @ [(''relatedPort'', w)]" for v w
    using assms(2) field_names_not_index by (intro prop_set_new) (simp_all add: prop_keys_def)
  show ?thesis by (simp add: candidate_put_def 1 2 [simplified] int10_digits [OF assms(3,4)])
qed

lemma candidate_rest_tcptype:
  assumes "''tcpType'' \<notin> fst ` set c"
  shows "candidate_rest (''tcptype'' # t # ws) c = candidate_rest ws (c @ [(''tcpType'', Str t)])"
proof -
  have "prop_set c ''tcpType'' (Str t) = c @ [(''tcpType'', Str t)]"
    using assms field_names_not_index by (intro prop_set_new) (simp_all add: prop_keys_def)
  then show ?thesis by (simp add: candidate_put_def)
qed

lemma candidate_rest_ufrag:
  assumes "''ufrag'' \<notin> fst ` set c" "''usernameFragment'' \<notin> fst ` set c"
  shows "candidate_rest (''ufrag'' # u # ws) c =
    candidate_rest ws (c @ [(''ufrag'', Str u), (''usernameFragment'', Str u)])"
proof -
  have 1: "prop_set c ''ufrag'' v = c @ [(''ufrag'', v)]" for v
    using assms(1) field_names_not_index by (intro prop_set_new) (simp_all add: prop_keys_def)
  have 2: "prop_set (c @ [(''ufrag'', v)]) ''usernameFragment'' w =
      (c @ [(''ufrag'', v)]) @ [(''usernameFragment'', w)]" for v w
    using assms(2) field_names_not_index by (intro prop_set_new) (simp_all add: prop_keys_def)
  show ?thesis by (simp add: candidate_put_def 1 2 [simplified])
qed

lemma candidate_parsed:
  assumes "\<forall>w \<in> set (candidate_words f co up prio ip pt ty rel tcp frag). word_ok w"
    and "0 \<le> co" "co \<le> 2 ^ 53" "0 \<le> prio" "prio \<le> 2 ^ 53" "0 \<le> pt" "pt \<le> 2 ^ 53"
    and "\<And>a p. rel = Some (a, p) \<Longrightarrow> 0 \<le> p \<and> p \<le> 2 ^ 53"
  shows "parseCandidate (''candidate:'' @ join '' '' (candidate_words f co up prio ip pt ty rel tcp frag)) =
    Inr (candidate_table f co (to_lower up) prio ip pt ty rel tcp frag)"
proof -
  let ?ws = "candidate_words f co up prio ip pt ty rel tcp frag"
  let ?line = "''candidate:'' @ join '' '' ?ws"
  let ?rest = "(case rel of None \<Rightarrow> [] | Some (a, p) \<Rightarrow> [''raddr'', a, ''rport'', digits p]) @
     (case tcp of None \<Rightarrow> [] | Some t \<Rightarrow> [''tcptype'', t]) @ (case frag of None \<Rightarrow> [] | Some u \<Rightarrow> [''ufrag'', u])"
  have 1: "substring ?line 10 (int (length ?line)) = join '' '' ?ws"
    by (simp add: substring_def clamp_index_def)
  have 2: "index_of ?line ''a=candidate:'' \<noteq> 0" by simp
  have 3: "split_on (join '' '' ?ws) '' '' = ?ws"
    using assms(1) by (intro split_words) (simp_all add: candidate_words_def)
  have 4: "?ws = [f, digits co, up, digits prio, ip, digits pt, ''typ'', ty] @ ?rest"
    by (simp add: candidate_words_def)
  let ?base = "[(''foundation'', Str f), (''component'', Num (num_of co)), (''protocol'', Str (to_lower up)),
      (''priority'', Num (num_of prio)), (''ip'', Str ip), (''address'', Str ip), (''port'', Num (num_of pt)),
      (''type'', Str ty)]"
  let ?b1 = "?base @ (case rel of None \<Rightarrow> [] | Some (a, p) \<Rightarrow> [(''relatedAddress'', Str a), (''relatedPort'', Num (num_of p))])"
  let ?b2 = "?b1 @ (case tcp of None \<Rightarrow> [] | Some t \<Rightarrow> [(''tcpType'', Str t)])"
  have a: "candidate_rest ((case rel of None \<Rightarrow> [] | Some (a, p) \<Rightarrow> [''raddr'', a, ''rport'', digits p]) @ ws) ?base =
      candidate_rest ws ?b1" for ws
  proof (cases rel)
    case (Some ap)
    then show ?thesis using assms(8) candidate_rest_raddr [of ?base "snd ap" "fst ap" ws] by (cases ap) simp
  qed simp
  have n1: "''tcpType'' \<notin> fst ` set ?b1" by (cases rel) auto
  have n2: "''ufrag'' \<notin> fst ` set ?b2" "''usernameFragment'' \<notin> fst ` set ?b2" by (cases rel; cases tcp; auto)+
  have b: "candidate_rest ((case tcp of None \<Rightarrow> [] | Some t \<Rightarrow> [''tcptype'', t]) @ ws) ?b1 = candidate_rest ws ?b2" for ws
    using candidate_rest_tcptype [OF n1, of _ ws] by (cases tcp) simp_all
  have c: "candidate_rest (case frag of None \<Rightarrow> [] | Some u \<Rightarrow> [''ufrag'', u]) ?b2 =
      candidate_table f co (to_lower up) prio ip pt ty rel tcp frag"
    using candidate_rest_ufrag [OF n2, of _ "[]"] unfolding candidate_table_def by (cases frag) simp_all
  have 5: "candidate_rest ?rest ?base = candidate_table f co (to_lower up) prio ip pt ty rel tcp frag"
    using a b c by presburger
  have 6: "(if index_of ?line ''a=candidate:'' = 0 then substring ?line 12 (int (length ?line))
      else substring ?line 10 (int (length ?line))) = join '' '' ?ws"
    using 1 2 by (simp only: if_False)
  show ?thesis
    unfolding parseCandidate_def Let_def 6 3 unfolding 4
    using 5 assms(2-7) by (simp add: arr_at_def str_at_def int10_digits)
qed

definition candidate_ok ::
    "string \<Rightarrow> int \<Rightarrow> string \<Rightarrow> int \<Rightarrow> string \<Rightarrow> int \<Rightarrow> string \<Rightarrow> (string \<times> int) option \<Rightarrow> string option \<Rightarrow>
     string option \<Rightarrow> bool" where
  "candidate_ok f co proto prio ip pt ty rel tcp frag \<longleftrightarrow>
     list_all word_ok (candidate_words f co (to_upper proto) prio ip pt ty rel tcp frag) \<and>
     to_lower (to_upper proto) = proto \<and>
     0 \<le> co \<and> co \<le> 2 ^ 53 \<and> 0 \<le> prio \<and> prio \<le> 2 ^ 53 \<and> 0 \<le> pt \<and> pt \<le> 2 ^ 53 \<and>
     (case rel of None \<Rightarrow> True | Some (a, p) \<Rightarrow> ty \<noteq> ''host'' \<and> 0 < p \<and> p \<le> 2 ^ 53) \<and>
     (case tcp of None \<Rightarrow> True | Some t \<Rightarrow> proto = ''tcp'')"

lemma candidate_there_and_back:
  assumes "candidate_ok f co proto prio ip pt ty rel tcp frag"
  shows "writeCandidate (candidate_table f co proto prio ip pt ty rel tcp frag) =
      Inr (''candidate:'' @ join '' '' (candidate_words f co (to_upper proto) prio ip pt ty rel tcp frag))"
    "parseCandidate (''candidate:'' @ join '' '' (candidate_words f co (to_upper proto) prio ip pt ty rel tcp frag)) =
      Inr (candidate_table f co proto prio ip pt ty rel tcp frag)"
proof -
  let ?up = "to_upper proto"
  have tcp: "to_lower ''tcp'' = ''tcp''" by code_simp
  have w: "\<forall>w \<in> set (candidate_words f co ?up prio ip pt ty rel tcp frag). word_ok w"
    and low: "to_lower ?up = proto"
    and n: "0 \<le> co" "co \<le> 2 ^ 53" "0 \<le> prio" "prio \<le> 2 ^ 53" "0 \<le> pt" "pt \<le> 2 ^ 53"
    using assms by (simp_all add: candidate_ok_def list_all_iff)
  have r: "ty \<noteq> ''host'' \<and> 0 < p \<and> p \<le> 2 ^ 53" if "rel = Some (a, p)" for a p
    using assms that by (simp add: candidate_ok_def)
  have t: "proto = ''tcp''" if "tcp = Some t" for t
    using assms that by (simp add: candidate_ok_def)
  have e: "ip \<noteq> []" "\<And>a p. rel = Some (a, p) \<Longrightarrow> a \<noteq> []" "\<And>t. tcp = Some t \<Longrightarrow> t \<noteq> []" "\<And>u. frag = Some u \<Longrightarrow> u \<noteq> []"
    using w by (auto simp: candidate_words_def word_ok_def)
  show "writeCandidate (candidate_table f co proto prio ip pt ty rel tcp frag) =
      Inr (''candidate:'' @ join '' '' (candidate_words f co ?up prio ip pt ty rel tcp frag))"
    using n e r t tcp by (intro candidate_written) auto
  have "parseCandidate (''candidate:'' @ join '' '' (candidate_words f co ?up prio ip pt ty rel tcp frag)) =
      Inr (candidate_table f co (to_lower ?up) prio ip pt ty rel tcp frag)"
    using r by (intro candidate_parsed w n) (auto intro: less_imp_le)
  then show "parseCandidate (''candidate:'' @ join '' '' (candidate_words f co ?up prio ip pt ty rel tcp frag)) =
      Inr (candidate_table f co proto prio ip pt ty rel tcp frag)" by (simp only: low)
qed

text \<open>
  C25. A candidate with lower-case protocol, the usual fields and, where it has them, a related address and
  port, a TCP type and a user name fragment survives being written and parsed again, for words without
  white space and whole numbers up to \<open>2 ^ 53\<close>; a related address is kept only away from type \<open>host\<close>.
\<close>

theorem candidate_round_trip:
  assumes "candidate_ok f co proto prio ip pt ty rel tcp frag"
  shows "bind_result (writeCandidate (candidate_table f co proto prio ip pt ty rel tcp frag)) parseCandidate =
    Inr (candidate_table f co proto prio ip pt ty rel tcp frag)"
  by (simp only: candidate_there_and_back [OF assms] bind_result_simps)

theorem candidate_round_trip_witness:
  "bind_result (writeCandidate (candidate_table ''842163049'' 1 ''udp'' 1677729535 ''203.0.113.7'' 56143 ''srflx''
     (Some (''10.0.1.5'', 56143)) None (Some ''F7gI'')))
     parseCandidate =
   Inr (candidate_table ''842163049'' 1 ''udp'' 1677729535 ''203.0.113.7'' 56143 ''srflx''
     (Some (''10.0.1.5'', 56143)) None (Some ''F7gI''))"
  by (rule candidate_round_trip) code_simp

section \<open>Descriptions written and parsed\<close>

definition count_val :: "jsval \<Rightarrow> bool" where
  "count_val v \<longleftrightarrow> (case v of Num (Fin x) \<Rightarrow> x = of_int \<lfloor>x\<rfloor> \<and> 0 \<le> \<lfloor>x\<rfloor> \<and> \<lfloor>x\<rfloor> \<le> 2 ^ 53 | _ \<Rightarrow> False)"

lemma count_valD: "count_val v \<Longrightarrow> \<exists>n. v = Num (num_of n) \<and> 0 \<le> n \<and> n \<le> 2 ^ 53"
  unfolding count_val_def by (auto split: jsval.splits jsnum.splits)

lemma count_text: "count_val v \<Longrightarrow> \<exists>n. to_str v = digits n \<and> 0 \<le> n \<and> n \<le> 2 ^ 53"
  using count_valD to_str_num by metis

lemma count_word: "count_val v \<Longrightarrow> word_ok (to_str v)"
  using count_text digits_word by metis

lemma count_int10: "count_val v \<Longrightarrow> int10 (Str (to_str v)) = v"
  using count_valD to_str_num int10_digits by metis

lemma count_parse10: "count_val v \<Longrightarrow> w = [] \<or> \<not> is_digit (hd w) \<Longrightarrow> Num (parse10 (to_str v @ w)) = v"
  using count_valD to_str_num parse10_digits by metis

text \<open>The lines of a codec and of a header extension, and what a description keeps of them.\<close>

definition rtpmap_line :: "sdp_codec \<Rightarrow> string" where
  "rtpmap_line c =
     ''a=rtpmap:'' @ to_str (codec_pt c) @ '' '' @ codec_name c @ ''/'' @ to_str (clockRate c) @
     (if channels c = Num (num_of 1) then [] else ''/'' @ to_str (channels c))"

definition fmtp_text :: "sdp_codec \<Rightarrow> string" where
  "fmtp_text c = join '';'' (map (\<lambda>(k, v). k @ ''='' @ to_str v) (parameters c))"

definition fmtp_lines :: "sdp_codec \<Rightarrow> string list" where
  "fmtp_lines c =
     (if parameters c = [] then [] else [''a=fmtp:'' @ to_str (codec_pt c) @ '' '' @ fmtp_text c])"

definition feedback_line :: "string \<Rightarrow> feedback \<Rightarrow> string" where
  "feedback_line pt fb =
     ''a=rtcp-fb:'' @ pt @ '' '' @ fb_type fb @ (if fb_parameter fb = [] then [] else '' '' @ fb_parameter fb)"

definition codec_lines :: "sdp_codec \<Rightarrow> string list" where
  "codec_lines c = [rtpmap_line c] @ fmtp_lines c @ map (feedback_line (to_str (codec_pt c))) (rtcpFeedback c)"

definition ext_line :: "extension \<Rightarrow> string" where
  "ext_line e =
     ''a=extmap:'' @ to_str (ext_id e) @
     (if ext_direction e = Str ''sendrecv'' then [] else ''/'' @ to_str (ext_direction e)) @ '' '' @ to_str (ext_uri e)"

definition fec_name :: "sdp_codec \<Rightarrow> string list" where
  "fec_name c = (let up = to_upper (codec_name c) in if up = ''RED'' \<or> up = ''ULPFEC'' then [up] else [])"

definition param_ok :: "string \<times> jsval \<Rightarrow> bool" where
  "param_ok kv =
     (case kv of
        (k, Str v) \<Rightarrow> word_ok k \<and> \<not> is_index k \<and> k \<noteq> ''__proto__'' \<and> v \<noteq> [] \<and> \<not> is_space (last v) \<and> \<not> is_space (hd v) \<and>
          list_all (\<lambda>c. c \<notin> {CHR '';'', CHR ''='', nl}) (k @ v)
      | _ \<Rightarrow> False)"

definition feedback_ok :: "feedback \<Rightarrow> bool" where
  "feedback_ok fb \<longleftrightarrow> word_ok (fb_type fb) \<and> (fb_parameter fb = [] \<or> line_ok (fb_parameter fb))"

definition codec_ok :: "sdp_codec \<Rightarrow> bool" where
  "codec_ok c \<longleftrightarrow>
     count_val (payloadType c) \<and> preferredPayloadType c = Undef \<and> word_ok (codec_name c) \<and>
     CHR ''/'' \<notin> set (codec_name c) \<and> count_val (clockRate c) \<and> count_val (channels c) \<and> truthy (channels c) \<and>
     numChannels c = channels c \<and> list_all param_ok (parameters c) \<and> distinct (map fst (parameters c)) \<and>
     list_all feedback_ok (rtcpFeedback c) \<and> (maxptime c = Undef \<or> count_val (maxptime c))"

definition ext_ok :: "extension \<Rightarrow> bool" where
  "ext_ok e \<longleftrightarrow>
     count_val (ext_id e) \<and> truthy (ext_id e) \<and> ext_preferredId e = Undef \<and>
     (case ext_direction e of Str d \<Rightarrow> word_ok d \<and> CHR ''/'' \<notin> set d | _ \<Rightarrow> False) \<and>
     (case ext_uri e of Str u \<Rightarrow> word_ok u | _ \<Rightarrow> False)"

lemma codec_pt_ok: "codec_ok c \<Longrightarrow> codec_pt c = payloadType c \<and> count_val (codec_pt c)"
  by (simp add: codec_ok_def codec_pt_def)

lemma strict_eq_count: "count_val v \<Longrightarrow> strict_eq v (Num (num_of n)) \<longleftrightarrow> v = Num (num_of n)"
  using count_valD [of v] by (auto simp: strict_eq_def num_eq_def)

lemma writeRtpMap_line:
  assumes "codec_ok c" shows "writeRtpMap c = rtpmap_line c @ crlf"
proof -
  have "or_val (or_val (channels c) (numChannels c)) (Num (num_of 1)) = channels c"
    using assms by (simp add: codec_ok_def or_val_def)
  moreover have "strict_eq (channels c) (Num (num_of 1)) \<longleftrightarrow> channels c = Num (num_of 1)"
    using assms by (intro strict_eq_count) (simp add: codec_ok_def)
  ultimately show ?thesis unfolding writeRtpMap_def Let_def rtpmap_line_def by simp
qed

lemma count_no_slash: "count_val v \<Longrightarrow> CHR ''/'' \<notin> set (to_str v)"
  using count_text [of v] digits_all_digit digit_not_space by (fastforce simp: list_all_iff)

lemma parseRtpMap_line:
  assumes "codec_ok c"
  shows "parseRtpMap (rtpmap_line c) = Inr (c\<lparr>parameters := [], rtcpFeedback := [], maxptime := Undef\<rparr>)"
proof -
  let ?pt = "to_str (codec_pt c)" let ?rate = "to_str (clockRate c)" let ?ch = "to_str (channels c)"
  let ?ps = "[codec_name c, ?rate] @ (if channels c = Num (num_of 1) then [] else [?ch])"
  have k: "count_val (codec_pt c)" "count_val (clockRate c)" "count_val (channels c)" "word_ok (codec_name c)"
    "CHR ''/'' \<notin> set (codec_name c)"
    using assms codec_pt_ok by (simp_all add: codec_ok_def)
  have 1: "substr_from (rtpmap_line c) 9 = join '' '' [?pt, join ''/'' ?ps]"
    using drop_tag [of "''a=rtpmap:''"] by (simp add: rtpmap_line_def)
  have w: "\<forall>w \<in> set ?ps. word_ok w" "word_ok ?pt" using k count_word by auto
  have "CHR '' '' \<notin> set (join ''/'' ?ps)" using w(1) word_no_space set_join [of "''/''" ?ps] by auto
  then have 2: "split_on (join '' '' [?pt, join ''/'' ?ps]) '' '' = [?pt, join ''/'' ?ps]"
    using w(2) word_no_space by (intro split_on_join) auto
  have 3: "split_on (join ''/'' ?ps) ''/'' = ?ps"
    using k count_no_slash by (intro split_on_join) auto
  have 4: "int10 (Str ?pt) = codec_pt c" "int10 (Str ?rate) = clockRate c" "int10 (Str ?ch) = channels c"
    using k count_int10 by simp_all
  have a: "arr_at [?pt, join ''/'' ?ps] 1 = Some (join ''/'' ?ps)" by (simp add: arr_at_def)
  have l: "length ?ps = 3 \<longleftrightarrow> channels c \<noteq> Num (num_of 1)" by simp
  have s: "str_at [?pt, join ''/'' ?ps] 0 = Str ?pt" "str_at ?ps 1 = Str ?rate" "?ps ! 0 = codec_name c"
    by (simp_all add: str_at_def arr_at_def)
  have c: "(if channels c \<noteq> Num (num_of 1) then int10 (str_at ?ps 2) else Num (num_of 1)) = channels c"
    using 4(3) by (auto simp: str_at_def arr_at_def)
  show ?thesis
    unfolding parseRtpMap_def Let_def 1 2 a option.case 3 l c s 4
    using assms codec_pt_ok by (cases c) (simp add: codec_ok_def)
qed

lemma after_space_tag: "CHR '' '' \<notin> set u \<Longrightarrow> after_space (u @ CHR '' '' # v) = v"
  using rel_index_nat [of "u @ CHR '' '' # v" "Suc (length u)"]
  by (simp add: after_space_def index_of_def find_sub_single substr_from_def add.commute)

lemma tag_pt_no_space: "count_val v \<Longrightarrow> CHR '' '' \<notin> set (to_str v)"
  using count_word word_no_space by blast

lemma fmtp_loop_params:
  assumes "list_all param_ok ps" "distinct (map fst qs @ map fst ps)"
  shows "fmtp_loop (map (\<lambda>(k, v). k @ ''='' @ to_str v) ps) qs = qs @ ps"
  using assms
proof (induction ps arbitrary: qs)
  case (Cons kv ps)
  obtain k v where kv: "kv = (k, Str v)" and k: "word_ok k" "\<not> is_index k" "k \<noteq> ''__proto__''"
    and v: "v \<noteq> []" "\<not> is_space (last v)" and eq: "CHR ''='' \<notin> set k" "CHR ''='' \<notin> set v"
    using Cons.prems(1) by (cases kv; cases "snd kv") (auto simp: param_ok_def list_all_iff)
  let ?t = "k @ ''='' @ v"
  have h: "\<not> is_space (hd k)" "k \<noteq> []" using k(1) by (simp_all add: word_ok_def)
  have "trim_ws ?t = ?t" using h v trim_ws_line [of ?t "[]"] by simp
  moreover have "split_on ?t ''='' = [k, v]" using split_on_join [of "[k, v]" "CHR ''=''"] eq by simp
  moreover have "trim_ws k = k" using k(1) h trim_ws_line [of k "[]"] by (simp add: word_ok_def)
  moreover have "assign_prop qs k (Str v) = qs @ [(k, Str v)]"
    using k Cons.prems(2) kv by (auto simp: assign_prop_def prop_keys_def intro: prop_set_new)
  ultimately have "fmtp_loop (map (\<lambda>(k, v). k @ ''='' @ to_str v) (kv # ps)) qs =
      fmtp_loop (map (\<lambda>(k, v). k @ ''='' @ to_str v) ps) (qs @ [(k, Str v)])"
    by (simp add: kv)
  also have "\<dots> = (qs @ [(k, Str v)]) @ ps" using Cons.prems kv by (intro Cons.IH) auto
  finally show ?case by (simp add: kv)
qed simp

lemma param_str: "param_ok kv \<Longrightarrow> \<exists>k v. kv = (k, Str v) \<and> v \<noteq> []"
  by (cases kv; cases "snd kv") (auto simp: param_ok_def)

lemma parseFmtp_line:
  assumes "codec_ok c" "parameters c \<noteq> []"
  shows "parseFmtp (''a=fmtp:'' @ to_str (codec_pt c) @ '' '' @ fmtp_text c) = parameters c"
proof -
  let ?ts = "map (\<lambda>(k, v). k @ ''='' @ to_str v) (parameters c)"
  have ok: "list_all param_ok (parameters c)" "distinct (map fst (parameters c))" using assms(1) by (simp_all add: codec_ok_def)
  have "CHR '' '' \<notin> set (''a=fmtp:'' @ to_str (codec_pt c))"
    using tag_pt_no_space [OF codec_pt_ok [OF assms(1), THEN conjunct2]] by simp
  then have 1: "after_space (''a=fmtp:'' @ to_str (codec_pt c) @ '' '' @ fmtp_text c) = fmtp_text c"
    using after_space_tag [of "''a=fmtp:'' @ to_str (codec_pt c)"] by simp
  have "CHR '';'' \<notin> set (k @ ''='' @ to_str v)" if "(k, v) \<in> set (parameters c)" for k v
    using bspec [OF ok(1) [unfolded list_all_iff] that] by (cases v) (auto simp: list_all_iff param_ok_def)
  then have "split_on (join '';'' ?ts) '';'' = ?ts" using assms(2) by (intro split_on_join) auto
  then show ?thesis
    using fmtp_loop_params [OF ok(1), of "[]"] ok(2) unfolding parseFmtp_def 1 unfolding fmtp_text_def by simp
qed

lemma writeFmtp_lines:
  assumes "codec_ok c" shows "writeFmtp c = text_of (fmtp_lines c)"
proof -
  have "map (\<lambda>(k, v). if truthy v then k @ ''='' @ to_str v else k) (parameters c) =
      map (\<lambda>(k, v). k @ ''='' @ to_str v) (parameters c)"
    using assms param_str by (fastforce simp: codec_ok_def list_all_iff)
  then show ?thesis unfolding writeFmtp_def fmtp_lines_def fmtp_text_def by (simp only: text_of_simps) simp
qed

lemma writeRtcpFb_lines:
  "writeRtcpFb c = text_of (map (feedback_line (to_str (codec_pt c))) (rtcpFeedback c))"
  by (simp add: writeRtcpFb_def text_of_def feedback_line_def comp_def) (auto intro!: arg_cong [of _ _ concat])

lemma parseRtcpFb_line:
  assumes "feedback_ok fb" "CHR '' '' \<notin> set pt" shows "parseRtcpFb (feedback_line pt fb) = fb"
proof -
  let ?rest = "fb_type fb @ (if fb_parameter fb = [] then [] else '' '' @ fb_parameter fb)"
  have 1: "after_space (feedback_line pt fb) = ?rest"
    using after_space_tag [of "''a=rtcp-fb:'' @ pt"] assms(2) by (simp add: feedback_line_def)
  have t: "CHR '' '' \<notin> set (fb_type fb)" using assms(1) word_no_space by (simp add: feedback_ok_def)
  have 2: "split_on ?rest '' '' = fb_type fb # (if fb_parameter fb = [] then [] else split_on (fb_parameter fb) '' '')"
    using t by (simp add: split_on_single split_on_cons)
  show ?thesis
    unfolding parseRtcpFb_def 1 2 Let_def using join_split_on [of "'' ''"] by (cases fb) simp
qed

lemma parseExtmap_line:
  assumes "ext_ok e" shows "parseExtmap (ext_line e) = e"
proof -
  obtain d u where d: "ext_direction e = Str d" "word_ok d" "CHR ''/'' \<notin> set d" and u: "ext_uri e = Str u" "word_ok u"
    and i: "count_val (ext_id e)" "ext_preferredId e = Undef"
    using assms by (cases "ext_direction e"; cases "ext_uri e") (auto simp: ext_ok_def)
  let ?n = "to_str (ext_id e)"
  let ?p = "?n @ (if d = ''sendrecv'' then [] else ''/'' @ d)"
  have 1: "substr_from (ext_line e) 9 = join '' '' [?p, u]"
    using drop_tag [of "''a=extmap:''"] by (simp add: ext_line_def d u)
  have w: "word_ok ?n" "CHR ''/'' \<notin> set ?n" using i count_word count_no_slash by simp_all
  have 2: "split_on (join '' '' [?p, u]) '' '' = [?p, u]"
    using word_no_space [OF w(1)] word_no_space [OF d(2)] word_no_space [OF u(2)] by (intro split_on_join) auto
  have 3: "int10 (Str ?p) = ext_id e"
    using count_parse10 [OF i(1), of "if d = ''sendrecv'' then [] else ''/'' @ d"]
    by (simp add: int10_def is_digit_def)
  have n: "?n \<noteq> []" using w by (simp add: word_ok_def)
  have 4: "0 < index_of ?p ''/'' \<longleftrightarrow> d \<noteq> ''sendrecv''"
  proof (cases "d = ''sendrecv''")
    case True
    have f: "find_sub ''/'' ?n = None" using w(2) by simp
    show ?thesis using True by (simp only: index_of_def simp_thms if_True append_Nil2 f option.case)
  next
    case False
    then show ?thesis using n find_sub_single [OF w(2), of d] by (simp add: index_of_def)
  qed
  have 5: "split_on ?p ''/'' = ?n # (if d = ''sendrecv'' then [] else [d])"
    using w(2) d(3) by (simp add: split_on_single split_on_cons)
  show ?thesis
    unfolding parseExtmap_def 1 2 Let_def
    using 3 4 5 d(1) u(1) i(2) by (cases e) (auto simp: str_at_def arr_at_def)
qed

lemma writeExtmap_line: "ext_ok e \<Longrightarrow> writeExtmap e = ext_line e @ crlf"
  by (cases "ext_direction e"; cases "ext_uri e")
    (auto simp: ext_ok_def writeExtmap_def ext_line_def or_val_def strict_eq_def word_ok_def)

section \<open>The lines of a description\<close>

lemma word_append: "word_ok u \<Longrightarrow> word_ok v \<Longrightarrow> word_ok (u @ v)"
  by (auto simp: word_ok_def)

lemma line_append: "line_ok u \<Longrightarrow> nl \<notin> set m \<Longrightarrow> line_ok v \<Longrightarrow> line_ok (u @ m @ v)"
  by (auto simp: line_ok_def)

lemma line_join: "xs \<noteq> [] \<Longrightarrow> \<forall>x \<in> set xs. line_ok x \<Longrightarrow> nl \<notin> set sep \<Longrightarrow> line_ok (join sep xs)"
  by (induction sep xs rule: join.induct) (simp_all add: line_append)

definition tags :: "string list" where
  "tags = [''a=rtpmap:'', ''a=fmtp:'', ''a=rtcp-fb:'', ''a=extmap:'', ''a=maxptime:'']"

lemma tag_word: "t \<in> set tags \<Longrightarrow> word_ok t"
  by (auto simp: tags_def word_ok_def is_space_def)

lemma nl_space: "nl \<noteq> CHR '' ''" "CHR '' '' \<noteq> nl" "nl \<notin> set '' ''" "nl \<notin> set '';''" "word_ok ''/''" "word_ok ''=''"
  by (auto simp: nl_def word_ok_def is_space_def)

lemma codec_pt_word: "codec_ok c \<Longrightarrow> word_ok (to_str (codec_pt c))"
  by (rule count_word [OF codec_pt_ok [THEN conjunct2]])

lemma rtpmap_line_ok:
  assumes "codec_ok c" shows "line_ok (rtpmap_line c)"
proof -
  have w: "word_ok (to_str (codec_pt c))" "word_ok (to_str (clockRate c))" "word_ok (to_str (channels c))"
    "word_ok (codec_name c)" "word_ok ''a=rtpmap:''"
    using assms codec_pt_word [OF assms] count_word tag_word by (simp_all add: codec_ok_def tags_def)
  let ?v = "codec_name c @ ''/'' @ to_str (clockRate c) @ (if channels c = Num (num_of 1) then [] else ''/'' @ to_str (channels c))"
  have "word_ok ?v"
    using w nl_space(5) word_append [of "codec_name c"] word_append [of "''/''"]
      word_append [of "to_str (clockRate c)" "''/'' @ to_str (channels c)"] by auto
  then have "line_ok ((''a=rtpmap:'' @ to_str (codec_pt c)) @ '' '' @ ?v)"
    by (rule line_append [OF word_line [OF word_append [OF w(5,1)]] nl_space(3) word_line])
  then show ?thesis by (simp add: rtpmap_line_def)
qed

lemma fmtp_lines_ok:
  assumes "codec_ok c" shows "list_all line_ok (fmtp_lines c)"
proof (cases "parameters c = []")
  case False
  have w: "word_ok (to_str (codec_pt c))" "word_ok ''a=fmtp:''"
    using codec_pt_word [OF assms] tag_word by (simp_all add: tags_def)
  have "line_ok (k @ ''='' @ to_str v)" if "(k, v) \<in> set (parameters c)" for k v
  proof -
    have "param_ok (k, v)" using assms that by (simp add: codec_ok_def list_all_iff)
    then obtain t where v: "v = Str t" and t: "t \<noteq> []" "\<not> is_space (last t)" "nl \<notin> set t" and k: "word_ok k"
      by (cases v) (auto simp: param_ok_def list_all_iff)
    have "nl \<notin> set ''=''" by (simp add: nl_def)
    then show ?thesis using t word_line [OF k] by (simp add: v line_ok_def)
  qed
  then have "line_ok (fmtp_text c)" unfolding fmtp_text_def using False nl_space by (intro line_join) auto
  then have "line_ok ((''a=fmtp:'' @ to_str (codec_pt c)) @ '' '' @ fmtp_text c)"
    by (rule line_append [OF word_line [OF word_append [OF w(2,1)]] nl_space(3)])
  then show ?thesis by (simp add: fmtp_lines_def)
qed (simp add: fmtp_lines_def)

lemma feedback_line_ok:
  assumes "feedback_ok fb" "word_ok pt" shows "line_ok (feedback_line pt fb)"
proof -
  have w: "word_ok ''a=rtcp-fb:''" "word_ok (fb_type fb)" using assms(1) tag_word by (auto simp: tags_def feedback_ok_def)
  have "line_ok (fb_type fb @ (if fb_parameter fb = [] then [] else '' '' @ fb_parameter fb))"
    using assms(1) w(2) nl_space line_append [of "fb_type fb" "'' ''" "fb_parameter fb"]
    by (auto simp: feedback_ok_def word_line)
  then have "line_ok ((''a=rtcp-fb:'' @ pt) @ '' '' @ fb_type fb @ (if fb_parameter fb = [] then [] else '' '' @ fb_parameter fb))"
    by (rule line_append [OF word_line [OF word_append [OF w(1) assms(2)]] nl_space(3)])
  then show ?thesis by (simp add: feedback_line_def)
qed

lemma ext_line_ok:
  assumes "ext_ok e" shows "line_ok (ext_line e)"
proof -
  obtain d u where d: "ext_direction e = Str d" "word_ok d" and u: "ext_uri e = Str u" "word_ok u"
    using assms by (cases "ext_direction e"; cases "ext_uri e") (auto simp: ext_ok_def)
  have w: "word_ok (to_str (ext_id e))" "word_ok ''a=extmap:''"
    using assms count_word tag_word by (auto simp: tags_def ext_ok_def)
  let ?d = "to_str (ext_id e) @ (if d = ''sendrecv'' then [] else ''/'' @ d)"
  have "word_ok ?d" using w(1) d(2) nl_space(5) word_append [of "''/''" d] word_append [of "to_str (ext_id e)" "''/'' @ d"] by auto
  then have "line_ok ((''a=extmap:'' @ ?d) @ '' '' @ u)"
    by (rule line_append [OF word_line [OF word_append [OF w(2)]] nl_space(3) word_line [OF u(2)]])
  then show ?thesis unfolding ext_line_def d(1) u(1) by (cases "d = ''sendrecv''") simp_all
qed

definition description_lines :: "string \<Rightarrow> sdp_codec list \<Rightarrow> extension list \<Rightarrow> string list" where
  "description_lines kind cs exts =
     [''m='' @ kind @ '' 9 UDP/TLS/RTP/SAVPF '' @ join '' '' (map (\<lambda>c. to_str (codec_pt c)) cs),
      ''c=IN IP4 0.0.0.0'', ''a=rtcp:9 IN IP4 0.0.0.0''] @
     concat (map codec_lines cs) @
     (if num_less (num_of 0) (to_num (max_ptime cs)) then [''a=maxptime:'' @ to_str (max_ptime cs)] else []) @
     [''a=rtcp-mux''] @ map ext_line exts"

lemma text_of_concat: "concat (map (\<lambda>c. text_of (f c)) cs) = text_of (concat (map f cs))"
  by (induction cs) simp_all

lemma writeRtpDescription_lines:
  assumes "list_all codec_ok cs" "list_all ext_ok exts" "cs \<noteq> []"
  shows "writeRtpDescription kind cs exts = text_of (description_lines kind cs exts)"
proof -
  have 1: "map (\<lambda>c. writeRtpMap c @ writeFmtp c @ writeRtcpFb c) cs = map (\<lambda>c. text_of (codec_lines c)) cs"
    using assms(1) writeRtpMap_line writeFmtp_lines writeRtcpFb_lines by (simp add: list_all_iff codec_lines_def)
  have 2: "map writeExtmap exts = map (\<lambda>e. text_of [ext_line e]) exts"
    using assms(2) writeExtmap_line by (simp add: list_all_iff)
  have 3: "concat (map (\<lambda>x. [x]) xs) = xs" for xs :: "string list" by (induction xs) simp_all
  have 4: "concat (map writeExtmap exts) = text_of (map ext_line exts)"
    unfolding 2 text_of_concat using 3 [of "map ext_line exts"] by (simp add: comp_def)
  have "\<not> nullish (codec_pt c)" if "c \<in> set cs" for c
    using assms(1) that codec_pt_ok [of c] by (auto simp: list_all_iff nullish_def count_val_def)
  then have 5: "join_vals '' '' (map codec_pt cs) = join '' '' (map (\<lambda>c. to_str (codec_pt c)) cs)"
    unfolding join_vals_def map_map by (intro arg_cong [of _ _ "join '' ''"] map_cong) auto
  show ?thesis
    unfolding writeRtpDescription_def 1 text_of_concat 4 5 description_lines_def using assms(3) by simp
qed

lemma max_ptime_step:
  "m = Num (num_of 0) \<or> count_val m \<Longrightarrow> \<forall>c \<in> set cs. maxptime c = Undef \<or> count_val (maxptime c) \<Longrightarrow>
     count_val (foldl (\<lambda>m c. if num_less (to_num m) (to_num (maxptime c)) then maxptime c else m) m cs)"
proof (induction cs arbitrary: m)
  case Nil
  then show ?case by (auto simp: count_val_def)
next
  case (Cons c cs)
  have "num_less x NaN = False" for x by (cases x) simp_all
  then show ?case using Cons by auto
qed

lemma max_ptime_count: "list_all codec_ok cs \<Longrightarrow> count_val (max_ptime cs)"
  unfolding max_ptime_def by (rule max_ptime_step) (auto simp: list_all_iff codec_ok_def)

lemma codec_lines_ok: "codec_ok c \<Longrightarrow> list_all line_ok (codec_lines c)"
  using rtpmap_line_ok fmtp_lines_ok feedback_line_ok codec_pt_word
  by (auto simp: codec_lines_def list_all_iff codec_ok_def)

lemma fixed_lines_ok: "line_ok ''c=IN IP4 0.0.0.0''" "line_ok ''a=rtcp:9 IN IP4 0.0.0.0''" "line_ok ''a=rtcp-mux''"
  by (simp_all add: line_ok_def nl_def is_space_def)

lemma description_lines_ok:
  assumes "list_all codec_ok cs" "list_all ext_ok exts" "cs \<noteq> []" "word_ok kind"
  shows "list_all line_ok (description_lines kind cs exts)"
proof -
  have "\<forall>w \<in> set (map (\<lambda>c. to_str (codec_pt c)) cs). line_ok w"
    using assms(1) codec_pt_word word_line by (auto simp: list_all_iff)
  then have 1: "line_ok (join '' '' (map (\<lambda>c. to_str (codec_pt c)) cs))"
    using assms(3) nl_space(3) by (intro line_join) auto
  have m: "line_ok ''m=''" "nl \<notin> set '' 9 UDP/TLS/RTP/SAVPF ''" by (simp_all add: line_ok_def nl_def is_space_def)
  then have "line_ok ((''m='' @ kind) @ '' 9 UDP/TLS/RTP/SAVPF '' @ join '' '' (map (\<lambda>c. to_str (codec_pt c)) cs))"
    by (intro line_append [OF _ _ 1] word_line word_append assms(4)) (simp add: word_ok_def is_space_def)
  moreover have "list_all line_ok (concat (map codec_lines cs))"
    using assms(1) codec_lines_ok by (fastforce simp: list_all_iff)
  moreover have "line_ok (''a=maxptime:'' @ to_str (max_ptime cs))"
    using tag_word by (intro word_line word_append count_word max_ptime_count assms(1)) (simp add: tags_def)
  moreover have "list_all line_ok (map ext_line exts)" using assms(2) ext_line_ok by (simp add: list_all_iff)
  ultimately show ?thesis unfolding description_lines_def using fixed_lines_ok by simp
qed

section \<open>What a description holds for a codec\<close>

lemma concat_one:
  assumes "distinct (map g xs)" "x \<in> set xs"
  shows "concat (map (\<lambda>y. if g y = g x then f y else []) xs) = f x"
proof -
  have none: "concat (map (\<lambda>y. if g y = g x then f y else []) ys) = []" if "g x \<notin> set (map g ys)" for ys
    using that by (induction ys) auto
  from split_list [OF assms(2)] obtain ys zs where xs: "xs = ys @ x # zs" by blast
  then have "g x \<notin> set (map g ys)" "g x \<notin> set (map g zs)" using assms(1) by auto
  then show ?thesis by (simp add: xs none del: concat_eq_Nil_conv)
qed

lemma filter_none: "\<forall>x \<in> set xs. \<not> P x \<Longrightarrow> filter P xs = []"
  by simp

lemma filter_rtpmap:
  assumes "CHR '' '' \<notin> set pt" "CHR '' '' \<notin> set (to_str (codec_pt c))"
  shows "filter (prefix (''a=rtpmap:'' @ pt @ '' '')) (codec_lines c) =
    (if to_str (codec_pt c) = pt then [rtpmap_line c] else [])"
proof -
  have "filter (prefix (''a=rtpmap:'' @ pt @ '' '')) (fmtp_lines c) = []" by (simp add: fmtp_lines_def)
  moreover have "filter (prefix (''a=rtpmap:'' @ pt @ '' '')) (map (feedback_line (to_str (codec_pt c))) (rtcpFeedback c)) = []"
    by (intro filter_none) (auto simp: feedback_line_def)
  moreover have "prefix (''a=rtpmap:'' @ pt @ '' '') (rtpmap_line c) \<longleftrightarrow> pt = to_str (codec_pt c)"
    using prefix_tag_word [OF assms, of "''a=rtpmap:''"] by (simp add: rtpmap_line_def)
  ultimately show ?thesis by (auto simp: codec_lines_def)
qed

lemma filter_fmtp:
  assumes "CHR '' '' \<notin> set pt" "CHR '' '' \<notin> set (to_str (codec_pt c))"
  shows "filter (prefix (''a=fmtp:'' @ pt @ '' '')) (codec_lines c) =
    (if to_str (codec_pt c) = pt then fmtp_lines c else [])"
proof -
  have "\<not> prefix (''a=fmtp:'' @ pt @ '' '') (rtpmap_line c)" by (simp add: rtpmap_line_def)
  moreover have "filter (prefix (''a=fmtp:'' @ pt @ '' '')) (map (feedback_line (to_str (codec_pt c))) (rtcpFeedback c)) = []"
    by (intro filter_none) (auto simp: feedback_line_def)
  moreover have "prefix (''a=fmtp:'' @ pt @ '' '') (''a=fmtp:'' @ to_str (codec_pt c) @ '' '' @ fmtp_text c) \<longleftrightarrow>
      pt = to_str (codec_pt c)"
    using prefix_tag_word [OF assms, of "''a=fmtp:''"] by simp
  ultimately show ?thesis by (cases "to_str (codec_pt c) = pt") (simp_all add: codec_lines_def fmtp_lines_def)
qed

lemma filter_feedback:
  assumes "CHR '' '' \<notin> set pt" "CHR '' '' \<notin> set (to_str (codec_pt c))"
  shows "filter (prefix (''a=rtcp-fb:'' @ pt @ '' '')) (codec_lines c) =
    (if to_str (codec_pt c) = pt then map (feedback_line pt) (rtcpFeedback c) else [])"
proof -
  have "\<not> prefix (''a=rtcp-fb:'' @ pt @ '' '') (rtpmap_line c)" by (simp add: rtpmap_line_def)
  moreover have "filter (prefix (''a=rtcp-fb:'' @ pt @ '' '')) (fmtp_lines c) = []" by (simp add: fmtp_lines_def)
  moreover have "prefix (''a=rtcp-fb:'' @ pt @ '' '') (feedback_line (to_str (codec_pt c)) fb) \<longleftrightarrow> pt = to_str (codec_pt c)" for fb
    using prefix_tag_word [OF assms, of "''a=rtcp-fb:''"] by (simp add: feedback_line_def)
  ultimately show ?thesis by (cases "to_str (codec_pt c) = pt") (simp_all add: codec_lines_def filter_map comp_def)
qed

text \<open>Lines looked up by a tag of the codecs come from the codecs; the header extensions are the lines of their tag.\<close>

lemma filter_description:
  assumes "t \<in> {''a=rtpmap:'', ''a=fmtp:'', ''a=rtcp-fb:''}"
  shows "filter (prefix (t @ w)) (description_lines kind cs exts) =
    concat (map (\<lambda>c. filter (prefix (t @ w)) (codec_lines c)) cs)"
proof -
  have 1: "filter (prefix (t @ w)) (map ext_line exts) = []"
    using assms by (intro filter_none) (auto simp: ext_line_def)
  have 2: "filter (prefix (t @ w)) (concat (map codec_lines cs)) =
      concat (map (\<lambda>c. filter (prefix (t @ w)) (codec_lines c)) cs)"
    by (simp add: filter_concat comp_def)
  show ?thesis unfolding description_lines_def filter_append 1 2 using assms by auto
qed

lemma filter_extmap:
  "filter (prefix ''a=extmap:'') (description_lines kind cs exts) = map ext_line exts"
proof -
  have "filter (prefix ''a=extmap:'') (codec_lines c) = []" for c
    by (intro filter_none) (auto simp: codec_lines_def rtpmap_line_def fmtp_lines_def feedback_line_def split: if_splits)
  then have 1: "filter (prefix ''a=extmap:'') (concat (map codec_lines cs)) = []" by (simp add: filter_concat comp_def)
  have 2: "filter (prefix ''a=extmap:'') (map ext_line exts) = map ext_line exts"
    by (intro filter_True) (auto simp: ext_line_def)
  show ?thesis unfolding description_lines_def filter_append 1 2 by simp
qed

text \<open>What the parser keeps of a codec: everything but the packet time, which is written once for the whole section.\<close>

definition kept :: "sdp_codec \<Rightarrow> sdp_codec" where
  "kept c = c\<lparr>maxptime := Undef\<rparr>"

definition described :: "string \<Rightarrow> sdp_codec \<Rightarrow> bool" where
  "described media c \<longleftrightarrow>
     first_match media (''a=rtpmap:'' @ to_str (codec_pt c) @ '' '') = Some (rtpmap_line c) \<and>
     matchPrefix media (''a=fmtp:'' @ to_str (codec_pt c) @ '' '') = fmtp_lines c \<and>
     matchPrefix media (''a=rtcp-fb:'' @ to_str (codec_pt c) @ '' '') =
       map (feedback_line (to_str (codec_pt c))) (rtcpFeedback c)"

lemma description_described:
  assumes "list_all codec_ok cs" "list_all ext_ok exts" "word_ok kind" "distinct (map (\<lambda>c. to_str (codec_pt c)) cs)"
    and "c \<in> set cs"
  shows "described (writeRtpDescription kind cs exts) c"
proof -
  have ne: "cs \<noteq> []" using assms(5) by auto
  let ?m = "writeRtpDescription kind cs exts" let ?pt = "to_str (codec_pt c)"
  have sp: "CHR '' '' \<notin> set (to_str (codec_pt c'))" if "c' \<in> set cs" for c'
    using assms(1) that codec_pt_word word_no_space by (metis list_all_iff)
  have m: "matchPrefix ?m p = filter (prefix p) (description_lines kind cs exts)" for p
    unfolding writeRtpDescription_lines [OF assms(1,2) ne]
    using description_lines_ok [OF assms(1,2) ne assms(3)] by (intro matchPrefix_text) (simp_all add: description_lines_def)
  have one: "matchPrefix ?m (t @ ?pt @ '' '') = f c"
    if "t \<in> {''a=rtpmap:'', ''a=fmtp:'', ''a=rtcp-fb:''}"
      and "\<And>c'. c' \<in> set cs \<Longrightarrow> filter (prefix (t @ ?pt @ '' '')) (codec_lines c') = (if to_str (codec_pt c') = ?pt then f c' else [])"
    for t f
  proof -
    have "matchPrefix ?m (t @ ?pt @ '' '') = concat (map (\<lambda>c'. filter (prefix (t @ ?pt @ '' '')) (codec_lines c')) cs)"
      unfolding m by (rule filter_description [OF that(1)])
    also have "\<dots> = concat (map (\<lambda>c'. if to_str (codec_pt c') = ?pt then f c' else []) cs)"
      by (intro arg_cong [of _ _ concat] map_cong refl that(2))
    finally show ?thesis using concat_one [OF assms(4,5)] by simp
  qed
  have "matchPrefix ?m (''a=rtpmap:'' @ ?pt @ '' '') = [rtpmap_line c]"
    by (rule one [where f = "\<lambda>c. [rtpmap_line c]"]) (simp, rule filter_rtpmap, simp_all only: sp assms(5) not_False_eq_True)
  moreover have "matchPrefix ?m (''a=fmtp:'' @ ?pt @ '' '') = fmtp_lines c"
    by (rule one) (simp, rule filter_fmtp, simp_all only: sp assms(5) not_False_eq_True)
  moreover have "matchPrefix ?m (''a=rtcp-fb:'' @ ?pt @ '' '') = map (feedback_line ?pt) (rtcpFeedback c)"
    by (rule one [where f = "\<lambda>c. map (feedback_line ?pt) (rtcpFeedback c)"])
      (simp, rule filter_feedback, simp_all only: sp assms(5) not_False_eq_True)
  ultimately show ?thesis unfolding described_def first_match_def by (simp only: arr_at_simps simp_thms)
qed

lemma media_codecs_described:
  assumes "\<forall>c \<in> set cs. codec_ok c \<and> described media c"
  shows "media_codecs media (map (\<lambda>c. to_str (codec_pt c)) cs) d =
    Inr (d\<lparr>codecs := codecs d @ map kept cs, fecMechanisms := fecMechanisms d @ concat (map fec_name cs)\<rparr>)"
  using assms
proof (induction cs arbitrary: d)
  case (Cons c cs)
  let ?pt = "to_str (codec_pt c)"
  have ok: "codec_ok c" and d: "described media c" using Cons.prems by simp_all
  have 1: "first_match media (''a=rtpmap:'' @ ?pt @ '' '') = Some (rtpmap_line c)"
    and 2: "matchPrefix media (''a=fmtp:'' @ ?pt @ '' '') = fmtp_lines c"
    and 3: "matchPrefix media (''a=rtcp-fb:'' @ ?pt @ '' '') = map (feedback_line ?pt) (rtcpFeedback c)"
    using d by (simp_all only: described_def)
  have f: "(if fmtp_lines c \<noteq> [] then parseFmtp (hd (fmtp_lines c)) else []) = parameters c"
    using parseFmtp_line [OF ok] by (simp add: fmtp_lines_def)
  have r: "map parseRtcpFb (map (feedback_line ?pt) (rtcpFeedback c)) = rtcpFeedback c"
    unfolding map_map using ok word_no_space [OF codec_pt_word [OF ok]]
    by (intro map_idI) (simp add: parseRtcpFb_line codec_ok_def list_all_iff)
  have k: "c\<lparr>parameters := [], rtcpFeedback := [], maxptime := Undef, parameters := parameters c, rtcpFeedback := rtcpFeedback c\<rparr> = kept c"
    by (cases c) (simp add: kept_def)
  have n: "codec_name (kept c) = codec_name c" by (simp add: kept_def)
  show ?case
    unfolding list.map media_codecs.simps 1 option.case parseRtpMap_line [OF ok] bind_result_simps Let_def 2 3 f r
    using Cons.IH Cons.prems k n fec_name_def [of c] by (simp add: Let_def)
qed simp

lemma pts_split:
  assumes "word_ok kind" "list_all codec_ok cs" "cs \<noteq> []"
  shows "drop 3 (split_on (''m='' @ kind @ '' 9 UDP/TLS/RTP/SAVPF '' @ join '' '' (map (\<lambda>c. to_str (codec_pt c)) cs)) '' '') =
    map (\<lambda>c. to_str (codec_pt c)) cs"
proof -
  let ?pts = "map (\<lambda>c. to_str (codec_pt c)) cs"
  let ?ws = "[''m='' @ kind, ''9'', ''UDP/TLS/RTP/SAVPF''] @ ?pts"
  have "\<forall>w \<in> set ?ws. CHR '' '' \<notin> set w"
    using assms codec_pt_word word_no_space by (auto simp: list_all_iff)
  then have 1: "split_on (join '' '' ?ws) '' '' = ?ws" by (intro split_on_join) simp_all
  have "join '' '' ?ws = ''m='' @ kind @ '' 9 UDP/TLS/RTP/SAVPF '' @ join '' '' ?pts"
    using assms(3) by (cases ?pts) simp_all
  then have "split_on (''m='' @ kind @ '' 9 UDP/TLS/RTP/SAVPF '' @ join '' '' ?pts) '' '' = ?ws"
    using 1 by (simp only:)
  then show ?thesis by (simp only:) simp
qed

definition sdp_ok :: "string \<Rightarrow> sdp_codec list \<Rightarrow> extension list \<Rightarrow> bool" where
  "sdp_ok kind cs exts \<longleftrightarrow>
     word_ok kind \<and> cs \<noteq> [] \<and> list_all codec_ok cs \<and> list_all ext_ok exts \<and>
     distinct (map (\<lambda>c. to_str (codec_pt c)) cs)"

text \<open>
  C24. A description of at least one codec, with payload types all different, is parsed back: the codecs in
  the order of the media line with their names, rates, channels, format parameters and feedback, the header
  extensions, and the names of the codecs that are error correction mechanisms. Only the packet time is
  not read back.
\<close>

theorem rtp_description_round_trip:
  assumes "sdp_ok kind cs exts"
  shows "parseRtpParameters (writeRtpDescription kind cs exts) =
    Inr \<lparr>codecs = map (\<lambda>c. c\<lparr>maxptime := Undef\<rparr>) cs, headerExtensions = exts,
         fecMechanisms = concat (map fec_name cs)\<rparr>"
proof -
  let ?m = "writeRtpDescription kind cs exts" let ?ls = "description_lines kind cs exts"
  have k: "word_ok kind" "cs \<noteq> []" "list_all codec_ok cs" "list_all ext_ok exts"
    "distinct (map (\<lambda>c. to_str (codec_pt c)) cs)"
    using assms by (simp_all add: sdp_ok_def)
  have t: "?m = text_of ?ls" using k by (intro writeRtpDescription_lines)
  have ok: "list_all line_ok ?ls" "?ls \<noteq> []" using k description_lines_ok by (simp_all add: description_lines_def)
  have l: "splitLines ?m = ?ls" and x: "matchPrefix ?m ''a=extmap:'' = map ext_line exts"
    unfolding t using splitLines_text [OF ok] matchPrefix_text [OF ok] filter_extmap by simp_all
  have h: "drop 3 (split_on (hd ?ls) '' '') = map (\<lambda>c. to_str (codec_pt c)) cs"
    using pts_split [OF k(1,3,2)] by (simp add: description_lines_def)
  have e: "map parseExtmap (map ext_line exts) = exts"
    unfolding map_map using k(4) by (intro map_idI) (simp add: parseExtmap_line list_all_iff)
  have "\<forall>c \<in> set cs. codec_ok c \<and> described ?m c"
    using k description_described by (auto simp: list_all_iff)
  from media_codecs_described [OF this] show ?thesis
    unfolding parseRtpParameters_def Let_def l h x e kept_def by simp
qed

definition demo_codecs :: "sdp_codec list" where
  "demo_codecs =
     [\<lparr>payloadType = Num (num_of 111), preferredPayloadType = Undef, codec_name = ''opus'',
        clockRate = Num (num_of 48000), channels = Num (num_of 2), numChannels = Num (num_of 2),
        parameters = [(''minptime'', Str ''10''), (''useinbandfec'', Str ''1'')],
        rtcpFeedback = [\<lparr>fb_type = ''nack'', fb_parameter = ''pli''\<rparr>, \<lparr>fb_type = ''transport-cc'', fb_parameter = ''''\<rparr>],
        maxptime = Num (num_of 60)\<rparr>,
      \<lparr>payloadType = Num (num_of 127), preferredPayloadType = Undef, codec_name = ''red'',
        clockRate = Num (num_of 90000), channels = Num (num_of 1), numChannels = Num (num_of 1),
        parameters = [], rtcpFeedback = [], maxptime = Undef\<rparr>]"

definition demo_extensions :: "extension list" where
  "demo_extensions =
     [\<lparr>ext_id = Num (num_of 1), ext_preferredId = Undef, ext_direction = Str ''sendrecv'',
        ext_uri = Str ''urn:ietf:params:rtp-hdrext:toffset''\<rparr>,
      \<lparr>ext_id = Num (num_of 2), ext_preferredId = Undef, ext_direction = Str ''recvonly'',
        ext_uri = Str ''urn:3gpp:video-orientation''\<rparr>]"

theorem rtp_description_round_trip_witness:
  "parseRtpParameters (writeRtpDescription ''audio'' demo_codecs demo_extensions) =
    Inr \<lparr>codecs = map (\<lambda>c. c\<lparr>maxptime := Undef\<rparr>) demo_codecs, headerExtensions = demo_extensions,
         fecMechanisms = [''RED'']\<rparr>"
proof -
  have "sdp_ok ''audio'' demo_codecs demo_extensions" by code_simp
  moreover have "concat (map fec_name demo_codecs) = [''RED'']" by code_simp
  ultimately show ?thesis using rtp_description_round_trip by metis
qed

end
