(* ===== verification/SdpMedia.thy ===== *)
theory SdpMedia
  imports SdpDescription
begin

text \<open>
  Media sections: what \<open>writeMediaSection\<close> puts into a section is what the readers of sections find in it
  again, among the lines of the description and whatever the session part adds.
\<close>

section \<open>Media sections written and read\<close>

definition direction_ok :: "jsval \<Rightarrow> bool" where
  "direction_ok v \<longleftrightarrow> v \<in> set [Undef, Str ''sendrecv'', Str ''sendonly'', Str ''recvonly'', Str ''inactive'']"

text \<open>The direction of a transceiver: its own, or the one its sender and receiver give.\<close>

definition direction_of :: "transceiver \<Rightarrow> string" where
  "direction_of t =
     (case tr_direction t of
        Str d \<Rightarrow> d
      | _ \<Rightarrow> if tr_sender t = None then (if tr_receiver t then ''recvonly'' else ''inactive'')
             else (if tr_receiver t then ''sendrecv'' else ''sendonly''))"

definition fingerprint_ok :: "fingerprint \<Rightarrow> bool" where
  "fingerprint_ok fp \<longleftrightarrow>
     word_ok (fp_algorithm fp) \<and> to_lower (fp_algorithm fp) = fp_algorithm fp \<and>
     (case fp_value fp of Str v \<Rightarrow> word_ok v | _ \<Rightarrow> False)"

definition transceiver_ok :: "transceiver \<Rightarrow> bool" where
  "transceiver_ok t \<longleftrightarrow>
     word_ok (usernameFragment (tr_ice t)) \<and> word_ok (password (tr_ice t)) \<and> list_all fingerprint_ok (tr_dtls t) \<and>
     (case tr_mid t of Str m \<Rightarrow> word_ok m | _ \<Rightarrow> False) \<and> direction_ok (tr_direction t) \<and>
     (case tr_sender t of None \<Rightarrow> True | Some tk \<Rightarrow> word_ok tk) \<and>
     (case tr_encodings t of
        [] \<Rightarrow> False
      | (ssrc, rtx) # _ \<Rightarrow> count_val ssrc \<and> (case rtx of None \<Rightarrow> True | Some r \<Rightarrow> count_val r))"

definition fingerprint_line :: "fingerprint \<Rightarrow> string" where
  "fingerprint_line fp = ''a=fingerprint:'' @ fp_algorithm fp @ '' '' @ to_str (fp_value fp)"

definition source_line :: "jsval \<Rightarrow> string \<Rightarrow> string \<Rightarrow> string" where
  "source_line ssrc attr v = ''a=ssrc:'' @ to_str ssrc @ '' '' @ attr @ '':'' @ v"

definition transport_lines :: "transceiver \<Rightarrow> string \<Rightarrow> string list" where
  "transport_lines t setup =
     [''a=ice-ufrag:'' @ usernameFragment (tr_ice t), ''a=ice-pwd:'' @ password (tr_ice t), ''a=setup:'' @ setup] @
     map fingerprint_line (tr_dtls t) @ [''a=mid:'' @ to_str (tr_mid t), ''a='' @ direction_of t]"

definition source_lines :: "transceiver \<Rightarrow> string \<Rightarrow> string \<Rightarrow> string list" where
  "source_lines t sid cname =
     (case tr_encodings t of
        [] \<Rightarrow> []
      | (ssrc, rtx) # _ \<Rightarrow>
          (case tr_sender t of
             None \<Rightarrow> [source_line ssrc ''cname'' cname]
           | Some tk \<Rightarrow>
               let ids = sid @ '' '' @ tk in
               [''a=msid:'' @ ids, source_line ssrc ''msid'' ids] @
               (case rtx of None \<Rightarrow> []
                | Some r \<Rightarrow> [source_line r ''msid'' ids, ''a=ssrc-group:FID '' @ to_str ssrc @ '' '' @ to_str r]) @
               [source_line ssrc ''cname'' cname] @
               (case rtx of None \<Rightarrow> [] | Some r \<Rightarrow> [source_line r ''cname'' cname])))"

definition setup_of :: "string \<Rightarrow> string" where
  "setup_of ty = (if ty = ''offer'' then ''actpass'' else ''active'')"

lemma direction_line_of: "direction_ok (tr_direction t) \<Longrightarrow> direction_line t = ''a='' @ direction_of t"
  by (auto simp: direction_ok_def direction_line_def direction_of_def)

lemma direction_of_values:
  "direction_ok (tr_direction t) \<Longrightarrow> direction_of t \<in> {''sendrecv'', ''sendonly'', ''recvonly'', ''inactive''}"
  by (auto simp: direction_ok_def direction_of_def)

lemma writeDtls_lines:
  "writeDtlsParameters fps setup = text_of ((''a=setup:'' @ setup) # map fingerprint_line fps)"
  by (simp add: writeDtlsParameters_def text_of_def fingerprint_line_def comp_def)

lemma writeMediaSection_lines:
  assumes "transceiver_ok t" "sdp_ok (tr_kind t) cs exts"
  shows "writeMediaSection t cs exts ty (Some sid) cname =
    Inr (text_of (description_lines (tr_kind t) cs exts @ transport_lines t (setup_of ty) @ source_lines t sid cname))"
proof -
  obtain ssrc rtx es where e: "tr_encodings t = (ssrc, rtx) # es"
    using assms(1) by (cases "tr_encodings t") (auto simp: transceiver_ok_def)
  have d: "writeRtpDescription (tr_kind t) cs exts = text_of (description_lines (tr_kind t) cs exts)"
    using assms(2) by (intro writeRtpDescription_lines) (simp_all add: sdp_ok_def)
  have l: "direction_line t = ''a='' @ direction_of t" using assms(1) by (intro direction_line_of) (simp add: transceiver_ok_def)
  have s: "ssrc_line v (a @ '':'' @ w) = text_of [source_line v a w]" for v a w
    by (simp add: ssrc_line_def source_line_def)
  have c: "ssrc_line v (''cname:'' @ w) = text_of [source_line v ''cname'' w]" for v w
    using s [of v "''cname''"] by simp
  have m: "ssrc_line v (''msid:'' @ w) = text_of [source_line v ''msid'' w]" for v w
    using s [of v "''msid''"] by simp
  show ?thesis
    unfolding writeMediaSection_def e list.case prod.case Let_def d l writeDtls_lines writeIceParameters_def c m
      setup_of_def [symmetric] option.case
    by (cases "tr_sender t"; cases rtx) (simp_all add: transport_lines_def source_lines_def e Let_def)
qed

definition section_lines :: "transceiver \<Rightarrow> sdp_codec list \<Rightarrow> extension list \<Rightarrow> string \<Rightarrow> string \<Rightarrow> string \<Rightarrow> string list" where
  "section_lines t cs exts ty sid cname =
     description_lines (tr_kind t) cs exts @ transport_lines t (setup_of ty) @ source_lines t sid cname"

definition section_tags :: "string list" where
  "section_tags =
     [''a=ice-ufrag:'', ''a=ice-pwd:'', ''a=setup:'', ''a=fingerprint:'', ''a=mid:'', ''a='', ''a=msid:'', ''a=ssrc:'',
      ''a=ssrc-group:FID'']"

lemma section_tag_word: "list_all word_ok section_tags"
  by code_simp

lemma setup_word: "word_ok (setup_of ty)"
proof -
  have "word_ok ''actpass''" "word_ok ''active''" by code_simp+
  then show ?thesis by (simp add: setup_of_def)
qed

lemma direction_word: "direction_ok (tr_direction t) \<Longrightarrow> word_ok (direction_of t)"
proof -
  assume "direction_ok (tr_direction t)"
  moreover have "list_all word_ok [''sendrecv'', ''sendonly'', ''recvonly'', ''inactive'']" by code_simp
  ultimately show ?thesis using direction_of_values [of t] by (auto simp: list_all_iff)
qed

lemma fingerprint_line_ok: "fingerprint_ok fp \<Longrightarrow> line_ok (fingerprint_line fp)"
proof -
  assume "fingerprint_ok fp"
  then obtain v where v: "fp_value fp = Str v" "word_ok v" "word_ok (fp_algorithm fp)"
    by (cases "fp_value fp") (auto simp: fingerprint_ok_def)
  have "word_ok ''a=fingerprint:''" using section_tag_word by (simp add: section_tags_def)
  from line_append [OF word_line [OF word_append [OF this v(3)]] nl_space(3) word_line [OF v(2)]]
  show ?thesis by (simp add: fingerprint_line_def v(1))
qed

lemma transport_lines_ok:
  assumes "transceiver_ok t" shows "list_all line_ok (transport_lines t (setup_of ty))"
proof -
  have w: "word_ok (usernameFragment (tr_ice t))" "word_ok (password (tr_ice t))" "word_ok (direction_of t)"
    "word_ok (to_str (tr_mid t))"
    using assms direction_word by (auto simp: transceiver_ok_def split: jsval.splits)
  have g: "word_ok ''a=ice-ufrag:''" "word_ok ''a=ice-pwd:''" "word_ok ''a=setup:''" "word_ok ''a=mid:''" "word_ok ''a=''"
    using section_tag_word by (simp_all add: section_tags_def)
  have "line_ok (''a=ice-ufrag:'' @ usernameFragment (tr_ice t))" "line_ok (''a=ice-pwd:'' @ password (tr_ice t))"
    "line_ok (''a=setup:'' @ setup_of ty)" "line_ok (''a=mid:'' @ to_str (tr_mid t))" "line_ok (''a='' @ direction_of t)"
    by (rule word_line [OF word_append], fact, fact setup_word w)+
  moreover have "list_all line_ok (map fingerprint_line (tr_dtls t))"
    using assms fingerprint_line_ok by (simp add: transceiver_ok_def list_all_iff)
  ultimately show ?thesis by (simp add: transport_lines_def)
qed

lemma source_line_ok:
  assumes "count_val v" "attr \<in> {''cname'', ''msid''}" "line_ok w" shows "line_ok (source_line v attr w)"
proof -
  have g: "word_ok ''a=ssrc:''" using section_tag_word by (simp add: section_tags_def)
  have "word_ok (attr @ '':'')" using assms(2) by (auto simp: word_ok_def is_space_def)
  from line_append [OF word_line [OF this] _ assms(3), of "[]"] have "line_ok ((attr @ '':'') @ [] @ w)" by simp
  then have "line_ok ((''a=ssrc:'' @ to_str v) @ '' '' @ (attr @ '':'') @ [] @ w)"
    by (rule line_append [OF word_line [OF word_append [OF g count_word [OF assms(1)]]] nl_space(3)])
  then show ?thesis by (simp add: source_line_def)
qed

lemma source_lines_ok:
  assumes "transceiver_ok t" "word_ok sid" "word_ok cname" shows "list_all line_ok (source_lines t sid cname)"
proof -
  obtain ssrc rtx es where e: "tr_encodings t = (ssrc, rtx) # es"
    using assms(1) by (cases "tr_encodings t") (auto simp: transceiver_ok_def)
  have v: "count_val ssrc" "\<And>r. rtx = Some r \<Longrightarrow> count_val r"
    using assms(1) by (auto simp: transceiver_ok_def e)
  have g: "line_ok ''a=msid:''" "line_ok ''a=ssrc-group:FID''"
    using section_tag_word word_line by (simp_all add: section_tags_def)
  have c: "line_ok (source_line w ''cname'' cname)" if "count_val w" for w
    using that assms(3) word_line by (intro source_line_ok) auto
  have ids: "line_ok (sid @ '' '' @ tk)" if "tr_sender t = Some tk" for tk
    using assms(1,2) that nl_space by (intro line_append word_line) (auto simp: transceiver_ok_def)
  have m: "line_ok (source_line w ''msid'' (sid @ '' '' @ tk))" if "tr_sender t = Some tk" "count_val w" for tk w
    using that ids by (intro source_line_ok) auto
  have n: "line_ok (''a=msid:'' @ sid @ '' '' @ tk)" if "tr_sender t = Some tk" for tk
    using line_append [OF g(1) _ ids [OF that], of "[]"] by simp
  have f: "line_ok (''a=ssrc-group:FID'' @ '' '' @ to_str ssrc @ '' '' @ to_str r)" if "rtx = Some r" for r
    by (intro line_append [OF g(2)] line_append word_line count_word v nl_space that)
  show ?thesis
    using c m n f v by (cases "tr_sender t"; cases rtx) (simp_all add: source_lines_def e Let_def)
qed

lemma section_lines_ok:
  assumes "transceiver_ok t" "sdp_ok (tr_kind t) cs exts" "word_ok sid" "word_ok cname"
  shows "list_all line_ok (section_lines t cs exts ty sid cname)" "section_lines t cs exts ty sid cname \<noteq> []"
proof -
  have "list_all line_ok (description_lines (tr_kind t) cs exts)"
    using assms(2) by (intro description_lines_ok) (simp_all only: sdp_ok_def simp_thms)
  then show "list_all line_ok (section_lines t cs exts ty sid cname)"
    using transport_lines_ok [OF assms(1)] source_lines_ok [OF assms(1,3,4)]
    by (simp only: section_lines_def list_all_append simp_thms)
  show "section_lines t cs exts ty sid cname \<noteq> []" by (simp add: section_lines_def description_lines_def)
qed

text \<open>How the lines of each part start.\<close>

definition description_starts :: "string list" where
  "description_starts =
     [''m='', ''c=IN'', ''a=rtcp:9'', ''a=rtcp-mux'', ''a=rtcp-fb:'', ''a=rtpmap:'', ''a=fmtp:'', ''a=maxptime:'', ''a=extmap:'']"

lemma description_start:
  assumes "l \<in> set (description_lines kind cs exts)" shows "\<exists>p \<in> set description_starts. prefix p l"
proof -
  have c: "\<exists>p \<in> {''a=rtpmap:'', ''a=fmtp:'', ''a=rtcp-fb:''}. prefix p l" if "l \<in> set (codec_lines c)" for c
    using that by (auto simp: codec_lines_def rtpmap_line_def fmtp_lines_def feedback_line_def split: if_splits)
  consider c where "l \<in> set (codec_lines c)" | "prefix ''a=extmap:'' l" | "prefix ''a=maxptime:'' l" | "prefix ''m='' l"
    | "prefix ''c=IN'' l" | "prefix ''a=rtcp:9'' l" | "prefix ''a=rtcp-mux'' l"
    using assms by (auto simp: description_lines_def ext_line_def split: if_splits)
  then show ?thesis
  proof cases
    case 1
    then show ?thesis using c by (fastforce simp only: description_starts_def list.set)
  qed (simp_all only: description_starts_def list.set, simp_all)
qed

lemma no_description_line:
  assumes "\<forall>q \<in> set description_starts. \<not> prefix q p \<and> \<not> prefix p q"
  shows "filter (prefix p) (description_lines kind cs exts) = []"
proof (intro filter_none ballI notI)
  fix l assume "l \<in> set (description_lines kind cs exts)" "prefix p l"
  with description_start obtain q where "q \<in> set description_starts" "prefix q l" by blast
  with assms \<open>prefix p l\<close> show False using prefix_same_cases by blast
qed

text \<open>The tags of transport and sources never start a line of the description.\<close>

lemma no_description_tags:
  assumes "p \<in> set (section_tags @ [''a=rtcp-rsize'']) - {''a=''}"
  shows "filter (prefix p) (description_lines kind cs exts) = []"
proof -
  have "list_all (\<lambda>p. \<forall>q \<in> set description_starts. \<not> prefix q p \<and> \<not> prefix p q)
      (filter (\<lambda>p. p \<noteq> ''a='') (section_tags @ [''a=rtcp-rsize'']))"
    by code_simp
  then show ?thesis using assms by (intro no_description_line) (auto simp: list_all_iff)
qed

lemma source_line_start: "prefix ''a=ssrc:'' (source_line v a w)"
  by (simp add: source_line_def)

lemma source_lines_start:
  "l \<in> set (source_lines t sid cname) \<Longrightarrow> prefix ''a=msid:'' l \<or> prefix ''a=ssrc:'' l \<or> prefix ''a=ssrc-group:FID'' l"
  by (auto simp: source_lines_def Let_def source_line_start split: list.splits option.splits)

lemma no_source_line:
  assumes "p \<in> {''a=ice-ufrag:'', ''a=ice-pwd:'', ''a=fingerprint:'', ''a=mid:'', ''a=rtcp-rsize'', ''a=rtcp-mux''}"
  shows "filter (prefix p) (source_lines t sid cname) = []"
proof (intro filter_none ballI notI)
  fix l assume "l \<in> set (source_lines t sid cname)" "prefix p l"
  then show False using source_lines_start [of l t sid cname] assms by (auto dest: prefix_same_cases)
qed

lemma direction_line_start:
  assumes "direction_ok (tr_direction t)" "p \<in> set section_tags" "p \<noteq> ''a=''"
  shows "\<not> prefix p (''a='' @ direction_of t)"
proof -
  have "list_all (\<lambda>d. list_all (\<lambda>p. \<not> prefix p (''a='' @ d)) (filter (\<lambda>p. p \<noteq> ''a='') section_tags))
      [''sendrecv'', ''sendonly'', ''recvonly'', ''inactive'']"
    by code_simp
  then show ?thesis using direction_of_values [OF assms(1)] assms(2,3) by (auto simp: list_all_iff)
qed

lemma transport_filters:
  assumes "transceiver_ok t"
  shows "filter (prefix ''a=ice-ufrag:'') (transport_lines t s) = [''a=ice-ufrag:'' @ usernameFragment (tr_ice t)]"
    and "filter (prefix ''a=ice-pwd:'') (transport_lines t s) = [''a=ice-pwd:'' @ password (tr_ice t)]"
    and "filter (prefix ''a=fingerprint:'') (transport_lines t s) = map fingerprint_line (tr_dtls t)"
    and "filter (prefix ''a=mid:'') (transport_lines t s) = [''a=mid:'' @ to_str (tr_mid t)]"
    and "filter (prefix ''a=msid:'') (transport_lines t s) = []"
    and "filter (prefix ''a=ssrc:'') (transport_lines t s) = []"
proof -
  have d: "direction_ok (tr_direction t)" using assms by (simp add: transceiver_ok_def)
  have f: "filter (prefix p) (map fingerprint_line (tr_dtls t)) = []"
    if "p \<in> {''a=ice-ufrag:'', ''a=ice-pwd:'', ''a=mid:'', ''a=msid:'', ''a=ssrc:''}" for p
    using that by (intro filter_none) (auto simp: fingerprint_line_def)
  have g: "filter (prefix ''a=fingerprint:'') (map fingerprint_line (tr_dtls t)) = map fingerprint_line (tr_dtls t)"
    by (intro filter_True) (auto simp: fingerprint_line_def)
  have n: "\<not> prefix p (''a='' @ direction_of t)" if "p \<in> set section_tags - {''a=''}" for p
    using direction_line_start [OF d] that by simp
  show "filter (prefix ''a=ice-ufrag:'') (transport_lines t s) = [''a=ice-ufrag:'' @ usernameFragment (tr_ice t)]"
    using f [of "''a=ice-ufrag:''"] n [of "''a=ice-ufrag:''"] by (simp add: transport_lines_def section_tags_def)
  show "filter (prefix ''a=ice-pwd:'') (transport_lines t s) = [''a=ice-pwd:'' @ password (tr_ice t)]"
    using f [of "''a=ice-pwd:''"] n [of "''a=ice-pwd:''"] by (simp add: transport_lines_def section_tags_def)
  show "filter (prefix ''a=fingerprint:'') (transport_lines t s) = map fingerprint_line (tr_dtls t)"
    using g n [of "''a=fingerprint:''"] by (simp add: transport_lines_def section_tags_def)
  show "filter (prefix ''a=mid:'') (transport_lines t s) = [''a=mid:'' @ to_str (tr_mid t)]"
    using f [of "''a=mid:''"] n [of "''a=mid:''"] by (simp add: transport_lines_def section_tags_def)
  show "filter (prefix ''a=msid:'') (transport_lines t s) = []"
    using f [of "''a=msid:''"] n [of "''a=msid:''"] by (simp add: transport_lines_def section_tags_def)
  show "filter (prefix ''a=ssrc:'') (transport_lines t s) = []"
    using f [of "''a=ssrc:''"] n [of "''a=ssrc:''"] by (simp add: transport_lines_def section_tags_def)
qed

lemma parseFingerprint_line: "fingerprint_ok fp \<Longrightarrow> parseFingerprint (fingerprint_line fp) = fp"
proof -
  assume ok: "fingerprint_ok fp"
  then obtain v where v: "fp_value fp = Str v" "word_ok v" "word_ok (fp_algorithm fp)" "to_lower (fp_algorithm fp) = fp_algorithm fp"
    by (cases "fp_value fp") (auto simp: fingerprint_ok_def)
  have 1: "substr_from (fingerprint_line fp) 14 = join '' '' [fp_algorithm fp, v]"
    using drop_tag [of "''a=fingerprint:''"] by (simp add: fingerprint_line_def v(1))
  have 2: "split_on (join '' '' [fp_algorithm fp, v]) '' '' = [fp_algorithm fp, v]"
    using word_no_space [OF v(2)] word_no_space [OF v(3)] by (intro split_on_join) auto
  show ?thesis unfolding parseFingerprint_def 1 2 Let_def using v by (cases fp) (simp add: str_at_def arr_at_def)
qed

definition directions :: "string list" where
  "directions = [''a=sendrecv'', ''a=sendonly'', ''a=recvonly'', ''a=inactive'']"

lemma direction_in_eq:
  "direction_in media = map_option (\<lambda>l. substr_from l 2) (find (\<lambda>l. l \<in> set directions) (splitLines media))"
  by (simp add: direction_in_def directions_def)

lemma find_none_append: "\<forall>x \<in> set xs. \<not> P x \<Longrightarrow> find P (xs @ ys) = find P ys"
  by (induction xs) auto

lemma direction_not_before:
  assumes "l \<in> set (description_lines kind cs exts) \<or> (\<exists>p \<in> set section_tags - {''a=''}. prefix p l)"
  shows "l \<notin> set directions"
proof
  assume d: "l \<in> set directions"
  have "list_all (\<lambda>d. list_all (\<lambda>p. \<not> prefix p d) (description_starts @ filter (\<lambda>p. p \<noteq> ''a='') section_tags)) directions"
    by code_simp
  then have "\<forall>p \<in> set description_starts \<union> (set section_tags - {''a=''}). \<not> prefix p l"
    using d by (auto simp: list_all_iff)
  then show False using assms description_start by blast
qed

lemma direction_found:
  assumes "transceiver_ok t"
  shows "find (\<lambda>l. l \<in> set directions) (section_lines t cs exts ty sid cname) = Some (''a='' @ direction_of t)"
proof -
  let ?P = "\<lambda>l. l \<in> set directions"
  let ?pre = "[''a=ice-ufrag:'' @ usernameFragment (tr_ice t), ''a=ice-pwd:'' @ password (tr_ice t), ''a=setup:'' @ setup_of ty] @
      map fingerprint_line (tr_dtls t) @ [''a=mid:'' @ to_str (tr_mid t)]"
  have "\<forall>l \<in> set ?pre. \<exists>p \<in> {''a=ice-ufrag:'', ''a=ice-pwd:'', ''a=setup:'', ''a=fingerprint:'', ''a=mid:''}. prefix p l"
    by (auto simp: fingerprint_line_def)
  then have "\<forall>l \<in> set ?pre. \<exists>p \<in> set section_tags - {''a=''}. prefix p l"
    by (fastforce simp only: section_tags_def list.set)
  then have n: "\<forall>l \<in> set (description_lines (tr_kind t) cs exts @ ?pre). \<not> ?P l"
    using direction_not_before by (metis Un_iff set_append)
  have d: "?P (''a='' @ direction_of t)"
    using assms direction_of_values [of t] by (auto simp: transceiver_ok_def directions_def)
  have "section_lines t cs exts ty sid cname =
      (description_lines (tr_kind t) cs exts @ ?pre) @ (''a='' @ direction_of t) # source_lines t sid cname"
    by (simp add: section_lines_def transport_lines_def)
  then show ?thesis using find_none_append [OF n] d by (simp only: find.simps if_True)
qed

lemma getKind_text:
  assumes "list_all line_ok (section_lines t cs exts ty sid cname)" "word_ok (tr_kind t)"
  shows "getKind (text_of (section_lines t cs exts ty sid cname)) = tr_kind t"
proof -
  let ?w = "''9 UDP/TLS/RTP/SAVPF '' @ join '' '' (map (\<lambda>c. to_str (codec_pt c)) cs)"
  have ne: "section_lines t cs exts ty sid cname \<noteq> []" by (simp add: section_lines_def description_lines_def)
  have h: "hd (section_lines t cs exts ty sid cname) = (''m='' @ tr_kind t) @ CHR '' '' # ?w"
    by (simp add: section_lines_def description_lines_def)
  have "CHR '' '' \<notin> set (''m='' @ tr_kind t)" using word_no_space [OF assms(2)] by simp
  from split_on_cons [OF this, of ?w] show ?thesis
    unfolding getKind_def splitLines_text [OF assms(1) ne] h
    using drop_tag [of "''m=''" "tr_kind t"] by simp
qed

definition section_ok :: "transceiver \<Rightarrow> sdp_codec list \<Rightarrow> extension list \<Rightarrow> string \<Rightarrow> string \<Rightarrow> bool" where
  "section_ok t cs exts sid cname \<longleftrightarrow>
     transceiver_ok t \<and> sdp_ok (tr_kind t) cs exts \<and> word_ok sid \<and> word_ok cname"

lemma section_text:
  assumes "section_ok t cs exts sid cname"
  shows "writeMediaSection t cs exts ty (Some sid) cname = Inr (text_of (section_lines t cs exts ty sid cname))"
    and "list_all line_ok (section_lines t cs exts ty sid cname)"
    and "section_lines t cs exts ty sid cname \<noteq> []"
    and "list_all line_ok ss \<Longrightarrow>
      matchPrefix (text_of (section_lines t cs exts ty sid cname) @ text_of ss) p =
      filter (prefix p) (section_lines t cs exts ty sid cname) @ filter (prefix p) ss"
proof -
  have k: "transceiver_ok t" "sdp_ok (tr_kind t) cs exts" "word_ok sid" "word_ok cname"
    using assms by (simp_all add: section_ok_def)
  show "writeMediaSection t cs exts ty (Some sid) cname = Inr (text_of (section_lines t cs exts ty sid cname))"
    unfolding section_lines_def by (rule writeMediaSection_lines [OF k(1,2)])
  show ok: "list_all line_ok (section_lines t cs exts ty sid cname)" "section_lines t cs exts ty sid cname \<noteq> []"
    by (rule section_lines_ok [OF k])+
  show "matchPrefix (text_of (section_lines t cs exts ty sid cname) @ text_of ss) p =
      filter (prefix p) (section_lines t cs exts ty sid cname) @ filter (prefix p) ss" if "list_all line_ok ss"
    using matchPrefix_text [of "section_lines t cs exts ty sid cname @ ss" p] ok that by simp
qed

text \<open>
  C22. A media section that is written, followed by any session part, is read back by the readers of the
  transport: the kind, the identifier of the section, its ICE user fragment and password before those of the session part,
  its fingerprints followed by the session's, and the direction, which is that of the
  transceiver or follows from its sender and receiver.
\<close>

theorem media_section_transport:
  assumes "section_ok t cs exts sid cname" "list_all line_ok ss"
  shows "\<exists>media. writeMediaSection t cs exts ty (Some sid) cname = Inr media \<and>
    getKind media = tr_kind t \<and> getMid media = tr_mid t \<and>
    getIceParameters media (text_of ss) = Some (tr_ice t) \<and>
    getDtlsParameters media (text_of ss) = tr_dtls t @ map parseFingerprint (filter (prefix ''a=fingerprint:'') ss) \<and>
    getDirection media (text_of ss) = direction_of t"
proof -
  let ?ls = "section_lines t cs exts ty sid cname"
  have k: "transceiver_ok t" "word_ok (tr_kind t)" using assms(1) by (simp_all add: section_ok_def sdp_ok_def)
  note st = section_text [OF assms(1), where ty = ty]
  have f: "filter (prefix p) ?ls = filter (prefix p) (transport_lines t (setup_of ty))"
    if "p \<in> {''a=ice-ufrag:'', ''a=ice-pwd:'', ''a=fingerprint:'', ''a=mid:''}" for p
    using that no_description_tags [of p] no_source_line [of p] by (auto simp: section_lines_def section_tags_def)
  note tf = transport_filters [OF k(1), of "setup_of ty"]
  have m: "matchPrefix (text_of ?ls @ text_of ss) p = filter (prefix p) (transport_lines t (setup_of ty)) @ filter (prefix p) ss"
    if "p \<in> {''a=ice-ufrag:'', ''a=ice-pwd:'', ''a=fingerprint:'', ''a=mid:''}" for p
    unfolding st(4) [OF assms(2)] f [OF that] ..
  have ice: "getIceParameters (text_of ?ls) (text_of ss) = Some (tr_ice t)"
    using m [of "''a=ice-ufrag:''"] m [of "''a=ice-pwd:''"] tf(1,2) drop_tag [of "''a=ice-ufrag:''"] drop_tag [of "''a=ice-pwd:''"]
    by (cases "tr_ice t") (simp add: getIceParameters_def first_match_def)
  have mid: "getMid (text_of ?ls) = tr_mid t"
    using st(4) [of "[]" "''a=mid:''"] f [of "''a=mid:''"] tf(4) drop_tag [of "''a=mid:''"] k(1)
    by (cases "tr_mid t") (simp_all add: getMid_def first_match_def transceiver_ok_def)
  have "map parseFingerprint (map fingerprint_line (tr_dtls t)) = tr_dtls t"
    unfolding map_map using k(1) by (intro map_idI) (simp add: parseFingerprint_line transceiver_ok_def list_all_iff)
  then have dtls: "getDtlsParameters (text_of ?ls) (text_of ss) = tr_dtls t @ map parseFingerprint (filter (prefix ''a=fingerprint:'') ss)"
    using m [of "''a=fingerprint:''"] tf(3) by (simp add: getDtlsParameters_def)
  have dir: "getDirection (text_of ?ls) (text_of ss) = direction_of t"
    using direction_found [OF k(1), of cs exts ty sid cname] drop_tag [of "''a=''"]
    by (simp add: getDirection_def direction_in_eq splitLines_text [OF st(2,3)])
  show ?thesis
    using st(1) getKind_text [OF st(2) k(2)] mid ice dtls dir by blast
qed

definition demo_transceiver :: transceiver where
  "demo_transceiver =
     \<lparr>tr_kind = ''audio'', tr_ice = \<lparr>usernameFragment = ''F7gI'', password = ''x9cml/YzichV2+XlhiMu8g''\<rparr>,
      tr_dtls = [\<lparr>fp_algorithm = ''sha-256'', fp_value = Str ''AB:CD''\<rparr>], tr_mid = Str ''0'', tr_direction = Undef,
      tr_sender = Some ''track0'', tr_receiver = False,
      tr_encodings = [(Num (num_of 1001), Some (Num (num_of 1002)))]\<rparr>"

theorem media_section_transport_witness:
  "\<exists>media. writeMediaSection demo_transceiver demo_codecs demo_extensions ''offer'' (Some ''stream0'') ''cn'' = Inr media \<and>
    getKind media = ''audio'' \<and> getMid media = Str ''0'' \<and>
    getIceParameters media (text_of [''a=ice-ufrag:other'']) = Some (tr_ice demo_transceiver) \<and>
    getDtlsParameters media (text_of [''a=ice-ufrag:other'']) = tr_dtls demo_transceiver \<and>
    getDirection media (text_of [''a=ice-ufrag:other'']) = ''sendonly''"
proof -
  have "section_ok demo_transceiver demo_codecs demo_extensions ''stream0'' ''cn''" by code_simp
  moreover have "list_all line_ok [''a=ice-ufrag:other'']" by code_simp
  ultimately show ?thesis
    using media_section_transport [of demo_transceiver demo_codecs demo_extensions "''stream0''" "''cn''"
        "[''a=ice-ufrag:other'']" "''offer''"]
    by (simp add: demo_transceiver_def direction_of_def)
qed

section \<open>The sources of a section\<close>

lemma index_of_after: "CHR '' '' \<notin> set u \<Longrightarrow> index_of (u @ CHR '' '' # v) '' '' = int (length u)"
  by (simp add: index_of_def find_sub_single)

lemma index_from_after:
  "index_from (u @ v) t (int (length u)) = (case find_sub t v of None \<Rightarrow> - 1 | Some i \<Rightarrow> int (length u + i))"
  by (simp add: index_from_def)

lemma substr_after: "substr (u @ v) (int (length u)) n = take (nat n) v"
  by (simp add: substr_def)

lemma parseSsrcMedia_line:
  assumes "count_val v" "CHR '':'' \<notin> set a"
  shows "parseSsrcMedia (source_line v a w) = \<lparr>ss_ssrc = v, ss_attribute = a, ss_value = Str w\<rparr>"
proof -
  let ?n = "to_str v" let ?u = "''a=ssrc:'' @ ?n" let ?l = "?u @ CHR '' '' # a @ CHR '':'' # w"
  have l: "source_line v a w = ?l" by (simp add: source_line_def)
  have "CHR '' '' \<notin> set ?u" using tag_pt_no_space [OF assms(1)] by simp
  from index_of_after [OF this] have i: "index_of ?l '' '' = int (length ?u)" .
  have n: "substr ?l 7 (int (length ?u) - 7) = ?n"
    using substr_after [of "''a=ssrc:''" "?n @ CHR '' '' # a @ CHR '':'' # w"] by simp
  have "find_sub '':'' (CHR '' '' # a @ CHR '':'' # w) = Some (Suc (length a))"
    using find_sub_single [of "CHR '':''" "CHR '' '' # a" w] assms(2) by simp
  then have c: "index_from ?l '':'' (int (length ?u)) = int (length ?u + Suc (length a))"
    unfolding index_from_after by (simp only: option.case)
  have a: "substr ?l (int (length ?u) + 1) (int (length ?u + Suc (length a)) - int (length ?u) - 1) = a"
    using substr_after [of "?u @ '' ''" "a @ CHR '':'' # w" "int (length a)"] by (simp add: add.commute)
  have w: "substr_from ?l (int (length ?u + Suc (length a)) + 1) = w"
    using drop_tag [of "?u @ '' '' @ a @ '':''" w] by (simp add: ac_simps)
  have "- 1 < int (length ?u + Suc (length a))" by simp
  then show ?thesis
    unfolding parseSsrcMedia_def l Let_def i c n a w using count_int10 [OF assms(1)] by (simp only: if_True)
qed

lemma transport_no_rsize:
  assumes "transceiver_ok t" shows "filter (prefix ''a=rtcp-rsize'') (transport_lines t s) = []"
proof -
  have "direction_of t \<in> {''sendrecv'', ''sendonly'', ''recvonly'', ''inactive''}"
    using assms by (intro direction_of_values) (simp add: transceiver_ok_def)
  then have 1: "\<not> prefix ''a=rtcp-rsize'' (''a='' @ direction_of t)" by auto
  have 2: "filter (prefix ''a=rtcp-rsize'') (map fingerprint_line (tr_dtls t)) = []"
    by (intro filter_none) (auto simp: fingerprint_line_def)
  show ?thesis using 1 2 by (simp add: transport_lines_def)
qed

text \<open>The lines of the sources of a section, in their order: identifiers first, names after them.\<close>

definition source_facts :: "transceiver \<Rightarrow> string \<Rightarrow> string \<Rightarrow> ssrc_media list" where
  "source_facts t sid cname =
     (case tr_encodings t of
        [] \<Rightarrow> []
      | (ssrc, rtx) # _ \<Rightarrow>
          (let name = (\<lambda>v. \<lparr>ss_ssrc = v, ss_attribute = ''cname'', ss_value = Str cname\<rparr>)
           in case tr_sender t of
                None \<Rightarrow> [name ssrc]
              | Some tk \<Rightarrow>
                  (let vs = ssrc # (case rtx of None \<Rightarrow> [] | Some r \<Rightarrow> [r])
                   in map (\<lambda>v. \<lparr>ss_ssrc = v, ss_attribute = ''msid'', ss_value = Str (sid @ '' '' @ tk)\<rparr>) vs @ map name vs)))"

lemma source_lines_parsed:
  assumes "transceiver_ok t"
  shows "map parseSsrcMedia (filter (prefix ''a=ssrc:'') (source_lines t sid cname)) = source_facts t sid cname"
proof -
  obtain ssrc rtx es where e: "tr_encodings t = (ssrc, rtx) # es"
    using assms by (cases "tr_encodings t") (auto simp: transceiver_ok_def)
  have v: "count_val ssrc" "\<And>r. rtx = Some r \<Longrightarrow> count_val r"
    using assms by (auto simp: transceiver_ok_def e)
  have c: "parseSsrcMedia (source_line v ''cname'' w) = \<lparr>ss_ssrc = v, ss_attribute = ''cname'', ss_value = Str w\<rparr>"
    if "count_val v" for v w using that by (intro parseSsrcMedia_line) simp_all
  have m: "parseSsrcMedia (source_line v ''msid'' w) = \<lparr>ss_ssrc = v, ss_attribute = ''msid'', ss_value = Str w\<rparr>"
    if "count_val v" for v w using that by (intro parseSsrcMedia_line) simp_all
  show ?thesis
    using v by (cases "tr_sender t"; cases rtx)
      (simp_all add: source_lines_def source_facts_def e Let_def source_line_start c m)
qed

lemma section_sources:
  assumes "section_ok t cs exts sid cname"
  shows "filter (prefix ''a=ssrc:'') (section_lines t cs exts ty sid cname) = filter (prefix ''a=ssrc:'') (source_lines t sid cname)"
    and "filter (prefix ''a=msid:'') (section_lines t cs exts ty sid cname) = filter (prefix ''a=msid:'') (source_lines t sid cname)"
    and "filter (prefix ''a=rtcp-rsize'') (section_lines t cs exts ty sid cname) = []"
    and "filter (prefix ''a=rtcp-mux'') (section_lines t cs exts ty sid cname) \<noteq> []"
proof -
  have k: "transceiver_ok t" using assms by (simp add: section_ok_def)
  show "filter (prefix ''a=ssrc:'') (section_lines t cs exts ty sid cname) = filter (prefix ''a=ssrc:'') (source_lines t sid cname)"
    using transport_filters(6) [OF k] no_description_tags [of "''a=ssrc:''"] by (simp add: section_lines_def section_tags_def)
  show "filter (prefix ''a=msid:'') (section_lines t cs exts ty sid cname) = filter (prefix ''a=msid:'') (source_lines t sid cname)"
    using transport_filters(5) [OF k] no_description_tags [of "''a=msid:''"] by (simp add: section_lines_def section_tags_def)
  show "filter (prefix ''a=rtcp-rsize'') (section_lines t cs exts ty sid cname) = []"
    using transport_no_rsize [OF k] no_description_tags [of "''a=rtcp-rsize''"] no_source_line [of "''a=rtcp-rsize''"]
    by (simp add: section_lines_def)
  have "''a=rtcp-mux'' \<in> set (section_lines t cs exts ty sid cname)" by (simp add: section_lines_def description_lines_def)
  then show "filter (prefix ''a=rtcp-mux'') (section_lines t cs exts ty sid cname) \<noteq> []"
    unfolding filter_empty_conv by blast
qed

lemma msid_filter:
  "tr_encodings t = (ssrc, rtx) # es \<Longrightarrow> filter (prefix ''a=msid:'') (source_lines t sid cname) =
     (case tr_sender t of None \<Rightarrow> [] | Some tk \<Rightarrow> [''a=msid:'' @ sid @ '' '' @ tk])"
  by (cases "tr_sender t"; cases rtx) (simp_all add: source_lines_def source_line_def Let_def)

text \<open>
  C23. The sources of a section that is written are read back: stream and track of the sender (none
  without a sender), the canonical name with the source of the first encoding, and multiplexed compound
  control packets.
\<close>

theorem media_section_sources:
  assumes "section_ok t cs exts sid cname" "tr_encodings t = (ssrc, rtx) # es"
  shows "\<exists>media. writeMediaSection t cs exts ty (Some sid) cname = Inr media \<and>
    parseMsid media =
      Inr (case tr_sender t of None \<Rightarrow> Undef | Some tk \<Rightarrow> Obj [(''stream'', Str sid), (''track'', Str tk)]) \<and>
    parseRtcpParameters media =
      [(''cname'', Str cname), (''ssrc'', ssrc), (''reducedSize'', Bool False), (''compound'', Bool True),
       (''mux'', Bool True)]"
proof -
  let ?ls = "section_lines t cs exts ty sid cname"
  have k: "transceiver_ok t" "word_ok sid" using assms(1) by (simp_all add: section_ok_def)
  note st = section_text [OF assms(1), where ty = ty]
  note ss = section_sources [OF assms(1), where ty = ty]
  have m: "matchPrefix (text_of ?ls) p = filter (prefix p) ?ls" for p using st(4) [of "[]" p] by simp
  have s: "map parseSsrcMedia (matchPrefix (text_of ?ls) ''a=ssrc:'') = source_facts t sid cname"
    unfolding m ss(1) by (rule source_lines_parsed [OF k(1)])
  have spec: "matchPrefix (text_of ?ls) ''a=msid:'' = (case tr_sender t of None \<Rightarrow> [] | Some tk \<Rightarrow> [''a=msid:'' @ sid @ '' '' @ tk])"
    unfolding m ss(2) by (rule msid_filter [OF assms(2)])
  have w: "split_on (sid @ '' '' @ tk) '' '' = [sid, tk]" if "tr_sender t = Some tk" for tk
    using k that word_no_space split_on_join [of "[sid, tk]" "CHR '' ''"] by (auto simp: transceiver_ok_def)
  have msid: "parseMsid (text_of ?ls) =
      Inr (case tr_sender t of None \<Rightarrow> Undef | Some tk \<Rightarrow> Obj [(''stream'', Str sid), (''track'', Str tk)])"
  proof (cases "tr_sender t")
    case None
    then show ?thesis unfolding parseMsid_def spec s by (simp add: source_facts_def assms(2) Let_def)
  next
    case (Some tk)
    have "substr_from (''a=msid:'' @ sid @ '' '' @ tk) 7 = sid @ '' '' @ tk" using drop_tag [of "''a=msid:''"] by simp
    then show ?thesis unfolding parseMsid_def spec Some option.case using w [OF Some]
      by (simp add: msid_parts_def str_at_def arr_at_def)
  qed
  have names: "arr_at (cname_sources (text_of ?ls)) 0 = Some \<lparr>ss_ssrc = ssrc, ss_attribute = ''cname'', ss_value = Str cname\<rparr>"
    unfolding cname_sources_def s by (cases "tr_sender t"; cases rtx) (simp_all add: source_facts_def assms(2) Let_def arr_at_def)
  have rtcp: "parseRtcpParameters (text_of ?ls) =
      [(''cname'', Str cname), (''ssrc'', ssrc), (''reducedSize'', Bool False), (''compound'', Bool True), (''mux'', Bool True)]"
    unfolding parseRtcpParameters_def names m ss(3) Let_def using ss(4) by simp
  show ?thesis using st(1) msid rtcp by blast
qed

theorem media_section_sources_witness:
  "\<exists>media. writeMediaSection demo_transceiver demo_codecs demo_extensions ''answer'' (Some ''stream0'') ''cn'' = Inr media \<and>
    parseMsid media = Inr (Obj [(''stream'', Str ''stream0''), (''track'', Str ''track0'')]) \<and>
    parseRtcpParameters media =
      [(''cname'', Str ''cn''), (''ssrc'', Num (num_of 1001)), (''reducedSize'', Bool False), (''compound'', Bool True),
       (''mux'', Bool True)]"
proof -
  have "section_ok demo_transceiver demo_codecs demo_extensions ''stream0'' ''cn''" by code_simp
  moreover have "tr_encodings demo_transceiver = (Num (num_of 1001), Some (Num (num_of 1002))) # []"
    by (simp add: demo_transceiver_def)
  ultimately show ?thesis
    using media_section_sources [of demo_transceiver demo_codecs demo_extensions "''stream0''" "''cn''"]
    by (simp add: demo_transceiver_def)
qed

end
