(* ===== verification/SdpSession.thy ===== *)
theory SdpSession
  imports SdpMedia
begin

text \<open>
  Whole session descriptions: the session part and media sections that are written one after the other
  are what \<open>splitSections\<close> cuts the text into, and the text passes \<open>isValidSDP\<close>.
\<close>

section \<open>Cutting at a separator of several characters\<close>

lemma find_sub_step:
  "find_sub t (c # s) = (if prefix t (c # s) then Some 0 else map_option Suc (find_sub t s))"
  by (simp split: option.split)

lemma split_on_step:
  assumes "sep \<noteq> []"
  shows "split_on (c # s) sep =
    (if prefix sep (c # s) then [] # split_on (drop (length sep) (c # s)) sep
     else (c # hd (split_on s sep)) # tl (split_on s sep))"
  using assms
  by (subst split_on.simps, subst (2 3 4) split_on.simps)
    (simp add: find_sub_step split: option.split)

definition m_sep :: string where
  "m_sep = [nl] @ ''m=''"

lemma m_sep_simps: "m_sep \<noteq> []" "length m_sep = 3" "prefix m_sep (c # s) \<longleftrightarrow> c = nl \<and> prefix ''m='' s"
  by (auto simp: m_sep_def)

lemma split_on_no_nl:
  "nl \<notin> set u \<Longrightarrow> split_on (u @ s) m_sep = (u @ hd (split_on s m_sep)) # tl (split_on s m_sep)"
proof (induction u)
  case Nil
  then show ?case using split_on_not_Nil [of m_sep s] by (simp add: m_sep_simps)
next
  case (Cons c u)
  then show ?case by (auto simp: split_on_step m_sep_simps)
qed

definition heads_section :: "string \<Rightarrow> bool" where
  "heads_section l \<longleftrightarrow> prefix ''m='' l"

lemma not_m_line: "\<not> heads_section l \<Longrightarrow> \<not> prefix ''m='' (l @ crlf @ s)"
  by (cases l; cases "tl l") (auto simp: heads_section_def crlf_def)

text \<open>The text up to the next section ends before its line feed.\<close>

lemma split_one_section:
  assumes "\<forall>l \<in> set ls. line_ok l \<and> \<not> heads_section l" "r = [] \<or> prefix ''m='' r" "nl \<notin> set u"
  shows "split_on (u @ crlf @ text_of ls @ r) m_sep =
    (if r = [] then [u @ crlf @ text_of ls] else butlast (u @ crlf @ text_of ls) # split_on (drop 2 r) m_sep)"
  using assms
proof (induction ls arbitrary: u)
  case Nil
  have u: "nl \<notin> set (u @ [CHR 0x0D])" using Nil.prems(3) by (simp add: nl_def)
  have "u @ crlf @ text_of [] @ r = (u @ [CHR 0x0D]) @ nl # r" by (simp add: crlf_def nl_def)
  moreover have "split_on (nl # r) m_sep = (if r = [] then [[nl]] else [] # split_on (drop 2 r) m_sep)"
    using Nil.prems(2) by (auto simp: split_on_step m_sep_simps split_on_absent)
  ultimately show ?case using split_on_no_nl [OF u] by (simp add: crlf_def nl_def butlast_append)
next
  case (Cons l ls)
  have l: "line_ok l" "\<not> heads_section l" "nl \<notin> set l" using Cons.prems(1) by (auto simp: line_ok_def)
  have u: "nl \<notin> set (u @ [CHR 0x0D])" using Cons.prems(3) by (simp add: nl_def)
  let ?s = "l @ crlf @ text_of ls @ r"
  have 1: "u @ crlf @ text_of (l # ls) @ r = (u @ [CHR 0x0D]) @ nl # ?s" by (simp add: crlf_def nl_def)
  have ih: "split_on ?s m_sep =
      (if r = [] then [l @ crlf @ text_of ls] else butlast (l @ crlf @ text_of ls) # split_on (drop 2 r) m_sep)"
    using Cons.prems l(3) by (intro Cons.IH) auto
  have "split_on (nl # ?s) m_sep = (nl # hd (split_on ?s m_sep)) # tl (split_on ?s m_sep)"
    using not_m_line [OF l(2), of "text_of ls @ r"] by (simp add: split_on_step m_sep_simps)
  then have 2: "split_on (nl # ?s) m_sep =
      (if r = [] then [nl # l @ crlf @ text_of ls] else (nl # butlast (l @ crlf @ text_of ls)) # split_on (drop 2 r) m_sep)"
    unfolding ih by simp
  have 3: "u @ crlf @ text_of (l # ls) = (u @ [CHR 0x0D]) @ nl # l @ crlf @ text_of ls" by (simp add: crlf_def nl_def)
  show ?case unfolding 1 3 split_on_no_nl [OF u] 2 by (simp add: crlf_def butlast_append)
qed

text \<open>Trimming a piece, with the line feed or without it, gives the lines of the section.\<close>

lemma trim_text:
  assumes "list_all line_ok ls" "ls \<noteq> []"
  shows "trim_ws (text_of ls) @ crlf = text_of ls" "trim_ws (butlast (text_of ls)) @ crlf = text_of ls"
proof -
  have h: "line_ok (hd ls)" "\<not> is_space (last (last ls))" using assms by (simp_all add: list_all_iff line_ok_def)
  have j: "join crlf ls \<noteq> []" "\<not> is_space (hd (join crlf ls))" "\<not> is_space (last (join crlf ls))"
    using hd_join [OF h(1) assms(2)] last_join [OF assms] h by (simp_all add: line_ok_def)
  have "trim_ws (join crlf ls @ crlf) = join crlf ls" by (intro trim_ws_line j crlf_space)
  then show "trim_ws (text_of ls) @ crlf = text_of ls" by (simp add: text_of_join [OF assms(2)])
  have "trim_ws (join crlf ls @ [CHR 0x0D]) = join crlf ls" by (intro trim_ws_line j) (simp add: is_space_def)
  moreover have "butlast (text_of ls) = join crlf ls @ [CHR 0x0D]"
    unfolding text_of_join [OF assms(2)] by (simp add: crlf_def butlast_append)
  ultimately show "trim_ws (butlast (text_of ls)) @ crlf = text_of ls" by (simp add: text_of_join [OF assms(2)])
qed

section \<open>Sections\<close>

definition section_shape :: "string list \<Rightarrow> bool" where
  "section_shape ls \<longleftrightarrow>
     ls \<noteq> [] \<and> list_all line_ok ls \<and> heads_section (hd ls) \<and> list_all (\<lambda>l. \<not> heads_section l) (tl ls)"

lemma section_shape_start: "section_shape ls \<Longrightarrow> prefix ''m='' (text_of ls @ s)"
  by (cases ls) (auto simp: section_shape_def heads_section_def prefix_def)

lemma section_pieces:
  "\<forall>ls \<in> set secs. section_shape ls \<Longrightarrow> secs \<noteq> [] \<Longrightarrow>
     section_texts False (split_on (drop 2 (concat (map text_of secs))) m_sep) = map text_of secs"
proof (induction secs)
  case (Cons ls secs)
  let ?r = "concat (map text_of secs)"
  have sh: "section_shape ls" using Cons.prems by simp
  then obtain x ls' where ls: "ls = (''m='' @ x) # ls'"
    by (cases ls) (auto simp: section_shape_def heads_section_def prefix_def)
  have ok: "list_all line_ok ls" "ls \<noteq> []" using sh by (simp_all add: section_shape_def)
  have x: "nl \<notin> set x" and ls': "\<forall>l \<in> set ls'. line_ok l \<and> \<not> heads_section l"
    using sh by (auto simp: section_shape_def ls line_ok_def list_all_iff)
  have d: "drop 2 (concat (map text_of (ls # secs))) = x @ crlf @ text_of ls' @ ?r" by (simp add: ls)
  have t: "text_of ls = ''m='' @ x @ crlf @ text_of ls'" by (simp add: ls)
  have b: "butlast (text_of ls) = ''m='' @ butlast (x @ crlf @ text_of ls')"
    unfolding t by (simp add: crlf_def butlast_append)
  show ?case
  proof (cases secs)
    case Nil
    have "split_on (x @ crlf @ text_of ls' @ ?r) m_sep = [x @ crlf @ text_of ls']"
      using split_one_section [OF ls' _ x, of ?r] Nil by simp
    then show ?thesis unfolding d using trim_text(1) [OF ok] Nil by (simp add: t [symmetric] del: text_of_simps) (simp add: ls)
  next
    case (Cons ls2 secs2)
    then have r: "prefix ''m='' ?r" using section_shape_start [of ls2] \<open>\<forall>ls \<in> set (ls # secs). section_shape ls\<close> by simp
    then have ne: "?r \<noteq> []" by (metis list.distinct(1) prefix_Nil)
    have "split_on (x @ crlf @ text_of ls' @ ?r) m_sep = butlast (x @ crlf @ text_of ls') # split_on (drop 2 ?r) m_sep"
      using split_one_section [OF ls' _ x, of ?r] r ne by (simp only: if_False simp_thms)
    moreover have "section_texts False (split_on (drop 2 ?r) m_sep) = map text_of secs"
      using Cons.IH [of] Cons.prems Cons by simp
    ultimately show ?thesis unfolding d using trim_text(2) [OF ok] b by simp
  qed
qed simp

lemma split_sections:
  assumes "list_all line_ok ss" "ss \<noteq> []" "\<forall>l \<in> set ss. \<not> heads_section l" "\<forall>ls \<in> set secs. section_shape ls"
  shows "splitSections (text_of ss @ concat (map text_of secs)) = text_of ss # map text_of secs"
proof -
  obtain u ls where ss: "ss = u # ls" using assms(2) by (cases ss) auto
  have u: "nl \<notin> set u" and ls: "\<forall>l \<in> set ls. line_ok l \<and> \<not> heads_section l"
    using assms(1,3) by (auto simp: ss line_ok_def list_all_iff)
  let ?r = "concat (map text_of secs)"
  have d: "splitSections blob = section_texts True (split_on blob m_sep)" for blob
    by (simp only: splitSections_def m_sep_def)
  show ?thesis
  proof (cases secs)
    case Nil
    then have "split_on (text_of ss @ ?r) m_sep = [text_of ss]"
      using split_one_section [OF ls _ u, of ?r] by (simp add: ss)
    then show ?thesis
      using trim_text(1) [OF assms(1,2)] Nil by (simp add: d)
  next
    case (Cons ls2 secs2)
    then have r: "prefix ''m='' ?r" using section_shape_start [of ls2] assms(4) by simp
    then have ne: "?r \<noteq> []" by (metis list.distinct(1) prefix_Nil)
    have "split_on (text_of ss @ ?r) m_sep = butlast (text_of ss) # split_on (drop 2 ?r) m_sep"
      using split_one_section [OF ls _ u, of ?r] r ne by (simp only: ss text_of_simps append_assoc if_False simp_thms)
    then show ?thesis
      using trim_text(2) [OF assms(1,2)] section_pieces [OF assms(4)] Cons
      by (simp add: d)
  qed
qed

lemma description_tail:
  assumes "l \<in> set (tl (description_lines kind cs exts))" shows "prefix ''a='' l \<or> prefix ''c='' l"
proof -
  have "\<forall>l \<in> set (codec_lines c). prefix ''a='' l" for c
    by (auto simp: codec_lines_def rtpmap_line_def fmtp_lines_def feedback_line_def)
  then show ?thesis using assms by (auto simp: description_lines_def ext_line_def split: if_splits)
qed

lemma section_tail:
  assumes "l \<in> set (tl (section_lines t cs exts ty sid cname))" shows "prefix ''a='' l \<or> prefix ''c='' l"
proof -
  have 1: "\<forall>l \<in> set (transport_lines t (setup_of ty)). prefix ''a='' l"
    by (auto simp: transport_lines_def fingerprint_line_def)
  have 2: "\<forall>l \<in> set (source_lines t sid cname). prefix ''a='' l"
    by (auto simp: source_lines_def source_line_def Let_def split: list.splits option.splits)
  have "description_lines (tr_kind t) cs exts \<noteq> []" by (simp add: description_lines_def)
  then have "l \<in> set (tl (description_lines (tr_kind t) cs exts)) \<union> set (transport_lines t (setup_of ty)) \<union> set (source_lines t sid cname)"
    using assms by (simp add: section_lines_def)
  then show ?thesis using 1 2 description_tail by blast
qed

lemma section_head: "prefix ''m='' (hd (section_lines t cs exts ty sid cname))"
  by (simp add: section_lines_def description_lines_def)

lemma section_lines_shape:
  assumes "section_ok t cs exts sid cname" shows "section_shape (section_lines t cs exts ty sid cname)"
proof -
  have "\<not> heads_section l" if "l \<in> set (tl (section_lines t cs exts ty sid cname))" for l
    using section_tail [OF that] by (auto simp: heads_section_def dest: prefix_same_cases)
  then show ?thesis
    using section_text(2,3) [OF assms] section_head by (simp add: section_shape_def heads_section_def list_all_iff)
qed

definition typed_line :: "string \<Rightarrow> bool" where
  "typed_line l \<longleftrightarrow> 2 \<le> length l \<and> l ! 1 = CHR ''=''"

lemma typed_line_eq: "typed_line = (\<lambda>l. 2 \<le> length l \<and> l ! 1 = CHR ''='')"
  by (simp add: fun_eq_iff typed_line_def)

lemma typed_prefix: "prefix [c, CHR ''=''] l \<Longrightarrow> typed_line l"
  by (auto simp: typed_line_def prefix_def)

lemma section_typed:
  assumes "l \<in> set (section_lines t cs exts ty sid cname)" shows "typed_line l"
proof (cases "l \<in> set (tl (section_lines t cs exts ty sid cname))")
  case True
  from section_tail [OF this] show ?thesis using typed_prefix by blast
next
  case False
  then have "l = hd (section_lines t cs exts ty sid cname)"
    using assms by (cases "section_lines t cs exts ty sid cname") auto
  then show ?thesis using section_head typed_prefix by metis
qed

section \<open>Sessions\<close>

definition session_user :: "jsval \<Rightarrow> string" where
  "session_user u = to_str (or_val u (Str ''thisisadapterortc''))"

definition session_version :: "jsval \<Rightarrow> string" where
  "session_version v = to_str (if v \<noteq> Undef then v else Num (num_of 2))"

definition session_name :: "jsval \<Rightarrow> string \<Rightarrow> string" where
  "session_name i random = (if truthy i then to_str i else random)"

definition session_lines :: "jsval \<Rightarrow> jsval \<Rightarrow> jsval \<Rightarrow> string \<Rightarrow> string list" where
  "session_lines i v u random =
     [''v=0'', ''o='' @ session_user u @ '' '' @ session_name i random @ '' '' @ session_version v @ '' IN IP4 127.0.0.1'',
      ''s=-'', ''t=0 0'']"

lemma boilerplate_lines: "writeSessionBoilerplate i v u random = text_of (session_lines i v u random)"
  by (simp add: writeSessionBoilerplate_def session_lines_def session_user_def session_version_def session_name_def)

definition session_ok :: "jsval \<Rightarrow> jsval \<Rightarrow> jsval \<Rightarrow> string \<Rightarrow> bool" where
  "session_ok i v u random \<longleftrightarrow> word_ok (session_user u) \<and> word_ok (session_name i random) \<and> word_ok (session_version v)"

lemma session_lines_ok:
  assumes "session_ok i v u random"
  shows "list_all line_ok (session_lines i v u random)" "\<forall>l \<in> set (session_lines i v u random). \<not> heads_section l \<and> typed_line l"
proof -
  have w: "word_ok (session_user u)" "word_ok (session_name i random)" "word_ok (session_version v)" "word_ok ''o=''"
    using assms by (simp_all add: session_ok_def word_ok_def is_space_def)
  have f: "line_ok ''IN IP4 127.0.0.1''" "line_ok ''v=0''" "line_ok ''s=-''" "line_ok ''t=0 0''"
    by (simp_all add: line_ok_def nl_def is_space_def)
  have "line_ok ((''o='' @ session_user u) @ '' '' @ session_name i random @ '' '' @ session_version v @ '' '' @ ''IN IP4 127.0.0.1'')"
    by (rule line_append [OF word_line [OF word_append [OF w(4,1)]] nl_space(3)
          line_append [OF word_line [OF w(2)] nl_space(3) line_append [OF word_line [OF w(3)] nl_space(3) f(1)]]])
  then show "list_all line_ok (session_lines i v u random)" using f by (simp add: session_lines_def)
  show "\<forall>l \<in> set (session_lines i v u random). \<not> heads_section l \<and> typed_line l"
    by (simp add: session_lines_def heads_section_def typed_line_def)
qed

text \<open>A media section of a session: transceiver, codecs, header extensions, kind of description, stream.\<close>

type_synonym section_args = "transceiver \<times> sdp_codec list \<times> extension list \<times> string \<times> string"

definition write_section :: "string \<Rightarrow> section_args \<Rightarrow> string result" where
  "write_section cname a = (case a of (t, cs, exts, ty, sid) \<Rightarrow> writeMediaSection t cs exts ty (Some sid) cname)"

definition args_ok :: "string \<Rightarrow> section_args \<Rightarrow> bool" where
  "args_ok cname a = (case a of (t, cs, exts, ty, sid) \<Rightarrow> section_ok t cs exts sid cname)"

definition args_lines :: "string \<Rightarrow> section_args \<Rightarrow> string list" where
  "args_lines cname a = (case a of (t, cs, exts, ty, sid) \<Rightarrow> section_lines t cs exts ty sid cname)"

lemma args_facts:
  "args_ok cname a \<Longrightarrow> write_section cname a = Inr (text_of (args_lines cname a))"
  "args_ok cname a \<Longrightarrow> section_shape (args_lines cname a)"
  "l \<in> set (args_lines cname a) \<Longrightarrow> typed_line l"
  using section_text(1) section_lines_shape section_typed
  by (auto simp: args_ok_def write_section_def args_lines_def split: prod.splits)

text \<open>
  C21. A session description made of the session part and any number of written media sections is valid
  and is cut into exactly its parts: the description is the session part, the media sections are the ones that
  were written, in their order.
\<close>

theorem session_cut_into_parts:
  assumes "session_ok i v u random" "\<forall>a \<in> set as. args_ok cname a"
  shows "\<exists>medias. map (write_section cname) as = map Inr medias \<and>
    getDescription (writeSessionBoilerplate i v u random @ concat medias) = writeSessionBoilerplate i v u random \<and>
    getMediaSections (writeSessionBoilerplate i v u random @ concat medias) = medias \<and>
    isValidSDP (Str (writeSessionBoilerplate i v u random @ concat medias))"
proof (intro exI conjI)
  let ?ss = "session_lines i v u random" let ?secs = "map (args_lines cname) as"
  let ?medias = "map text_of ?secs"
  note ok = session_lines_ok [OF assms(1)]
  have sh: "\<forall>ls \<in> set ?secs. section_shape ls" using assms(2) args_facts(2) by auto
  show "map (write_section cname) as = map Inr ?medias" using assms(2) args_facts(1) by simp
  have ne: "?ss \<noteq> []" by (simp add: session_lines_def)
  have split: "splitSections (writeSessionBoilerplate i v u random @ concat ?medias) =
      writeSessionBoilerplate i v u random # ?medias"
    unfolding boilerplate_lines using ok by (intro split_sections ne sh) blast+
  then show "getDescription (writeSessionBoilerplate i v u random @ concat ?medias) = writeSessionBoilerplate i v u random"
    "getMediaSections (writeSessionBoilerplate i v u random @ concat ?medias) = ?medias"
    by (simp_all add: getDescription_def getMediaSections_def)
  have all: "writeSessionBoilerplate i v u random @ concat ?medias = text_of (?ss @ concat ?secs)"
    unfolding boilerplate_lines by (simp add: text_of_concat comp_def)
  have lines: "list_all line_ok (?ss @ concat ?secs)"
    using ok(1) sh by (auto simp: section_shape_def list_all_iff)
  have typed: "list_all typed_line (?ss @ concat ?secs)"
    using ok(2) args_facts(3) by (auto simp: list_all_iff)
  have "splitLines (text_of (?ss @ concat ?secs)) = ?ss @ concat ?secs" using ne by (intro splitLines_text lines) simp
  moreover have "text_of (?ss @ concat ?secs) \<noteq> []" by (simp add: session_lines_def)
  ultimately show "isValidSDP (Str (writeSessionBoilerplate i v u random @ concat ?medias))"
    using typed unfolding all isValidSDP_def typed_line_eq by (simp only: jsval.case simp_thms)
qed

theorem session_cut_into_parts_witness:
  "\<exists>medias. map (write_section ''cn'')
      [(demo_transceiver, demo_codecs, demo_extensions, ''offer'', ''stream0''),
       (demo_transceiver\<lparr>tr_mid := Str ''1''\<rparr>, demo_codecs, [], ''offer'', ''stream0'')] = map Inr medias \<and>
    getDescription (writeSessionBoilerplate (Str ''77'') Undef Undef [] @ concat medias) =
      writeSessionBoilerplate (Str ''77'') Undef Undef [] \<and>
    getMediaSections (writeSessionBoilerplate (Str ''77'') Undef Undef [] @ concat medias) = medias \<and>
    isValidSDP (Str (writeSessionBoilerplate (Str ''77'') Undef Undef [] @ concat medias))"
proof -
  have "session_ok (Str ''77'') Undef Undef []" by code_simp
  moreover have "list_all (args_ok ''cn'')
      [(demo_transceiver, demo_codecs, demo_extensions, ''offer'', ''stream0''),
       (demo_transceiver\<lparr>tr_mid := Str ''1''\<rparr>, demo_codecs, [], ''offer'', ''stream0'')]"
    by code_simp
  ultimately show ?thesis by (intro session_cut_into_parts) (simp_all only: list_all_iff)
qed

section \<open>Key parameters\<close>

definition key_text_ok :: "string \<Rightarrow> bool" where
  "key_text_ok s \<longleftrightarrow> s \<noteq> [] \<and> CHR ''|'' \<notin> set s \<and> CHR '':'' \<notin> set s"

text \<open>
  Key parameters with a life time survive being written and parsed; without one, the key identifier is read
  back as the life time.
\<close>

lemma written_key_params:
  assumes "key_text_ok salt" "key_text_ok mki" "key_text_ok len" "life = Undef \<or> (\<exists>l. life = Str l \<and> key_text_ok l)"
  shows "parseCryptoKeyParams (writeCryptoKeyParams
      \<lparr>kp_method = ''inline'', kp_salt = salt, kp_lifeTime = life, kp_mkiValue = Str mki, kp_mkiLength = Str len\<rparr>) =
    Some (if life = Undef
      then \<lparr>kp_method = ''inline'', kp_salt = salt, kp_lifeTime = Str (mki @ '':'' @ len), kp_mkiValue = Undef, kp_mkiLength = Undef\<rparr>
      else \<lparr>kp_method = ''inline'', kp_salt = salt, kp_lifeTime = life, kp_mkiValue = Str mki, kp_mkiLength = Str len\<rparr>)"
proof -
  let ?id = "mki @ '':'' @ len"
  let ?k = "\<lparr>kp_method = ''inline'', kp_salt = salt, kp_lifeTime = life, kp_mkiValue = Str mki, kp_mkiLength = Str len\<rparr>"
  let ?ws = "salt # (case life of Str l \<Rightarrow> [l] | _ \<Rightarrow> []) @ [?id]"
  have w: "writeCryptoKeyParams ?k = ''inline:'' @ join ''|'' ?ws"
    using assms by (auto simp: writeCryptoKeyParams_def key_text_ok_def)
  have "split_on (join ''|'' ?ws) ''|'' = ?ws"
    using assms by (intro split_on_join) (auto simp: key_text_ok_def)
  then have s: "split_on (substr_from (writeCryptoKeyParams ?k) 7) ''|'' = ?ws"
    unfolding w using drop_tag [of "''inline:''" "join ''|'' ?ws"] by simp
  have i: "index_of (writeCryptoKeyParams ?k) ''inline:'' = 0" unfolding w by simp
  have m: "split_on ?id '':'' = [mki, len]"
    using split_on_join [of "[mki, len]" "CHR '':''"] assms(2,3) by (simp add: key_text_ok_def)
  show ?thesis
    unfolding parseCryptoKeyParams_def i s Let_def using assms(4) m by (auto simp: str_at_def arr_at_def)
qed

end
