(* ===== verification/Json2.thy ===== *)
theory Json2
  imports JsValue
begin

text \<open>
  The JSON object the player pages bring for browsers without one (\<open>players/js/json2.js\<close>): \<open>stringify\<close>
  with its replacer, indentation and \<open>toJSON\<close>, and \<open>parse\<close> with the check of the text before it is evaluated
  and the reviver. Values are trees; a function is its identity, and what calling it returns is the
  parameter \<open>call\<close> of the operations (function, \<open>this\<close>, arguments). The evaluation of a text that passed the check is
  the parameter \<open>eval\<close>. The depth of the call stack is a parameter: exceeding it is the error of the engine.
\<close>

section \<open>Values\<close>

datatype jdata =
    JUndef
  | JNull
  | JBool bool
  | JNum jsnum
  | JStr string
  | JArr "jdata list"
  | JObj "(string \<times> jdata) list"
  | JFun nat

type_synonym caller = "nat \<Rightarrow> jdata \<Rightarrow> jdata list \<Rightarrow> jdata"

text \<open>
  \<open>holder[k]\<close>: the own member, or what the object inherits. Of that only the prototype itself is data (an object
  without own enumerable members); the inherited methods are written like \<open>undefined\<close> and read as such.
\<close>

definition own :: "(string \<times> jdata) list \<Rightarrow> string \<Rightarrow> jdata" where
  "own ps k = (case map_of ps k of None \<Rightarrow> if k = ''__proto__'' then JObj [] else JUndef | Some v \<Rightarrow> v)"

definition nl_char :: char where
  "nl_char = CHR 0x0A"

definition quote_char :: char where
  "quote_char = CHR 0x22"

definition bslash :: char where
  "bslash = CHR 0x5C"

section \<open>Dates\<close>

text \<open>\<open>f(n)\<close> and the text of a finite date from its fields.\<close>

definition date_digits :: "int \<Rightarrow> string" where
  "date_digits n = (if n < 10 then ''0'' @ int_str n else int_str n)"

definition date_to_json :: "(int \<times> int \<times> int \<times> int \<times> int \<times> int) option \<Rightarrow> jdata" where
  "date_to_json d =
     (case d of
        None \<Rightarrow> JNull
      | Some (year, month, day, hours, minutes, seconds) \<Rightarrow>
          JStr (int_str year @ ''-'' @ date_digits (month + 1) @ ''-'' @ date_digits day @ ''T'' @ date_digits hours @
                '':'' @ date_digits minutes @ '':'' @ date_digits seconds @ ''Z''))"

section \<open>Writing\<close>

text \<open>\<open>('0000' + c.charCodeAt(0).toString(16)).slice(-4)\<close>\<close>

definition hex4 :: "char \<Rightarrow> string" where
  "hex4 c = (let s = ''0000'' @ hex_digits (of_char c) in drop (length s - 4) s)"

definition escapable :: "char \<Rightarrow> bool" where
  "escapable c =
     (let n = of_char c :: int
      in n = 92 \<or> n = 34 \<or> n \<le> 31 \<or> 127 \<le> n \<and> n \<le> 159 \<or> n = 173)"

definition meta :: "char \<Rightarrow> string option" where
  "meta c =
     (let n = of_char c :: int
      in if n = 8 then Some [bslash, CHR ''b''] else if n = 9 then Some [bslash, CHR ''t'']
         else if n = 10 then Some [bslash, CHR ''n''] else if n = 12 then Some [bslash, CHR ''f'']
         else if n = 13 then Some [bslash, CHR ''r''] else if n = 34 then Some [bslash, quote_char]
         else if n = 92 then Some [bslash, bslash] else None)"

definition escape_char :: "char \<Rightarrow> string" where
  "escape_char c =
     (if escapable c then (case meta c of Some t \<Rightarrow> t | None \<Rightarrow> [bslash, CHR ''u''] @ hex4 c) else [c])"

definition json_quote :: "string \<Rightarrow> string" where
  "json_quote s = [quote_char] @ concat (map escape_char s) @ [quote_char]"

text \<open>
  The replacer: absent, a function, or the names of the members to keep (the values at \<open>0, 1, \<dots>\<close> of an object
  with a numeric length); anything else is rejected.
\<close>

datatype replacer = Absent | By_function nat | Names "jdata list" | Invalid

definition to_json :: "caller \<Rightarrow> jdata \<Rightarrow> jdata \<Rightarrow> jdata" where
  "to_json call key v =
     (case v of JObj ps \<Rightarrow> (case own ps ''toJSON'' of JFun f \<Rightarrow> call f v [key] | _ \<Rightarrow> v) | _ \<Rightarrow> v)"

definition replaced :: "caller \<Rightarrow> replacer \<Rightarrow> jdata \<Rightarrow> jdata \<Rightarrow> jdata \<Rightarrow> jdata" where
  "replaced call rep holder key v = (case rep of By_function f \<Rightarrow> call f holder [key, v] | _ \<Rightarrow> v)"

definition enclose :: "char \<Rightarrow> char \<Rightarrow> string \<Rightarrow> string \<Rightarrow> string list \<Rightarrow> string" where
  "enclose a b gap mind parts =
     (if parts = [] then [a, b]
      else if gap \<noteq> [] then [a, nl_char] @ gap @ join ([CHR '','', nl_char] @ gap) parts @ [nl_char] @ mind @ [b]
      else [a] @ join '','' parts @ [b])"

definition member_names :: "replacer \<Rightarrow> (string \<times> jdata) list \<Rightarrow> string list" where
  "member_names rep ps =
     (case rep of
        Names ns \<Rightarrow> concat (map (\<lambda>n. case n of JStr k \<Rightarrow> [k] | _ \<Rightarrow> []) ns)
      | _ \<Rightarrow> map fst ps)"

definition members :: "string \<Rightarrow> (string \<times> string option) list \<Rightarrow> string list" where
  "members gap rs =
     concat (map (\<lambda>(k, r). case r of
         None \<Rightarrow> [] | Some v \<Rightarrow> [json_quote k @ (if gap \<noteq> [] then '': '' else '':'') @ v]) rs)"

fun collect :: "'a result list \<Rightarrow> 'a list result" where
  "collect [] = Inr []"
| "collect (r # rs) = bind_result r (\<lambda>x. bind_result (collect rs) (\<lambda>xs. Inr (x # xs)))"

definition too_deep :: js_error where
  "too_deep = JsError ''Maximum call stack size exceeded''"

fun js_str :: "caller \<Rightarrow> replacer \<Rightarrow> string \<Rightarrow> nat \<Rightarrow> string \<Rightarrow> jdata \<Rightarrow> jdata \<Rightarrow> jdata \<Rightarrow> string option result" where
  "js_str call rep indent 0 mind key holder v = Inl too_deep"
| "js_str call rep indent (Suc depth) mind key holder v =
     (let value = replaced call rep holder key (to_json call key v); gap = mind @ indent
      in case value of
           JStr s \<Rightarrow> Inr (Some (json_quote s))
         | JNum n \<Rightarrow> Inr (Some (case n of Fin x \<Rightarrow> num_to_str n | _ \<Rightarrow> ''null''))
         | JBool b \<Rightarrow> Inr (Some (if b then ''true'' else ''false''))
         | JNull \<Rightarrow> Inr (Some ''null'')
         | JArr vs \<Rightarrow>
             bind_result (collect (map (\<lambda>(i, x). js_str call rep indent depth gap (JNum (num_of (int i))) value x)
                                     (enumerate 0 vs)))
               (\<lambda>rs. Inr (Some (enclose (CHR ''['') (CHR '']'') gap mind
                  (map (\<lambda>r. case r of None \<Rightarrow> ''null'' | Some t \<Rightarrow> t) rs))))
         | JObj ps \<Rightarrow>
             (let names = member_names rep ps
              in bind_result (collect (map (\<lambda>k. js_str call rep indent depth gap (JStr k) value (own ps k)) names))
                   (\<lambda>rs. Inr (Some (enclose (CHR ''{'') (CHR ''}'') gap mind (members gap (zip names rs))))))
         | JUndef \<Rightarrow> Inr None
         | JFun _ \<Rightarrow> Inr None)"

text \<open>The indentation: that many spaces, or the text itself. Without a bound the string gets too long.\<close>

definition indent_of :: "jdata \<Rightarrow> string result" where
  "indent_of space =
     (case space of
        JNum (Fin x) \<Rightarrow> Inr (replicate (nat \<lceil>x\<rceil>) (CHR '' ''))
      | JNum PInf \<Rightarrow> Inl (JsError ''Invalid string length'')
      | JStr s \<Rightarrow> Inr s
      | _ \<Rightarrow> Inr [])"

definition stringify :: "caller \<Rightarrow> nat \<Rightarrow> jdata \<Rightarrow> replacer \<Rightarrow> jdata \<Rightarrow> string option result" where
  "stringify call depth value rep space =
     bind_result (indent_of space) (\<lambda>indent.
       if rep = Invalid then Inl (JsError ''JSON.stringify'')
       else js_str call rep indent depth [] (JStr []) (JObj [([], value)]) value)"

section \<open>The check of a text\<close>

text \<open>The first stage: characters that engines treat differently become escapes.\<close>

definition cx_escape :: "string \<Rightarrow> string" where
  "cx_escape t =
     concat (map (\<lambda>c. if of_char c \<in> {0, 173 :: int} then [bslash, CHR ''u''] @ hex4 c else [c]) t)"

definition is_hex :: "char \<Rightarrow> bool" where
  "is_hex c = (hex_val c \<noteq> None)"

text \<open>The match of an escape at the start of a text: its length.\<close>

definition escape_length :: "string \<Rightarrow> nat option" where
  "escape_length t =
     (case t of
        c # d # t' \<Rightarrow>
          if c \<noteq> bslash then None
          else if d \<in> set [quote_char, bslash, CHR ''/'', CHR ''b'', CHR ''f'', CHR ''n'', CHR ''r'', CHR ''t''] then Some 2
          else if d = CHR ''u'' \<and> 4 \<le> length t' \<and> list_all is_hex (take 4 t') then Some 6 else None
      | _ \<Rightarrow> None)"

lemma escape_length_bounds: "escape_length t = Some n \<Longrightarrow> 0 < n \<and> n \<le> length t"
  by (auto simp: escape_length_def split: list.splits if_splits)

function drop_escapes :: "string \<Rightarrow> string" where
  "drop_escapes t =
     (case t of
        [] \<Rightarrow> []
      | c # t' \<Rightarrow> (case escape_length t of Some n \<Rightarrow> CHR 0x40 # drop_escapes (drop n t) | None \<Rightarrow> c # drop_escapes t'))"
  by pat_completeness auto
termination
  by (relation "measure length") (auto dest!: escape_length_bounds)

declare drop_escapes.simps [simp del]

definition literal_length :: "string \<Rightarrow> nat option" where
  "literal_length t =
     (let s = takeWhile (\<lambda>c. c \<notin> {quote_char, bslash, nl_char, CHR 0x0D}) (tl t)
      in if t \<noteq> [] \<and> hd t = quote_char \<and> drop (1 + length s) t \<noteq> [] \<and> hd (drop (1 + length s) t) = quote_char
         then Some (2 + length s) else None)"

definition word_length :: "string \<Rightarrow> nat option" where
  "word_length t =
     (if prefix ''true'' t \<or> prefix ''null'' t then Some 4 else if prefix ''false'' t then Some 5 else None)"

definition exponent_length :: "string \<Rightarrow> nat" where
  "exponent_length t =
     (if t \<noteq> [] \<and> hd t \<in> {CHR ''e'', CHR ''E''}
      then let sign = (if tl t \<noteq> [] \<and> hd (tl t) \<in> {CHR ''+'', CHR ''-''} then 1 else 0);
               ds = length (takeWhile is_digit (drop (1 + sign) t))
           in if 0 < ds then 1 + sign + ds else 0
      else 0)"

definition fraction_length :: "string \<Rightarrow> nat" where
  "fraction_length t =
     (if t \<noteq> [] \<and> hd t = CHR ''.'' then 1 + length (takeWhile is_digit (tl t)) else 0)"

definition number_length :: "string \<Rightarrow> nat option" where
  "number_length t =
     (let sign = (if t \<noteq> [] \<and> hd t = CHR ''-'' then 1 else 0);
          ds = length (takeWhile is_digit (drop sign t));
          fr = fraction_length (drop (sign + ds) t)
      in if ds = 0 then None else Some (sign + ds + fr + exponent_length (drop (sign + ds + fr) t)))"

definition token_length :: "string \<Rightarrow> nat option" where
  "token_length t =
     (case literal_length t of
        Some n \<Rightarrow> Some n
      | None \<Rightarrow> (case word_length t of Some n \<Rightarrow> Some n | None \<Rightarrow> number_length t))"

function drop_tokens :: "string \<Rightarrow> string" where
  "drop_tokens t =
     (case t of
        [] \<Rightarrow> []
      | c # t' \<Rightarrow>
          (case token_length t of
             Some n \<Rightarrow> if n = 0 then c # drop_tokens t' else CHR '']'' # drop_tokens (drop n t)
           | None \<Rightarrow> c # drop_tokens t'))"
  by pat_completeness auto
termination
  by (relation "measure length") (auto simp: less_diff_conv)

declare drop_tokens.simps [simp del]

text \<open>The length of \<open>(?:\s*\[)+\<close> at the start of a text, zero where it does not match.\<close>

function brackets_length :: "string \<Rightarrow> nat" where
  "brackets_length t =
     (let ws = length (takeWhile is_space t)
      in if drop ws t \<noteq> [] \<and> hd (drop ws t) = CHR ''['' then ws + 1 + brackets_length (drop (ws + 1) t) else 0)"
  by pat_completeness auto
termination
  by (relation "measure length") auto

declare brackets_length.simps [simp del]

text \<open>After the start of the text, a run of brackets is only matched behind a colon or a comma.\<close>

function drop_brackets :: "string \<Rightarrow> string" where
  "drop_brackets t =
     (case t of
        [] \<Rightarrow> []
      | c # t' \<Rightarrow>
          if c \<in> {CHR '':'', CHR '',''} \<and> 0 < brackets_length t' then drop_brackets (drop (brackets_length t') t')
          else c # drop_brackets t')"
  by pat_completeness auto
termination
  by (relation "measure length") auto

declare drop_brackets.simps [simp del]

definition third_pass :: "string \<Rightarrow> string" where
  "third_pass t = drop_brackets (drop (brackets_length t) t)"

definition allowed :: "char \<Rightarrow> bool" where
  "allowed c = (c \<in> set ''],:{}'' \<or> is_space c)"

definition text_safe :: "string \<Rightarrow> bool" where
  "text_safe t = list_all allowed (third_pass (drop_tokens (drop_escapes t)))"

section \<open>Reading\<close>

text \<open>\<open>walk(holder, key)\<close>: \<open>hold x\<close> is the holder with \<open>x\<close> under the key.\<close>

fun walk :: "caller \<Rightarrow> nat \<Rightarrow> (jdata \<Rightarrow> jdata) \<Rightarrow> jdata \<Rightarrow> jdata \<Rightarrow> jdata"
and walk_array :: "caller \<Rightarrow> nat \<Rightarrow> jdata list \<Rightarrow> jdata list \<Rightarrow> jdata list"
and walk_object :: "caller \<Rightarrow> nat \<Rightarrow> (string \<times> jdata) list \<Rightarrow> (string \<times> jdata) list \<Rightarrow> (string \<times> jdata) list" where
  "walk call f hold key v =
     (let v' = (case v of
                  JArr vs \<Rightarrow> JArr (walk_array call f [] vs)
                | JObj ps \<Rightarrow> JObj (walk_object call f [] ps)
                | _ \<Rightarrow> v)
      in call f (hold v') [key, v'])"
| "walk_array call f before [] = before"
| "walk_array call f before (v # vs) =
     walk_array call f
       (before @ [walk call f (\<lambda>x. JArr (before @ x # vs)) (JStr (digits (int (length before)))) v]) vs"
| "walk_object call f before [] = before"
| "walk_object call f before ((k, v) # ps) =
     (let r = walk call f (\<lambda>x. JObj (before @ (k, x) # ps)) (JStr k) v
      in walk_object call f (if r = JUndef then before else before @ [(k, r)]) ps)"

definition json_parse :: "caller \<Rightarrow> (string \<Rightarrow> jdata result) \<Rightarrow> string \<Rightarrow> jdata \<Rightarrow> jdata result" where
  "json_parse call eval text reviver =
     (let t = cx_escape text
      in if text_safe t
         then bind_result (eval (''('' @ t @ '')'')) (\<lambda>j.
                Inr (case reviver of JFun f \<Rightarrow> walk call f (\<lambda>x. JObj [([], x)]) (JStr []) j | _ \<Rightarrow> j))
         else Inl (JsError ''JSON.parse''))"

end
