(* ===== verification/Json2Safe.thy ===== *)
theory Json2Safe
  imports Json2
begin

text \<open>
  Which texts the check of \<open>JSON.parse\<close> accepts: every JSON text (\<open>jtext\<close>), in particular every text
  \<open>stringify\<close> produces, and of the texts without string literals only those made of brackets, braces, separators,
  white space, numbers and the three words. The three replacements are followed through the text:
  escapes inside literals, tokens up to a delimiter, and brackets that are anchored behind a separator.
\<close>

section \<open>The third replacement\<close>

definition ws_text :: "string \<Rightarrow> bool" where
  "ws_text w = list_all is_space w"

text \<open>\<open>anchored a t\<close>: every opening bracket follows the start (when \<open>a\<close>), a colon or a comma, with only white space and brackets between.\<close>

fun anchored :: "bool \<Rightarrow> string \<Rightarrow> bool" where
  "anchored a [] = True"
| "anchored a (c # t) =
     ((c = CHR ''['' \<longrightarrow> a) \<and> anchored (c = CHR '':'' \<or> c = CHR '','' \<or> a \<and> (c = CHR ''['' \<or> is_space c)) t)"

lemma punct_not_space:
  "\<not> is_space (CHR ''['')" "\<not> is_space (CHR '':'')" "\<not> is_space (CHR '','')" "\<not> is_space (CHR '']'')"
  "\<not> is_space (CHR ''{'')" "\<not> is_space (CHR ''}'')"
  by (simp_all add: is_space_def)

lemma space_not_punct: "is_space c \<Longrightarrow> c \<noteq> CHR ''['' \<and> c \<noteq> CHR '':'' \<and> c \<noteq> CHR '',''"
  using punct_not_space by auto

lemma anchored_ws: "ws_text w \<Longrightarrow> anchored a (w @ t) = anchored a t"
  by (induction w) (auto simp: ws_text_def dest!: space_not_punct)

lemma anchored_no_bracket:
  "anchored True t \<Longrightarrow> dropWhile is_space t = [] \<or> hd (dropWhile is_space t) \<noteq> CHR ''['' \<Longrightarrow> anchored False t"
proof (induction t)
  case (Cons c t)
  then show ?case
    using space_not_punct [of c] punct_not_space by (cases "is_space c") auto
qed simp

lemma drop_take_space: "drop (length (takeWhile is_space t)) t = dropWhile is_space t"
  by (induction t) auto

lemma anchored_after_brackets: "anchored True t \<Longrightarrow> anchored False (drop (brackets_length t) t)"
proof (induction t rule: brackets_length.induct)
  case (1 t)
  let ?ws = "takeWhile is_space t" let ?r = "dropWhile is_space t"
  have ws: "ws_text ?ws" by (auto simp: ws_text_def list_all_iff dest: set_takeWhileD)
  have t: "anchored a t = anchored a ?r" for a using anchored_ws [OF ws, of a ?r] by simp
  show ?case
  proof (cases "?r \<noteq> [] \<and> hd ?r = CHR ''[''")
    case True
    then obtain s where r: "?r = CHR ''['' # s" by (cases ?r) auto
    then have s: "drop (length ?ws + 1) t = s" using drop_take_space [of t] by (metis drop_drop drop_Suc_Cons drop0 plus_1_eq_Suc)
    have c: "drop (length ?ws) t \<noteq> [] \<and> hd (drop (length ?ws) t) = CHR ''[''"
      using True unfolding drop_take_space .
    have n: "brackets_length t = length ?ws + 1 + brackets_length s"
      using c by (subst brackets_length.simps) (simp only: Let_def s if_True simp_thms)
    have "anchored True s" using 1(2) t [of True] r by simp
    with 1(1) [OF refl c] have "anchored False (drop (brackets_length s) s)" unfolding s by blast
    then show ?thesis unfolding n using s by (metis drop_drop add.commute)
  next
    case False
    then have "\<not> (drop (length ?ws) t \<noteq> [] \<and> hd (drop (length ?ws) t) = CHR ''['')" unfolding drop_take_space .
    then have "brackets_length t = 0" by (subst brackets_length.simps) (simp only: Let_def if_False)
    then show ?thesis using anchored_no_bracket [OF 1(2)] False by auto
  qed
qed

lemma no_bracket_left: "anchored False t \<Longrightarrow> CHR ''['' \<notin> set (drop_brackets t)"
proof (induction t rule: drop_brackets.induct)
  case (1 t)
  show ?case
  proof (cases t)
    case Nil
    then show ?thesis by (simp add: drop_brackets.simps)
  next
    case (Cons c s)
    show ?thesis
    proof (cases "c \<in> {CHR '':'', CHR '',''}")
      case True
      then have "anchored True s" using 1(3) Cons by auto
      from anchored_after_brackets [OF this] have a: "anchored False (drop (brackets_length s) s)" .
      show ?thesis
      proof (cases "0 < brackets_length s")
        case True': True
        then show ?thesis using 1(1) [OF Cons] True a Cons by (subst drop_brackets.simps) auto
      next
        case False
        then show ?thesis using 1(2) [OF Cons] True a Cons by (subst drop_brackets.simps) auto
      qed
    next
      case False
      then have "anchored False s" "c \<noteq> CHR ''[''" using 1(3) Cons by auto
      then show ?thesis using 1(2) [OF Cons] False Cons by (subst drop_brackets.simps) auto
    qed
  qed
qed

lemma set_drop_brackets: "set (drop_brackets t) \<subseteq> set t"
proof (induction t rule: drop_brackets.induct)
  case (1 t)
  show ?case
  proof (cases t)
    case (Cons c s)
    have d: "set (drop (brackets_length s) s) \<subseteq> set s" by (rule set_drop_subset)
    show ?thesis
      using 1(1) [OF Cons] 1(2) [OF Cons] d Cons by (subst drop_brackets.simps) auto
  qed (simp add: drop_brackets.simps)
qed

text \<open>A text of allowed characters and anchored brackets passes the last test.\<close>

lemma third_pass_allowed:
  assumes "anchored True t" "\<forall>c \<in> set t. allowed c \<or> c = CHR ''[''" shows "list_all allowed (third_pass t)"
proof -
  have "CHR ''['' \<notin> set (third_pass t)"
    unfolding third_pass_def by (rule no_bracket_left [OF anchored_after_brackets [OF assms(1)]])
  moreover have "set (third_pass t) \<subseteq> set t"
    unfolding third_pass_def using set_drop_brackets set_drop_subset by fastforce
  ultimately show ?thesis using assms(2) by (auto simp: list_all_iff)
qed

section \<open>The first replacement\<close>

lemma drop_escapes_char: "c \<noteq> bslash \<Longrightarrow> drop_escapes (c # t) = c # drop_escapes t"
  by (subst drop_escapes.simps) (cases t; simp add: escape_length_def)

lemma drop_escapes_plain: "bslash \<notin> set u \<Longrightarrow> drop_escapes (u @ t) = u @ drop_escapes t"
  by (induction u) (auto simp: drop_escapes_char)

lemma drop_escapes_pair:
  "escape_length (e @ t) = Some (length e) \<Longrightarrow> e \<noteq> [] \<Longrightarrow> drop_escapes (e @ t) = CHR 0x40 # drop_escapes t"
  by (cases e) (simp_all add: drop_escapes.simps [of "_ # _"])

lemma hex_digit:
  assumes "0 \<le> d" "d < 16" shows "is_hex (digit_char d)"
proof -
  have "d = 0 \<or> d = 1 \<or> d = 2 \<or> d = 3 \<or> d = 4 \<or> d = 5 \<or> d = 6 \<or> d = 7 \<or> d = 8 \<or> d = 9 \<or> d = 10 \<or> d = 11 \<or> d = 12 \<or> d = 13 \<or> d = 14 \<or> d = 15"
    using assms by presburger
  then show ?thesis by (elim disjE) (simp_all add: digit_char_def is_hex_def hex_val_def)
qed

lemma hex4_ok: "length (hex4 c) = 4 \<and> list_all is_hex (hex4 c)"
proof -
  let ?n = "of_char c :: int"
  have n: "0 \<le> ?n" "?n < 256" by (cases c; simp add: of_char_def)+
  have "is_hex (CHR ''0'')" by (simp add: is_hex_def hex_val_def)
  moreover have "hex_digits ?n = (if ?n < 16 then [digit_char ?n] else [digit_char (?n div 16), digit_char (?n mod 16)])"
    using n by (subst hex_digits.simps, subst hex_digits.simps) simp
  moreover have "0 \<le> ?n div 16" "?n div 16 < 16" "0 \<le> ?n mod 16" "?n mod 16 < 16" using n by auto
  ultimately show ?thesis using n hex_digit by (simp add: hex4_def)
qed

lemma escape_char_plain: "\<not> escapable c \<Longrightarrow> escape_char c = [c] \<and> c \<notin> {bslash, quote_char, nl_char, CHR 0x0D}"
  by (auto simp: escape_char_def escapable_def bslash_def quote_char_def nl_char_def)

lemma meta_ok: "meta c = Some t \<Longrightarrow>
    \<exists>d \<in> set [quote_char, bslash, CHR ''/'', CHR ''b'', CHR ''f'', CHR ''n'', CHR ''r'', CHR ''t'']. t = [bslash, d]"
  by (auto simp: meta_def Let_def split: if_splits)

lemma drop_escapes_escape_char:
  "drop_escapes (escape_char c @ t) = (if escapable c then CHR 0x40 else c) # drop_escapes t"
proof (cases "escapable c")
  case False
  then show ?thesis using escape_char_plain [OF False] by (simp add: drop_escapes_char)
next
  case True
  have "escape_length (escape_char c @ t) = Some (length (escape_char c))"
  proof (cases "meta c")
    case None
    then have e: "escape_char c = [bslash, CHR ''u''] @ hex4 c" using True by (simp add: escape_char_def)
    have "CHR ''u'' \<notin> set [quote_char, bslash, CHR ''/'', CHR ''b'', CHR ''f'', CHR ''n'', CHR ''r'', CHR ''t'']"
      by (simp add: quote_char_def bslash_def)
    then show ?thesis unfolding e using hex4_ok [of c] by (simp add: escape_length_def)
  next
    case (Some s)
    then show ?thesis using True meta_ok [OF Some] by (auto simp: escape_char_def escape_length_def)
  qed
  moreover have "escape_char c \<noteq> []" using True meta_ok by (auto simp: escape_char_def split: option.splits)
  ultimately show ?thesis using drop_escapes_pair True by simp
qed

definition masked :: "string \<Rightarrow> string" where
  "masked s = map (\<lambda>c. if escapable c then CHR 0x40 else c) s"

lemma masked_chars: "c \<in> set (masked s) \<Longrightarrow> c \<notin> {quote_char, bslash, nl_char, CHR 0x0D}"
proof -
  assume "c \<in> set (masked s)"
  moreover have "CHR 0x40 \<notin> {quote_char, bslash, nl_char, CHR 0x0D}" by (simp add: quote_char_def bslash_def nl_char_def)
  ultimately show ?thesis using escape_char_plain by (auto simp: masked_def split: if_splits)
qed

lemma drop_escapes_quote: "drop_escapes (json_quote s @ t) = (quote_char # masked s @ [quote_char]) @ drop_escapes t"
proof -
  have "drop_escapes (concat (map escape_char s) @ u) = masked s @ drop_escapes u" for u
    by (induction s) (simp_all add: drop_escapes_escape_char masked_def)
  moreover have "quote_char \<noteq> bslash" by (simp add: quote_char_def bslash_def)
  ultimately show ?thesis by (simp add: json_quote_def drop_escapes_char)
qed

section \<open>The second replacement\<close>

definition token_start :: "char \<Rightarrow> bool" where
  "token_start c \<longleftrightarrow> c = quote_char \<or> c \<in> set ''tfn-'' \<or> is_digit c"

text \<open>What may follow a value.\<close>

definition delimited :: "string \<Rightarrow> bool" where
  "delimited r \<longleftrightarrow> r = [] \<or> is_space (hd r) \<or> hd r \<in> set '',:]}''"

lemma token_none:
  assumes "\<not> token_start c" shows "token_length (c # t) = None"
proof -
  have n: "c \<noteq> quote_char" "c \<noteq> CHR ''t''" "c \<noteq> CHR ''f''" "c \<noteq> CHR ''n''" "c \<noteq> CHR ''-''" "\<not> is_digit c"
    using assms by (auto simp: token_start_def)
  have "literal_length (c # t) = None" using n(1) by (simp add: literal_length_def)
  moreover have "word_length (c # t) = None" using n by (simp add: word_length_def)
  moreover have "number_length (c # t) = None" using n by (simp add: number_length_def)
  ultimately show ?thesis by (simp add: token_length_def)
qed

lemma drop_tokens_char: "\<not> token_start c \<Longrightarrow> drop_tokens (c # t) = c # drop_tokens t"
  by (subst drop_tokens.simps) (simp add: token_none)

lemma drop_tokens_token:
  assumes "token_length (u @ t) = Some (length u)" "u \<noteq> []" shows "drop_tokens (u @ t) = CHR '']'' # drop_tokens t"
proof -
  obtain c u' where u: "u = c # u'" using assms(2) by (cases u) auto
  show ?thesis using assms(1) unfolding u by (subst drop_tokens.simps) simp
qed

lemma not_token_start: "is_space c \<or> c \<in> set '',:[]{}'' \<Longrightarrow> \<not> token_start c"
  by (auto simp: token_start_def is_space_def is_digit_def quote_char_def)

lemma drop_tokens_ws: "ws_text w \<Longrightarrow> drop_tokens (w @ t) = w @ drop_tokens t"
  by (induction w) (simp_all add: ws_text_def drop_tokens_char not_token_start)

lemma takeWhile_stop: "\<forall>c \<in> set u. P c \<Longrightarrow> \<not> P d \<Longrightarrow> takeWhile P (u @ d # t) = u"
  by (induction u) auto

lemma literal_token: "token_length ((quote_char # masked s @ [quote_char]) @ t) = Some (length (quote_char # masked s @ [quote_char]))"
proof -
  let ?P = "\<lambda>c. c \<notin> {quote_char, bslash, nl_char, CHR 0x0D}"
  have "takeWhile ?P (masked s @ quote_char # t) = masked s"
    using masked_chars by (intro takeWhile_stop) auto
  then have "literal_length (quote_char # masked s @ quote_char # t) = Some (2 + length (masked s))"
    by (simp add: literal_length_def)
  then show ?thesis by (simp add: token_length_def)
qed

lemma literal_dropped: "drop_tokens ((quote_char # masked s @ [quote_char]) @ t) = CHR '']'' # drop_tokens t"
  by (rule drop_tokens_token [OF literal_token]) simp

lemma word_dropped: "w \<in> {''true'', ''false'', ''null''} \<Longrightarrow> drop_tokens (w @ t) = CHR '']'' # drop_tokens t"
  by (rule drop_tokens_token) (auto simp: token_length_def literal_length_def word_length_def quote_char_def)

section \<open>Numbers\<close>

definition digit_text :: "string \<Rightarrow> bool" where
  "digit_text s \<longleftrightarrow> s \<noteq> [] \<and> list_all is_digit s"

definition frac_text :: "string \<Rightarrow> bool" where
  "frac_text fr \<longleftrightarrow> fr = [] \<or> (\<exists>fs. fr = CHR ''.'' # fs \<and> list_all is_digit fs)"

definition exp_text :: "string \<Rightarrow> bool" where
  "exp_text ex \<longleftrightarrow> ex = [] \<or> (\<exists>s es. ex = CHR ''e'' # s # es \<and> (s = CHR ''+'' \<or> s = CHR ''-'') \<and> digit_text es)"

definition num_shape :: "string \<Rightarrow> bool" where
  "num_shape t \<longleftrightarrow>
     (\<exists>sg ds fr ex. t = sg @ ds @ fr @ ex \<and> (sg = [] \<or> sg = ''-'') \<and> digit_text ds \<and>
        frac_text fr \<and>
        exp_text ex)"

lemma digits_text: "0 \<le> n \<Longrightarrow> digit_text (digits n)"
  by (simp add: digit_text_def digits_all_digit)

lemma round_near_nonneg: "0 \<le> x \<Longrightarrow> 0 \<le> round_near x"
  by (simp add: round_near_def)

lemma shortest_digits: "0 \<le> x \<Longrightarrow> digit_text (fst (shortest x))"
proof -
  assume x: "0 \<le> x"
  let ?n = "dec_exp x"
  let ?cand = "\<lambda>k :: nat. (k, round_near (x * 10 powi (int k - ?n)))"
  have r: "0 \<le> round_near (x * 10 powi i)" for i using x by (intro round_near_nonneg mult_nonneg_nonneg) auto
  have one: "digit_text ''1''" by (simp add: digit_text_def is_digit_def)
  have "digit_text (fst (case find P (map ?cand ks) of
      Some (k, s) \<Rightarrow> if s = 10 ^ k then (''1'', ?n + 1) else (digits s, ?n)
    | None \<Rightarrow> (digits (round_near (x * 10 powi (17 - ?n))), ?n)))" for P ks
  proof (cases "find P (map ?cand ks)")
    case None
    then show ?thesis using digits_text [OF r] by simp
  next
    case (Some a)
    then have "a \<in> set (map ?cand ks)" by (auto dest: find_SomeD)
    then obtain k where "a = ?cand k" by auto
    then show ?thesis using Some digits_text [OF r] one by simp
  qed
  then show ?thesis unfolding shortest_def Let_def by blast
qed

lemma exp_str_shape: "exp_text (exp_str e)"
  using digits_text [of "\<bar>e\<bar>"] by (auto simp: exp_text_def exp_str_def)

lemma num_shapeI:
  assumes "digit_text ds" "frac_text fr"
    "exp_text ex"
  shows "num_shape (ds @ fr @ ex)" "num_shape (CHR ''-'' # ds @ fr @ ex)"
proof -
  show "num_shape (ds @ fr @ ex)"
    unfolding num_shape_def using assms
    by - (rule exI [of _ "[]"], rule exI [of _ ds], rule exI [of _ fr], rule exI [of _ ex], simp)
  show "num_shape (CHR ''-'' # ds @ fr @ ex)"
    unfolding num_shape_def using assms
    by - (rule exI [of _ "''-''"], rule exI [of _ ds], rule exI [of _ fr], rule exI [of _ ex], simp)
qed

text \<open>Every finite number prints digits with at most one fraction and one exponent.\<close>

definition dec_parts :: "string \<times> int \<Rightarrow> string \<times> string \<times> string" where
  "dec_parts = (\<lambda>(s, n).
     let k = int (length s)
     in if k \<le> n \<and> n \<le> 21 then (s @ zeros (n - k), [], [])
        else if 0 < n \<and> n \<le> 21 then (take (nat n) s, ''.'' @ drop (nat n) s, [])
        else if - 6 < n \<and> n \<le> 0 then (''0'', ''.'' @ zeros (- n) @ s, [])
        else if k = 1 then (s, [], exp_str (n - 1))
        else (take 1 s, ''.'' @ drop 1 s, exp_str (n - 1)))"

lemma format_dec_parts: "dec_parts p = (ds, fr, ex) \<Longrightarrow> format_dec p = ds @ fr @ ex"
  by (cases p) (auto simp: dec_parts_def format_dec_def Let_def split: if_splits)

lemma list_all_sub: "list_all P s \<Longrightarrow> list_all P (take n s) \<and> list_all P (drop n s)"
  by (auto simp: list_all_iff dest: in_set_takeD in_set_dropD)

lemma dec_parts_ok:
  assumes "digit_text (fst p)" "dec_parts p = (ds, fr, ex)"
  shows "digit_text ds" "frac_text fr"
    "exp_text ex"
proof -
  obtain s n where p: "p = (s, n)" by (cases p)
  have s: "s \<noteq> []" "list_all is_digit s" using assms(1) p by (simp_all add: digit_text_def)
  have z: "list_all is_digit (zeros m)" for m by (simp add: zeros_def is_digit_def list_all_iff)
  have o: "digit_text ''0''" by (simp add: digit_text_def is_digit_def)
  note d = assms(2) [unfolded dec_parts_def p prod.case Let_def]
  show "digit_text ds"
    using d s z o list_all_sub [OF s(2)] by (auto simp: digit_text_def split: if_splits)
  show "frac_text fr"
    using d s z list_all_sub [OF s(2)] by (auto simp: frac_text_def split: if_splits)
  show "exp_text ex"
    using d exp_str_shape [of "n - 1"] by (auto simp: exp_text_def [of "[]"] split: if_splits)
qed

lemma pos_str_parts:
  assumes "0 \<le> x"
  shows "\<exists>ds fr ex. pos_str x = ds @ fr @ ex \<and> digit_text ds \<and>
    frac_text fr \<and>
    exp_text ex"
proof (cases "x = of_int \<lfloor>x\<rfloor> \<and> x \<le> 2 ^ 53")
  case True
  have "digit_text (digits \<lfloor>x\<rfloor>)" using assms by (intro digits_text) simp
  then show ?thesis using True by (intro exI [of _ "digits \<lfloor>x\<rfloor>"] exI [of _ "[]"]) (simp add: pos_str_def frac_text_def exp_text_def)
next
  case False
  obtain ds fr ex where p: "dec_parts (shortest x) = (ds, fr, ex)" by (cases "dec_parts (shortest x)")
  have "pos_str x = ds @ fr @ ex" using False format_dec_parts [OF p] by (simp only: pos_str_def if_False)
  then show ?thesis using dec_parts_ok [OF shortest_digits [OF assms] p] by blast
qed

lemma finite_number_shape: "num_shape (num_to_str (Fin x))"
proof (cases "x < 0")
  case True
  then obtain ds fr ex where "pos_str (- x) = ds @ fr @ ex" "digit_text ds" "frac_text fr" "exp_text ex"
    using pos_str_parts [of "- x"] by auto
  then show ?thesis using True num_shapeI(2) by simp
next
  case False
  then obtain ds fr ex where "pos_str x = ds @ fr @ ex" "digit_text ds" "frac_text fr" "exp_text ex"
    using pos_str_parts [of x] by auto
  then show ?thesis using False num_shapeI(1) by simp
qed

lemma takeWhile_digits:
  "list_all is_digit ds \<Longrightarrow> t = [] \<or> \<not> is_digit (hd t) \<Longrightarrow> takeWhile is_digit (ds @ t) = ds"
  by (induction ds) (cases t, auto)

definition number_end :: "string \<Rightarrow> bool" where
  "number_end r \<longleftrightarrow> r = [] \<or> \<not> is_digit (hd r) \<and> hd r \<notin> set ''.eE''"

lemma exponent_length_text:
  assumes "exp_text ex" "number_end r" shows "exponent_length (ex @ r) = length ex"
proof (cases "ex = []")
  case True
  then show ?thesis using assms(2) by (auto simp: exponent_length_def number_end_def)
next
  case False
  then obtain s es where ex: "ex = CHR ''e'' # s # es" and s: "s = CHR ''+'' \<or> s = CHR ''-''" and es: "digit_text es"
    using assms(1) by (auto simp: exp_text_def)
  have "takeWhile is_digit (es @ r) = es" using es assms(2) by (intro takeWhile_digits) (auto simp: digit_text_def number_end_def)
  then show ?thesis using s es by (auto simp: exponent_length_def ex digit_text_def Let_def)
qed

lemma exp_text_head: "exp_text ex \<Longrightarrow> number_end r \<Longrightarrow> ex @ r = [] \<or> \<not> is_digit (hd (ex @ r)) \<and> hd (ex @ r) \<noteq> CHR ''.''"
  by (auto simp: exp_text_def number_end_def is_digit_def)

lemma fraction_length_text:
  assumes "frac_text fr" "exp_text ex" "number_end r" shows "fraction_length (fr @ ex @ r) = length fr"
proof (cases "fr = []")
  case True
  then show ?thesis using exp_text_head [OF assms(2,3)] by (auto simp: fraction_length_def)
next
  case False
  then obtain fs where fr: "fr = CHR ''.'' # fs" "list_all is_digit fs" using assms(1) by (auto simp: frac_text_def)
  have "takeWhile is_digit (fs @ ex @ r) = fs" using fr exp_text_head [OF assms(2,3)] by (intro takeWhile_digits) auto
  then show ?thesis by (simp add: fraction_length_def fr)
qed

lemma number_length_text:
  assumes "num_shape t" "number_end r" shows "number_length (t @ r) = Some (length t)"
proof -
  obtain sg ds fr ex where t: "t = sg @ ds @ fr @ ex" and sg: "sg = [] \<or> sg = ''-''" and ds: "digit_text ds"
    and fr: "frac_text fr" and ex: "exp_text ex"
    using assms(1) by (auto simp: num_shape_def)
  have h: "ds \<noteq> []" "is_digit (hd ds)" "hd ds \<noteq> CHR ''-''"
    using ds by (cases ds; auto simp: digit_text_def is_digit_def)+
  have stop: "fr @ ex @ r = [] \<or> \<not> is_digit (hd (fr @ ex @ r))"
    using fr exp_text_head [OF ex assms(2)] by (auto simp: frac_text_def is_digit_def)
  have tw: "takeWhile is_digit (ds @ fr @ ex @ r) = ds" using ds stop by (intro takeWhile_digits) (auto simp: digit_text_def)
  have sl: "(if t @ r \<noteq> [] \<and> hd (t @ r) = CHR ''-'' then 1 else 0) = length sg"
    using sg h by (auto simp: t)
  have 1: "drop (length sg) (t @ r) = ds @ fr @ ex @ r" by (simp add: t)
  have 2: "drop (length sg + length ds) (t @ r) = fr @ ex @ r" by (simp add: t)
  have 3: "drop (length sg + length ds + length fr) (t @ r) = ex @ r" by (simp add: t)
  show ?thesis
    unfolding number_length_def Let_def sl 1 tw 2 fraction_length_text [OF fr ex assms(2)] 3
      exponent_length_text [OF ex assms(2)]
    using h(1) by (simp add: t)
qed

lemma delimited_number_end: "delimited r \<Longrightarrow> number_end r"
  using not_token_start [of "hd r"] by (auto simp: delimited_def number_end_def token_start_def is_space_def)

lemma number_dropped:
  assumes "num_shape t" "delimited r" shows "drop_tokens (t @ r) = CHR '']'' # drop_tokens r"
proof -
  have ne: "t \<noteq> []" and h: "hd t = CHR ''-'' \<or> is_digit (hd t)"
    using assms(1) by (auto simp: num_shape_def digit_text_def hd_append list_all_iff)
  then obtain c s where t: "t = c # s" "c = CHR ''-'' \<or> is_digit c" by (cases t) auto
  have "literal_length (t @ r) = None" "word_length (t @ r) = None"
    using t by (auto simp: literal_length_def word_length_def quote_char_def is_digit_def)
  then have "token_length (t @ r) = Some (length t)"
    using number_length_text [OF assms(1) delimited_number_end [OF assms(2)]] by (simp add: token_length_def)
  then show ?thesis using ne by (intro drop_tokens_token)
qed

section \<open>Whole texts\<close>

text \<open>
  How a text fares in the three replacements, wherever it stands before a delimiter; a text that \<open>starts\<close>
  with a literal has no bracket to anchor.
\<close>

definition passes :: "bool \<Rightarrow> string \<Rightarrow> bool" where
  "passes starts t \<longleftrightarrow>
     (\<exists>e sk. (\<forall>r. drop_escapes (t @ r) = e @ drop_escapes r) \<and>
        (\<forall>r. delimited r \<longrightarrow> drop_tokens (e @ r) = sk @ drop_tokens r) \<and>
        (\<forall>c \<in> set sk. allowed c \<or> c = CHR ''['') \<and>
        (\<forall>r. anchored True (sk @ r) = anchored False r) \<and>
        (starts \<longrightarrow> (\<forall>r. anchored False (sk @ r) = anchored False r)))"

lemma passesI:
  assumes "\<And>r. drop_escapes (t @ r) = e @ drop_escapes r"
    "\<And>r. delimited r \<Longrightarrow> drop_tokens (e @ r) = sk @ drop_tokens r"
    "\<forall>c \<in> set sk. allowed c \<or> c = CHR ''[''"
    "\<And>r. anchored True (sk @ r) = anchored False r"
    "\<And>r. starts \<Longrightarrow> anchored False (sk @ r) = anchored False r"
  shows "passes starts t"
  unfolding passes_def using assms by blast

lemma passesE:
  assumes "passes starts t"
  obtains e sk where "\<And>r. drop_escapes (t @ r) = e @ drop_escapes r"
    "\<And>r. delimited r \<Longrightarrow> drop_tokens (e @ r) = sk @ drop_tokens r"
    "\<forall>c \<in> set sk. allowed c \<or> c = CHR ''[''"
    "\<And>r. anchored True (sk @ r) = anchored False r"
    "\<And>r. starts \<Longrightarrow> anchored False (sk @ r) = anchored False r"
  using assms unfolding passes_def by blast

lemma allowed_punct: "allowed (CHR '']'')" "allowed (CHR '','')" "allowed (CHR '':'')" "allowed (CHR ''{'')" "allowed (CHR ''}'')"
  by (simp_all add: allowed_def)

lemma ws_allowed: "ws_text w \<Longrightarrow> \<forall>c \<in> set w. allowed c"
  by (auto simp: ws_text_def list_all_iff allowed_def)

lemma ws_no_bslash: "ws_text w \<Longrightarrow> bslash \<notin> set w"
  by (auto simp: ws_text_def list_all_iff is_space_def bslash_def)

lemma delimited_ws: "ws_text w \<Longrightarrow> c \<in> set '',:]}'' \<Longrightarrow> delimited (w @ c # r)"
  by (cases w) (auto simp: delimited_def ws_text_def)

lemma passes_scalar:
  assumes "\<And>r. drop_escapes (t @ r) = e @ drop_escapes r" "\<And>r. delimited r \<Longrightarrow> drop_tokens (e @ r) = CHR '']'' # drop_tokens r"
  shows "passes starts t"
  using assms allowed_punct punct_not_space by (intro passesI [where sk = "'']''" and e = e]) simp_all

lemma passes_quote: "passes starts (json_quote s)"
  by (rule passes_scalar [OF drop_escapes_quote]) (rule literal_dropped)

lemma number_no_bslash:
  assumes "num_shape t" shows "bslash \<notin> set t"
proof -
  have "\<not> is_digit bslash" by (simp add: is_digit_def bslash_def)
  then have d: "bslash \<notin> set ds" if "list_all is_digit ds" for ds
    using that unfolding list_all_iff by blast
  have b: "bslash \<notin> set ''-.e+''" by (simp add: bslash_def)
  obtain sg ds fr ex where t: "t = sg @ ds @ fr @ ex" and sg: "sg = [] \<or> sg = ''-''" and ds: "digit_text ds"
    and fr: "frac_text fr" and ex: "exp_text ex"
    using assms by (auto simp: num_shape_def)
  have "bslash \<notin> set sg" "bslash \<notin> set ds" using sg ds d b by (auto simp: digit_text_def)
  moreover have "bslash \<notin> set fr"
  proof (cases "fr = []")
    case False
    then obtain fs where "fr = CHR ''.'' # fs" "list_all is_digit fs" using fr by (auto simp: frac_text_def)
    then show ?thesis using d b by auto
  qed simp
  moreover have "bslash \<notin> set ex"
  proof (cases "ex = []")
    case False
    then obtain s es where "ex = CHR ''e'' # s # es" "s = CHR ''+'' \<or> s = CHR ''-''" "list_all is_digit es"
      using ex by (auto simp: exp_text_def digit_text_def)
    then show ?thesis using d b by auto
  qed simp
  ultimately show ?thesis by (simp add: t)
qed

lemma passes_number: "num_shape t \<Longrightarrow> passes starts t"
  by (rule passes_scalar [OF drop_escapes_plain]) (simp_all add: number_no_bslash number_dropped)

lemma passes_word: "w \<in> {''true'', ''false'', ''null''} \<Longrightarrow> passes starts w"
  by (rule passes_scalar [OF drop_escapes_plain]) (auto simp: bslash_def word_dropped [simplified])

lemma passes_sep:
  assumes "passes b t" "passes b' u" "c = CHR '','' \<or> c = CHR '':''" "ws_text w"
  shows "passes b (t @ c # w @ u)"
proof -
  from assms(1) obtain e sk where t: "\<And>r. drop_escapes (t @ r) = e @ drop_escapes r"
    "\<And>r. delimited r \<Longrightarrow> drop_tokens (e @ r) = sk @ drop_tokens r" "\<forall>c \<in> set sk. allowed c \<or> c = CHR ''[''"
    "\<And>r. anchored True (sk @ r) = anchored False r" "\<And>r. b \<Longrightarrow> anchored False (sk @ r) = anchored False r"
    by (rule passesE) blast
  from assms(2) obtain e' sk' where u: "\<And>r. drop_escapes (u @ r) = e' @ drop_escapes r"
    "\<And>r. delimited r \<Longrightarrow> drop_tokens (e' @ r) = sk' @ drop_tokens r" "\<forall>c \<in> set sk'. allowed c \<or> c = CHR ''[''"
    "\<And>r. anchored True (sk' @ r) = anchored False r"
    by (rule passesE) blast
  have c: "bslash \<notin> set (c # w)" "\<not> token_start c" "allowed c" "\<not> is_space c" "c \<noteq> CHR ''[''"
    using assms(3) ws_no_bslash [OF assms(4)] not_token_start [of c] allowed_punct punct_not_space by (auto simp: bslash_def)
  show ?thesis
  proof (rule passesI [where e = "e @ c # w @ e'" and sk = "sk @ c # w @ sk'"])
    show "drop_escapes ((t @ c # w @ u) @ r) = (e @ c # w @ e') @ drop_escapes r" for r
      using drop_escapes_plain [OF c(1), of "u @ r"] by (simp add: t(1) u(1))
    show "drop_tokens ((e @ c # w @ e') @ r) = (sk @ c # w @ sk') @ drop_tokens r" if "delimited r" for r
    proof -
      have "delimited (c # w @ e' @ r)" using assms(3) by (auto simp: delimited_def)
      from t(2) [OF this] show ?thesis using drop_tokens_ws [OF assms(4)] u(2) [OF that] c(2) by (simp add: drop_tokens_char)
    qed
    show "\<forall>x \<in> set (sk @ c # w @ sk'). allowed x \<or> x = CHR ''[''" using t(3) u(3) c(3) ws_allowed [OF assms(4)] by auto
    have a: "anchored False (c # w @ sk' @ r) = anchored False r" for r
      using assms(3) c(5) anchored_ws [OF assms(4)] u(4) by auto
    show "anchored True ((sk @ c # w @ sk') @ r) = anchored False r" for r using t(4) a by simp
    show "anchored False ((sk @ c # w @ sk') @ r) = anchored False r" if b for r using t(5) [OF that] a by simp
  qed
qed

lemma passes_join:
  "ts \<noteq> [] \<Longrightarrow> \<forall>t \<in> set ts. passes b t \<Longrightarrow> ws_text w \<Longrightarrow> passes b (join (CHR '','' # w) ts)"
proof (induction "CHR '','' # w" ts rule: join.induct)
  case (3 x y ys)
  then have "passes b (join (CHR '','' # w) (y # ys))" by simp
  with 3 show ?case using passes_sep [of b x b "join (CHR '','' # w) (y # ys)" "CHR '',''" w] by simp
qed simp_all

lemma passes_enclosed:
  assumes "passes b t" "ws_text w" "ws_text w'" "(p = CHR ''['' \<and> q = CHR '']'') \<or> (p = CHR ''{'' \<and> q = CHR ''}'' \<and> b)"
  shows "passes False (p # w @ t @ w' @ [q])"
proof -
  from assms(1) obtain e sk where t: "\<And>r. drop_escapes (t @ r) = e @ drop_escapes r"
    "\<And>r. delimited r \<Longrightarrow> drop_tokens (e @ r) = sk @ drop_tokens r" "\<forall>c \<in> set sk. allowed c \<or> c = CHR ''[''"
    "\<And>r. anchored True (sk @ r) = anchored False r" "\<And>r. b \<Longrightarrow> anchored False (sk @ r) = anchored False r"
    by (rule passesE) blast
  have p: "bslash \<notin> set (p # w)" "\<not> token_start p" "allowed p \<or> p = CHR ''[''"
    using assms(4) ws_no_bslash [OF assms(2)] not_token_start [of p] allowed_punct by (auto simp: bslash_def)
  have q: "bslash \<notin> set (w' @ [q])" "\<not> token_start q" "allowed q" "q \<in> set '',:]}''" "q \<noteq> CHR ''[''"
    "q \<noteq> CHR '':''" "q \<noteq> CHR '',''"
    using assms(4) ws_no_bslash [OF assms(3)] not_token_start [of q] allowed_punct by (auto simp: bslash_def)
  show ?thesis
  proof (rule passesI [where e = "p # w @ e @ w' @ [q]" and sk = "p # w @ sk @ w' @ [q]"])
    show "drop_escapes ((p # w @ t @ w' @ [q]) @ r) = (p # w @ e @ w' @ [q]) @ drop_escapes r" for r
      using drop_escapes_plain [OF p(1), of "t @ w' @ q # r"] drop_escapes_plain [OF q(1), of r] by (simp add: t(1))
    show "drop_tokens ((p # w @ e @ w' @ [q]) @ r) = (p # w @ sk @ w' @ [q]) @ drop_tokens r" for r
      using t(2) [OF delimited_ws [OF assms(3) q(4), of r]] drop_tokens_ws [OF assms(2)] drop_tokens_ws [OF assms(3)] p(2) q(2)
      by (simp add: drop_tokens_char)
    show "\<forall>c \<in> set (p # w @ sk @ w' @ [q]). allowed c \<or> c = CHR ''[''"
      using t(3) p(3) q(3) ws_allowed [OF assms(2)] ws_allowed [OF assms(3)] by auto
    have end_: "anchored False (w' @ q # r) = anchored False r" for r
      using anchored_ws [OF assms(3)] q(5-7) by simp
    have "anchored (p = CHR ''['') (sk @ w' @ q # r) = anchored False r" for r
      using t(4) [of "w' @ q # r"] t(5) [of "w' @ q # r"] end_ [of r] assms(4) by (elim disjE conjE) simp_all
    then have inner: "anchored (p = CHR ''['') (w @ sk @ w' @ q # r) = anchored False r" for r
      by (simp only: anchored_ws [OF assms(2)])
    show "anchored True ((p # w @ sk @ w' @ [q]) @ r) = anchored False r" for r
      using assms(4) inner [of r] punct_not_space by (elim disjE conjE) simp_all
  qed simp
qed

lemma passes_empty:
  assumes "t = ''[]'' \<or> t = ''{}''" shows "passes False t"
proof (rule passesI [where e = t and sk = t])
  have n: "\<not> token_start (CHR ''['')" "\<not> token_start (CHR '']'')" "\<not> token_start (CHR ''{'')" "\<not> token_start (CHR ''}'')"
    by (rule not_token_start, simp)+
  show "drop_escapes (t @ r) = t @ drop_escapes r" for r
    using assms by (intro drop_escapes_plain) (auto simp: bslash_def)
  show "drop_tokens (t @ r) = t @ drop_tokens r" for r
    using assms n by (elim disjE) (simp_all add: drop_tokens_char)
  show "\<forall>c \<in> set t. allowed c \<or> c = CHR ''[''" using assms by (elim disjE) (simp_all add: allowed_punct)
  show "anchored True (t @ r) = anchored False r" for r using assms punct_not_space by (elim disjE) simp_all
qed simp

text \<open>JSON texts, with the white space that \<open>stringify\<close> may add.\<close>

inductive jtext :: "string \<Rightarrow> bool" where
  jt_string: "jtext (json_quote s)"
| jt_number: "num_shape t \<Longrightarrow> jtext t"
| jt_word: "w \<in> {''true'', ''false'', ''null''} \<Longrightarrow> jtext w"
| jt_no_items: "jtext ''[]''"
| jt_no_members: "jtext ''{}''"
| jt_array: "ts \<noteq> [] \<Longrightarrow> (\<And>t. t \<in> set ts \<Longrightarrow> jtext t) \<Longrightarrow> ws_text w1 \<Longrightarrow> ws_text w2 \<Longrightarrow> ws_text w3 \<Longrightarrow>
    jtext (CHR ''['' # w1 @ join (CHR '','' # w2) ts @ w3 @ '']'')"
| jt_object: "ms \<noteq> [] \<Longrightarrow> (\<And>k t. (k, t) \<in> set ms \<Longrightarrow> jtext t) \<Longrightarrow> ws_text w1 \<Longrightarrow> ws_text w2 \<Longrightarrow> ws_text w3 \<Longrightarrow>
    ws_text w4 \<Longrightarrow>
    jtext (CHR ''{'' # w1 @ join (CHR '','' # w2) (map (\<lambda>(k, t). json_quote k @ CHR '':'' # w4 @ t) ms) @ w3 @ ''}'')"

lemma jtext_passes: "jtext t \<Longrightarrow> passes False t"
proof (induction rule: jtext.induct)
  case jt_string
  show ?case by (rule passes_quote)
next
  case (jt_number t)
  then show ?case by (rule passes_number)
next
  case (jt_word w)
  then show ?case by (rule passes_word)
next
  case jt_no_items
  show ?case by (rule passes_empty) simp
next
  case jt_no_members
  show ?case by (rule passes_empty) simp
next
  case (jt_array ts w1 w2 w3)
  then have "passes False (join (CHR '','' # w2) ts)" by (intro passes_join) auto
  then show ?case using jt_array by (intro passes_enclosed) auto
next
  case (jt_object ms w1 w2 w3 w4)
  have "passes True (json_quote k @ CHR '':'' # w4 @ t)" if "(k, t) \<in> set ms" for k t
    using jt_object.IH [OF that] jt_object.hyps by (intro passes_sep [OF passes_quote]) auto
  then have "passes True (join (CHR '','' # w2) (map (\<lambda>(k, t). json_quote k @ CHR '':'' # w4 @ t) ms))"
    using jt_object.hyps by (intro passes_join) auto
  then show ?case using jt_object.hyps by (intro passes_enclosed) auto
qed

lemma jtext_safe: "jtext t \<Longrightarrow> text_safe t"
proof -
  assume "jtext t"
  from jtext_passes [OF this] obtain e sk where p: "\<And>r. drop_escapes (t @ r) = e @ drop_escapes r"
    "\<And>r. delimited r \<Longrightarrow> drop_tokens (e @ r) = sk @ drop_tokens r" "\<forall>c \<in> set sk. allowed c \<or> c = CHR ''[''"
    "\<And>r. anchored True (sk @ r) = anchored False r"
    by (rule passesE) blast
  have "drop_escapes [] = []" "drop_tokens [] = []" by (simp_all add: drop_escapes.simps drop_tokens.simps)
  then have "drop_tokens (drop_escapes t) = sk" using p(1) [of "[]"] p(2) [of "[]"] by (simp add: delimited_def)
  moreover have "list_all allowed (third_pass sk)" using p(3) p(4) [of "[]"] by (intro third_pass_allowed) auto
  ultimately show "text_safe t" by (simp add: text_safe_def)
qed

section \<open>What is written is accepted\<close>

lemma collect_Inr: "collect rs = Inr xs \<Longrightarrow> x \<in> set xs \<Longrightarrow> Inr x \<in> set rs"
  by (induction rs arbitrary: xs) (auto simp: bind_result_Inr_conv)

lemma enclose_array:
  assumes "\<forall>t \<in> set ts. jtext t" "ws_text gap" "ws_text mind"
  shows "jtext (enclose (CHR ''['') (CHR '']'') gap mind ts)"
proof (cases "ts = []")
  case True
  then show ?thesis by (simp add: enclose_def jt_no_items)
next
  case False
  have ws: "ws_text (nl_char # gap)" "ws_text (nl_char # mind)" "ws_text []"
    using assms(2,3) by (simp_all add: ws_text_def nl_char_def is_space_def)
  show ?thesis
    using jt_array [OF False _ ws(1,1,2)] jt_array [OF False _ ws(3,3,3)] assms(1) False
    by (cases "gap = []") (simp_all add: enclose_def)
qed

lemma members_map:
  "members gap rs =
     map (\<lambda>(k, t). json_quote k @ CHR '':'' # (if gap = [] then [] else '' '') @ t)
       (concat (map (\<lambda>(k, r). case r of None \<Rightarrow> [] | Some t \<Rightarrow> [(k, t)]) rs))"
  by (induction rs) (auto simp: members_def split: option.split)

lemma enclose_object:
  assumes "\<And>k t. (k, Some t) \<in> set rs \<Longrightarrow> jtext t" "ws_text gap" "ws_text mind"
  shows "jtext (enclose (CHR ''{'') (CHR ''}'') gap mind (members gap rs))"
proof -
  let ?ms = "concat (map (\<lambda>(k, r). case r of None \<Rightarrow> [] | Some t \<Rightarrow> [(k, t)]) rs)"
  let ?w = "if gap = [] then [] else '' ''"
  have ms: "jtext t" if "(k, t) \<in> set ?ms" for k t
    using that assms(1) by (auto split: option.splits)
  show ?thesis
  proof (cases "?ms = []")
    case True
    then show ?thesis unfolding members_map True by (simp add: enclose_def jt_no_members)
  next
    case False
    have ws: "ws_text (nl_char # gap)" "ws_text (nl_char # mind)" "ws_text []" "ws_text '' ''"
      using assms(2,3) by (simp_all add: ws_text_def nl_char_def is_space_def)
    show ?thesis
      using jt_object [OF False ms ws(1,1,2,4)] jt_object [OF False ms ws(3,3,3,3)] False
      unfolding members_map enclose_def by (cases "gap = []") (simp_all only: map_is_Nil_conv if_False if_True simp_thms append_Cons append_Nil)
  qed
qed

lemma js_str_text:
  "ws_text indent \<Longrightarrow> ws_text mind \<Longrightarrow> js_str call rep indent depth mind key holder v = Inr (Some t) \<Longrightarrow> jtext t"
proof (induction depth arbitrary: mind key holder v t)
  case (Suc depth)
  let ?val = "replaced call rep holder key (to_json call key v)" let ?gap = "mind @ indent"
  have gap: "ws_text ?gap" using Suc.prems(1,2) by (simp add: ws_text_def)
  note ih = Suc.IH [OF Suc.prems(1) gap]
  show ?case
  proof (cases ?val)
    case (JArr vs)
    then obtain rs where rs: "collect (map (\<lambda>(i, x). js_str call rep indent depth ?gap (JNum (num_of (int i))) ?val x)
        (enumerate 0 vs)) = Inr rs"
      and t: "t = enclose (CHR ''['') (CHR '']'') ?gap mind (map (\<lambda>r. case r of None \<Rightarrow> ''null'' | Some t \<Rightarrow> t) rs)"
      using Suc.prems(3) by (auto simp: bind_result_Inr_conv Let_def)
    have "jtext (case r of None \<Rightarrow> ''null'' | Some t \<Rightarrow> t)" if "r \<in> set rs" for r
      using collect_Inr [OF rs that] ih by (cases r) (auto intro: jt_word)
    then show ?thesis unfolding t using gap Suc.prems(2) by (intro enclose_array) auto
  next
    case (JObj ps)
    then obtain rs where rs: "collect (map (\<lambda>k. js_str call rep indent depth ?gap (JStr k) ?val (own ps k))
        (member_names rep ps)) = Inr rs"
      and t: "t = enclose (CHR ''{'') (CHR ''}'') ?gap mind (members ?gap (zip (member_names rep ps) rs))"
      using Suc.prems(3) by (auto simp: bind_result_Inr_conv Let_def)
    have "jtext u" if "(k, Some u) \<in> set (zip (member_names rep ps) rs)" for k u
      using collect_Inr [OF rs set_zip_rightD [OF that]] ih by auto
    then show ?thesis unfolding t using gap Suc.prems(2) by (intro enclose_object) auto
  next
    case (JNum n)
    then show ?thesis using Suc.prems(3) finite_number_shape by (cases n) (auto simp: Let_def intro: jt_number jt_word)
  qed (use Suc.prems(3) in \<open>auto simp: Let_def intro: jt_string jt_word split: if_splits\<close>)
qed simp

text \<open>
  C29. Every text \<open>stringify\<close> writes, whatever the replacer and the \<open>toJSON\<close> methods return, is accepted by the
  check of \<open>parse\<close>, provided an indentation given as text is white space.
\<close>

theorem stringified_text_accepted:
  assumes "stringify call depth v rep space = Inr (Some t)" "\<And>s. space = JStr s \<Longrightarrow> ws_text s"
  shows "text_safe t"
proof -
  obtain indent where i: "indent_of space = Inr indent" "js_str call rep indent depth [] (JStr []) (JObj [([], v)]) v = Inr (Some t)"
    using assms(1) by (auto simp: stringify_def bind_result_Inr_conv split: if_splits)
  have "ws_text indent"
    using i(1) assms(2) by (cases space) (auto simp: indent_of_def ws_text_def is_space_def list_all_iff split: jsnum.splits)
  then show ?thesis using i(2) by (intro jtext_safe js_str_text [of indent "[]"]) (simp_all add: ws_text_def)
qed

definition no_calls :: caller where
  "no_calls f this args = JUndef"

definition demo_value :: jdata where
  "demo_value =
     JObj [(''name'', JStr [CHR ''a'', quote_char, bslash, nl_char]), (''list'', JArr [JNum (num_of 1), JUndef, JArr []]), (''f'', JFun 0)]"

theorem stringified_text_accepted_witness:
  "\<exists>t. stringify no_calls 5 demo_value Absent (JNum (num_of 2)) = Inr (Some t) \<and> text_safe t"
proof -
  have "case stringify no_calls 5 demo_value Absent (JNum (num_of 2)) of Inr (Some t) \<Rightarrow> True | _ \<Rightarrow> False" by code_simp
  then obtain t where t: "stringify no_calls 5 demo_value Absent (JNum (num_of 2)) = Inr (Some t)"
    by (auto split: sum.splits option.splits)
  from t stringified_text_accepted [OF this] show ?thesis by blast
qed

section \<open>What is accepted is data\<close>

lemma set_brackets: "c \<in> set (take (brackets_length t) t) \<Longrightarrow> c = CHR ''['' \<or> is_space c"
proof (induction t rule: brackets_length.induct)
  case (1 t)
  let ?ws = "length (takeWhile is_space t)"
  show ?case
  proof (cases "drop ?ws t \<noteq> [] \<and> hd (drop ?ws t) = CHR ''[''")
    case True
    have t: "t = takeWhile is_space t @ CHR ''['' # drop (?ws + 1) t"
      using True by (metis append_take_drop_id drop_Suc hd_Cons_tl plus_1_eq_Suc add.commute takeWhile_eq_take tl_drop)
    have "brackets_length t = ?ws + 1 + brackets_length (drop (?ws + 1) t)"
      using True by (subst brackets_length.simps) (simp only: Let_def if_True simp_thms)
    then have "take (brackets_length t) t =
        takeWhile is_space t @ CHR ''['' # take (brackets_length (drop (?ws + 1) t)) (drop (?ws + 1) t)"
      by (subst (2) t) simp
    then show ?thesis using 1(1) [OF refl True] 1(2) by (auto dest: set_takeWhileD)
  next
    case False
    then have "brackets_length t = 0" by (subst brackets_length.simps) (simp only: Let_def if_False)
    then show ?thesis using 1(2) by simp
  qed
qed

lemma drop_brackets_keeps:
  "c \<in> set t \<Longrightarrow> c \<in> set (drop_brackets t) \<or> c \<in> {CHR ''['', CHR '':'', CHR '',''} \<or> is_space c"
proof (induction t rule: drop_brackets.induct)
  case (1 t)
  show ?case
  proof (cases t)
    case (Cons d s)
    let ?n = "brackets_length s"
    have s: "c \<in> set s \<Longrightarrow> c \<in> set (take ?n s) \<or> c \<in> set (drop ?n s)"
      by (metis Un_iff append_take_drop_id set_append)
    show ?thesis
    proof (cases "d \<in> {CHR '':'', CHR '',''} \<and> 0 < ?n")
      case True
      have "drop_brackets t = drop_brackets (drop ?n s)" using True Cons by (subst drop_brackets.simps) simp
      then show ?thesis using 1(1) [OF Cons True] 1(3) Cons True s set_brackets [of c s] by auto
    next
      case False
      have "drop_brackets t = d # drop_brackets s" using False Cons by (subst drop_brackets.simps) auto
      then show ?thesis using 1(2) [OF Cons False] 1(3) Cons by auto
    qed
  qed (use 1(3) in simp)
qed

lemma third_pass_keeps:
  assumes "list_all allowed (third_pass t)" "c \<in> set t" shows "allowed c \<or> c = CHR ''[''"
proof -
  have "c \<in> set (take (brackets_length t) t) \<or> c \<in> set (drop (brackets_length t) t)"
    using assms(2) by (metis Un_iff append_take_drop_id set_append)
  then show ?thesis
    using set_brackets [of c t] drop_brackets_keeps [of c "drop (brackets_length t) t"] assms(1)
    by (auto simp: third_pass_def list_all_iff allowed_def)
qed

text \<open>The text without its string literals.\<close>

function outside :: "string \<Rightarrow> string" where
  "outside t =
     (case t of
        [] \<Rightarrow> []
      | c # t' \<Rightarrow> (case literal_length t of Some n \<Rightarrow> outside (drop n t) | None \<Rightarrow> c # outside t'))"
  by pat_completeness auto
termination
  by (relation "measure length") (auto simp: literal_length_def Let_def split: if_splits)

declare outside.simps [simp del]

lemma outside_plain: "quote_char \<notin> set u \<Longrightarrow> outside (u @ r) = u @ outside r"
proof (induction u)
  case (Cons c u)
  have "literal_length (c # u @ r) = None" using Cons.prems by (auto simp: literal_length_def Let_def)
  then show ?case using Cons by (subst outside.simps) simp
qed simp

definition data_char :: "char \<Rightarrow> bool" where
  "data_char c \<longleftrightarrow> allowed c \<or> c = CHR ''['' \<or> is_digit c \<or> c \<in> set ''+-.eEtruefalsn''"

lemma takeWhile_data: "c \<in> set (takeWhile is_digit t) \<Longrightarrow> is_digit c"
  by (rule set_takeWhileD [THEN conjunct2])

lemma exponent_chars: "c \<in> set (take (exponent_length t) t) \<Longrightarrow> is_digit c \<or> c \<in> set ''+-eE''"
proof -
  assume c: "c \<in> set (take (exponent_length t) t)"
  show ?thesis
  proof (cases t)
    case (Cons e s)
    let ?sign = "if s \<noteq> [] \<and> hd s \<in> {CHR ''+'', CHR ''-''} then 1 else 0 :: nat"
    let ?ds = "takeWhile is_digit (drop ?sign s)"
    have e: "e \<in> {CHR ''e'', CHR ''E''}" "exponent_length t = 1 + ?sign + length ?ds"
      using c Cons by (auto simp: exponent_length_def Let_def split: if_splits)
    have "take (exponent_length t) t = e # take ?sign s @ ?ds"
      unfolding e(2) unfolding Cons by (simp add: take_add takeWhile_eq_take [symmetric])
    moreover have "set (take ?sign s) \<subseteq> {CHR ''+'', CHR ''-''}" by (cases s) auto
    ultimately show ?thesis using c e(1) takeWhile_data by fastforce
  qed (use c in simp)
qed

lemma number_chars:
  assumes "number_length t = Some n" "c \<in> set (take n t)" shows "is_digit c \<or> c \<in> set ''+-.eE''"
proof -
  let ?sign = "if t \<noteq> [] \<and> hd t = CHR ''-'' then 1 else 0 :: nat"
  let ?ds = "length (takeWhile is_digit (drop ?sign t))"
  let ?fr = "fraction_length (drop (?sign + ?ds) t)"
  let ?ex = "exponent_length (drop (?sign + ?ds + ?fr) t)"
  have n: "n = ?sign + ?ds + ?fr + ?ex" using assms(1) by (auto simp: number_length_def Let_def split: if_splits)
  have t: "take n t = take ?sign t @ take ?ds (drop ?sign t) @ take ?fr (drop (?sign + ?ds) t) @ take ?ex (drop (?sign + ?ds + ?fr) t)"
    unfolding n by (simp only: take_add append_assoc)
  have 1: "x = CHR ''-''" if "x \<in> set (take ?sign t)" for x
    using that by (cases t) (auto split: if_splits)
  have 2: "is_digit x" if "x \<in> set (take ?ds (drop ?sign t))" for x
    using that takeWhile_data [of x "drop ?sign t"] by (simp only: takeWhile_eq_take [symmetric])
  have 3: "is_digit x \<or> x = CHR ''.''" if "x \<in> set (take (fraction_length u) u)" for x u
  proof (cases u)
    case (Cons d s)
    then show ?thesis using that takeWhile_data [of _ s] by (auto simp: fraction_length_def takeWhile_eq_take [symmetric] split: if_splits)
  qed (use that in simp)
  consider "c \<in> set (take ?sign t)" | "c \<in> set (take ?ds (drop ?sign t))" | "c \<in> set (take ?fr (drop (?sign + ?ds) t))"
    | "c \<in> set (take ?ex (drop (?sign + ?ds + ?fr) t))"
    using assms(2) unfolding t set_append by blast
  then show ?thesis
  proof cases
    case 1
    from \<open>\<And>x. x \<in> set (take ?sign t) \<Longrightarrow> x = CHR ''-''\<close> [OF 1] show ?thesis by simp
  next
    case 2
    from \<open>\<And>x. x \<in> set (take ?ds (drop ?sign t)) \<Longrightarrow> is_digit x\<close> [OF 2] show ?thesis by simp
  next
    case 3
    from \<open>\<And>x u. x \<in> set (take (fraction_length u) u) \<Longrightarrow> is_digit x \<or> x = CHR ''.''\<close> [OF 3] show ?thesis by auto
  next
    case 4
    from exponent_chars [OF 4] show ?thesis by auto
  qed
qed

lemma quote_not_number: "is_digit c \<or> c \<in> set ''+-.eE'' \<Longrightarrow> c \<noteq> quote_char"
  by (auto simp: is_digit_def quote_char_def)

lemma data_charI: "is_digit c \<Longrightarrow> data_char c" "c \<in> set ''+-.eEtruefalsn'' \<Longrightarrow> data_char c"
  unfolding data_char_def by (simp_all only: simp_thms)

lemma number_data: "is_digit c \<or> c \<in> set ''+-.eE'' \<Longrightarrow> data_char c"
proof -
  have "set ''+-.eE'' \<subseteq> set ''+-.eEtruefalsn''" by simp
  then show "is_digit c \<or> c \<in> set ''+-.eE'' \<Longrightarrow> data_char c" using data_charI by (elim disjE) (simp only:, drule subsetD, assumption, simp only:)
qed

lemma word_length_text: "word_length t = Some n \<Longrightarrow> take n t \<in> {''true'', ''false'', ''null''}"
  by (auto simp: word_length_def prefix_def split: if_splits)

lemma outside_data:
  "\<forall>c \<in> set (drop_tokens t). allowed c \<or> c = CHR ''['' \<Longrightarrow> c \<in> set (outside t) \<Longrightarrow> data_char c"
proof (induction t rule: drop_tokens.induct)
  case (1 t)
  show ?case
  proof (cases t)
    case Nil
    then show ?thesis using 1(5) by (simp add: outside.simps)
  next
    case (Cons d s)
    show ?thesis
    proof (cases "token_length t")
      case None
      have lit: "literal_length t = None" using None by (auto simp: token_length_def split: option.splits)
      have dt: "drop_tokens t = d # drop_tokens s" using Cons None by (subst drop_tokens.simps) simp
      have "outside t = d # outside s" using Cons lit by (subst outside.simps) simp
      then consider "c = d" | "c \<in> set (outside s)" using 1(5) by auto
      then show ?thesis
      proof cases
        case 1
        then show ?thesis using \<open>\<forall>c \<in> set (drop_tokens t). allowed c \<or> c = CHR ''[''\<close> unfolding dt by (auto simp only: data_char_def list.set)
      next
        case 2
        then show ?thesis using "1"(1) [OF Cons None] \<open>\<forall>c \<in> set (drop_tokens t). allowed c \<or> c = CHR ''[''\<close> unfolding dt by simp
      qed
    next
      case (Some n)
      consider (lit) "literal_length t = Some n" | (word) "literal_length t = None" "word_length t = Some n"
        | (num) "literal_length t = None" "word_length t = None" "number_length t = Some n"
        using Some by (auto simp: token_length_def split: option.splits)
      note cs = this
      have n: "n \<noteq> 0" using cs by cases (auto simp: literal_length_def word_length_def number_length_def Let_def split: if_splits)
      have dt: "drop_tokens t = CHR '']'' # drop_tokens (drop n t)" using Cons Some n by (subst drop_tokens.simps) simp
      then have ih: "c \<in> set (outside (drop n t)) \<Longrightarrow> data_char c" using 1(3) [OF Cons Some n] 1(4) by auto
      show ?thesis
        using cs
      proof cases
        case lit
        then have "outside t = outside (drop n t)" using Cons by (subst outside.simps) simp
        then show ?thesis using ih 1(5) by simp
      next
        case word
        have "\<forall>x \<in> set (take n t). x \<in> set ''truefalsn'' \<and> x \<noteq> quote_char"
          using word_length_text [OF word(2)] by (auto simp: quote_char_def)
        then have "outside t = take n t @ outside (drop n t)" "c \<in> set (take n t) \<Longrightarrow> data_char c"
          using outside_plain [of "take n t" "drop n t"] by (auto simp: data_char_def)
        then show ?thesis using ih 1(5) by auto
      next
        case num
        have "\<forall>x \<in> set (take n t). x \<noteq> quote_char" using number_chars [OF num(3)] quote_not_number by blast
        then have "outside t = take n t @ outside (drop n t)" using outside_plain [of "take n t" "drop n t"] by auto
        moreover have "c \<in> set (take n t) \<Longrightarrow> data_char c" by (rule number_data [OF number_chars [OF num(3)]])
        ultimately show ?thesis using ih 1(5) by auto
      qed
    qed
  qed
qed

lemma safe_text_is_data:
  assumes "text_safe t"
  shows "\<forall>c \<in> set (outside (drop_escapes t)). data_char c \<and> c \<notin> set ''()=;/*!&|<>'' \<and> c \<noteq> bslash \<and> c \<noteq> quote_char"
proof
  fix c assume "c \<in> set (outside (drop_escapes t))"
  moreover have "\<forall>c \<in> set (drop_tokens (drop_escapes t)). allowed c \<or> c = CHR ''[''"
    using assms third_pass_keeps unfolding text_safe_def by blast
  ultimately have d: "data_char c" by (rule outside_data [rotated])
  moreover have "c \<notin> set ''()=;/*!&|<>'' \<and> c \<noteq> bslash \<and> c \<noteq> quote_char"
    using d by (auto simp: data_char_def allowed_def is_space_def is_digit_def bslash_def quote_char_def)
  ultimately show "data_char c \<and> c \<notin> set ''()=;/*!&|<>'' \<and> c \<noteq> bslash \<and> c \<noteq> quote_char" by blast
qed

text \<open>
  C28. Only data is evaluated: if what \<open>parse\<close> returns depends on the engine's \<open>eval\<close> at all, then the text handed to it has,
  outside its string literals and escapes, nothing but brackets, braces, separators, white space, digits and
  the letters of the three words and of exponents: no parenthesis, no assignment, no backslash, no other quotation
  mark. Every other text is rejected without being evaluated.
\<close>

theorem parse_evaluates_only_data:
  assumes "json_parse call eval text reviver \<noteq> json_parse call eval' text reviver"
  shows "\<forall>c \<in> set (outside (drop_escapes (cx_escape text))).
    data_char c \<and> c \<notin> set ''()=;/*!&|<>'' \<and> c \<noteq> bslash \<and> c \<noteq> quote_char"
proof -
  have "text_safe (cx_escape text)" using assms unfolding json_parse_def Let_def by (cases "text_safe (cx_escape text)") simp_all
  then show ?thesis by (rule safe_text_is_data)
qed

theorem parse_evaluates_only_data_witness:
  "list_all (\<lambda>c. data_char c \<and> c \<notin> set ''()=;/*!&|<>'' \<and> c \<noteq> bslash \<and> c \<noteq> quote_char)
     (outside (drop_escapes (cx_escape [CHR ''['', quote_char, CHR ''('', quote_char, CHR '','', CHR ''1'', CHR '']''])))"
proof -
  let ?t = "[CHR ''['', quote_char, CHR ''('', quote_char, CHR '','', CHR ''1'', CHR '']'']"
  have "text_safe (cx_escape ?t)" by code_simp
  then have "json_parse no_calls (\<lambda>t. Inr JNull) ?t JUndef \<noteq> json_parse no_calls (\<lambda>t. Inr (JStr t)) ?t JUndef"
    by (simp add: json_parse_def)
  then show ?thesis unfolding list_all_iff by (rule parse_evaluates_only_data)
qed

end
