(* ===== verification/Json2Round.thy ===== *)
theory Json2Round
  imports Json2Safe
begin

text \<open>
  Writing and reading again. \<open>denotes t v\<close> says which value a JSON text has, following the grammar; the
  reader \<open>rd\<close> shows that a text has at most one. What \<open>stringify\<close> writes denotes the value without
  what JSON cannot express, and \<open>parse\<close> returns it when \<open>eval\<close> gives JSON texts their value.
\<close>

section \<open>The value of a text\<close>

text \<open>
  Tables as the engine builds them from a literal: keys in the order of enumeration (array indices first, ascending),
  each once, and not the name that sets the prototype.
\<close>

definition enum_before :: "string \<Rightarrow> string \<Rightarrow> bool" where
  "enum_before k k' \<longleftrightarrow> \<not> (is_index k' \<and> (\<not> is_index k \<or> digits_val k' < digits_val k))"

definition in_order :: "string list \<Rightarrow> bool" where
  "in_order ks \<longleftrightarrow> distinct ks \<and> ''__proto__'' \<notin> set ks \<and> sorted_wrt enum_before ks"

inductive denotes :: "string \<Rightarrow> jdata \<Rightarrow> bool" where
  d_string: "denotes (json_quote s) (JStr s)"
| d_number: "denotes (num_to_str (Fin x)) (JNum (str_to_num (num_to_str (Fin x))))"
| d_null: "denotes ''null'' JNull"
| d_bool: "denotes (if b then ''true'' else ''false'') (JBool b)"
| d_no_items: "denotes ''[]'' (JArr [])"
| d_no_members: "denotes ''{}'' (JObj [])"
| d_array: "its \<noteq> [] \<Longrightarrow> (\<And>t v. (t, v) \<in> set its \<Longrightarrow> denotes t v) \<Longrightarrow> ws_text w1 \<Longrightarrow> ws_text w2 \<Longrightarrow> ws_text w3 \<Longrightarrow>
    denotes (CHR ''['' # w1 @ join (CHR '','' # w2) (map fst its) @ w3 @ '']'') (JArr (map snd its))"
| d_object: "ms \<noteq> [] \<Longrightarrow> (\<And>k t v. (k, t, v) \<in> set ms \<Longrightarrow> denotes t v) \<Longrightarrow> in_order (map fst ms) \<Longrightarrow>
    ws_text w1 \<Longrightarrow> ws_text w2 \<Longrightarrow> ws_text w3 \<Longrightarrow> ws_text w4 \<Longrightarrow>
    denotes (CHR ''{'' # w1 @ join (CHR '','' # w2) (map (\<lambda>(k, t, v). json_quote k @ CHR '':'' # w4 @ t) ms) @ w3 @ ''}'')
      (JObj (map (\<lambda>(k, t, v). (k, v)) ms))"

section \<open>A reader\<close>

definition unescape :: "string \<Rightarrow> (char \<times> string) option" where
  "unescape t =
     (case t of
        [] \<Rightarrow> None
      | d # r \<Rightarrow>
          if d = CHR ''u''
          then (if length r < 4 then None
                else map_option (\<lambda>n. (char_of n, drop 4 r)) (radix_val 16 0 (take 4 r)))
          else map_option (\<lambda>c. (c, r))
                 (map_of [(CHR ''b'', CHR 0x08), (CHR ''t'', CHR 0x09), (CHR ''n'', CHR 0x0A), (CHR ''f'', CHR 0x0C),
                          (CHR ''r'', CHR 0x0D), (quote_char, quote_char), (bslash, bslash), (CHR ''/'', CHR ''/'')] d))"

function read_chars :: "string \<Rightarrow> (string \<times> string) option" where
  "read_chars t =
     (case t of
        [] \<Rightarrow> None
      | c # r \<Rightarrow>
          if c = quote_char then Some ([], r)
          else if c \<noteq> bslash then map_option (\<lambda>(s, u). (c # s, u)) (read_chars r)
          else (case unescape r of
                  None \<Rightarrow> None
                | Some (x, r') \<Rightarrow> map_option (\<lambda>(s, u). (x # s, u)) (read_chars r')))"
  by pat_completeness auto
termination
  by (relation "measure length") (auto simp: unescape_def split: list.splits if_splits)

declare read_chars.simps [simp del]

definition skip :: "string \<Rightarrow> string" where
  "skip = dropWhile is_space"

definition word_value :: "string \<Rightarrow> jdata" where
  "word_value w = (if w = ''null'' then JNull else JBool (w = ''true''))"

fun rd :: "nat \<Rightarrow> string \<Rightarrow> (jdata \<times> string) option"
and rd_items :: "nat \<Rightarrow> string \<Rightarrow> (jdata list \<times> string) option"
and rd_members :: "nat \<Rightarrow> string \<Rightarrow> ((string \<times> jdata) list \<times> string) option" where
  "rd 0 t = None"
| "rd (Suc n) t =
     (case t of
        [] \<Rightarrow> None
      | c # r \<Rightarrow>
          if c = quote_char then map_option (\<lambda>(s, u). (JStr s, u)) (read_chars r)
          else if c = CHR ''['' then
            (case skip r of
               [] \<Rightarrow> None
             | d # u \<Rightarrow> if d = CHR '']'' then Some (JArr [], u)
                        else map_option (\<lambda>(vs, u). (JArr vs, u)) (rd_items n (d # u)))
          else if c = CHR ''{'' then
            (case skip r of
               [] \<Rightarrow> None
             | d # u \<Rightarrow> if d = CHR ''}'' then Some (JObj [], u)
                        else map_option (\<lambda>(ps, u). (JObj ps, u)) (rd_members n (d # u)))
          else (case word_length t of
                  Some m \<Rightarrow> Some (word_value (take m t), drop m t)
                | None \<Rightarrow> map_option (\<lambda>m. (JNum (str_to_num (take m t)), drop m t)) (number_length t)))"
| "rd_items 0 t = None"
| "rd_items (Suc n) t =
     (case rd n t of
        None \<Rightarrow> None
      | Some (v, u) \<Rightarrow>
          (case skip u of
             [] \<Rightarrow> None
           | d # u' \<Rightarrow> if d = CHR '']'' then Some ([v], u')
                       else if d = CHR '','' then map_option (\<lambda>(vs, w). (v # vs, w)) (rd_items n (skip u')) else None))"
| "rd_members 0 t = None"
| "rd_members (Suc n) t =
     (case t of
        [] \<Rightarrow> None
      | c # r \<Rightarrow>
          if c \<noteq> quote_char then None
          else (case read_chars r of
                  None \<Rightarrow> None
                | Some (k, u) \<Rightarrow>
                    if u = [] \<or> hd u \<noteq> CHR '':'' then None
                    else (case rd n (skip (tl u)) of
                            None \<Rightarrow> None
                          | Some (v, w) \<Rightarrow>
                              (case skip w of
                                 [] \<Rightarrow> None
                               | e # w' \<Rightarrow> if e = CHR ''}'' then Some ([(k, v)], w')
                                           else if e = CHR '','' then
                                             map_option (\<lambda>(ps, x). ((k, v) # ps, x)) (rd_members n (skip w'))
                                           else None))))"

section \<open>Reading characters\<close>

lemma hex_val_digit: "0 \<le> d \<Longrightarrow> d < 16 \<Longrightarrow> hex_val (digit_char d) = Some d"
proof -
  assume "0 \<le> d" "d < 16"
  then have "d = 0 \<or> d = 1 \<or> d = 2 \<or> d = 3 \<or> d = 4 \<or> d = 5 \<or> d = 6 \<or> d = 7 \<or> d = 8 \<or> d = 9 \<or> d = 10 \<or> d = 11 \<or>
      d = 12 \<or> d = 13 \<or> d = 14 \<or> d = 15"
    by presburger
  then show ?thesis by (elim disjE) (simp_all add: digit_char_def hex_val_def)
qed

lemma hex4_value: "radix_val 16 0 (hex4 c) = Some (of_char c)"
proof -
  let ?n = "of_char c :: int"
  have n: "0 \<le> ?n" "?n < 256" by (cases c; simp add: of_char_def)+
  have h: "hex_digits ?n = (if ?n < 16 then [digit_char ?n] else [digit_char (?n div 16), digit_char (?n mod 16)])"
    using n by (subst hex_digits.simps, subst hex_digits.simps) simp
  have z: "hex_val (CHR ''0'') = Some 0" by (simp add: hex_val_def)
  have d: "0 \<le> ?n div 16" "?n div 16 < 16" "0 \<le> ?n mod 16" "?n mod 16 < 16" using n by auto
  show ?thesis
  proof (cases "?n < 16")
    case True
    then have "hex4 c = [CHR ''0'', CHR ''0'', CHR ''0'', digit_char ?n]" using h by (simp add: hex4_def)
    then show ?thesis using True n z hex_val_digit [of ?n] by simp
  next
    case False
    then have "hex4 c = [CHR ''0'', CHR ''0'', digit_char (?n div 16), digit_char (?n mod 16)]" using h by (simp add: hex4_def)
    then show ?thesis using n z d hex_val_digit [of "?n div 16"] hex_val_digit [of "?n mod 16"] by simp
  qed
qed

lemma unescape_hex: "unescape (CHR ''u'' # hex4 c @ t) = Some (c, t)"
  using hex4_ok [of c] hex4_value [of c] by (simp add: unescape_def)

lemma unescape_meta:
  assumes "meta c = Some e" shows "unescape (tl e @ t) = Some (c, t) \<and> hd e = bslash \<and> e \<noteq> []"
proof -
  have c: "char_of (of_char c :: int) = c" by simp
  consider "of_char c = (8 :: int)" | "of_char c = (9 :: int)" | "of_char c = (10 :: int)" | "of_char c = (12 :: int)"
    | "of_char c = (13 :: int)" | "of_char c = (34 :: int)" | "of_char c = (92 :: int)"
    using assms by (auto simp: meta_def Let_def split: if_splits)
  then show ?thesis
    using assms c by cases (auto simp: meta_def Let_def unescape_def bslash_def quote_char_def char_of_def)
qed

lemma read_escape_char: "read_chars (escape_char c @ t) = map_option (\<lambda>(s, r). (c # s, r)) (read_chars t)"
proof (cases "escapable c")
  case False
  then show ?thesis using escape_char_plain [OF False] by (subst read_chars.simps) simp
next
  case True
  have q: "bslash \<noteq> quote_char" by (simp add: bslash_def quote_char_def)
  show ?thesis
  proof (cases "meta c")
    case None
    then have e: "escape_char c @ t = bslash # CHR ''u'' # hex4 c @ t" using True by (simp add: escape_char_def)
    show ?thesis unfolding e using q unescape_hex by (subst read_chars.simps) simp
  next
    case (Some s)
    then obtain s' where s: "s = bslash # s'" "unescape (s' @ t) = Some (c, t)"
      using unescape_meta [OF Some, of t] by (cases s) auto
    then have e: "escape_char c @ t = bslash # s' @ t" using True Some by (simp add: escape_char_def)
    show ?thesis unfolding e using q s(2) by (subst read_chars.simps) simp
  qed
qed

lemma read_quoted: "read_chars (concat (map escape_char s) @ quote_char # t) = Some (s, t)"
proof (induction s)
  case Nil
  show ?case by (subst read_chars.simps) simp
next
  case (Cons c s)
  then show ?case by (simp add: read_escape_char)
qed

section \<open>A text has one value\<close>

definition value_head :: "char \<Rightarrow> bool" where
  "value_head c \<longleftrightarrow> \<not> is_space c \<and> c \<notin> set '']},:''"

lemma number_head: "num_shape t \<Longrightarrow> \<exists>c s. t = c # s \<and> (c = CHR ''-'' \<or> is_digit c)"
proof -
  assume "num_shape t"
  then have "t \<noteq> [] \<and> (hd t = CHR ''-'' \<or> is_digit (hd t))"
    by (auto simp: num_shape_def digit_text_def hd_append list_all_iff)
  then show ?thesis by (cases t) auto
qed

lemma number_head_ok: "c = CHR ''-'' \<or> is_digit c \<Longrightarrow> value_head c \<and> c \<noteq> quote_char \<and> c \<notin> set ''[{tfn''"
  by (auto simp: value_head_def is_space_def is_digit_def quote_char_def)

lemma denotes_head: "denotes t v \<Longrightarrow> \<exists>c s. t = c # s \<and> value_head c"
proof (induction rule: denotes.induct)
  case (d_number x)
  then show ?case using number_head [OF finite_number_shape [of x]] number_head_ok by blast
next
  case (d_string s)
  then show ?case by (simp add: json_quote_def value_head_def is_space_def quote_char_def)
qed (simp_all add: value_head_def is_space_def)

lemma skip_ws: "ws_text w \<Longrightarrow> t = [] \<or> \<not> is_space (hd t) \<Longrightarrow> skip (w @ t) = t"
  unfolding skip_def ws_text_def by (induction w) (cases t, auto)

lemma skip_value: "ws_text w \<Longrightarrow> denotes t v \<Longrightarrow> skip (w @ t @ r) = t @ r"
  using denotes_head [of t v] by (intro skip_ws) (auto simp: value_head_def)

lemma rd_word:
  assumes "w \<in> {''true'', ''false'', ''null''}" shows "rd (Suc n) (w @ r) = Some (word_value w, r)"
  using assms by (elim insertE) (auto simp: word_length_def quote_char_def)

lemma rd_number:
  assumes "num_shape t" "delimited r" shows "rd (Suc n) (t @ r) = Some (JNum (str_to_num t), r)"
proof -
  obtain c s where t: "t = c # s" "c = CHR ''-'' \<or> is_digit c" using number_head [OF assms(1)] by blast
  have c: "c \<noteq> quote_char" "c \<notin> set ''[{tfn''" using number_head_ok [OF t(2)] by simp_all
  have "number_length (t @ r) = Some (length t)" by (rule number_length_text [OF assms(1) delimited_number_end [OF assms(2)]])
  moreover have "word_length (t @ r) = None" using c by (auto simp: word_length_def t)
  ultimately show ?thesis using c by (simp add: t)
qed

text \<open>Items and members, with enough fuel for their text.\<close>

definition reads :: "string \<Rightarrow> jdata \<Rightarrow> bool" where
  "reads t v \<longleftrightarrow> (\<forall>n r. length t \<le> n \<longrightarrow> delimited r \<longrightarrow> rd n (t @ r) = Some (v, r))"

lemma delimited_simps [simp]: "delimited (CHR '','' # r)" "delimited (CHR '']'' # r)" "delimited (CHR ''}'' # r)"
  by (simp_all add: delimited_def)

lemma skip_punct: "ws_text w \<Longrightarrow> c \<in> set '',]}:'' \<Longrightarrow> skip (w @ c # r) = c # r"
  using punct_not_space by (intro skip_ws) auto

lemma rd_items_text:
  assumes "its \<noteq> []" "\<And>t v. (t, v) \<in> set its \<Longrightarrow> denotes t v \<and> reads t v" "ws_text w" "ws_text w3"
  shows "length (join (CHR '','' # w) (map fst its)) < n \<Longrightarrow>
    rd_items n (join (CHR '','' # w) (map fst its) @ w3 @ CHR '']'' # r) = Some (map snd its, r)"
  using assms(1,2)
proof (induction its arbitrary: n)
  case (Cons it its)
  obtain t v where it: "it = (t, v)" by (cases it)
  obtain m where n: "n = Suc m" using Cons.prems(1) by (cases n) auto
  have t: "reads t v" using Cons.prems(3) it by simp
  show ?case
  proof (cases its)
    case Nil
    have "rd m (t @ w3 @ CHR '']'' # r) = Some (v, w3 @ CHR '']'' # r)"
      using t Cons.prems(1) delimited_ws [OF assms(4), of "CHR '']''" r] by (simp add: reads_def n it Nil)
    then show ?thesis using skip_punct [OF assms(4), of "CHR '']''" r] by (simp add: n it Nil)
  next
    case (Cons it2 its2)
    let ?rest = "join (CHR '','' # w) (map fst its) @ w3 @ CHR '']'' # r"
    have j: "join (CHR '','' # w) (map fst (it # its)) = t @ CHR '','' # w @ join (CHR '','' # w) (map fst its)"
      by (simp add: Cons it)
    have "rd m (t @ CHR '','' # w @ ?rest) = Some (v, CHR '','' # w @ ?rest)"
      using t Cons.prems(1) unfolding reads_def j n by simp
    moreover have "skip (CHR '','' # w @ ?rest) = CHR '','' # w @ ?rest" using skip_punct [of "[]" "CHR '',''"] by (simp add: ws_text_def)
    moreover have "skip (w @ ?rest) = ?rest"
    proof -
      obtain t2 v2 where it2: "it2 = (t2, v2)" by (cases it2)
      have d: "denotes t2 v2" using Cons.prems(3) Cons it2 by simp
      have "\<exists>u. ?rest = t2 @ u" by (cases its2) (simp_all add: Cons it2)
      then show ?thesis using skip_value [OF assms(3) d] by auto
    qed
    moreover have "rd_items m ?rest = Some (map snd its, r)"
      using Cons.prems Cons unfolding j n by (intro Cons.IH) auto
    ultimately show ?thesis unfolding j n by (simp add: it)
  qed
qed simp

lemma rd_members_text:
  assumes "ms \<noteq> []" "\<And>k t v. (k, t, v) \<in> set ms \<Longrightarrow> denotes t v \<and> reads t v" "ws_text w" "ws_text w3" "ws_text w4"
  shows "length (join (CHR '','' # w) (map (\<lambda>(k, t, v). json_quote k @ CHR '':'' # w4 @ t) ms)) < n \<Longrightarrow>
    rd_members n (join (CHR '','' # w) (map (\<lambda>(k, t, v). json_quote k @ CHR '':'' # w4 @ t) ms) @ w3 @ CHR ''}'' # r) =
    Some (map (\<lambda>(k, t, v). (k, v)) ms, r)"
  using assms(1,2)
proof (induction ms arbitrary: n)
  case (Cons kv ms)
  obtain k t v where kv: "kv = (k, t, v)" by (cases kv)
  obtain m where n: "n = Suc m" using Cons.prems(1) by (cases n) auto
  have t: "reads t v" "denotes t v" using Cons.prems(3) [of k t v] kv by simp_all
  let ?f = "\<lambda>(k, t, v). json_quote k @ CHR '':'' # w4 @ t"
  have key: "json_quote k @ u = quote_char # concat (map escape_char k) @ quote_char # u" for u by (simp add: json_quote_def)
  show ?case
  proof (cases ms)
    case Nil
    have "rd m (t @ w3 @ CHR ''}'' # r) = Some (v, w3 @ CHR ''}'' # r)"
      using t(1) Cons.prems(1) delimited_ws [OF assms(4), of "CHR ''}''" r] by (simp add: reads_def n kv Nil json_quote_def)
    moreover have "skip (w4 @ t @ w3 @ CHR ''}'' # r) = t @ w3 @ CHR ''}'' # r" by (rule skip_value [OF assms(5) t(2)])
    ultimately show ?thesis
      using skip_punct [OF assms(4), of "CHR ''}''" r] by (simp add: n kv Nil key read_quoted)
  next
    case (Cons kv2 ms2)
    let ?rest = "join (CHR '','' # w) (map ?f ms) @ w3 @ CHR ''}'' # r"
    have j: "join (CHR '','' # w) (map ?f (kv # ms)) = json_quote k @ CHR '':'' # w4 @ t @ CHR '','' # w @ join (CHR '','' # w) (map ?f ms)"
      by (simp add: Cons kv)
    have "rd m (t @ CHR '','' # w @ ?rest) = Some (v, CHR '','' # w @ ?rest)"
      using t(1) Cons.prems(1) unfolding reads_def j n by simp
    moreover have "skip (w4 @ t @ CHR '','' # w @ ?rest) = t @ CHR '','' # w @ ?rest" by (rule skip_value [OF assms(5) t(2)])
    moreover have "skip (CHR '','' # w @ ?rest) = CHR '','' # w @ ?rest" using skip_punct [of "[]" "CHR '',''"] by (simp add: ws_text_def)
    moreover have "skip (w @ ?rest) = ?rest"
    proof -
      obtain k2 t2 v2 where "kv2 = (k2, t2, v2)" by (cases kv2)
      then have "\<exists>u. ?rest = quote_char # u" by (cases ms2) (simp_all add: Cons json_quote_def)
      then show ?thesis by (intro skip_ws [OF assms(3)]) (auto simp: quote_char_def is_space_def)
    qed
    moreover have "rd_members m ?rest = Some (map (\<lambda>(k, t, v). (k, v)) ms, r)"
      using Cons.prems Cons unfolding j n by (intro Cons.IH) auto
    ultimately show ?thesis unfolding j n by (simp add: kv key read_quoted)
  qed
qed simp

lemma reads_enclosed:
  assumes "\<And>m r. length j < m \<Longrightarrow> rd_items m (j @ w3 @ CHR '']'' # r) = Some (vs, r)"
    "ws_text w1" "\<exists>c s. j = c # s \<and> value_head c"
  shows "reads (CHR ''['' # w1 @ j @ w3 @ '']'') (JArr vs)"
  unfolding reads_def
proof (intro allI impI)
  fix n r assume n: "length (CHR ''['' # w1 @ j @ w3 @ '']'') \<le> n"
  then obtain m where m: "n = Suc m" by (cases n) auto
  obtain c s where j: "j = c # s" "value_head c" using assms(3) by blast
  have "skip (w1 @ j @ w3 @ CHR '']'' # r) = c # s @ w3 @ CHR '']'' # r"
    using skip_ws [OF assms(2), of "c # s @ w3 @ CHR '']'' # r"] j by (simp add: value_head_def)
  moreover have "c \<noteq> CHR '']''" using j(2) by (auto simp: value_head_def)
  moreover have "length j < m" using n by (simp add: m)
  ultimately show "rd n ((CHR ''['' # w1 @ j @ w3 @ '']'') @ r) = Some (JArr vs, r)"
    using assms(1) [of m r] by (simp add: m j(1) quote_char_def)
qed

lemma reads_members:
  assumes "\<And>m r. length j < m \<Longrightarrow> rd_members m (j @ w3 @ CHR ''}'' # r) = Some (ps, r)"
    "ws_text w1" "\<exists>s. j = quote_char # s"
  shows "reads (CHR ''{'' # w1 @ j @ w3 @ ''}'') (JObj ps)"
  unfolding reads_def
proof (intro allI impI)
  fix n r assume n: "length (CHR ''{'' # w1 @ j @ w3 @ ''}'') \<le> n"
  then obtain m where m: "n = Suc m" by (cases n) auto
  obtain s where j: "j = quote_char # s" using assms(3) by blast
  have q: "\<not> is_space quote_char" "quote_char \<noteq> CHR ''}''" by (simp_all add: quote_char_def is_space_def)
  have "skip (w1 @ j @ w3 @ CHR ''}'' # r) = quote_char # s @ w3 @ CHR ''}'' # r"
    using skip_ws [OF assms(2), of "quote_char # s @ w3 @ CHR ''}'' # r"] j q by simp
  moreover have "length j < m" using n by (simp add: m)
  ultimately show "rd n ((CHR ''{'' # w1 @ j @ w3 @ ''}'') @ r) = Some (JObj ps, r)"
    using assms(1) [of m r] q(2) by (simp add: m j quote_char_def)
qed

lemma readsI: "t \<noteq> [] \<Longrightarrow> (\<And>n r. delimited r \<Longrightarrow> rd (Suc n) (t @ r) = Some (v, r)) \<Longrightarrow> reads t v"
  unfolding reads_def
proof (intro allI impI)
  fix n r assume "t \<noteq> []" "length t \<le> n" "delimited r" "\<And>n r. delimited r \<Longrightarrow> rd (Suc n) (t @ r) = Some (v, r)"
  then show "rd n (t @ r) = Some (v, r)" by (cases n) auto
qed

lemma denotes_reads: "denotes t v \<Longrightarrow> reads t v"
proof (induction rule: denotes.induct)
  case (d_string s)
  show ?case by (rule readsI) (simp_all add: json_quote_def read_quoted)
next
  case (d_number x)
  have "num_to_str (Fin x) \<noteq> []" using number_head [OF finite_number_shape [of x]] by auto
  then show ?case by (rule readsI) (rule rd_number [OF finite_number_shape])
next
  case d_null
  show ?case using rd_word [of "''null''"] by (intro readsI) (simp_all add: word_value_def del: rd.simps)
next
  case (d_bool b)
  show ?case using rd_word [of "if b then ''true'' else ''false''"]
    by (intro readsI) (simp_all add: word_value_def del: rd.simps split: if_splits)
next
  case d_no_items
  show ?case using punct_not_space by (intro readsI) (simp_all add: skip_def quote_char_def)
next
  case d_no_members
  show ?case using punct_not_space by (intro readsI) (simp_all add: skip_def quote_char_def)
next
  case (d_array its w1 w2 w3)
  obtain t v its' where its: "its = (t, v) # its'" using d_array.hyps(1) by (cases its) auto
  then obtain c s where "t = c # s" "value_head c" using d_array.hyps(2) [of t v] denotes_head [of t v] by auto
  then have "\<exists>c s. join (CHR '','' # w2) (map fst its) = c # s \<and> value_head c" by (cases its') (simp_all add: its)
  then show ?case
    using d_array.hyps d_array.IH by (intro reads_enclosed rd_items_text) auto
next
  case (d_object ms w1 w2 w3 w4)
  obtain k t v ms' where ms: "ms = (k, t, v) # ms'" using d_object.hyps(1) by (cases ms) auto
  have "\<exists>s. join (CHR '','' # w2) (map (\<lambda>(k, t, v). json_quote k @ CHR '':'' # w4 @ t) ms) = quote_char # s"
    by (cases ms') (simp_all add: ms json_quote_def)
  then show ?case
    using d_object.hyps d_object.IH by (intro reads_members rd_members_text) auto
qed

lemma denotes_unique: "denotes t v \<Longrightarrow> denotes t w \<Longrightarrow> v = w"
proof -
  assume d: "denotes t v" "denotes t w"
  have "delimited []" by (simp add: delimited_def)
  then have "rd (length t) (t @ []) = Some (v, [])" "rd (length t) (t @ []) = Some (w, [])"
    using d [THEN denotes_reads] unfolding reads_def by blast+
  then show "v = w" by simp
qed

section \<open>What is written denotes the value\<close>

text \<open>What JSON keeps of a value: nothing of \<open>undefined\<close> and functions, \<open>null\<close> of numbers that are not finite.\<close>

fun clean :: "jdata \<Rightarrow> jdata option" where
  "clean JUndef = None"
| "clean (JFun _) = None"
| "clean JNull = Some JNull"
| "clean (JBool b) = Some (JBool b)"
| "clean (JNum n) = Some (case n of Fin x \<Rightarrow> JNum (str_to_num (num_to_str n)) | _ \<Rightarrow> JNull)"
| "clean (JStr s) = Some (JStr s)"
| "clean (JArr vs) = Some (JArr (map (\<lambda>v. case clean v of None \<Rightarrow> JNull | Some w \<Rightarrow> w) vs))"
| "clean (JObj ps) =
     Some (JObj (concat (map (\<lambda>(k, v). case clean v of None \<Rightarrow> [] | Some w \<Rightarrow> [(k, w)]) ps)))"

text \<open>Values whose tables are in the order of enumeration and have no \<open>toJSON\<close> method.\<close>

fun plain :: "jdata \<Rightarrow> bool" where
  "plain (JArr vs) = (\<forall>v \<in> set vs. plain v)"
| "plain (JObj ps) =
     (in_order (map fst ps) \<and> (\<forall>f. own ps ''toJSON'' \<noteq> JFun f) \<and> (\<forall>(k, v) \<in> set ps. plain v))"
| "plain v = True"

fun height :: "jdata \<Rightarrow> nat" where
  "height (JArr vs) = Suc (Max (insert 0 (height ` set vs)))"
| "height (JObj ps) = Suc (Max (insert 0 ((\<lambda>(k, v). height v) ` set ps)))"
| "height v = 1"

lemma height_item: "v \<in> set vs \<Longrightarrow> height v < height (JArr vs)"
  by (simp add: less_Suc_eq_le)

lemma height_member: "(k, v) \<in> set ps \<Longrightarrow> height v < height (JObj ps)"
proof -
  assume "(k, v) \<in> set ps"
  then have "height v \<in> (\<lambda>(k, v). height v) ` set ps" by (force simp: image_iff)
  then show ?thesis by (simp add: less_Suc_eq_le)
qed

definition written :: "string option \<Rightarrow> jdata \<Rightarrow> bool" where
  "written r v =
     (case clean v of None \<Rightarrow> r = None | Some w \<Rightarrow> (\<exists>t. r = Some t \<and> denotes t w))"

lemma collect_ex:
  "list_all2 (\<lambda>r x. \<exists>y. r = Inr y \<and> Q y x) rs xs \<Longrightarrow> \<exists>ys. collect rs = Inr ys \<and> list_all2 Q ys xs"
proof (induction rule: list_all2_induct)
  case (Cons r rs x xs)
  then obtain y ys where "r = Inr y" "Q y x" "collect rs = Inr ys" "list_all2 Q ys xs" by blast
  then show ?case by (intro exI [of _ "y # ys"]) simp
qed simp

lemma written_items:
  assumes "list_all2 written rs vs"
  shows "\<exists>its. map (\<lambda>r. case r of None \<Rightarrow> ''null'' | Some t \<Rightarrow> t) rs = map fst its \<and>
    map (\<lambda>v. case clean v of None \<Rightarrow> JNull | Some w \<Rightarrow> w) vs = map snd its \<and> (\<forall>(t, v) \<in> set its. denotes t v)"
  using assms
proof (induction rule: list_all2_induct)
  case (Cons r rs v vs)
  from Cons(3) obtain its where its: "map (\<lambda>r. case r of None \<Rightarrow> ''null'' | Some t \<Rightarrow> t) rs = map fst its"
    "map (\<lambda>v. case clean v of None \<Rightarrow> JNull | Some w \<Rightarrow> w) vs = map snd its" "\<forall>(t, v) \<in> set its. denotes t v"
    by blast
  let ?t = "case r of None \<Rightarrow> ''null'' | Some t \<Rightarrow> t" let ?v = "case clean v of None \<Rightarrow> JNull | Some w \<Rightarrow> w"
  have "denotes ?t ?v" using Cons(1) by (auto simp: written_def intro: d_null split: option.splits)
  then show ?case using its by (intro exI [of _ "(?t, ?v) # its"]) simp
qed simp

lemma written_members:
  assumes "list_all2 written rs (map snd ps)"
  shows "\<exists>ms. concat (map (\<lambda>(k, r). case r of None \<Rightarrow> [] | Some t \<Rightarrow> [(k, t)]) (zip (map fst ps) rs)) = map (\<lambda>(k, t, v). (k, t)) ms \<and>
    concat (map (\<lambda>(k, v). case clean v of None \<Rightarrow> [] | Some w \<Rightarrow> [(k, w)]) ps) = map (\<lambda>(k, t, v). (k, v)) ms \<and>
    (\<forall>(k, t, v) \<in> set ms. denotes t v) \<and> subseq (map fst ms) (map fst ps)"
  using assms
proof (induction ps arbitrary: rs)
  case (Cons kv ps)
  obtain k v where kv: "kv = (k, v)" by (cases kv)
  obtain r rs' where rs: "rs = r # rs'" "written r v" "list_all2 written rs' (map snd ps)"
    using Cons.prems by (cases rs) (auto simp: kv)
  from Cons.IH [OF rs(3)] obtain ms where ms:
    "concat (map (\<lambda>(k, r). case r of None \<Rightarrow> [] | Some t \<Rightarrow> [(k, t)]) (zip (map fst ps) rs')) = map (\<lambda>(k, t, v). (k, t)) ms"
    "concat (map (\<lambda>(k, v). case clean v of None \<Rightarrow> [] | Some w \<Rightarrow> [(k, w)]) ps) = map (\<lambda>(k, t, v). (k, v)) ms"
    "\<forall>(k, t, v) \<in> set ms. denotes t v" "subseq (map fst ms) (map fst ps)"
    by blast
  show ?case
  proof (cases "clean v")
    case None
    then show ?thesis using ms rs by (intro exI [of _ ms]) (auto simp: kv written_def)
  next
    case (Some w)
    then obtain t where "r = Some t" "denotes t w" using rs(2) by (auto simp: written_def)
    then show ?thesis using ms rs Some by (intro exI [of _ "(k, t, w) # ms"]) (auto simp: kv)
  qed
qed simp

lemma subseq_set: "subseq ks ls \<Longrightarrow> set ks \<subseteq> set ls"
  by (induction rule: list_emb.induct) auto

lemma subseq_sorted: "subseq ks ls \<Longrightarrow> sorted_wrt P ls \<Longrightarrow> sorted_wrt P ks"
proof (induction rule: list_emb.induct)
  case (list_emb_Cons2 x y xs ys)
  then show ?case using subseq_set [of xs ys] by auto
qed simp_all

lemma subseq_distinct: "subseq ks ls \<Longrightarrow> distinct ls \<Longrightarrow> distinct ks"
proof (induction rule: list_emb.induct)
  case (list_emb_Cons2 x y xs ys)
  then show ?case using subseq_set [of xs ys] by auto
qed simp_all

lemma in_order_subseq: "subseq ks ls \<Longrightarrow> in_order ls \<Longrightarrow> in_order ks"
proof -
  assume s: "subseq ks ls" and o: "in_order ls"
  have "distinct ks" "sorted_wrt enum_before ks" "set ks \<subseteq> set ls"
    using o subseq_distinct [OF s] subseq_sorted [OF s] subseq_set [OF s] by (simp_all add: in_order_def)
  then show ?thesis using o by (auto simp: in_order_def)
qed

lemma replaced_plain: "plain v \<Longrightarrow> replaced call Absent holder key (to_json call key v) = v"
  by (auto simp: replaced_def to_json_def split: jdata.splits)

lemma enclosed_array:
  assumes "\<forall>(t, v) \<in> set its. denotes t v" "ws_text gap" "ws_text mind"
  shows "denotes (enclose (CHR ''['') (CHR '']'') gap mind (map fst its)) (JArr (map snd its))"
proof (cases "its = []")
  case True
  then show ?thesis by (simp add: enclose_def d_no_items)
next
  case False
  have ws: "ws_text (nl_char # gap)" "ws_text (nl_char # mind)" "ws_text []"
    using assms(2,3) by (simp_all add: ws_text_def nl_char_def is_space_def)
  have d: "\<And>t v. (t, v) \<in> set its \<Longrightarrow> denotes t v" using assms(1) by auto
  show ?thesis
    using d_array [OF False d ws(1,1,2)] d_array [OF False d ws(3,3,3)] False
    by (cases "gap = []") (simp_all add: enclose_def)
qed

lemma enclosed_object:
  assumes "\<forall>(k, t, v) \<in> set ms. denotes t v" "in_order (map fst ms)" "ws_text gap" "ws_text mind"
    "concat (map (\<lambda>(k, r). case r of None \<Rightarrow> [] | Some t \<Rightarrow> [(k, t)]) rs) = map (\<lambda>(k, t, v). (k, t)) ms"
  shows "denotes (enclose (CHR ''{'') (CHR ''}'') gap mind (members gap rs)) (JObj (map (\<lambda>(k, t, v). (k, v)) ms))"
proof (cases "ms = []")
  case True
  then show ?thesis unfolding members_map assms(5) by (simp add: enclose_def d_no_members)
next
  case False
  have ws: "ws_text (nl_char # gap)" "ws_text (nl_char # mind)" "ws_text []" "ws_text '' ''"
    using assms(3,4) by (simp_all add: ws_text_def nl_char_def is_space_def)
  have d: "\<And>k t v. (k, t, v) \<in> set ms \<Longrightarrow> denotes t v" using assms(1) by auto
  have m: "members gap rs = map (\<lambda>(k, t, v). json_quote k @ CHR '':'' # (if gap = [] then [] else '' '') @ t) ms"
    unfolding members_map assms(5) by (simp add: comp_def case_prod_unfold)
  show ?thesis
    using d_object [OF False d assms(2) ws(1,1,2,4)] d_object [OF False d assms(2) ws(3,3,3,3)] False
    unfolding m enclose_def by (cases "gap = []") (simp_all only: map_is_Nil_conv if_False if_True simp_thms append_Cons append_Nil)
qed

lemma js_str_written:
  "plain v \<Longrightarrow> height v \<le> depth \<Longrightarrow> ws_text indent \<Longrightarrow> ws_text mind \<Longrightarrow>
     \<exists>r. js_str call Absent indent depth mind key holder v = Inr r \<and> written r v"
proof (induction depth arbitrary: v mind key holder)
  case 0
  then show ?case by (cases v) simp_all
next
  case (Suc depth)
  let ?gap = "mind @ indent"
  have gap: "ws_text ?gap" using Suc.prems by (simp add: ws_text_def)
  note rp = replaced_plain [OF Suc.prems(1)]
  show ?case
  proof (cases v)
    case (JArr vs)
    have item: "\<exists>r. js_str call Absent indent depth ?gap key holder x = Inr r \<and> written r x" if "x \<in> set vs" for x key holder
      using Suc.prems height_item [OF that] that JArr gap by (intro Suc.IH) auto
    let ?rs = "map (\<lambda>(i, x). js_str call Absent indent depth ?gap (JNum (num_of (int i))) v x) (enumerate 0 vs)"
    have "list_all2 (\<lambda>r x. \<exists>y. r = Inr y \<and> written y x) ?rs vs"
      using item by (auto simp: list_all2_conv_all_nth nth_enumerate_eq)
    from collect_ex [OF this] obtain rs where rs: "collect ?rs = Inr rs" "list_all2 written rs vs" by blast
    from written_items [OF rs(2)] obtain its where its:
      "map (\<lambda>r. case r of None \<Rightarrow> ''null'' | Some t \<Rightarrow> t) rs = map fst its"
      "map (\<lambda>v. case clean v of None \<Rightarrow> JNull | Some w \<Rightarrow> w) vs = map snd its" "\<forall>(t, v) \<in> set its. denotes t v"
      by blast
    have "js_str call Absent indent (Suc depth) mind key holder v = Inr (Some (enclose (CHR ''['') (CHR '']'') ?gap mind (map fst its)))"
      using rs(1) its(1) unfolding js_str.simps rp Let_def unfolding JArr by simp
    moreover have "written (Some (enclose (CHR ''['') (CHR '']'') ?gap mind (map fst its))) v"
      using enclosed_array [OF its(3) gap Suc.prems(4)] its(2) by (simp add: written_def JArr)
    ultimately show ?thesis by blast
  next
    case (JObj ps)
    have o: "in_order (map fst ps)" using Suc.prems(1) JObj by simp
    have item: "\<exists>r. js_str call Absent indent depth ?gap key holder x = Inr r \<and> written r x" if "(k, x) \<in> set ps" for k x key holder
      using Suc.prems height_member [OF that] that JObj gap by (intro Suc.IH) auto
    have own: "own ps (fst (ps ! i)) = snd (ps ! i)" if "i < length ps" for i
    proof -
      have "distinct (map fst ps)" using o by (simp add: in_order_def)
      then have "map_of ps (fst (ps ! i)) = Some (snd (ps ! i))" using that by (intro map_of_is_SomeI) simp_all
      then show ?thesis by (simp add: own_def)
    qed
    let ?rs = "map (\<lambda>k. js_str call Absent indent depth ?gap (JStr k) v (own ps k)) (map fst ps)"
    have "list_all2 (\<lambda>r x. \<exists>y. r = Inr y \<and> written y x) ?rs (map snd ps)"
      using item own by (auto simp: list_all2_conv_all_nth) (metis nth_mem prod.collapse)
    from collect_ex [OF this] obtain rs where rs: "collect ?rs = Inr rs" "list_all2 written rs (map snd ps)" by blast
    from written_members [OF rs(2)] obtain ms where ms:
      "concat (map (\<lambda>(k, r). case r of None \<Rightarrow> [] | Some t \<Rightarrow> [(k, t)]) (zip (map fst ps) rs)) = map (\<lambda>(k, t, v). (k, t)) ms"
      "concat (map (\<lambda>(k, v). case clean v of None \<Rightarrow> [] | Some w \<Rightarrow> [(k, w)]) ps) = map (\<lambda>(k, t, v). (k, v)) ms"
      "\<forall>(k, t, v) \<in> set ms. denotes t v" "subseq (map fst ms) (map fst ps)"
      by blast
    let ?t = "enclose (CHR ''{'') (CHR ''}'') ?gap mind (members ?gap (zip (map fst ps) rs))"
    have "js_str call Absent indent (Suc depth) mind key holder v = Inr (Some ?t)"
      using rs(1) unfolding js_str.simps rp Let_def unfolding JObj by (simp add: member_names_def)
    moreover have "written (Some ?t) v"
      using enclosed_object [OF ms(3) in_order_subseq [OF ms(4) o] gap Suc.prems(4) ms(1)] ms(2) by (simp add: written_def JObj)
    ultimately show ?thesis by blast
  next
    case (JNum n)
    show ?thesis unfolding js_str.simps rp Let_def unfolding JNum
      by (cases n) (auto simp: written_def intro: d_null d_number simp del: num_to_str.simps)
  next
    case (JBool b)
    show ?thesis unfolding js_str.simps rp Let_def unfolding JBool using d_bool [of b] by (simp add: written_def)
  qed (simp_all add: rp [unfolded replaced_def] replaced_def to_json_def written_def d_null d_string)
qed

section \<open>Writing, then parsing\<close>

definition cx_char :: "char \<Rightarrow> bool" where
  "cx_char c \<longleftrightarrow> of_char c \<in> {0, 173 :: int}"

lemma cx_escape_plain: "\<forall>c \<in> set t. \<not> cx_char c \<Longrightarrow> cx_escape t = t"
  unfolding cx_escape_def by (induction t) (simp_all add: cx_char_def)

lemma not_cx:
  "is_space c \<Longrightarrow> \<not> cx_char c" "is_hex c \<Longrightarrow> \<not> cx_char c" "is_digit c \<Longrightarrow> \<not> cx_char c" "\<not> escapable c \<Longrightarrow> \<not> cx_char c"
  "\<not> cx_char bslash" "\<not> cx_char quote_char" "c \<in> set ''[]{},:-.e+unbftruefals'' \<Longrightarrow> \<not> cx_char c"
  by (auto simp: cx_char_def is_space_def is_hex_def hex_val_def is_digit_def escapable_def bslash_def quote_char_def)

lemma digits_cx: "list_all is_digit s \<Longrightarrow> \<forall>x \<in> set s. \<not> cx_char x"
  using not_cx(3) unfolding list_all_iff by blast

lemma sign_cx: "\<forall>x \<in> set ''-.e+''. \<not> cx_char x"
  by (simp add: cx_char_def)

lemma frac_cx: "frac_text t \<Longrightarrow> \<forall>x \<in> set t. \<not> cx_char x"
proof -
  assume "frac_text t"
  then consider "t = []" | fs where "t = CHR ''.'' # fs" "list_all is_digit fs" unfolding frac_text_def by blast
  then show ?thesis
    using digits_cx sign_cx by cases simp_all
qed

lemma exp_cx: "exp_text t \<Longrightarrow> \<forall>x \<in> set t. \<not> cx_char x"
proof -
  assume "exp_text t"
  then consider "t = []" | c es where "t = CHR ''e'' # c # es" "c = CHR ''+'' \<or> c = CHR ''-''" "digit_text es"
    unfolding exp_text_def by blast
  then show ?thesis
  proof cases
    case 2
    then have "\<forall>x \<in> set es. \<not> cx_char x" unfolding digit_text_def using digits_cx by blast
    then show ?thesis using 2 sign_cx by auto
  qed simp
qed

lemma number_cx:
  assumes "num_shape t" shows "\<forall>x \<in> set t. \<not> cx_char x"
proof -
  obtain sg ds fr ex where t: "t = sg @ ds @ fr @ ex" and sg: "sg = [] \<or> sg = ''-''" and ds: "digit_text ds"
    and fr: "frac_text fr" and ex: "exp_text ex"
    using assms unfolding num_shape_def by blast
  have "\<forall>x \<in> set sg. \<not> cx_char x" using sg sign_cx by (elim disjE) simp_all
  moreover have "\<forall>x \<in> set ds. \<not> cx_char x" using ds digits_cx unfolding digit_text_def by blast
  ultimately show ?thesis using frac_cx [OF fr] exp_cx [OF ex] unfolding t set_append by blast
qed

lemma escape_char_cx: "x \<in> set (escape_char c) \<Longrightarrow> \<not> cx_char x"
proof (cases "escapable c")
  case True
  have h: "\<not> cx_char x" if "x \<in> set (hex4 c)" for x using that hex4_ok [of c] not_cx(2) unfolding list_all_iff by blast
  have u: "\<forall>d \<in> set [quote_char, bslash, CHR ''/'', CHR ''b'', CHR ''f'', CHR ''n'', CHR ''r'', CHR ''t'', CHR ''u'']. \<not> cx_char d"
    by (simp add: cx_char_def quote_char_def bslash_def)
  show "\<not> cx_char x" if x: "x \<in> set (escape_char c)"
  proof (cases "meta c")
    case None
    then have "x \<in> set [bslash, CHR ''u''] \<union> set (hex4 c)" using x True by (simp add: escape_char_def)
    then show ?thesis using h u by auto
  next
    case (Some t)
    then have "\<forall>y \<in> set t. \<not> cx_char y" using meta_ok [OF Some] u by auto
    then show ?thesis using x True Some by (simp add: escape_char_def)
  qed
next
  case False
  then show "x \<in> set (escape_char c) \<Longrightarrow> \<not> cx_char x" using not_cx(4) by (simp add: escape_char_def)
qed

lemma quote_cx: "x \<in> set (json_quote s) \<Longrightarrow> \<not> cx_char x"
  using not_cx(6) escape_char_cx by (auto simp: json_quote_def)

lemma ws_cx: "ws_text w \<Longrightarrow> x \<in> set w \<Longrightarrow> \<not> cx_char x"
  using not_cx(1) by (auto simp: ws_text_def list_all_iff)

lemma join_cx: "\<forall>t \<in> set ts. \<forall>x \<in> set t. \<not> cx_char x \<Longrightarrow> \<forall>x \<in> set sep. \<not> cx_char x \<Longrightarrow> \<forall>x \<in> set (join sep ts). \<not> cx_char x"
  by (induction sep ts rule: join.induct) auto

lemma denotes_cx: "denotes t v \<Longrightarrow> \<forall>x \<in> set t. \<not> cx_char x"
proof (induction rule: denotes.induct)
  case (d_string s)
  then show ?case using quote_cx by blast
next
  case (d_number x)
  then show ?case using number_cx [OF finite_number_shape] by blast
next
  case (d_array its w1 w2 w3)
  have p: "\<not> cx_char (CHR ''['')" "\<not> cx_char (CHR '']'')" "\<not> cx_char (CHR '','')" by (simp_all add: cx_char_def)
  have "\<forall>x \<in> set (join (CHR '','' # w2) (map fst its)). \<not> cx_char x"
    using d_array p ws_cx by (intro join_cx) auto
  then show ?case using p ws_cx d_array.hyps by auto
next
  case (d_object ms w1 w2 w3 w4)
  have p: "\<not> cx_char (CHR ''{'')" "\<not> cx_char (CHR ''}'')" "\<not> cx_char (CHR '','')" "\<not> cx_char (CHR '':'')" by (simp_all add: cx_char_def)
  have "\<forall>x \<in> set (join (CHR '','' # w2) (map (\<lambda>(k, t, v). json_quote k @ CHR '':'' # w4 @ t) ms)). \<not> cx_char x"
    using d_object p ws_cx quote_cx by (intro join_cx) auto
  then show ?case using p ws_cx d_object.hyps by auto
qed (simp_all add: cx_char_def)

lemma denotes_jtext: "denotes t v \<Longrightarrow> jtext t"
proof (induction rule: denotes.induct)
  case (d_number x)
  show ?case by (rule jt_number [OF finite_number_shape])
next
  case (d_array its w1 w2 w3)
  then show ?case by (intro jt_array) auto
next
  case (d_object ms w1 w2 w3 w4)
  have "jtext (CHR ''{'' # w1 @ join (CHR '','' # w2)
      (map (\<lambda>(k, t). json_quote k @ CHR '':'' # w4 @ t) (map (\<lambda>(k, t, v). (k, t)) ms)) @ w3 @ ''}'')"
    using d_object by (intro jt_object) auto
  then show ?case by (simp add: comp_def case_prod_unfold)
qed (auto intro: jt_string jt_word jt_no_items jt_no_members)

text \<open>An indentation is white space: a number or a text of white space.\<close>

definition indent_ok :: "jdata \<Rightarrow> bool" where
  "indent_ok space = (case space of JStr s \<Rightarrow> ws_text s | JNum n \<Rightarrow> n \<noteq> PInf | _ \<Rightarrow> True)"

lemma indent_text: "indent_ok space \<Longrightarrow> \<exists>w. indent_of space = Inr w \<and> ws_text w"
  by (auto simp: indent_ok_def indent_of_def ws_text_def is_space_def list_all_iff split: jdata.splits jsnum.splits)

text \<open>
  C26. \<open>stringify\<close> implements the specification \<open>denotes\<close>: for a value without \<open>toJSON\<close> methods, not nested deeper than the stack, it
  always returns, and what it returns is a text that denotes exactly what JSON can express of the value;
  it returns \<open>undefined\<close> when that is nothing.
\<close>

theorem stringify_denotes:
  assumes "plain v" "height v \<le> depth" "indent_ok space"
  shows "\<exists>r. stringify call depth v Absent space = Inr r \<and>
    (case clean v of None \<Rightarrow> r = None | Some w \<Rightarrow> (\<exists>t. r = Some t \<and> denotes t w \<and> (\<forall>w'. denotes t w' \<longrightarrow> w' = w)))"
proof -
  obtain indent where i: "indent_of space = Inr indent" "ws_text indent" using indent_text [OF assms(3)] by blast
  obtain r where r: "js_str call Absent indent depth [] (JStr []) (JObj [([], v)]) v = Inr r" "written r v"
    using js_str_written [OF assms(1,2) i(2), of "[]" call "JStr []" "JObj [([], v)]"] by (auto simp: ws_text_def)
  have "stringify call depth v Absent space = Inr r" using i r by (simp add: stringify_def)
  then show ?thesis using r(2) denotes_unique by (auto simp: written_def split: option.splits)
qed

theorem stringify_denotes_witness:
  "\<exists>t w. stringify no_calls 5 demo_value Absent (JNum (num_of 2)) = Inr (Some t) \<and> clean demo_value = Some w \<and> denotes t w"
proof -
  have "plain demo_value" by (simp add: demo_value_def in_order_def enum_before_def is_index_def own_def is_digit_def)
  then have "\<exists>r. stringify no_calls 5 demo_value Absent (JNum (num_of 2)) = Inr r \<and>
    (case clean demo_value of None \<Rightarrow> r = None | Some w \<Rightarrow> (\<exists>t. r = Some t \<and> denotes t w \<and> (\<forall>w'. denotes t w' \<longrightarrow> w' = w)))"
    by (rule stringify_denotes) (simp_all add: demo_value_def indent_ok_def)
  moreover have "clean demo_value \<noteq> None" by (simp add: demo_value_def)
  ultimately show ?thesis by (auto split: option.splits)
qed

text \<open>
  Data that JSON expresses without loss: no \<open>undefined\<close>, no function, and numbers that are integers up to \<open>2^53\<close>
  (the writer and the reader of other numbers agree on them only up to the engine's shortest representation).
\<close>

fun json_data :: "jdata \<Rightarrow> bool" where
  "json_data JUndef = False"
| "json_data (JFun _) = False"
| "json_data (JNum n) = (case n of Fin x \<Rightarrow> x = of_int \<lfloor>x\<rfloor> \<and> \<bar>x\<bar> \<le> 2 ^ 53 | _ \<Rightarrow> False)"
| "json_data (JArr vs) = (\<forall>v \<in> set vs. json_data v)"
| "json_data (JObj ps) = (\<forall>(k, v) \<in> set ps. json_data v)"
| "json_data v = True"

lemma digits_read: "0 \<le> n \<Longrightarrow> n \<le> 2 ^ 53 \<Longrightarrow> unsigned_num (digits n) = num_of n"
proof -
  assume n: "0 \<le> n" "n \<le> 2 ^ 53"
  have d: "list_all is_digit (digits n)" "digits n \<noteq> []" using digits_text [OF n(1)] by (simp_all add: digit_text_def)
  have t: "takeWhile is_digit (digits n) = digits n" "dropWhile is_digit (digits n) = []"
    using d(1) by (simp_all add: list_all_iff takeWhile_eq_all_conv dropWhile_eq_Nil_conv)
  have "digits n \<noteq> ''Infinity''" using d(1) by (intro notI) (simp add: is_digit_def)
  moreover have "dec_literal (digits n) = Some (of_int n)"
    unfolding dec_literal_def t Let_def using d(2) digits_val_digits [OF n(1)] by (simp add: dec_exponent_def)
  ultimately show ?thesis using n fl_of_int [of n] by (simp add: unsigned_num_def)
qed

lemma digit_blank: "is_digit c \<Longrightarrow> \<not> is_space c"
  by (auto simp: is_digit_def is_space_def)

lemma trim_ws_id: "s \<noteq> [] \<Longrightarrow> \<not> is_space (hd s) \<Longrightarrow> \<not> is_space (last s) \<Longrightarrow> trim_ws s = s"
  by (simp add: trim_ws_def dropWhile_eq_self_iff [THEN iffD2] hd_rev)

lemma radix_mark: "list_all is_digit s \<or> (\<exists>u. s = CHR ''-'' # u) \<Longrightarrow>
    take 2 s \<notin> {''0x'', ''0X'', ''0o'', ''0O'', ''0b'', ''0B''}"
proof -
  have "\<not> is_digit c" if "c \<in> set ''xXoObB''" for c using that by (auto simp: is_digit_def)
  then show "list_all is_digit s \<or> (\<exists>u. s = CHR ''-'' # u) \<Longrightarrow> ?thesis"
    by (cases s rule: remdups_adj.cases) auto
qed

lemma int_text_read: "\<bar>n\<bar> \<le> 2 ^ 53 \<Longrightarrow> str_to_num (num_to_str (num_of n)) = num_of n"
proof (cases "0 \<le> n")
  case True
  assume "\<bar>n\<bar> \<le> 2 ^ 53"
  then have n: "n \<le> 2 ^ 53" by simp
  have d: "list_all is_digit (digits n)" "digits n \<noteq> []" using digits_text [OF True] by (simp_all add: digit_text_def)
  have h: "is_digit (hd (digits n))" "is_digit (last (digits n))" using d by (simp_all add: list_all_iff)
  have s: "hd (digits n) \<noteq> CHR ''-''" "hd (digits n) \<noteq> CHR ''+''" using h(1) by (auto simp: is_digit_def)
  have "trim_ws (digits n) = digits n" using d(2) h digit_blank by (intro trim_ws_id) auto
  moreover have "take 2 (digits n) \<notin> {''0x'', ''0X'', ''0o'', ''0O'', ''0b'', ''0B''}" using d(1) by (intro radix_mark) simp
  ultimately show ?thesis
    unfolding num_to_str_int [OF True n] str_to_num_def Let_def using d(2) s digits_read [OF True n] by simp
next
  case False
  assume "\<bar>n\<bar> \<le> 2 ^ 53"
  then have n: "0 \<le> - n" "- n \<le> 2 ^ 53" using False by simp_all
  have d: "list_all is_digit (digits (- n))" "digits (- n) \<noteq> []" using digits_text [OF n(1)] by (simp_all add: digit_text_def)
  have w: "num_to_str (num_of n) = CHR ''-'' # digits (- n)"
    using num_to_str_int [OF n] False by simp
  have "is_digit (last (digits (- n)))" using d by (simp add: list_all_iff)
  then have "trim_ws (CHR ''-'' # digits (- n)) = CHR ''-'' # digits (- n)"
    using d(2) digit_blank by (intro trim_ws_id) (auto simp: is_space_def)
  moreover have "take 2 (CHR ''-'' # digits (- n)) \<notin> {''0x'', ''0X'', ''0o'', ''0O'', ''0b'', ''0B''}" by (intro radix_mark) simp
  ultimately show ?thesis
    unfolding w str_to_num_def Let_def using digits_read [OF n] by simp
qed

lemma clean_data: "json_data v \<Longrightarrow> clean v = Some v"
proof (induction v)
  case (JNum n)
  then obtain i where "n = num_of i" "\<bar>of_int i :: rat\<bar> \<le> 2 ^ 53" by (cases n) auto
  moreover from this(2) have "\<bar>i\<bar> \<le> 2 ^ 53" using of_int_le_iff [of "\<bar>i\<bar>" "2 ^ 53", where 'a = rat] by simp
  ultimately show ?case using int_text_read by simp
next
  case (JArr vs)
  then show ?case by (simp add: map_idI)
next
  case (JObj ps)
  have "concat (map (\<lambda>(k, v). case clean v of None \<Rightarrow> [] | Some w \<Rightarrow> [(k, w)]) qs) = qs"
    if "set qs \<subseteq> set ps" for qs
    using that JObj by (induction qs) fastforce+
  then show ?case by simp
qed simp_all

text \<open>
  C27. Writing a value and parsing the text again returns what JSON can express of the value, and the value itself if
  it is JSON data, for every engine whose \<open>eval\<close> gives a JSON text in parentheses its value.
\<close>

theorem json_round_trip:
  assumes "plain v" "height v \<le> depth" "indent_ok space" "clean v = Some w"
    and "\<And>t u. denotes t u \<Longrightarrow> eval (''('' @ t @ '')'') = Inr u"
  shows "\<exists>t. stringify call depth v Absent space = Inr (Some t) \<and> json_parse call eval t JUndef = Inr w \<and> (json_data v \<longrightarrow> w = v)"
proof -
  obtain t where t: "stringify call depth v Absent space = Inr (Some t)" "denotes t w"
    using stringify_denotes [OF assms(1-3), of call] assms(4) by auto
  have "cx_escape t = t" by (rule cx_escape_plain [OF denotes_cx [OF t(2)]])
  moreover have "text_safe t" by (rule jtext_safe [OF denotes_jtext [OF t(2)]])
  ultimately have "json_parse call eval t JUndef = Inr w" using assms(5) [OF t(2)] by (simp add: json_parse_def)
  then show ?thesis using t(1) assms(4) clean_data by auto
qed

text \<open>An engine that reads the text in the parentheses.\<close>

definition eval_reader :: "string \<Rightarrow> jdata result" where
  "eval_reader s = (case rd (length s) (butlast (tl s)) of Some (v, []) \<Rightarrow> Inr v | _ \<Rightarrow> Inl (JsError ''SyntaxError''))"

lemma eval_reader_value: "denotes t v \<Longrightarrow> eval_reader (''('' @ t @ '')'') = Inr v"
proof -
  assume "denotes t v"
  then have r: "reads t v" by (rule denotes_reads)
  have "rd (Suc (Suc (length t))) (t @ []) = Some (v, [])"
    by (rule r [unfolded reads_def, rule_format]) (simp_all add: delimited_def)
  then have "rd (length (''('' @ t @ '')'')) (butlast (tl (''('' @ t @ '')''))) = Some (v, [])"
    by (simp del: rd.simps add: butlast_append)
  then show ?thesis unfolding eval_reader_def by simp
qed

theorem json_round_trip_witness:
  "\<exists>t. stringify no_calls 5 (JObj [(''a'', JBool True), (''b'', JArr [JNull, JStr ''x''])]) Absent (JStr '' '') = Inr (Some t) \<and>
     json_parse no_calls eval_reader t JUndef = Inr (JObj [(''a'', JBool True), (''b'', JArr [JNull, JStr ''x''])])"
proof -
  let ?v = "JObj [(''a'', JBool True), (''b'', JArr [JNull, JStr ''x''])]"
  have "plain ?v" by (simp add: in_order_def enum_before_def is_index_def own_def is_digit_def)
  then have "\<exists>t. stringify no_calls 5 ?v Absent (JStr '' '') = Inr (Some t) \<and> json_parse no_calls eval_reader t JUndef = Inr ?v \<and>
    (json_data ?v \<longrightarrow> ?v = ?v)"
    by (rule json_round_trip) (simp_all add: indent_ok_def ws_text_def is_space_def eval_reader_value del: append.simps)
  then show ?thesis by blast
qed

end
