(* ===== verification/EdgeCaps.thy ===== *)
theory EdgeCaps
  imports Sdp
begin

text \<open>
  The stateless part of the peer connection the WebRTC adapter builds for the Edge browser: which ICE servers are
  kept (both filters of the adapter), the capabilities two sides have in common, which description may be set in
  which signalling state, and which candidates are new. Capabilities are the descriptions of \<open>Sdp\<close>.
\<close>

section \<open>ICE servers\<close>

text \<open>\<open>urls\<close> or the older \<open>url\<close> of a server: one address or a list; the rest of the server is kept as it is.\<close>

datatype addresses = One string | Many "string list"

record ice_server =
  sv_urls :: "addresses option"
  sv_url :: "addresses option"
  sv_rest :: "jsval props"

fun present :: "addresses option \<Rightarrow> addresses option" where
  "present (Some (One [])) = None"
| "present u = u"

text \<open>The browser's version is a number from its user agent. \<open>turn\<close> tells whether a TURN server was kept already.\<close>

definition valid_turn :: "string \<Rightarrow> bool" where
  "valid_turn url =
     (index_of url ''turn:'' = 0 \<and> index_of url ''transport=udp'' \<noteq> - 1 \<and> index_of url ''turn:['' = - 1)"

definition shim_keeps :: "int \<Rightarrow> bool \<Rightarrow> string \<Rightarrow> bool \<times> bool" where
  "shim_keeps edgeVersion turn url =
     (if valid_turn url \<and> \<not> turn then (True, True)
      else (index_of url ''stun:'' = 0 \<and> 14393 \<le> edgeVersion \<and> index_of url ''?transport=udp'' = - 1, turn))"

definition plain_turn :: "string \<Rightarrow> bool" where
  "plain_turn url =
     (prefix ''turn'' url \<and> \<not> prefix ''turn:['' url \<and> sublist ''transport=udp'' url)"

definition edge_keeps :: "bool \<Rightarrow> string \<Rightarrow> bool \<times> bool" where
  "edge_keeps turn url =
     (if index_of url ''stun:'' = 0 then (False, turn)
      else if plain_turn url \<and> \<not> turn then (True, True)
      else (plain_turn url \<and> \<not> turn, turn))"

text \<open>The filters are loops over the addresses of all servers that share \<open>hasTurn\<close>.\<close>

fun keep_urls :: "(bool \<Rightarrow> string \<Rightarrow> bool \<times> bool) \<Rightarrow> bool \<Rightarrow> string list \<Rightarrow> string list \<times> bool" where
  "keep_urls keeps turn [] = ([], turn)"
| "keep_urls keeps turn (u # us) =
     (let (k, turn) = keeps turn u; (r, turn) = keep_urls keeps turn us in (if k then u # r else r, turn))"

definition server_urls :: "ice_server \<Rightarrow> addresses option" where
  "server_urls s = (case present (sv_urls s) of None \<Rightarrow> present (sv_url s) | u \<Rightarrow> u)"

fun filter_servers :: "(bool \<Rightarrow> string \<Rightarrow> bool \<times> bool) \<Rightarrow> bool \<Rightarrow> ice_server option list \<Rightarrow> ice_server option list" where
  "filter_servers keeps turn [] = []"
| "filter_servers keeps turn (None # ss) = filter_servers keeps turn ss"
| "filter_servers keeps turn (Some s # ss) =
     (case server_urls s of
        None \<Rightarrow> filter_servers keeps turn ss
      | Some u \<Rightarrow>
          (let (us, turn) = keep_urls keeps turn (case u of One x \<Rightarrow> [x] | Many xs \<Rightarrow> xs);
               rest = filter_servers keeps turn ss
           in if us = [] then rest
              else Some (s\<lparr>sv_urls := Some (case u of One _ \<Rightarrow> One (hd us) | Many _ \<Rightarrow> Many us), sv_url := None\<rparr>) # rest))"

definition filterIceServers :: "ice_server option list \<Rightarrow> int \<Rightarrow> ice_server option list" where
  "filterIceServers iceServers edgeVersion = filter_servers (shim_keeps edgeVersion) False iceServers"

definition edge_filterIceServers :: "ice_server option list \<Rightarrow> ice_server option list" where
  "edge_filterIceServers iceServers = filter_servers edge_keeps False iceServers"

section \<open>Capabilities\<close>

text \<open>\<open>JSON.parse(JSON.stringify(codec))\<close>: numbers that are not finite become \<open>null\<close>, undefined parameters are dropped.\<close>

definition json_codec :: "sdp_codec \<Rightarrow> sdp_codec" where
  "json_codec c =
     c\<lparr>payloadType := json_number (payloadType c), preferredPayloadType := json_number (preferredPayloadType c),
       clockRate := json_number (clockRate c), channels := json_number (channels c),
       numChannels := json_number (numChannels c), maxptime := json_number (maxptime c),
       parameters := map (\<lambda>(k, v). (k, json_number v)) (filter (\<lambda>(k, v). v \<noteq> Undef) (parameters c))\<rparr>"

definition findCodecByPayloadType :: "jsval \<Rightarrow> sdp_codec list \<Rightarrow> sdp_codec option" where
  "findCodecByPayloadType pt cs =
     find (\<lambda>c. strict_eq (payloadType c) (int10 pt) \<or> strict_eq (preferredPayloadType c) (int10 pt)) cs"

definition rtxCapabilityMatches :: "sdp_codec \<Rightarrow> sdp_codec \<Rightarrow> sdp_codec list \<Rightarrow> sdp_codec list \<Rightarrow> bool" where
  "rtxCapabilityMatches lRtx rRtx lCodecs rCodecs =
     (case (findCodecByPayloadType (field (parameters lRtx) ''apt'') lCodecs,
            findCodecByPayloadType (field (parameters rRtx) ''apt'') rCodecs) of
        (Some l, Some r) \<Rightarrow> to_lower (codec_name l) = to_lower (codec_name r)
      | _ \<Rightarrow> False)"

definition same_codec :: "sdp_codec \<Rightarrow> sdp_codec \<Rightarrow> bool" where
  "same_codec l r \<longleftrightarrow> to_lower (codec_name l) = to_lower (codec_name r) \<and> strict_eq (clockRate l) (clockRate r)"

definition codec_matches :: "sdp_codec list \<Rightarrow> sdp_codec list \<Rightarrow> sdp_codec \<Rightarrow> sdp_codec \<Rightarrow> bool" where
  "codec_matches lCodecs rCodecs l r =
     (same_codec l r \<and>
      (to_lower (codec_name l) = ''rtx'' \<and> truthy (field (parameters r) ''apt'') \<longrightarrow>
         rtxCapabilityMatches l r lCodecs rCodecs))"

definition common_codec :: "sdp_codec \<Rightarrow> sdp_codec \<Rightarrow> sdp_codec" where
  "common_codec l r =
     (let c = json_codec r
      in c\<lparr>numChannels := Num (num_min (to_num (numChannels l)) (to_num (numChannels c))),
           rtcpFeedback := filter (\<lambda>fb. list_ex (\<lambda>g. fb_type g = fb_type fb \<and> fb_parameter g = fb_parameter fb)
                                     (rtcpFeedback l)) (rtcpFeedback c)\<rparr>)"

definition getCommonCapabilities :: "description \<Rightarrow> description \<Rightarrow> description" where
  "getCommonCapabilities local remote =
     \<lparr>codecs = concat (map (\<lambda>l. case find (codec_matches (codecs local) (codecs remote) l) (codecs remote) of
                                  None \<Rightarrow> [] | Some r \<Rightarrow> [common_codec l r]) (codecs local)),
      headerExtensions = concat (map (\<lambda>l. case find (\<lambda>r. strict_eq (ext_uri l) (ext_uri r)) (headerExtensions remote) of
                                  None \<Rightarrow> [] | Some r \<Rightarrow> [r]) (headerExtensions local)),
      fecMechanisms = []\<rparr>"

section \<open>Signalling states, errors and candidates\<close>

definition isActionAllowedInSignalingState :: "string \<Rightarrow> string \<Rightarrow> string \<Rightarrow> bool result" where
  "isActionAllowedInSignalingState action type signalingState =
     (let allow = (\<lambda>states. Inr (signalingState \<in> set states))
      in if type = ''offer'' \<and> action = ''setLocalDescription'' then allow [''stable'', ''have-local-offer'']
         else if type = ''offer'' \<and> action = ''setRemoteDescription'' then allow [''stable'', ''have-remote-offer'']
         else if type = ''answer'' \<and> action = ''setLocalDescription'' then allow [''have-remote-offer'', ''have-local-pranswer'']
         else if type = ''answer'' \<and> action = ''setRemoteDescription'' then allow [''have-local-offer'', ''have-remote-pranswer'']
         else Inl TypeError)"

record dom_error =
  er_name :: string
  er_message :: string
  er_code :: jsval

definition makeError :: "string \<Rightarrow> string \<Rightarrow> dom_error" where
  "makeError name description =
     \<lparr>er_name = name, er_message = description,
      er_code = (if name = ''NotSupportedError'' then Num (num_of 9)
                 else if name = ''InvalidStateError'' then Num (num_of 11)
                 else if name = ''InvalidAccessError'' then Num (num_of 15) else Undef)\<rparr>"

definition same_candidate :: "jsval props \<Rightarrow> jsval props \<Rightarrow> bool" where
  "same_candidate c d =
     list_all (\<lambda>k. strict_eq (field c k) (field d k))
       [''foundation'', ''ip'', ''port'', ''priority'', ''protocol'', ''type'']"

text \<open>The candidates of a transport with the new one, and whether it was new.\<close>

definition maybeAddCandidate :: "jsval props list \<Rightarrow> jsval props \<Rightarrow> jsval props list \<times> bool" where
  "maybeAddCandidate cands candidate =
     (if list_ex (same_candidate candidate) cands then (cands, False) else (cands @ [candidate], True))"

definition fixStatsType :: "string \<Rightarrow> string" where
  "fixStatsType t =
     (case map_of [(''inboundrtp'', ''inbound-rtp''), (''outboundrtp'', ''outbound-rtp''), (''candidatepair'', ''candidate-pair''),
                   (''localcandidate'', ''local-candidate''), (''remotecandidate'', ''remote-candidate'')] t of
        Some n \<Rightarrow> n | None \<Rightarrow> t)"

section \<open>What the filters keep\<close>

definition addresses_of :: "addresses \<Rightarrow> string list" where
  "addresses_of u = (case u of One x \<Rightarrow> [x] | Many xs \<Rightarrow> xs)"

definition offered :: "ice_server option list \<Rightarrow> string list" where
  "offered ss =
     concat (map (\<lambda>s. case s of None \<Rightarrow> [] | Some s \<Rightarrow> (case server_urls s of None \<Rightarrow> [] | Some u \<Rightarrow> addresses_of u)) ss)"

definition stun_kept :: "int \<Rightarrow> string \<Rightarrow> bool" where
  "stun_kept edgeVersion url \<longleftrightarrow> prefix ''stun:'' url \<and> 14393 \<le> edgeVersion \<and> \<not> sublist ''?transport=udp'' url"

lemma offered_simps [simp]:
  "offered [] = []" "offered (None # ss) = offered ss"
  "offered (Some s # ss) = (case server_urls s of None \<Rightarrow> [] | Some u \<Rightarrow> addresses_of u) @ offered ss"
  by (simp_all add: offered_def)

lemma keep_urls_append:
  "keep_urls keeps turn (us @ vs) =
     (let (r, turn) = keep_urls keeps turn us; (q, turn) = keep_urls keeps turn vs in (r @ q, turn))"
  by (induction keeps turn us rule: keep_urls.induct) (auto split: prod.splits)

lemma server_urls_kept: "server_urls s = Some u \<Longrightarrow> us \<noteq> [] \<Longrightarrow> [] \<notin> set us \<Longrightarrow>
    server_urls (s\<lparr>sv_urls := Some (case u of One _ \<Rightarrow> One (hd us) | Many _ \<Rightarrow> Many us), sv_url := None\<rparr>) =
      Some (case u of One _ \<Rightarrow> One (hd us) | Many _ \<Rightarrow> Many us)"
  by (cases us; cases "hd us"; cases u) (auto simp: server_urls_def)

lemma keep_urls_one: "length (fst (keep_urls keeps turn [x])) \<le> 1"
  by (auto split: prod.splits)

text \<open>A rule never keeps an empty address.\<close>

definition proper :: "(bool \<Rightarrow> string \<Rightarrow> bool \<times> bool) \<Rightarrow> bool" where
  "proper keeps \<longleftrightarrow> (\<forall>turn turn'. keeps turn [] \<noteq> (True, turn'))"

lemma keep_urls_proper: "proper keeps \<Longrightarrow> [] \<notin> set (fst (keep_urls keeps turn us))"
  by (induction keeps turn us rule: keep_urls.induct) (auto simp: proper_def split: prod.splits)

lemma filter_servers_kept:
  "proper keeps \<Longrightarrow> offered (filter_servers keeps turn ss) = fst (keep_urls keeps turn (offered ss))"
proof (induction keeps turn ss rule: filter_servers.induct)
  case (3 keeps turn s ss)
  show ?case
  proof (cases "server_urls s")
    case None
    then show ?thesis using 3 by simp
  next
    case (Some u)
    obtain us turn' where k: "keep_urls keeps turn (addresses_of u) = (us, turn')" by (cases "keep_urls keeps turn (addresses_of u)")
    have ih: "offered (filter_servers keeps turn' ss) = fst (keep_urls keeps turn' (offered ss))"
      using 3 Some k unfolding addresses_of_def by metis
    have p: "[] \<notin> set us" using keep_urls_proper [OF 3(3), of turn "addresses_of u"] k by simp
    have o: "addresses_of (case u of One _ \<Rightarrow> One (hd us) | Many _ \<Rightarrow> Many us) = us" if "us \<noteq> []"
    proof (cases u)
      case (One x)
      then have "length us \<le> 1" using keep_urls_one [of keeps turn x] k by (simp add: addresses_of_def)
      then show ?thesis using that One by (cases us) (simp_all add: addresses_of_def)
    qed (simp add: addresses_of_def)
    show ?thesis
      using Some k ih p o server_urls_kept [OF Some, of us]
      by (cases "us = []") (auto simp: keep_urls_append addresses_of_def [symmetric] split: prod.splits)
  qed
qed simp_all

text \<open>Both filters are rules of one form: the first of the TURN addresses, and every address of another kind.\<close>

locale address_rule =
  fixes keeps :: "bool \<Rightarrow> string \<Rightarrow> bool \<times> bool" and turn_ok :: "string \<Rightarrow> bool" and other :: "string \<Rightarrow> bool"
  assumes rule: "keeps turn u = (if turn_ok u \<and> \<not> turn then (True, True) else (other u, turn))"
    and other_kind: "other u \<Longrightarrow> \<not> turn_ok u"
    and not_empty: "\<not> turn_ok []" "\<not> other []"
begin

lemma proper_rule: "proper keeps"
  using not_empty by (simp add: proper_def rule)

lemma kept_Cons: "fst (keep_urls keeps turn (u # us)) =
    (if turn_ok u \<and> \<not> turn then u # fst (keep_urls keeps True us) else (if other u then [u] else []) @ fst (keep_urls keeps turn us))"
  by (simp add: rule split: prod.splits)

lemma kept_kinds: "u \<in> set (fst (keep_urls keeps turn us)) \<Longrightarrow> turn_ok u \<or> other u"
proof (induction us arbitrary: turn)
  case (Cons v us)
  then show ?case unfolding kept_Cons by (auto split: if_splits)
qed simp

lemma kept_turn: "filter turn_ok (fst (keep_urls keeps turn us)) = (if turn then [] else take 1 (filter turn_ok us))"
proof (induction us arbitrary: turn)
  case (Cons v us)
  then show ?case unfolding kept_Cons using other_kind [of v] by auto
qed simp

lemma kept_other: "filter other (fst (keep_urls keeps turn us)) = filter other us"
proof (induction us arbitrary: turn)
  case (Cons v us)
  then show ?case unfolding kept_Cons using other_kind [of v] by auto
qed simp

lemma kept_again: "keep_urls keeps turn us = (r, turn') \<Longrightarrow> keep_urls keeps turn r = (r, turn')"
  by (induction us arbitrary: turn r) (auto simp: rule split: prod.splits if_splits)

lemma filter_again: "filter_servers keeps turn (filter_servers keeps turn ss) = filter_servers keeps turn ss"
proof (induction ss arbitrary: turn)
  case (Cons x ss)
  show ?case
  proof (cases "x = None \<or> server_urls (the x) = None")
    case True
    then show ?thesis using Cons by (cases x) auto
  next
    case False
    then obtain s u where x: "x = Some s" "server_urls s = Some u" by (cases x) auto
    obtain us turn' where k: "keep_urls keeps turn (addresses_of u) = (us, turn')" by (cases "keep_urls keeps turn (addresses_of u)")
    have p: "[] \<notin> set us" using keep_urls_proper [OF proper_rule, of turn "addresses_of u"] k by simp
    have l: "length us \<le> 1" if "u = One y" for y
      using keep_urls_one [of keeps turn y] k that by (simp add: addresses_of_def)
    have same: "keep_urls keeps turn (case (case u of One _ \<Rightarrow> One (hd us) | Many _ \<Rightarrow> Many us) of One x \<Rightarrow> [x] | Many xs \<Rightarrow> xs) = (us, turn')"
      if "us \<noteq> []"
      using kept_again [OF k] that l by (cases u; cases us) auto
    show ?thesis
    proof (cases "us = []")
      case True
      then have "turn' = turn" using kept_again [OF k] by simp
      then show ?thesis using x k Cons True by (simp add: addresses_of_def)
    next
      case False
      then show ?thesis
        using x k Cons same server_urls_kept [OF x(2) False p] by (cases u) (simp_all add: addresses_of_def)
    qed
  qed
qed simp

lemma filtered:
  "(\<forall>u \<in> set (offered (filter_servers keeps False ss)). turn_ok u \<or> other u) \<and>
   filter turn_ok (offered (filter_servers keeps False ss)) = take 1 (filter turn_ok (offered ss)) \<and>
   filter other (offered (filter_servers keeps False ss)) = filter other (offered ss)"
  using kept_kinds kept_turn kept_other by (simp add: filter_servers_kept [OF proper_rule])

end

lemma turn_prefix: "prefix ''turn:['' u \<Longrightarrow> sublist ''turn:['' u"
  by (rule prefix_imp_sublist)

interpretation shim_rule: address_rule "shim_keeps v" valid_turn "stun_kept v" for v
  by unfold_locales (auto simp: shim_keeps_def stun_kept_def valid_turn_def prefix_def)

interpretation edge_rule: address_rule edge_keeps "\<lambda>u. plain_turn u \<and> \<not> prefix ''stun:'' u" "\<lambda>u. False"
  by unfold_locales (auto simp: edge_keeps_def plain_turn_def prefix_def)

text \<open>
  The STUN addresses the code keeps: from version 14393 on those without a transport parameter, although its comment keeps those
  with \<open>?transport=udp\<close>; the filter of the adapter's own module keeps none.
\<close>

lemma stun_addresses_kept:
  "filter (stun_kept v) (offered (filterIceServers ss v)) = filter (stun_kept v) (offered ss)"
  "u \<in> set (offered (filterIceServers ss v)) \<Longrightarrow> valid_turn u \<or> stun_kept v u"
  "u \<in> set (offered (edge_filterIceServers ss)) \<Longrightarrow> plain_turn u"
  using shim_rule.filtered [of v ss] edge_rule.filtered [of ss]
  unfolding filterIceServers_def edge_filterIceServers_def by blast+

text \<open>A server that is kept is one of the configured ones with fewer addresses, under the new name only.\<close>

definition pruned :: "ice_server \<Rightarrow> ice_server \<Rightarrow> bool" where
  "pruned s t \<longleftrightarrow>
     (\<exists>u w. server_urls s = Some u \<and> t = s\<lparr>sv_urls := Some w, sv_url := None\<rparr> \<and> addresses_of w \<noteq> [] \<and>
        subseq (addresses_of w) (addresses_of u) \<and> ((\<exists>x. w = One x) \<longleftrightarrow> (\<exists>x. u = One x)))"

lemma keep_urls_subseq: "subseq (fst (keep_urls keeps turn us)) us"
  by (induction keeps turn us rule: keep_urls.induct) (auto split: prod.splits)

lemma filter_servers_pruned: "x \<in> set (filter_servers keeps turn ss) \<Longrightarrow> \<exists>s t. Some s \<in> set ss \<and> x = Some t \<and> pruned s t"
proof (induction keeps turn ss rule: filter_servers.induct)
  case (3 keeps turn s ss)
  show ?case
  proof (cases "server_urls s")
    case None
    then show ?thesis using 3 by fastforce
  next
    case (Some u)
    obtain us turn' where k: "keep_urls keeps turn (addresses_of u) = (us, turn')" by (cases "keep_urls keeps turn (addresses_of u)")
    let ?w = "case u of One _ \<Rightarrow> One (hd us) | Many _ \<Rightarrow> Many us"
    have sub: "subseq us (addresses_of u)" using keep_urls_subseq [of keeps turn "addresses_of u"] k by simp
    have w: "addresses_of ?w = us" if "us \<noteq> []"
    proof (cases u)
      case (One y)
      then have "length us \<le> 1" using keep_urls_one [of keeps turn y] k by (simp add: addresses_of_def)
      then show ?thesis using that One by (cases us) (simp_all add: addresses_of_def)
    qed (simp add: addresses_of_def)
    have "pruned s (s\<lparr>sv_urls := Some ?w, sv_url := None\<rparr>)" if "us \<noteq> []"
      unfolding pruned_def using Some sub w [OF that] that by (intro exI [of _ u] exI [of _ ?w]) (auto split: addresses.split)
    moreover have "x \<in> set (filter_servers keeps turn' ss) \<or> us \<noteq> [] \<and> x = Some (s\<lparr>sv_urls := Some ?w, sv_url := None\<rparr>)"
      using 3(3) Some k by (auto simp: Let_def addresses_of_def [symmetric] split: if_splits)
    moreover have "\<exists>s t. Some s \<in> set ss \<and> x = Some t \<and> pruned s t" if "x \<in> set (filter_servers keeps turn' ss)"
      using 3(2) [OF Some _ _ that] k unfolding addresses_of_def by auto
    ultimately show ?thesis by auto
  qed
qed simp_all

text \<open>
  C13. Of all TURN addresses of the configured ICE servers, in all their lists, the peer connection keeps exactly one, the first
  that is usable: reached over UDP and not a literal IPv6 address. Whatever else it keeps are STUN addresses. A server that is
  left is a configured one with some of its addresses, a single address staying single, and no server is left
  without one; filtering what was kept changes nothing. The same holds of the filter in the adapter's own module.
\<close>

theorem turn_address_chosen:
  "filter valid_turn (offered (filterIceServers ss v)) = take 1 (filter valid_turn (offered ss)) \<and>
   set (offered (filterIceServers ss v)) \<subseteq> {u. valid_turn u \<or> prefix ''stun:'' u} \<and>
   set (filterIceServers ss v) \<subseteq> {Some t | s t. Some s \<in> set ss \<and> pruned s t} \<and>
   filterIceServers (filterIceServers ss v) v = filterIceServers ss v \<and>
   filter plain_turn (offered (edge_filterIceServers ss)) = take 1 (filter plain_turn (offered ss)) \<and>
   set (offered (edge_filterIceServers ss)) \<subseteq> {u. plain_turn u \<or> prefix ''stun:'' u} \<and>
   set (edge_filterIceServers ss) \<subseteq> {Some t | s t. Some s \<in> set ss \<and> pruned s t} \<and>
   edge_filterIceServers (edge_filterIceServers ss) = edge_filterIceServers ss"
proof -
  have t: "plain_turn u \<and> \<not> prefix ''stun:'' u \<longleftrightarrow> plain_turn u" for u by (auto simp: plain_turn_def prefix_def)
  have p: "set (filter_servers keeps turn ss) \<subseteq> {Some t | s t. Some s \<in> set ss \<and> pruned s t}" for keeps turn
    using filter_servers_pruned by blast
  have k: "set (offered (filterIceServers ss v)) \<subseteq> {u. valid_turn u \<or> prefix ''stun:'' u}"
    using stun_addresses_kept(2) by (auto simp: stun_kept_def)
  have e: "set (offered (edge_filterIceServers ss)) \<subseteq> {u. plain_turn u \<or> prefix ''stun:'' u}"
    using stun_addresses_kept(3) by blast
  show ?thesis
    using shim_rule.filtered [of v ss] shim_rule.filter_again [of v False ss] p k e edge_rule.filtered [of ss] edge_rule.filter_again [of False ss]
    unfolding filterIceServers_def edge_filterIceServers_def t by blast
qed

section \<open>What two sides have in common\<close>

text \<open>Codecs as the adapter meets them: every member is there and survives being copied.\<close>

definition codec_copied :: "sdp_codec \<Rightarrow> bool" where
  "codec_copied c \<longleftrightarrow> json_codec c = c \<and> (\<exists>n. numChannels c = Num n \<and> n \<noteq> NaN)"

lemma common_codec_self: "codec_copied c \<Longrightarrow> common_codec c c = c"
proof -
  assume "codec_copied c"
  then obtain n where c: "json_codec c = c" "numChannels c = Num n" "n \<noteq> NaN" by (auto simp: codec_copied_def)
  have "num_min n n = n" using c(3) by (simp add: num_min_def)
  moreover have "filter (\<lambda>fb. list_ex (\<lambda>g. fb_type g = fb_type fb \<and> fb_parameter g = fb_parameter fb) (rtcpFeedback c)) (rtcpFeedback c) =
      rtcpFeedback c"
    by (intro filter_True) (auto simp: list_ex_iff)
  ultimately show ?thesis using c by (simp add: common_codec_def Let_def)
qed

lemma feedback_eq: "fb_type g = fb_type h \<Longrightarrow> fb_parameter g = fb_parameter h \<Longrightarrow> g = (h :: feedback)"
  by simp

lemma find_self:
  "xs ! i = x \<Longrightarrow> i < length xs \<Longrightarrow> P x \<Longrightarrow> (\<And>j. j < i \<Longrightarrow> \<not> P (xs ! j)) \<Longrightarrow> find P xs = Some x"
  unfolding find_Some_iff by blast

lemma find_map:
  "(\<And>i. i < length xs \<Longrightarrow> find (P (xs ! i)) xs = Some (xs ! i)) \<Longrightarrow> (\<And>x. x \<in> set xs \<Longrightarrow> f x x = x) \<Longrightarrow>
   concat (map (\<lambda>l. case find (P l) xs of None \<Rightarrow> [] | Some r \<Rightarrow> [f l r]) xs) = xs"
proof -
  assume s: "\<And>i. i < length xs \<Longrightarrow> find (P (xs ! i)) xs = Some (xs ! i)" and f: "\<And>x. x \<in> set xs \<Longrightarrow> f x x = x"
  have "map (\<lambda>l. case find (P l) xs of None \<Rightarrow> [] | Some r \<Rightarrow> [f l r]) xs = map (\<lambda>l. [l]) xs"
  proof (intro map_cong refl)
    fix x assume x: "x \<in> set xs"
    then obtain i where "i < length xs" "x = xs ! i" by (auto simp: in_set_conv_nth)
    then show "(case find (P x) xs of None \<Rightarrow> [] | Some r \<Rightarrow> [f x r]) = [x]" using s f [OF x] by simp
  qed
  from arg_cong [OF this, of concat] show ?thesis by (simp only: concat_map_singleton map_ident)
qed

text \<open>
  Which remote codec answers a local one. The codec a retransmission codec belongs to is the first one with the payload type it
  names; retransmission codecs agree if they belong to codecs of one name.
\<close>

definition belongs_to :: "sdp_codec list \<Rightarrow> sdp_codec \<Rightarrow> sdp_codec \<Rightarrow> bool" where
  "belongs_to cs rtx c \<longleftrightarrow>
     (let has = (\<lambda>c. strict_eq (payloadType c) (int10 (field (parameters rtx) ''apt'')) \<or>
                     strict_eq (preferredPayloadType c) (int10 (field (parameters rtx) ''apt'')))
      in \<exists>i < length cs. cs ! i = c \<and> has c \<and> (\<forall>j < i. \<not> has (cs ! j)))"

definition agree :: "description \<Rightarrow> description \<Rightarrow> sdp_codec \<Rightarrow> sdp_codec \<Rightarrow> bool" where
  "agree l r a b \<longleftrightarrow>
     to_lower (codec_name a) = to_lower (codec_name b) \<and> strict_eq (clockRate a) (clockRate b) \<and>
     (to_lower (codec_name a) = ''rtx'' \<and> truthy (field (parameters b) ''apt'') \<longrightarrow>
        (\<exists>x y. belongs_to (codecs l) a x \<and> belongs_to (codecs r) b y \<and> to_lower (codec_name x) = to_lower (codec_name y)))"

text \<open>The codec both sides use: the remote one as JSON copies it, with the smaller number of channels and the feedback both know.\<close>

definition merged :: "sdp_codec \<Rightarrow> sdp_codec \<Rightarrow> sdp_codec \<Rightarrow> bool" where
  "merged a b c \<longleftrightarrow>
     codec_name c = codec_name b \<and> payloadType c = json_number (payloadType b) \<and>
     preferredPayloadType c = json_number (preferredPayloadType b) \<and> clockRate c = json_number (clockRate b) \<and>
     channels c = json_number (channels b) \<and> maxptime c = json_number (maxptime b) \<and>
     parameters c = map (\<lambda>(k, v). (k, json_number v)) (filter (\<lambda>(k, v). v \<noteq> Undef) (parameters b)) \<and>
     numChannels c = Num (num_min (to_num (numChannels a)) (to_num (json_number (numChannels b)))) \<and>
     rtcpFeedback c = filter (\<lambda>fb. fb \<in> set (rtcpFeedback a)) (rtcpFeedback b)"

text \<open>The first element that fits, for every element that has one.\<close>

definition first_of :: "('b \<Rightarrow> bool) \<Rightarrow> 'b list \<Rightarrow> 'b \<Rightarrow> bool" where
  "first_of P ys y \<longleftrightarrow> (\<exists>i < length ys. ys ! i = y \<and> P y \<and> (\<forall>j < i. \<not> P (ys ! j)))"

lemma find_first_of: "find P ys = Some y \<longleftrightarrow> first_of P ys y"
  by (auto simp: find_Some_iff first_of_def)

lemma belongs_to_find: "belongs_to cs rtx c \<longleftrightarrow> findCodecByPayloadType (field (parameters rtx) ''apt'') cs = Some c"
  unfolding findCodecByPayloadType_def find_first_of first_of_def belongs_to_def Let_def by blast

lemma agree_matches: "agree l r a b \<longleftrightarrow> codec_matches (codecs l) (codecs r) a b"
  unfolding agree_def codec_matches_def same_codec_def rtxCapabilityMatches_def belongs_to_find
  by (auto split: option.split)

lemma merged_common: "merged a b (common_codec a b)"
proof -
  have "list_ex (\<lambda>g. fb_type g = fb_type fb \<and> fb_parameter g = fb_parameter fb) gs \<longleftrightarrow> fb \<in> set gs" for gs and fb :: feedback
    by (force simp: list_ex_iff dest: feedback_eq)
  then show ?thesis by (simp add: merged_def common_codec_def json_codec_def Let_def)
qed

lemma first_matches:
  "list_all2 (\<lambda>x z. \<exists>y. first_of (P x) ys y \<and> z = f x y) (filter (\<lambda>x. \<exists>y \<in> set ys. P x y) xs)
     (concat (map (\<lambda>x. case find (P x) ys of None \<Rightarrow> [] | Some y \<Rightarrow> [f x y]) xs))"
proof (induction xs)
  case (Cons x xs)
  show ?case
  proof (cases "find (P x) ys")
    case None
    then have "\<not> (\<exists>y \<in> set ys. P x y)" by (auto simp: find_None_iff)
    then show ?thesis using Cons None by simp
  next
    case (Some y)
    then have f: "first_of (P x) ys y" by (simp add: find_first_of)
    then have "\<exists>y \<in> set ys. P x y" by (auto simp: first_of_def)
    then show ?thesis using Cons Some f by auto
  qed
qed simp

text \<open>
  C12. What two sides have in common, exactly and in the order of the local side: every local codec that agrees with a remote
  one contributes the first such codec of the remote side, with its payload type and parameters, the smaller number of
  channels, and the feedback both sides know; no other codec is there. A retransmission codec agrees only with one
  that belongs to a codec of the same name. Every local header extension that the remote side has under the
  same address contributes the remote one.
\<close>

theorem common_capabilities:
  "list_all2 (\<lambda>a c. \<exists>b. first_of (agree l r a) (codecs r) b \<and> merged a b c)
     (filter (\<lambda>a. \<exists>b \<in> set (codecs r). agree l r a b) (codecs l)) (codecs (getCommonCapabilities l r)) \<and>
   list_all2 (\<lambda>e f. first_of (\<lambda>f. strict_eq (ext_uri e) (ext_uri f)) (headerExtensions r) f)
     (filter (\<lambda>e. \<exists>f \<in> set (headerExtensions r). strict_eq (ext_uri e) (ext_uri f)) (headerExtensions l))
     (headerExtensions (getCommonCapabilities l r)) \<and>
   fecMechanisms (getCommonCapabilities l r) = []"
proof (intro conjI)
  have "list_all2 (\<lambda>a c. \<exists>b. first_of (agree l r a) (codecs r) b \<and> c = common_codec a b)
     (filter (\<lambda>a. \<exists>b \<in> set (codecs r). agree l r a b) (codecs l)) (codecs (getCommonCapabilities l r))"
    using first_matches [of "codec_matches (codecs l) (codecs r)" "codecs r" common_codec "codecs l"]
    by (simp add: getCommonCapabilities_def agree_matches [abs_def])
  then show "list_all2 (\<lambda>a c. \<exists>b. first_of (agree l r a) (codecs r) b \<and> merged a b c)
     (filter (\<lambda>a. \<exists>b \<in> set (codecs r). agree l r a b) (codecs l)) (codecs (getCommonCapabilities l r))"
    by (rule list_all2_mono) (use merged_common in blast)
  show "list_all2 (\<lambda>e f. first_of (\<lambda>f. strict_eq (ext_uri e) (ext_uri f)) (headerExtensions r) f)
     (filter (\<lambda>e. \<exists>f \<in> set (headerExtensions r). strict_eq (ext_uri e) (ext_uri f)) (headerExtensions l))
     (headerExtensions (getCommonCapabilities l r))"
    using first_matches [of "\<lambda>l r. strict_eq (ext_uri l) (ext_uri r)" "headerExtensions r" "\<lambda>_ r. r" "headerExtensions l"]
    by (simp add: getCommonCapabilities_def)
qed (simp add: getCommonCapabilities_def)

text \<open>
  Two sides with the same capabilities have all of them in common, if no codec is taken for an earlier one and no two extensions
  share their address.
\<close>

lemma capabilities_of_same_sides:
  assumes "\<And>c. c \<in> set (codecs d) \<Longrightarrow> codec_copied c \<and> codec_matches (codecs d) (codecs d) c c"
    and "\<And>i j. i < j \<Longrightarrow> j < length (codecs d) \<Longrightarrow> \<not> codec_matches (codecs d) (codecs d) (codecs d ! j) (codecs d ! i)"
    and "\<And>e. e \<in> set (headerExtensions d) \<Longrightarrow> \<exists>u. ext_uri e = Str u" "distinct (map ext_uri (headerExtensions d))"
  shows "getCommonCapabilities d d = d\<lparr>fecMechanisms := []\<rparr>"
proof -
  have "concat (map (\<lambda>l. case find (codec_matches (codecs d) (codecs d) l) (codecs d) of
      None \<Rightarrow> [] | Some r \<Rightarrow> [common_codec l r]) (codecs d)) = codecs d"
    using assms(1,2) by (intro find_map find_self) (auto simp: common_codec_self)
  moreover have "strict_eq (ext_uri (headerExtensions d ! i)) (ext_uri (headerExtensions d ! j)) \<longleftrightarrow> i = j"
    if "i < length (headerExtensions d)" "j < length (headerExtensions d)" for i j
    using assms(3) [OF nth_mem [OF that(1)]] assms(3) [OF nth_mem [OF that(2)]] that
      nth_eq_iff_index_eq [OF assms(4), of i j]
    by (auto simp: strict_eq_def)
  then have "concat (map (\<lambda>l. case find (\<lambda>r. strict_eq (ext_uri l) (ext_uri r)) (headerExtensions d) of
      None \<Rightarrow> [] | Some r \<Rightarrow> [r]) (headerExtensions d)) = headerExtensions d"
    by (intro find_map find_self) (auto simp: in_set_conv_nth)
  ultimately show "getCommonCapabilities d d = d\<lparr>fecMechanisms := []\<rparr>" by (simp add: getCommonCapabilities_def)
qed

definition demo_codec :: "string \<Rightarrow> int \<Rightarrow> jsval props \<Rightarrow> sdp_codec" where
  "demo_codec name pt ps =
     \<lparr>payloadType = Num (num_of pt), preferredPayloadType = Num (num_of pt), codec_name = name, clockRate = Num (num_of 90000),
      channels = Num (num_of 1), numChannels = Num (num_of 1), parameters = ps, rtcpFeedback = [\<lparr>fb_type = ''nack'', fb_parameter = ''pli''\<rparr>],
      maxptime = Undef\<rparr>"

definition demo_caps :: description where
  "demo_caps =
     \<lparr>codecs = [demo_codec ''VP8'' 96 [], demo_codec ''rtx'' 97 [(''apt'', Str ''96'')], demo_codec ''VP9'' 98 [],
               demo_codec ''rtx'' 99 [(''apt'', Str ''98'')]],
      headerExtensions = [\<lparr>ext_id = Num (num_of 1), ext_preferredId = Undef, ext_direction = Str ''sendrecv'', ext_uri = Str ''urn:a''\<rparr>],
      fecMechanisms = [''RED'']\<rparr>"

lemma demo_simps:
  "same_codec (demo_codec n p ps) (demo_codec m q qs) \<longleftrightarrow> to_lower n = to_lower m"
  "codec_name (demo_codec n p ps) = n" "parameters (demo_codec n p ps) = ps"
  "strict_eq (payloadType (demo_codec n p ps)) (Num (Fin x)) \<longleftrightarrow> of_int p = x"
  "strict_eq (preferredPayloadType (demo_codec n p ps)) (Num (Fin x)) \<longleftrightarrow> of_int p = x"
  by (simp_all add: same_codec_def demo_codec_def strict_eq_def num_eq_def)

definition demo_other :: description where
  "demo_other =
     \<lparr>codecs = [demo_codec ''VP8'' 98 [], demo_codec ''rtx'' 97 [(''apt'', Str ''98'')]], headerExtensions = [], fecMechanisms = []\<rparr>"

lemma demo_apts: "int10 (Str ''96'') = Num (num_of 96)" "int10 (Str ''98'') = Num (num_of 98)"
proof -
  have "is_digit (CHR ''9'') \<and> is_digit (CHR ''6'') \<and> is_digit (CHR ''8'')" by (simp add: is_digit_def)
  moreover have "\<not> is_space (CHR ''9'')" by (simp add: is_space_def)
  moreover have "digits_val ''96'' = 96" "digits_val ''98'' = 98" by code_simp+
  ultimately show "int10 (Str ''96'') = Num (num_of 96)" "int10 (Str ''98'') = Num (num_of 98)"
    using fl_of_int [of 96] fl_of_int [of 98] by (simp_all add: int10_def parse10_def)
qed

text \<open>The retransmission codec of VP9 is not answered by the one of VP8.\<close>

theorem common_capabilities_witness:
  "map codec_name (codecs (getCommonCapabilities demo_caps demo_other)) = [''VP8'', ''rtx'']"
proof -
  have low: "to_lower ''VP8'' = ''vp8''" "to_lower ''VP9'' = ''vp9''" "to_lower ''rtx'' = ''rtx''" by code_simp+
  have apt: "field [(''apt'', v)] ''apt'' = v" for v by (simp add: field_def prop_get_def)
  have cs: "codecs demo_caps = [demo_codec ''VP8'' 96 [], demo_codec ''rtx'' 97 [(''apt'', Str ''96'')], demo_codec ''VP9'' 98 [],
      demo_codec ''rtx'' 99 [(''apt'', Str ''98'')]]" "codecs demo_other = [demo_codec ''VP8'' 98 [], demo_codec ''rtx'' 97 [(''apt'', Str ''98'')]]"
    by (simp_all add: demo_caps_def demo_other_def)
  have f: "filter (\<lambda>a. \<exists>b \<in> set (codecs demo_other). agree demo_caps demo_other a b) (codecs demo_caps) =
      [demo_codec ''VP8'' 96 [], demo_codec ''rtx'' 97 [(''apt'', Str ''96'')]]"
    using low demo_apts by (simp add: cs agree_matches codec_matches_def demo_simps rtxCapabilityMatches_def findCodecByPayloadType_def apt)
  have name: "codec_name c = codec_name a"
    if "\<exists>b. first_of (agree demo_caps demo_other a) (codecs demo_other) b \<and> merged a b c" "codec_name a \<in> {''VP8'', ''rtx''}" for a c
  proof -
    note t = that
    from t(1) obtain b where f: "first_of (agree demo_caps demo_other a) (codecs demo_other) b" and m: "merged a b c" by blast
    have b: "b \<in> set (codecs demo_other)" "agree demo_caps demo_other a b" using f unfolding first_of_def by auto
    have "codec_name c = codec_name b" using m by (simp add: merged_def)
    then show ?thesis using b low t(2) by (auto simp: cs agree_def demo_simps)
  qed
  note common_capabilities [of demo_caps demo_other, THEN conjunct1, unfolded f]
  then have "list_all2 (\<lambda>a c. codec_name a \<in> {''VP8'', ''rtx''} \<longrightarrow> codec_name c = codec_name a)
      [demo_codec ''VP8'' 96 [], demo_codec ''rtx'' 97 [(''apt'', Str ''96'')]] (codecs (getCommonCapabilities demo_caps demo_other))"
    by (rule list_all2_mono) (use name in blast)
  then show ?thesis by (auto simp: list_all2_Cons1 demo_simps)
qed

text \<open>
  A search by name and clock rate takes the first remote codec for every local one: of two formats of one codec
  the second is never answered, and the first is answered twice.
\<close>

lemma formats_of_one_codec:
  assumes "same_codec a c" "same_codec b c" "to_lower (codec_name a) \<noteq> ''rtx'' " "to_lower (codec_name b) \<noteq> ''rtx''"
  shows "codecs (getCommonCapabilities (l\<lparr>codecs := [a, b]\<rparr>) (r\<lparr>codecs := [c, d]\<rparr>)) = [common_codec a c, common_codec b c]"
  using assms by (simp add: getCommonCapabilities_def codec_matches_def)

end
