(* ===== verification/EdgePeer.thy ===== *)
theory EdgePeer
  imports EdgeCaps
begin

text \<open>
  The peer connection the WebRTC adapter builds for the Edge browser from the objects of the older interface (ORTC):
  its state, tracks and streams, transports with their states, gathering of candidates, and remote candidates. Objects
  live in stores and are named by addresses; what is called on objects of the browser is the trace \<open>calls\<close>, the
  events the connection dispatches are the trace \<open>events\<close>, the callbacks given to \<open>setTimeout\<close> wait in
  \<open>tasks\<close>. An operation returns a value or an error and keeps the changes made before the error.
\<close>

section \<open>Objects\<close>

type_synonym addr = nat

record track =
  tk_id :: string
  tk_kind :: string

record stream =
  st_id :: string
  st_tracks :: "addr list"

text \<open>
  A gatherer: the state the adapter keeps on it (the browser has none, so a gatherer the adapter did not
  give one has \<open>undefined\<close>), the line and media identifier of its candidate handler, the line whose buffer listens.
\<close>

record gatherer =
  ga_state :: jsval
  ga_handler :: "(jsval \<times> nat) option"
  ga_buffers :: "nat option"
  ga_candidates :: "jsval props list"

record ice_transport =
  it_state :: string
  it_remote :: "jsval props list"
  it_watched :: bool

record dtls_transport =
  dt_state :: string
  dt_watched :: bool

record sender =
  sd_track :: addr
  sd_initial :: "string option"

text \<open>One \<open>m\<close>-line: what the adapter calls a transceiver.\<close>

record slot =
  sl_kind :: string
  sl_mid :: jsval
  sl_track :: "addr option"
  sl_stream :: "addr option"
  sl_gatherer :: "addr option"
  sl_ice :: "addr option"
  sl_dtls :: "addr option"
  sl_local :: "description option"
  sl_remote :: "description option"
  sl_sender :: "addr option"
  sl_receiver :: "addr option"
  sl_send :: "(jsval \<times> jsval option) list option"
  sl_recv :: "jsval props list option"
  sl_rtcp :: "jsval props option"
  sl_remote_streams :: "addr list"
  sl_want_receive :: bool
  sl_rejected :: bool
  sl_protocol :: jsval
  sl_buffered :: "jsval props option list option"

datatype event =
    Event string
  | Candidate_event jsval nat string "jsval props"
  | Stream_event addr
  | Track_event addr addr "addr list"

datatype task =
    Negotiate
  | Dispatch event
  | Replay addr "jsval props option list option"
  | Candidate_timeout

datatype call =
    Ice_start addr "addr option" "ice_params option" string
  | Dtls_start addr "fingerprint list" string
  | Remote_candidates addr "jsval props list"
  | Add_candidate addr "jsval props"
  | Set_transport addr "addr option"
  | Send addr description "(jsval \<times> jsval option) list option" "jsval props"
  | Receive addr description "jsval props list" "jsval props"
  | Stop_ice addr
  | Stop_dtls addr
  | Stop_sender addr
  | Stop_receiver addr
  | Stream_add addr addr
  | Stream_remove addr addr

record pc =
  signalingState :: string
  iceConnectionState :: string
  connectionState :: string
  iceGatheringState :: string
  localStreams :: "addr list"
  remoteStreams :: "addr list"
  localDescription :: "(string \<times> string) option"
  remoteDescription :: "(string \<times> string) option"
  canTrickle :: "bool option"
  usingBundle :: bool
  needNegotiation :: bool
  isClosed :: bool
  dtlsRole :: "string option"
  sdpVersion :: int
  bundlePolicy :: string
  gatherPolicy :: string
  servers :: "ice_server option list"
  pool :: "addr list"
  slots :: "slot list"
  tracks :: "track list"
  streams :: "stream list"
  gatherers :: "gatherer list"
  ices :: "ice_transport list"
  dtlss :: "dtls_transport list"
  senders :: "sender list"
  receivers :: "addr list"
  tasks :: "task list"
  calls :: "call list"
  events :: "event list"

text \<open>
  What the browser and the random generator provide: the version of Edge, the capabilities of senders and receivers,
  the parameters of gatherers and transports, the identifiers that are drawn, the identifiers of new tracks.
\<close>

record env =
  edgeVersion :: int
  sender_caps :: "string \<Rightarrow> description"
  receiver_caps :: "string \<Rightarrow> description"
  ice_local :: "addr \<Rightarrow> ice_params"
  dtls_local :: "addr \<Rightarrow> fingerprint list"
  new_id :: "addr \<Rightarrow> string"
  new_mid :: "nat \<Rightarrow> string"
  localCName :: string
  sdpSessionId :: string

section \<open>Operations that may fail\<close>

type_synonym 'a act = "pc \<Rightarrow> (dom_error + 'a) \<times> pc"

definition ret :: "'a \<Rightarrow> 'a act" where
  "ret x s = (Inr x, s)"

definition fail :: "dom_error \<Rightarrow> 'a act" where
  "fail e s = (Inl e, s)"

definition seq :: "'a act \<Rightarrow> ('a \<Rightarrow> 'b act) \<Rightarrow> 'b act" where
  "seq m f s = (case m s of (Inl e, s') \<Rightarrow> (Inl e, s') | (Inr x, s') \<Rightarrow> f x s')"

definition change :: "(pc \<Rightarrow> pc) \<Rightarrow> unit act" where
  "change f s = (Inr (), f s)"

definition look :: "(pc \<Rightarrow> 'a act) \<Rightarrow> 'a act" where
  "look f s = f s s"

fun each :: "('a \<Rightarrow> unit act) \<Rightarrow> 'a list \<Rightarrow> unit act" where
  "each f [] = ret ()"
| "each f (x # xs) = seq (f x) (\<lambda>_. each f xs)"

text \<open>An error of the engine itself, such as a property of \<open>undefined\<close>.\<close>

definition engine_error :: dom_error where
  "engine_error = \<lparr>er_name = ''TypeError'', er_message = [], er_code = Undef\<rparr>"

definition need :: "'a option \<Rightarrow> 'a act" where
  "need x = (case x of None \<Rightarrow> fail engine_error | Some y \<Rightarrow> ret y)"

definition lift :: "'a result \<Rightarrow> 'a act" where
  "lift r = (case r of Inl e \<Rightarrow> fail engine_error | Inr y \<Rightarrow> ret y)"

definition slot_upd :: "nat \<Rightarrow> (slot \<Rightarrow> slot) \<Rightarrow> pc \<Rightarrow> pc" where
  "slot_upd i f s = (if i < length (slots s) then s\<lparr>slots := (slots s)[i := f (slots s ! i)]\<rparr> else s)"

definition slot_at :: "nat \<Rightarrow> slot act" where
  "slot_at i = look (\<lambda>s. if i < length (slots s) then ret (slots s ! i) else fail engine_error)"

definition record_call :: "call \<Rightarrow> pc \<Rightarrow> pc" where
  "record_call c s = s\<lparr>calls := calls s @ [c]\<rparr>"

definition schedule :: "task \<Rightarrow> pc \<Rightarrow> pc" where
  "schedule t s = s\<lparr>tasks := tasks s @ [t]\<rparr>"

section \<open>Events and states\<close>

definition dispatchEvent :: "event \<Rightarrow> pc \<Rightarrow> pc" where
  "dispatchEvent e s = (if isClosed s then s else s\<lparr>events := events s @ [e]\<rparr>)"

definition emitGatheringStateChange :: "pc \<Rightarrow> pc" where
  "emitGatheringStateChange s = dispatchEvent (Event ''icegatheringstatechange'') s"

definition updateSignalingState :: "string \<Rightarrow> pc \<Rightarrow> pc" where
  "updateSignalingState newState s = dispatchEvent (Event ''signalingstatechange'') (s\<lparr>signalingState := newState\<rparr>)"

definition maybeFireNegotiationNeeded :: "pc \<Rightarrow> pc" where
  "maybeFireNegotiationNeeded s =
     (if signalingState s \<noteq> ''stable'' \<or> needNegotiation s then s
      else schedule Negotiate (s\<lparr>needNegotiation := True\<rparr>))"

definition ice_states :: "pc \<Rightarrow> string list" where
  "ice_states s =
     concat (map (\<lambda>t. case sl_ice t of Some a \<Rightarrow> if sl_rejected t then [] else [it_state (ices s ! a)] | None \<Rightarrow> []) (slots s))"

definition transport_states :: "pc \<Rightarrow> string list" where
  "transport_states s =
     concat (map (\<lambda>t. case (sl_ice t, sl_dtls t) of
         (Some a, Some d) \<Rightarrow> if sl_rejected t then [] else [it_state (ices s ! a), dt_state (dtlss s ! d)]
       | _ \<Rightarrow> []) (slots s))"

text \<open>The first state of a list that some transport is in.\<close>

definition first_state :: "string list \<Rightarrow> string list \<Rightarrow> string" where
  "first_state order states = (case find (\<lambda>x. x \<in> set states) order of Some x \<Rightarrow> x | None \<Rightarrow> ''new'')"

definition ice_connection_state :: "string list \<Rightarrow> string" where
  "ice_connection_state states =
     first_state [''failed'', ''checking'', ''disconnected'', ''new'', ''connected'', ''completed''] states"

definition connection_state :: "string list \<Rightarrow> string" where
  "connection_state states =
     first_state [''failed'', ''connecting'', ''disconnected'', ''new'', ''connected'']
       (map (\<lambda>x. if x = ''completed'' then ''connected'' else x) states)"

definition updateIceConnectionState :: "pc \<Rightarrow> pc" where
  "updateIceConnectionState s =
     (let newState = ice_connection_state (ice_states s)
      in if newState \<noteq> iceConnectionState s
         then dispatchEvent (Event ''iceconnectionstatechange'') (s\<lparr>iceConnectionState := newState\<rparr>) else s)"

definition updateConnectionState :: "pc \<Rightarrow> pc" where
  "updateConnectionState s =
     (let newState = connection_state (transport_states s)
      in if newState \<noteq> connectionState s
         then dispatchEvent (Event ''connectionstatechange'') (s\<lparr>connectionState := newState\<rparr>) else s)"

text \<open>The transports change their state: the handlers run while they are attached.\<close>

definition ice_changed :: "addr \<Rightarrow> string \<Rightarrow> pc \<Rightarrow> pc" where
  "ice_changed a state s =
     (if a < length (ices s)
      then let s = s\<lparr>ices := (ices s)[a := (ices s ! a)\<lparr>it_state := state\<rparr>]\<rparr>
           in if it_watched (ices s ! a) then updateConnectionState (updateIceConnectionState s) else s
      else s)"

definition dtls_changed :: "addr \<Rightarrow> string \<Rightarrow> pc \<Rightarrow> pc" where
  "dtls_changed d state s =
     (if d < length (dtlss s)
      then let s = s\<lparr>dtlss := (dtlss s)[d := (dtlss s ! d)\<lparr>dt_state := state\<rparr>]\<rparr>
           in if dt_watched (dtlss s ! d) then updateConnectionState s else s
      else s)"

definition dtls_error :: "addr \<Rightarrow> pc \<Rightarrow> pc" where
  "dtls_error d s =
     (if d < length (dtlss s) \<and> dt_watched (dtlss s ! d)
      then updateConnectionState (s\<lparr>dtlss := (dtlss s)[d := (dtlss s ! d)\<lparr>dt_state := ''failed''\<rparr>]\<rparr>) else s)"

section \<open>Transports and lines\<close>

definition createIceAndDtlsTransports :: "pc \<Rightarrow> (addr \<times> addr) \<times> pc" where
  "createIceAndDtlsTransports s =
     ((length (ices s), length (dtlss s)),
      s\<lparr>ices := ices s @ [\<lparr>it_state = ''new'', it_remote = [], it_watched = True\<rparr>],
        dtlss := dtlss s @ [\<lparr>dt_state = ''new'', dt_watched = True\<rparr>]\<rparr>)"

definition empty_slot :: "string \<Rightarrow> slot" where
  "empty_slot kind =
     \<lparr>sl_kind = kind, sl_mid = Null, sl_track = None, sl_stream = None, sl_gatherer = None, sl_ice = None, sl_dtls = None,
      sl_local = None, sl_remote = None, sl_sender = None, sl_receiver = None, sl_send = None, sl_recv = None, sl_rtcp = None,
      sl_remote_streams = [], sl_want_receive = True, sl_rejected = False, sl_protocol = Undef, sl_buffered = None\<rparr>"

text \<open>With \<open>doNotAdd\<close> the caller puts the result into a line; otherwise it is a new line.\<close>

definition new_slot :: "string \<Rightarrow> pc \<Rightarrow> slot \<times> pc" where
  "new_slot kind s =
     (if usingBundle s \<and> slots s \<noteq> []
      then ((empty_slot kind)\<lparr>sl_ice := sl_ice (slots s ! 0), sl_dtls := sl_dtls (slots s ! 0)\<rparr>, s)
      else let ((a, d), s) = createIceAndDtlsTransports s in ((empty_slot kind)\<lparr>sl_ice := Some a, sl_dtls := Some d\<rparr>, s))"

definition createTransceiver :: "string \<Rightarrow> pc \<Rightarrow> pc" where
  "createTransceiver kind s = (let (t, s) = new_slot kind s in s\<lparr>slots := slots s @ [t]\<rparr>)"

text \<open>Without triggering the callbacks: the handlers are taken off the objects the line refers to.\<close>

definition unhandle :: "addr option \<Rightarrow> pc \<Rightarrow> pc" where
  "unhandle g s = (case g of None \<Rightarrow> s | Some g \<Rightarrow> s\<lparr>gatherers := (gatherers s)[g := (gatherers s ! g)\<lparr>ga_handler := None\<rparr>]\<rparr>)"

definition unwatch_ice :: "addr option \<Rightarrow> pc \<Rightarrow> pc" where
  "unwatch_ice a s = (case a of None \<Rightarrow> s | Some a \<Rightarrow> s\<lparr>ices := (ices s)[a := (ices s ! a)\<lparr>it_watched := False\<rparr>]\<rparr>)"

definition unwatch_dtls :: "addr option \<Rightarrow> pc \<Rightarrow> pc" where
  "unwatch_dtls d s = (case d of None \<Rightarrow> s | Some d \<Rightarrow> s\<lparr>dtlss := (dtlss s)[d := (dtlss s ! d)\<lparr>dt_watched := False\<rparr>]\<rparr>)"

definition disposeIceAndDtlsTransports :: "nat \<Rightarrow> pc \<Rightarrow> pc" where
  "disposeIceAndDtlsTransports i s =
     (let t = slots s ! i;
          s = unwatch_dtls (sl_dtls t) (unwatch_ice (sl_ice t) (unhandle (sl_gatherer t) s))
      in slot_upd i (\<lambda>t. t\<lparr>sl_gatherer := None, sl_ice := None, sl_dtls := None\<rparr>) s)"

section \<open>Tracks and streams\<close>

text \<open>The loop of \<open>addTrack\<close> does not stop at the first free line: the last one is taken.\<close>

definition free_line :: "string \<Rightarrow> slot list \<Rightarrow> nat option" where
  "free_line kind ts =
     (case filter (\<lambda>i. sl_track (ts ! i) = None \<and> sl_kind (ts ! i) = kind) [0..<length ts] of
        [] \<Rightarrow> None | is \<Rightarrow> Some (last is))"

definition addTrack :: "addr \<Rightarrow> addr \<Rightarrow> addr act" where
  "addTrack track stream = look (\<lambda>s.
     if isClosed s
     then fail (makeError ''InvalidStateError'' ''Attempted to call addTrack on a closed peerconnection.'')
     else if list_ex (\<lambda>t. sl_track t = Some track) (slots s)
     then fail (makeError ''InvalidAccessError'' ''Track already exists.'')
     else let kind = tk_kind (tracks s ! track);
              line = free_line kind (slots s);
              i = (case line of Some i \<Rightarrow> i | None \<Rightarrow> length (slots s));
              s = (case line of Some _ \<Rightarrow> s | None \<Rightarrow> createTransceiver kind s);
              s = maybeFireNegotiationNeeded s;
              s = (if stream \<in> set (localStreams s) then s else s\<lparr>localStreams := localStreams s @ [stream]\<rparr>);
              sender = length (senders s);
              s = s\<lparr>senders := senders s @ [\<lparr>sd_track = track, sd_initial = None\<rparr>]\<rparr>
          in seq (change (\<lambda>_. slot_upd i (\<lambda>t. t\<lparr>sl_track := Some track, sl_stream := Some stream, sl_sender := Some sender\<rparr>) s))
                 (\<lambda>_. ret sender))"

text \<open>Before version 15025 a clone of the stream is sent, its tracks are new objects.\<close>

definition clone_stream :: "env \<Rightarrow> addr \<Rightarrow> pc \<Rightarrow> addr \<times> pc" where
  "clone_stream e stream s =
     (let old = st_tracks (streams s ! stream); n = length (tracks s);
          new = map (\<lambda>(i, t). \<lparr>tk_id = new_id e (n + i), tk_kind = tk_kind (tracks s ! t)\<rparr>) (enumerate 0 old)
      in (length (streams s),
          s\<lparr>tracks := tracks s @ new,
            streams := streams s @ [\<lparr>st_id = new_id e (n + length old), st_tracks = [n..<n + length old]\<rparr>]\<rparr>))"

definition addStream :: "env \<Rightarrow> addr \<Rightarrow> unit act" where
  "addStream e stream = look (\<lambda>s.
     if 15025 \<le> edgeVersion e
     then each (\<lambda>t. seq (addTrack t stream) (\<lambda>_. ret ())) (st_tracks (streams s ! stream))
     else let (c, s) = clone_stream e stream s
          in seq (change (\<lambda>_. s)) (\<lambda>_. each (\<lambda>t. seq (addTrack t c) (\<lambda>_. ret ())) (st_tracks (streams s ! c))))"

text \<open>\<open>None\<close> is an argument that is not a sender.\<close>

definition line_of_sender :: "addr \<Rightarrow> slot list \<Rightarrow> nat option" where
  "line_of_sender sender ts = find (\<lambda>i. sl_sender (ts ! i) = Some sender) [0..<length ts]"

definition removeTrack :: "addr option \<Rightarrow> unit act" where
  "removeTrack sender = look (\<lambda>s.
     if isClosed s
     then fail (makeError ''InvalidStateError'' ''Attempted to call removeTrack on a closed peerconnection.'')
     else case sender of
       None \<Rightarrow> fail \<lparr>er_name = ''TypeError'',
                     er_message = ''Argument 1 of RTCPeerConnection.removeTrack does not implement interface RTCRtpSender.'',
                     er_code = Undef\<rparr>
     | Some sender \<Rightarrow>
         (case line_of_sender sender (slots s) of
            None \<Rightarrow> fail (makeError ''InvalidAccessError'' ''Sender was not created by this connection.'')
          | Some i \<Rightarrow>
              let stream = sl_stream (slots s ! i);
                  s = slot_upd i (\<lambda>t. t\<lparr>sl_sender := None, sl_track := None, sl_stream := None\<rparr>) (record_call (Stop_sender sender) s);
                  s = (case stream of
                         Some x \<Rightarrow> if Some x \<notin> set (map sl_stream (slots s)) \<and> x \<in> set (localStreams s)
                                   then s\<lparr>localStreams := remove1 x (localStreams s)\<rparr> else s
                       | None \<Rightarrow> s)
              in change (\<lambda>_. maybeFireNegotiationNeeded s)))"

definition getSenders :: "pc \<Rightarrow> addr list" where
  "getSenders s = concat (map (\<lambda>t. case sl_sender t of Some x \<Rightarrow> [x] | None \<Rightarrow> []) (slots s))"

definition getReceivers :: "pc \<Rightarrow> addr list" where
  "getReceivers s = concat (map (\<lambda>t. case sl_receiver t of Some x \<Rightarrow> [x] | None \<Rightarrow> []) (slots s))"

definition removeStream :: "addr \<Rightarrow> unit act" where
  "removeStream stream = look (\<lambda>s.
     each (\<lambda>t. look (\<lambda>s. case find (\<lambda>x. sd_track (senders s ! x) = t) (getSenders s) of
                            Some x \<Rightarrow> removeTrack (Some x) | None \<Rightarrow> ret ()))
       (st_tracks (streams s ! stream)))"

section \<open>Gathering candidates\<close>

text \<open>The gatherer of a line: that of the first line with BUNDLE, one of the pool, or a new one with a buffer.\<close>

definition createIceGatherer :: "nat \<Rightarrow> bool \<Rightarrow> pc \<Rightarrow> addr option \<times> pc" where
  "createIceGatherer i bundle s =
     (if bundle \<and> 0 < i then (sl_gatherer (slots s ! 0), s)
      else case pool s of
        g # gs \<Rightarrow> (Some g, s\<lparr>pool := gs\<rparr>)
      | [] \<Rightarrow>
          (Some (length (gatherers s)),
           slot_upd i (\<lambda>t. t\<lparr>sl_buffered := Some []\<rparr>)
             (s\<lparr>gatherers := gatherers s @
                [\<lparr>ga_state = Str ''new'', ga_handler = None, ga_buffers = Some i, ga_candidates = []\<rparr>]\<rparr>)))"

definition gatherer_upd :: "addr \<Rightarrow> (gatherer \<Rightarrow> gatherer) \<Rightarrow> pc \<Rightarrow> pc" where
  "gatherer_upd g f s = (if g < length (gatherers s) then s\<lparr>gatherers := (gatherers s)[g := f (gatherers s ! g)]\<rparr> else s)"

definition gather :: "nat \<Rightarrow> unit act" where
  "gather i =
     seq (slot_at i) (\<lambda>t. seq (need (sl_gatherer t)) (\<lambda>g. look (\<lambda>s.
       if ga_handler (gatherers s ! g) \<noteq> None then ret ()
       else change (\<lambda>s. schedule (Replay g (sl_buffered t))
              (gatherer_upd g (\<lambda>x. x\<lparr>ga_handler := Some (sl_mid t, i),
                                     ga_buffers := (if ga_buffers x = Some i then None else ga_buffers x)\<rparr>)
                (slot_upd i (\<lambda>t. t\<lparr>sl_buffered := None\<rparr>) s))))))"

text \<open>
  \<open>sections[i] += text\<close>: past the end the missing entry is read as \<open>undefined\<close>, and joining leaves holes out.
\<close>

definition append_at :: "nat \<Rightarrow> string \<Rightarrow> string list \<Rightarrow> string list" where
  "append_at i text ss =
     (if i < length ss then ss[i := ss ! i @ text] else ss @ replicate (i - length ss) [] @ [''undefined'' @ text])"

definition add_line :: "nat \<Rightarrow> string \<Rightarrow> string \<Rightarrow> string" where
  "add_line i line sdp = getDescription sdp @ concat (append_at i (''a='' @ line @ crlf) (getMediaSections sdp))"

definition all_completed :: "pc \<Rightarrow> bool" where
  "all_completed s =
     list_all (\<lambda>t. case sl_gatherer t of Some g \<Rightarrow> ga_state (gatherers s ! g) = Str ''completed'' | None \<Rightarrow> False) (slots s)"

text \<open>An empty object and \<open>null\<close> both end the candidates: \<open>None\<close>.\<close>

definition tell_gathered :: "event option \<Rightarrow> pc \<Rightarrow> pc" where
  "tell_gathered event s =
     (let complete = all_completed s;
          s = (if iceGatheringState s \<noteq> ''gathering'' then emitGatheringStateChange (s\<lparr>iceGatheringState := ''gathering''\<rparr>) else s);
          s = (case event of Some ev \<Rightarrow> dispatchEvent ev s | None \<Rightarrow> s)
      in if complete
         then emitGatheringStateChange ((dispatchEvent (Event ''icecandidate'') s)\<lparr>iceGatheringState := ''complete''\<rparr>) else s)"

definition describe_candidate :: "env \<Rightarrow> addr \<Rightarrow> jsval props \<Rightarrow> (string \<times> jsval props) act" where
  "describe_candidate e g cand =
     (let cand = prop_set (prop_set cand ''component'' (Num (num_of 1))) ''ufrag'' (Str (usernameFragment (ice_local e g)))
      in seq (lift (writeCandidate cand)) (\<lambda>text. seq (lift (parseCandidate text)) (\<lambda>fields. ret (text, fields))))"

definition onlocalcandidate :: "env \<Rightarrow> addr \<Rightarrow> jsval \<Rightarrow> nat \<Rightarrow> jsval props option \<Rightarrow> unit act" where
  "onlocalcandidate e g mid i cand = look (\<lambda>s.
     if usingBundle s \<and> 0 < i then ret ()
     else case cand of
       None \<Rightarrow>
         seq (change (gatherer_upd g (\<lambda>x. x\<lparr>ga_state := (if ga_state x \<in> {Str ''new'', Str ''gathering''} then Str ''completed'' else ga_state x)\<rparr>)))
         (\<lambda>_. seq (need (localDescription s))
         (\<lambda>d. change (\<lambda>s. tell_gathered None
                (s\<lparr>localDescription := Some (fst d, add_line i ''end-of-candidates'' (snd d))\<rparr>))))
     | Some cand \<Rightarrow>
         seq (change (gatherer_upd g (\<lambda>x. x\<lparr>ga_state := (if ga_state x = Str ''new'' then Str ''gathering'' else ga_state x)\<rparr>)))
         (\<lambda>_. seq (describe_candidate e g cand)
         (\<lambda>(text, fields). seq (need (localDescription s))
         (\<lambda>d. change (\<lambda>s. tell_gathered (Some (Candidate_event mid i text fields))
                (s\<lparr>localDescription := Some (fst d, add_line i text (snd d))\<rparr>))))))"

text \<open>The browser reports a local candidate: to the buffer of a line, or to the handler.\<close>

definition local_candidate :: "env \<Rightarrow> addr \<Rightarrow> jsval props option \<Rightarrow> unit act" where
  "local_candidate e g cand =
     seq (change (gatherer_upd g (\<lambda>x. x\<lparr>ga_candidates := ga_candidates x @ (case cand of Some c \<Rightarrow> [c] | None \<Rightarrow> [])\<rparr>)))
     (\<lambda>_. look (\<lambda>s.
       if length (gatherers s) \<le> g then ret ()
       else seq (case ga_buffers (gatherers s ! g) of
           None \<Rightarrow> ret ()
         | Some i \<Rightarrow>
             change (\<lambda>s. slot_upd i (\<lambda>t. t\<lparr>sl_buffered := map_option (\<lambda>b. b @ [cand]) (sl_buffered t)\<rparr>)
               (gatherer_upd g (\<lambda>x. x\<lparr>ga_state := Str (if cand = None then ''completed'' else ''gathering'')\<rparr>) s)))
       (\<lambda>_. case ga_handler (gatherers s ! g) of
           None \<Rightarrow> ret ()
         | Some (mid, i) \<Rightarrow> onlocalcandidate e g mid i cand)))"

section \<open>Remote candidates\<close>

text \<open>What \<open>addIceCandidate\<close> is given; the index of the line is a number if it is there.\<close>

record candidate_init =
  ca_candidate :: string
  ca_mid :: jsval
  ca_line :: jsval

definition line_number :: "jsval \<Rightarrow> nat option" where
  "line_number v = (case v of Num (Fin x) \<Rightarrow> if 0 \<le> x \<and> x = of_int \<lfloor>x\<rfloor> then Some (nat \<lfloor>x\<rfloor>) else None | _ \<Rightarrow> None)"

definition line_of :: "candidate_init \<Rightarrow> slot list \<Rightarrow> nat option" where
  "line_of c ts =
     (let given = (case line_number (ca_line c) of Some i \<Rightarrow> if i < length ts then Some i else None | None \<Rightarrow> None)
      in if truthy (ca_mid c)
         then (case find (\<lambda>i. strict_eq (sl_mid (ts ! i)) (ca_mid c)) [0..<length ts] of Some i \<Rightarrow> Some i | None \<Rightarrow> given)
         else given)"

definition describe_remote :: "nat \<Rightarrow> string \<Rightarrow> unit act" where
  "describe_remote i line = look (\<lambda>s.
     seq (need (remoteDescription s)) (\<lambda>d.
       change (\<lambda>s. s\<lparr>remoteDescription := Some (fst d, add_line i line (snd d))\<rparr>)))"

fun end_of_candidates :: "nat list \<Rightarrow> unit act" where
  "end_of_candidates [] = ret ()"
| "end_of_candidates (j # js) = look (\<lambda>s.
     if sl_rejected (slots s ! j) then end_of_candidates js
     else seq (need (sl_ice (slots s ! j))) (\<lambda>a.
          seq (change (record_call (Add_candidate a []))) (\<lambda>_.
          seq (describe_remote j ''end-of-candidates'') (\<lambda>_.
          if usingBundle s then ret () else end_of_candidates js))))"

definition ice_upd :: "addr \<Rightarrow> (ice_transport \<Rightarrow> ice_transport) \<Rightarrow> pc \<Rightarrow> pc" where
  "ice_upd a f s = (if a < length (ices s) then s\<lparr>ices := (ices s)[a := f (ices s ! a)]\<rparr> else s)"

definition add_remote_candidate :: "addr \<Rightarrow> jsval props \<Rightarrow> bool act" where
  "add_remote_candidate a cand = look (\<lambda>s.
     case maybeAddCandidate (it_remote (ices s ! a)) cand of
       (cands, True) \<Rightarrow>
         seq (change (\<lambda>s. record_call (Add_candidate a cand) (ice_upd a (\<lambda>x. x\<lparr>it_remote := cands\<rparr>) s))) (\<lambda>_. ret True)
     | (_, False) \<Rightarrow> ret False)"

definition ignored_candidate :: "jsval props \<Rightarrow> bool" where
  "ignored_candidate cand =
     (strict_eq (field cand ''protocol'') (Str ''tcp'') \<and>
        (strict_eq (field cand ''port'') (Num (num_of 0)) \<or> strict_eq (field cand ''port'') (Num (num_of 9))) \<or>
      truthy (field cand ''component'') \<and> \<not> strict_eq (field cand ''component'') (Num (num_of 1)))"

definition cannot_add :: dom_error where
  "cannot_add = makeError ''OperationError'' ''Can not add ICE candidate''"

definition add_to_line :: "nat \<Rightarrow> string \<Rightarrow> unit act" where
  "add_to_line i text = look (\<lambda>s.
     if sl_rejected (slots s ! i) then ret ()
     else seq (lift (parseCandidate text)) (\<lambda>cand.
       if ignored_candidate cand then ret ()
       else seq (if i = 0 \<or> sl_ice (slots s ! i) \<noteq> sl_ice (slots s ! 0)
                 then seq (need (sl_ice (slots s ! i))) (\<lambda>a. add_remote_candidate a cand) else ret True)
            (\<lambda>added. if \<not> added then fail cannot_add
               else let line = trim_ws text; line = (if index_of line ''a='' = 0 then substr_from line 2 else line)
                    in describe_remote i (if truthy (field cand ''type'') then line else ''end-of-candidates''))))"

definition addIceCandidate :: "candidate_init option \<Rightarrow> unit act" where
  "addIceCandidate candidate = look (\<lambda>s.
     if (case candidate of Some c \<Rightarrow> ca_line c = Undef \<and> \<not> truthy (ca_mid c) | None \<Rightarrow> False)
     then fail \<lparr>er_name = ''TypeError'', er_message = ''sdpMLineIndex or sdpMid required'', er_code = Undef\<rparr>
     else if remoteDescription s = None
     then fail (makeError ''InvalidStateError'' ''Can not add ICE candidate without a remote description'')
     else case candidate of
       None \<Rightarrow> end_of_candidates [0..<length (slots s)]
     | Some c \<Rightarrow>
         if ca_candidate c = [] then end_of_candidates [0..<length (slots s)]
         else (case line_of c (slots s) of
                 None \<Rightarrow> fail cannot_add
               | Some i \<Rightarrow> add_to_line i (ca_candidate c)))"

section \<open>Closing and timers\<close>

definition stop_slot :: "slot \<Rightarrow> pc \<Rightarrow> pc" where
  "stop_slot t s =
     s\<lparr>calls := calls s @ concat
        [case sl_ice t of Some a \<Rightarrow> [Stop_ice a] | None \<Rightarrow> [],
         case sl_dtls t of Some d \<Rightarrow> [Stop_dtls d] | None \<Rightarrow> [],
         case sl_sender t of Some x \<Rightarrow> [Stop_sender x] | None \<Rightarrow> [],
         case sl_receiver t of Some x \<Rightarrow> [Stop_receiver x] | None \<Rightarrow> []]\<rparr>"

definition close :: "pc \<Rightarrow> pc" where
  "close s = updateSignalingState ''closed'' ((fold stop_slot (slots s) s)\<lparr>isClosed := True\<rparr>)"

definition candidate_timeout :: "slot \<Rightarrow> pc \<Rightarrow> pc" where
  "candidate_timeout t s =
     (case sl_ice t of
        Some a \<Rightarrow> if it_state (ices s ! a) = ''new'' \<and> it_remote (ices s ! a) \<noteq> [] then record_call (Add_candidate a []) s else s
      | None \<Rightarrow> s)"

text \<open>A waiting callback runs. An error in it ends the callback only.\<close>

definition run_task :: "env \<Rightarrow> task \<Rightarrow> pc \<Rightarrow> pc" where
  "run_task e t s =
     (case t of
        Negotiate \<Rightarrow> if needNegotiation s then dispatchEvent (Event ''negotiationneeded'') (s\<lparr>needNegotiation := False\<rparr>) else s
      | Dispatch ev \<Rightarrow> dispatchEvent ev s
      | Replay g buffered \<Rightarrow>
          (case buffered of
             None \<Rightarrow> s
           | Some cs \<Rightarrow>
               snd (each (\<lambda>c. look (\<lambda>s. seq (need (ga_handler (gatherers s ! g))) (\<lambda>(mid, i). onlocalcandidate e g mid i c))) cs s))
      | Candidate_timeout \<Rightarrow> fold candidate_timeout (slots s) s)"

definition fire :: "env \<Rightarrow> nat \<Rightarrow> pc \<Rightarrow> pc" where
  "fire e n s =
     (if n < length (tasks s) then run_task e (tasks s ! n) (s\<lparr>tasks := take n (tasks s) @ drop (Suc n) (tasks s)\<rparr>) else s)"

end
