(* ===== verification/EdgeSession.thy ===== *)
theory EdgeSession
  imports EdgePeer
begin

text \<open>
  The negotiation of the Edge peer connection: its construction, offers and answers, local and remote descriptions
  and what they start on the objects of the browser.
\<close>

section \<open>Construction\<close>

record configuration =
  cf_bundle :: string
  cf_mux :: string
  cf_policy :: string
  cf_servers :: "ice_server option list"
  cf_pool :: nat

definition newPeerConnection :: "env \<Rightarrow> configuration \<Rightarrow> dom_error + pc" where
  "newPeerConnection e config =
     (if cf_mux config = ''negotiate''
      then Inl (makeError ''NotSupportedError''
        (''rtcpMuxPolicy '' @ [CHR 0x27] @ ''negotiate'' @ [CHR 0x27] @ '' is not supported''))
      else Inr
       \<lparr>signalingState = ''stable'', iceConnectionState = ''new'', connectionState = ''new'', iceGatheringState = ''new'',
        localStreams = [], remoteStreams = [], localDescription = None, remoteDescription = None, canTrickle = None,
        usingBundle = (cf_bundle config = ''max-bundle''), needNegotiation = False, isClosed = False, dtlsRole = None,
        sdpVersion = 0,
        bundlePolicy = (if cf_bundle config \<in> {''balanced'', ''max-compat'', ''max-bundle''} then cf_bundle config else ''balanced''),
        gatherPolicy = (if cf_policy config \<in> {''all'', ''relay''} then cf_policy config else ''all''),
        servers = filterIceServers (cf_servers config) (edgeVersion e),
        pool = [0..<cf_pool config], slots = [], tracks = [], streams = [],
        gatherers = replicate (cf_pool config) \<lparr>ga_state = Undef, ga_handler = None, ga_buffers = None, ga_candidates = []\<rparr>,
        ices = [], dtlss = [], senders = [], receivers = [], tasks = [], calls = [], events = []\<rparr>)"

section \<open>Starting senders and receivers\<close>

definition truthy_entry :: "string \<Rightarrow> jsval \<Rightarrow> jsval props" where
  "truthy_entry k v = (if truthy v then [(k, v)] else [])"

definition start_sender :: "env \<Rightarrow> slot \<Rightarrow> addr \<Rightarrow> description \<Rightarrow> unit act" where
  "start_sender e t sender params =
     seq (need (sl_rtcp t)) (\<lambda>rtcp. seq (need (sl_recv t)) (\<lambda>recv.
       change (record_call (Send sender params (sl_send t)
         ([(''cname'', Str (localCName e)), (''compound'', field rtcp ''compound'')] @
          (case recv of enc # _ \<Rightarrow> [(''ssrc'', field enc ''ssrc'')] | [] \<Rightarrow> []))))))"

definition start_receiver :: "env \<Rightarrow> nat \<Rightarrow> slot \<Rightarrow> addr \<Rightarrow> description \<Rightarrow> unit act" where
  "start_receiver e i t receiver params =
     (let recv = (if sl_kind t = ''video'' \<and> edgeVersion e < 15019
                  then map_option (map (\<lambda>enc. prop_del enc ''rtx'')) (sl_recv t) else sl_recv t)
      in seq (change (slot_upd i (\<lambda>t. t\<lparr>sl_recv := recv\<rparr>))) (\<lambda>_.
         seq (need recv) (\<lambda>encs. seq (need (sl_rtcp t)) (\<lambda>rtcp. seq (need (sl_send t)) (\<lambda>send.
           change (record_call (Receive receiver params (if encs \<noteq> [] then encs else [[]])
             ([(''compound'', field rtcp ''compound'')] @ truthy_entry ''cname'' (field rtcp ''cname'') @
              (case send of (ssrc, _) # _ \<Rightarrow> [(''ssrc'', ssrc)] | [] \<Rightarrow> [])))))))))"

definition transceive :: "env \<Rightarrow> nat \<Rightarrow> bool \<Rightarrow> bool \<Rightarrow> unit act" where
  "transceive e i send recv =
     seq (slot_at i) (\<lambda>t. seq (need (sl_local t)) (\<lambda>l. seq (need (sl_remote t)) (\<lambda>r.
       let params = getCommonCapabilities l r
       in seq (case sl_sender t of Some x \<Rightarrow> if send then start_sender e t x params else ret () | None \<Rightarrow> ret ())
              (\<lambda>_. case sl_receiver t of
                 Some x \<Rightarrow> if recv \<and> codecs params \<noteq> [] then start_receiver e i t x params else ret ()
               | None \<Rightarrow> ret ()))))"

section \<open>Local descriptions\<close>

definition not_allowed :: "string \<Rightarrow> string \<Rightarrow> pc \<Rightarrow> dom_error" where
  "not_allowed side type s =
     makeError ''InvalidStateError'' (''Can not set '' @ side @ '' '' @ type @ '' in state '' @ signalingState s)"

definition unsupported :: "string \<Rightarrow> dom_error" where
  "unsupported type = makeError ''TypeError'' (''Unsupported type '' @ [CHR 0x22] @ type @ [CHR 0x22])"

text \<open>Both descriptions start with the same tests.\<close>

definition guarded :: "string \<Rightarrow> string \<Rightarrow> string \<Rightarrow> unit act \<Rightarrow> unit act" where
  "guarded action side type body = look (\<lambda>s.
     if type \<notin> {''offer'', ''answer''} then fail (unsupported type)
     else seq (lift (isActionAllowedInSignalingState action type (signalingState s))) (\<lambda>allowed.
       if \<not> allowed \<or> isClosed s then fail (not_allowed side type s) else body))"

definition rejects :: "string \<Rightarrow> bool" where
  "rejects media = (isRejected media \<and> matchPrefix media ''a=bundle-only'' = [])"

definition ice_lite :: "string \<Rightarrow> bool" where
  "ice_lite sessionpart = (matchPrefix sessionpart ''a=ice-lite'' \<noteq> [])"

definition start_transports :: "slot \<Rightarrow> ice_params option \<Rightarrow> string \<Rightarrow> fingerprint list \<Rightarrow> string \<Rightarrow> unit act" where
  "start_transports t ice ice_role dtls dtls_role =
     seq (need (sl_ice t)) (\<lambda>a. look (\<lambda>s.
       seq (if it_state (ices s ! a) = ''new'' then change (record_call (Ice_start a (sl_gatherer t) ice ice_role)) else ret ())
       (\<lambda>_. seq (need (sl_dtls t)) (\<lambda>d.
         if dt_state (dtlss s ! d) = ''new'' then change (record_call (Dtls_start d dtls dtls_role)) else ret ()))))"

definition answer_section :: "env \<Rightarrow> string \<Rightarrow> nat \<times> string \<Rightarrow> unit act" where
  "answer_section e sessionpart im =
     (let (i, media) = im
      in seq (slot_at i) (\<lambda>t.
         if rejects media \<or> sl_rejected t then ret ()
         else look (\<lambda>s.
           seq (if \<not> usingBundle s \<or> i = 0
                then seq (gather i) (\<lambda>_.
                     start_transports t (getIceParameters media sessionpart)
                       (if ice_lite sessionpart then ''controlling'' else ''controlled'')
                       (getDtlsParameters media sessionpart) (if ice_lite sessionpart then ''server'' else ''auto''))
                else ret ())
           (\<lambda>_. seq (need (sl_local t)) (\<lambda>l. seq (need (sl_remote t)) (\<lambda>r.
                transceive e i (codecs (getCommonCapabilities l r) \<noteq> []) False))))))"

definition local_section :: "nat \<times> string \<Rightarrow> unit act" where
  "local_section im =
     (let (i, media) = im
      in seq (lift (parseRtpParameters media)) (\<lambda>caps. seq (slot_at i) (\<lambda>_.
           change (slot_upd i (\<lambda>t. t\<lparr>sl_local := Some caps\<rparr>)))))"

definition start_local :: "env \<Rightarrow> string \<Rightarrow> string \<Rightarrow> unit act" where
  "start_local e type sdp =
     (if type = ''offer''
      then seq (each local_section (enumerate 0 (getMediaSections sdp)))
               (\<lambda>_. look (\<lambda>s. each gather [0..<length (slots s)]))
      else look (\<lambda>s. seq (need (remoteDescription s)) (\<lambda>d.
             each (answer_section e (getDescription (snd d))) (enumerate 0 (getMediaSections (snd d))))))"

definition enter_local :: "string \<Rightarrow> string \<Rightarrow> pc \<Rightarrow> pc" where
  "enter_local type sdp s =
     updateSignalingState (if type = ''offer'' then ''have-local-offer'' else ''stable'')
       (s\<lparr>localDescription := Some (type, sdp)\<rparr>)"

definition setLocalDescription :: "env \<Rightarrow> string \<Rightarrow> string \<Rightarrow> unit act" where
  "setLocalDescription e type sdp = guarded ''setLocalDescription'' ''local'' type (
     seq (start_local e type sdp) (\<lambda>_. change (enter_local type sdp)))"

section \<open>Remote descriptions\<close>

text \<open>The streams by their names, and the tracks to announce with receiver and stream.\<close>

type_synonym announced = "addr props \<times> (addr \<times> addr \<times> addr option) list"

definition put_slot :: "nat \<Rightarrow> slot \<Rightarrow> pc \<Rightarrow> pc" where
  "put_slot i t s = s\<lparr>slots := (if i < length (slots s) then (slots s)[i := t] else slots s @ [t])\<rparr>"

definition rejected_slot :: "jsval \<Rightarrow> string \<Rightarrow> jsval \<Rightarrow> slot" where
  "rejected_slot mid kind protocol =
     (empty_slot kind)\<lparr>sl_mid := mid, sl_protocol := protocol, sl_rejected := True, sl_want_receive := False\<rparr>"

definition recycle :: "nat \<Rightarrow> string \<Rightarrow> pc \<Rightarrow> pc" where
  "recycle i kind s =
     (if i < length (slots s) \<and> sl_rejected (slots s ! i) then (let (t, s) = new_slot kind s in put_slot i t s) else s)"

text \<open>With BUNDLE, a further line gives up its own transports for those of the first line.\<close>

definition share_transports :: "nat \<Rightarrow> pc \<Rightarrow> pc" where
  "share_transports i s =
     (let s = disposeIceAndDtlsTransports i s; first = slots s ! 0;
          s = slot_upd i (\<lambda>t. t\<lparr>sl_gatherer := sl_gatherer first, sl_ice := sl_ice first, sl_dtls := sl_dtls first\<rparr>) s;
          t = slots s ! i;
          s = (case sl_sender t of Some x \<Rightarrow> record_call (Set_transport x (sl_dtls first)) s | None \<Rightarrow> s)
      in (case sl_receiver t of Some x \<Rightarrow> record_call (Set_transport x (sl_dtls first)) s | None \<Rightarrow> s))"

fun results :: "'a result list \<Rightarrow> 'a list result" where
  "results [] = Inr []"
| "results (r # rs) = bind_result r (\<lambda>x. bind_result (results rs) (\<lambda>xs. Inr (x # xs)))"

definition remote_cands :: "string \<Rightarrow> jsval props list result" where
  "remote_cands media =
     bind_result (results (map parseCandidate (matchPrefix media ''a=candidate:'')))
       (\<lambda>cs. Inr (filter (\<lambda>c. strict_eq (field c ''component'') (Num (num_of 1))) cs))"

definition give_candidates :: "slot \<Rightarrow> jsval props list \<Rightarrow> bool \<Rightarrow> unit act" where
  "give_candidates t cands whole =
     (if cands = [] then ret ()
      else seq (need (sl_ice t)) (\<lambda>a. look (\<lambda>s.
        if it_state (ices s ! a) \<noteq> ''new'' then ret ()
        else if whole then change (\<lambda>s. record_call (Remote_candidates a cands) (ice_upd a (\<lambda>x. x\<lparr>it_remote := cands\<rparr>) s))
        else each (\<lambda>c. seq (add_remote_candidate a c) (\<lambda>_. ret ())) cands)))"

definition without_rtx :: "env \<Rightarrow> description \<Rightarrow> description" where
  "without_rtx e d =
     (if edgeVersion e < 15019 then d\<lparr>codecs := filter (\<lambda>c. codec_name c \<noteq> ''rtx'') (codecs d)\<rparr> else d)"

definition sends :: "string \<Rightarrow> bool" where
  "sends direction = (direction \<in> {''sendrecv'', ''sendonly''})"

definition new_receiver :: "env \<Rightarrow> string \<Rightarrow> pc \<Rightarrow> addr \<times> pc" where
  "new_receiver e kind s =
     (let n = length (tracks s)
      in (length (receivers s), s\<lparr>tracks := tracks s @ [\<lparr>tk_id = new_id e n, tk_kind = kind\<rparr>], receivers := receivers s @ [n]\<rparr>))"

text \<open>The stream under a name, made if it is missing: with that name as its identifier, or with one of its own.\<close>

definition stream_under :: "env \<Rightarrow> string \<Rightarrow> bool \<Rightarrow> addr props \<Rightarrow> pc \<Rightarrow> (addr \<times> addr props) \<times> pc" where
  "stream_under e name named strs s =
     (case prop_get strs name of
        Some x \<Rightarrow> ((x, strs), s)
      | None \<Rightarrow>
          let x = length (streams s)
          in ((x, prop_set strs name x),
              s\<lparr>streams := streams s @ [\<lparr>st_id = (if named then name else new_id e (length (tracks s) + x)), st_tracks = []\<rparr>]\<rparr>))"

definition addTrackToStreamAndFireEvent :: "addr \<Rightarrow> addr \<Rightarrow> pc \<Rightarrow> pc" where
  "addTrackToStreamAndFireEvent track x s =
     record_call (Stream_add x track)
       (s\<lparr>streams := (streams s)[x := (streams s ! x)\<lparr>st_tracks :=
          (if track \<in> set (st_tracks (streams s ! x)) then st_tracks (streams s ! x) else st_tracks (streams s ! x) @ [track])\<rparr>]\<rparr>)"

definition removeTrackFromStreamAndFireEvent :: "addr \<Rightarrow> addr \<Rightarrow> pc \<Rightarrow> pc" where
  "removeTrackFromStreamAndFireEvent track x s =
     record_call (Stream_remove x track)
       (s\<lparr>streams := (streams s)[x := (streams s ! x)\<lparr>st_tracks := filter (\<lambda>t. t \<noteq> track) (st_tracks (streams s ! x))\<rparr>]\<rparr>)"

definition msid_of :: "jsval \<Rightarrow> (string \<times> string) option" where
  "msid_of v = (case v of Obj ps \<Rightarrow> Some (to_str (field ps ''stream''), to_str (field ps ''track'')) | _ \<Rightarrow> None)"

text \<open>The stream of a new remote track of an offer.\<close>

definition offered_stream :: "env \<Rightarrow> jsval \<Rightarrow> addr \<Rightarrow> addr props \<Rightarrow> pc \<Rightarrow> (addr option \<times> addr props) \<times> pc" where
  "offered_stream e msid track strs s =
     (case msid_of msid of
        Some (name, tk) \<Rightarrow>
          if name = ''-'' then ((None, strs), s)
          else let ((x, strs), s) = stream_under e name True strs s
               in ((Some x, strs), s\<lparr>tracks := (tracks s)[track := (tracks s ! track)\<lparr>tk_id := tk\<rparr>]\<rparr>)
      | None \<Rightarrow> let ((x, strs), s) = stream_under e ''default'' False strs s in ((Some x, strs), s))"

definition add_new_track :: "env \<Rightarrow> nat \<Rightarrow> jsval \<Rightarrow> addr \<Rightarrow> announced \<Rightarrow> pc \<Rightarrow> announced \<times> pc" where
  "add_new_track e i msid receiver acc s =
     (let (strs, recvs) = acc; track = receivers s ! receiver;
          ((x, strs), s) = offered_stream e msid track strs s;
          s = (case x of
                 Some x \<Rightarrow> slot_upd i (\<lambda>t. t\<lparr>sl_remote_streams := sl_remote_streams t @ [x]\<rparr>) (addTrackToStreamAndFireEvent track x s)
               | None \<Rightarrow> s)
      in ((strs, recvs @ [(track, receiver, x)]), s))"

definition drop_remote_track :: "nat \<Rightarrow> addr \<Rightarrow> pc \<Rightarrow> pc" where
  "drop_remote_track i receiver s =
     (let own = tk_id (tracks s ! (receivers s ! receiver));
          s = fold (\<lambda>x s. case find (\<lambda>t. tk_id (tracks s ! t) = own) (st_tracks (streams s ! x)) of
                            Some t \<Rightarrow> removeTrackFromStreamAndFireEvent t x s | None \<Rightarrow> s)
                (sl_remote_streams (slots s ! i)) s
      in slot_upd i (\<lambda>t. t\<lparr>sl_remote_streams := []\<rparr>) s)"

text \<open>What a media section is read as.\<close>

record section_info =
  si_kind :: string
  si_mid :: jsval
  si_direction :: string
  si_msid :: jsval
  si_caps :: description
  si_recv :: "jsval props list"
  si_rtcp :: "jsval props"
  si_complete :: bool
  si_cands :: "jsval props list"
  si_ice :: "ice_params option"
  si_dtls :: "fingerprint list"

definition offered_direction :: "env \<Rightarrow> nat \<Rightarrow> section_info \<Rightarrow> announced \<Rightarrow> pc \<Rightarrow> (addr option \<times> bool \<times> announced) \<times> pc" where
  "offered_direction e i si acc s =
     (let t = slots s ! i
      in if sends (si_direction si)
         then (case sl_receiver t of
                 Some x \<Rightarrow> ((Some x, False, acc), s)
               | None \<Rightarrow>
                   let (x, s) = new_receiver e (si_kind si) s; (acc, s) = add_new_track e i (si_msid si) x acc s
                   in ((Some x, True, acc), s))
         else ((None, False, acc), case sl_receiver t of Some x \<Rightarrow> drop_remote_track i x s | None \<Rightarrow> s))"

definition offered_section :: "env \<Rightarrow> bool \<Rightarrow> nat \<Rightarrow> section_info \<Rightarrow> announced \<Rightarrow> announced act" where
  "offered_section e bundle i si acc =
     seq (change (\<lambda>s. slot_upd i (\<lambda>t. t\<lparr>sl_mid := si_mid si\<rparr>)
                        (if i < length (slots s) then s else createTransceiver (si_kind si) s))) (\<lambda>_.
     seq (change (\<lambda>s. if sl_gatherer (slots s ! i) \<noteq> None then s
                        else let (g, s) = createIceGatherer i bundle s in slot_upd i (\<lambda>t. t\<lparr>sl_gatherer := g\<rparr>) s)) (\<lambda>_.
     seq (slot_at i) (\<lambda>t.
     seq (give_candidates t (si_cands si) (si_complete si \<and> (\<not> bundle \<or> i = 0))) (\<lambda>_. look (\<lambda>s.
     let ((receiver, isNewTrack, acc), s') = offered_direction e i si acc s
     in seq (change (\<lambda>_. slot_upd i (\<lambda>t. t\<lparr>sl_local := Some (without_rtx e (receiver_caps e (si_kind si))),
                   sl_remote := Some (si_caps si), sl_receiver := receiver, sl_rtcp := Some (si_rtcp si),
                   sl_send := Some (case sl_send t of Some es \<Rightarrow> es | None \<Rightarrow> [(Num (num_of ((2 * int i + 2) * 1001)), None)]),
                   sl_recv := Some (si_recv si)\<rparr>) s')) (\<lambda>_.
        seq (transceive e i False isNewTrack) (\<lambda>_. ret acc)))))))"

definition has_rtx :: "description \<Rightarrow> bool" where
  "has_rtx d = list_ex (\<lambda>c. to_lower (codec_name c) = ''rtx'') (codecs d)"

text \<open>The retransmission source is dropped when the two sides do not have retransmission in common.\<close>

definition drop_rtx :: "nat \<Rightarrow> unit act" where
  "drop_rtx i =
     seq (slot_at i) (\<lambda>t. seq (need (sl_local t)) (\<lambda>l. seq (need (sl_remote t)) (\<lambda>r.
       if has_rtx (getCommonCapabilities l r) then ret ()
       else (case sl_send t of
               Some ((ssrc, _) # es) \<Rightarrow> change (slot_upd i (\<lambda>t. t\<lparr>sl_send := Some ((ssrc, None) # es)\<rparr>))
             | _ \<Rightarrow> fail engine_error))))"

definition answered_track :: "env \<Rightarrow> nat \<Rightarrow> section_info \<Rightarrow> announced \<Rightarrow> pc \<Rightarrow> announced \<times> pc" where
  "answered_track e i si acc s =
     (case sl_receiver (slots s ! i) of
        Some receiver \<Rightarrow>
          if sends (si_direction si)
          then let (strs, recvs) = acc; track = receivers s ! receiver;
                   name = (case msid_of (si_msid si) of Some (name, _) \<Rightarrow> name | None \<Rightarrow> ''default'');
                   ((x, strs), s) = stream_under e name False strs s
               in ((strs, recvs @ [(track, receiver, Some x)]), addTrackToStreamAndFireEvent track x s)
          else (acc, slot_upd i (\<lambda>t. t\<lparr>sl_receiver := None\<rparr>) s)
      | None \<Rightarrow> (acc, s))"

definition answered_section :: "env \<Rightarrow> bool \<Rightarrow> bool \<Rightarrow> nat \<Rightarrow> section_info \<Rightarrow> announced \<Rightarrow> announced act" where
  "answered_section e bundle lite i si acc =
     seq (slot_at i) (\<lambda>t.
     seq (change (slot_upd i (\<lambda>t. t\<lparr>sl_recv := Some (si_recv si), sl_remote := Some (si_caps si), sl_rtcp := Some (si_rtcp si)\<rparr>))) (\<lambda>_.
     seq (give_candidates t (si_cands si) ((lite \<or> si_complete si) \<and> (\<not> bundle \<or> i = 0))) (\<lambda>_.
     seq (if \<not> bundle \<or> i = 0 then start_transports t (si_ice si) ''controlling'' (si_dtls si) ''client'' else ret ()) (\<lambda>_.
     seq (drop_rtx i) (\<lambda>_.
     seq (transceive e i (si_direction si \<in> {''sendrecv'', ''recvonly''}) (sends (si_direction si))) (\<lambda>_. look (\<lambda>s.
     let (acc, s') = answered_track e i si acc s in seq (change (\<lambda>_. s')) (\<lambda>_. ret acc))))))))"

definition read_section :: "env \<Rightarrow> string \<Rightarrow> nat \<Rightarrow> string \<Rightarrow> jsval \<Rightarrow> jsval \<Rightarrow> section_info act" where
  "read_section e sessionpart i media msid mid =
     seq (lift (parseRtpParameters media)) (\<lambda>caps.
     seq (lift (parseRtpEncodingParameters media)) (\<lambda>recv.
     seq (lift (remote_cands media)) (\<lambda>cands.
     ret \<lparr>si_kind = getKind media, si_mid = mid, si_direction = getDirection media sessionpart, si_msid = msid, si_caps = caps,
          si_recv = recv, si_rtcp = parseRtcpParameters media,
          si_complete = (matchPrefix media ''a=end-of-candidates'' \<noteq> []), si_cands = cands,
          si_ice = getIceParameters media sessionpart, si_dtls = getDtlsParameters media sessionpart\<rparr>)))"

definition remote_section :: "env \<Rightarrow> string \<Rightarrow> string \<Rightarrow> bool \<Rightarrow> nat \<times> string \<Rightarrow> announced \<Rightarrow> announced act" where
  "remote_section e type sessionpart bundle im acc =
     (let (i, media) = im; kind = getKind media;
          protocol = str_at (split_on (substr_from (hd (splitLines media)) 2) '' '') 2;
          mid = or_val (getMid media) (Str (new_mid e i))
      in seq (lift (parseMsid media)) (\<lambda>msid.
         if rejects media \<or> kind = ''application'' \<and> protocol \<in> {Str ''DTLS/SCTP'', Str ''UDP/DTLS/SCTP''}
         then seq (change (put_slot i (rejected_slot mid kind protocol))) (\<lambda>_. ret acc)
         else seq (change (recycle i kind)) (\<lambda>_. seq (read_section e sessionpart i media msid mid) (\<lambda>si.
              seq (change (\<lambda>s. if bundle \<and> 0 < i \<and> i < length (slots s) then share_transports i s else s)) (\<lambda>_.
              if type = ''offer'' then offered_section e bundle i si acc
              else answered_section e bundle (ice_lite sessionpart) i si acc)))))"

fun remote_sections :: "(nat \<times> string \<Rightarrow> announced \<Rightarrow> announced act) \<Rightarrow> (nat \<times> string) list \<Rightarrow> announced \<Rightarrow> announced act" where
  "remote_sections f [] acc = ret acc"
| "remote_sections f (im # ims) acc = seq (f im acc) (remote_sections f ims)"

definition fireAddTrack :: "addr \<Rightarrow> addr \<Rightarrow> addr list \<Rightarrow> pc \<Rightarrow> pc" where
  "fireAddTrack track receiver xs = schedule (Dispatch (Track_event track receiver xs))"

text \<open>A remote track without a stream has no stream whose identifier could be compared.\<close>

definition announce_track :: "addr \<Rightarrow> addr \<times> addr \<times> addr option \<Rightarrow> unit act" where
  "announce_track x item =
     (let (track, receiver, y) = item
      in seq (need y) (\<lambda>y. change (\<lambda>s.
           if st_id (streams s ! x) \<noteq> st_id (streams s ! y) then s else fireAddTrack track receiver [x] s)))"

definition announce_stream :: "(addr \<times> addr \<times> addr option) list \<Rightarrow> addr \<Rightarrow> unit act" where
  "announce_stream recvs x = look (\<lambda>s.
     if st_tracks (streams s ! x) = [] then ret ()
     else seq (change (\<lambda>s. if x \<in> set (remoteStreams s) then s
                        else schedule (Dispatch (Stream_event x)) (s\<lparr>remoteStreams := remoteStreams s @ [x]\<rparr>)))
          (\<lambda>_. each (announce_track x) recvs))"

definition announce :: "announced \<Rightarrow> unit act" where
  "announce acc =
     (let (strs, recvs) = acc
      in seq (each (announce_stream recvs) (map snd strs)) (\<lambda>_.
         change (\<lambda>s. schedule Candidate_timeout
           (fold (\<lambda>(track, receiver, y). if y = None then fireAddTrack track receiver [] else id) recvs s))))"

definition known_streams :: "pc \<Rightarrow> addr props" where
  "known_streams s = foldl (\<lambda>strs x. prop_set strs (st_id (streams s ! x)) x) [] (remoteStreams s)"

definition trickles :: "string \<Rightarrow> bool" where
  "trickles sessionpart =
     (case first_match sessionpart ''a=ice-options:'' of Some l \<Rightarrow> ''trickle'' \<in> set (parseIceOptions l) | None \<Rightarrow> False)"

definition read_remote :: "env \<Rightarrow> string \<Rightarrow> string \<Rightarrow> announced act" where
  "read_remote e type sdp = look (\<lambda>s.
     let sessionpart = getDescription sdp; bundle = (matchPrefix sessionpart ''a=group:BUNDLE '' \<noteq> [])
     in seq (change (\<lambda>s. s\<lparr>usingBundle := bundle, canTrickle := Some (trickles sessionpart)\<rparr>)) (\<lambda>_.
        remote_sections (remote_section e type sessionpart bundle) (enumerate 0 (getMediaSections sdp)) (known_streams s, [])))"

definition enter_remote :: "string \<Rightarrow> string \<Rightarrow> pc \<Rightarrow> pc" where
  "enter_remote type sdp s =
     updateSignalingState (if type = ''offer'' then ''have-remote-offer'' else ''stable'')
       (s\<lparr>dtlsRole := (case dtlsRole s of None \<Rightarrow> Some (if type = ''offer'' then ''active'' else ''passive'') | r \<Rightarrow> r),
          remoteDescription := Some (type, sdp)\<rparr>)"

definition setRemoteDescription :: "env \<Rightarrow> string \<Rightarrow> string \<Rightarrow> unit act" where
  "setRemoteDescription e type sdp = guarded ''setRemoteDescription'' ''remote'' type (
     seq (read_remote e type sdp) (\<lambda>acc. seq (change (enter_remote type sdp)) (\<lambda>_. announce acc)))"

end
