(* ===== verification/EdgeOffer.thy ===== *)
theory EdgeOffer
  imports EdgeSession
begin

text \<open>Offers and answers of the Edge peer connection, and the whole connection as a machine of calls and events.\<close>

section \<open>Writing media sections\<close>

text \<open>\<open>writeMediaSection\<close> of the shim; the first identifier of a sent track is remembered on the sender.\<close>

definition initial_track :: "addr \<Rightarrow> string act" where
  "initial_track x = look (\<lambda>s.
     let tk = (case sd_initial (senders s ! x) of Some i \<Rightarrow> if i = [] then tk_id (tracks s ! sd_track (senders s ! x)) else i
               | None \<Rightarrow> tk_id (tracks s ! sd_track (senders s ! x)))
     in seq (change (\<lambda>s. s\<lparr>senders := (senders s)[x := (senders s ! x)\<lparr>sd_initial := Some tk\<rparr>]\<rparr>)) (\<lambda>_. ret tk))"

definition shim_direction :: "slot \<Rightarrow> string" where
  "shim_direction t =
     (case (sl_sender t, sl_receiver t) of
        (Some _, Some _) \<Rightarrow> ''a=sendrecv'' | (Some _, None) \<Rightarrow> ''a=sendonly''
      | (None, Some _) \<Rightarrow> ''a=recvonly'' | (None, None) \<Rightarrow> ''a=inactive'')"

definition shim_writeMediaSection :: "env \<Rightarrow> slot \<Rightarrow> description \<Rightarrow> string \<Rightarrow> string option \<Rightarrow> string act" where
  "shim_writeMediaSection e t caps type dtls_role =
     seq (need (sl_gatherer t)) (\<lambda>g. seq (need (sl_dtls t)) (\<lambda>d.
     let sdp = writeRtpDescription (sl_kind t) (codecs caps) (headerExtensions caps) @
               writeIceParameters (ice_local e g) @
               writeDtlsParameters (dtls_local e d)
                 (if type = ''offer'' then ''actpass'' else case dtls_role of Some r \<Rightarrow> r | None \<Rightarrow> ''active'') @
               ''a=mid:'' @ to_str (sl_mid t) @ crlf @ shim_direction t @ crlf;
         names = (\<lambda>ssrc rtx. ssrc_line ssrc (''cname:'' @ localCName e) @
                    (case (sl_sender t, rtx) of (Some _, Some r) \<Rightarrow> ssrc_line r (''cname:'' @ localCName e) | _ \<Rightarrow> []))
     in case sl_sender t of
          None \<Rightarrow> (case sl_send t of Some ((ssrc, rtx) # _) \<Rightarrow> ret (sdp @ names ssrc rtx) | _ \<Rightarrow> fail engine_error)
        | Some x \<Rightarrow> seq (initial_track x) (\<lambda>tk. look (\<lambda>s.
            let msid = ''msid:'' @ (case sl_stream t of Some y \<Rightarrow> st_id (streams s ! y) | None \<Rightarrow> ''-'') @ '' '' @ tk
            in case sl_send t of
                 Some ((ssrc, rtx) # _) \<Rightarrow>
                   ret (sdp @ ''a='' @ msid @ crlf @ ssrc_line ssrc msid @
                     (case rtx of None \<Rightarrow> []
                      | Some r \<Rightarrow> ssrc_line r msid @ ''a=ssrc-group:FID '' @ to_str ssrc @ '' '' @ to_str r @ crlf) @
                     names ssrc rtx)
               | _ \<Rightarrow> fail engine_error))))"

section \<open>Offers\<close>

text \<open>What to receive of a kind: not said, a flag, or a number of lines.\<close>

datatype wanted = Unset | Flag bool | Count int

record offer_options =
  oo_legacy :: bool
  oo_audio :: wanted
  oo_video :: wanted

definition lines_wanted :: "wanted \<Rightarrow> string \<Rightarrow> pc \<Rightarrow> int" where
  "lines_wanted w kind s =
     (case w of Unset \<Rightarrow> int (length (filter (\<lambda>t. sl_kind t = kind) (slots s)))
      | Flag b \<Rightarrow> if b then 1 else 0 | Count n \<Rightarrow> n)"

text \<open>Lines beyond the wanted number do not receive; the numbers left are those of new lines.\<close>

fun mark_lines :: "int \<Rightarrow> int \<Rightarrow> slot list \<Rightarrow> slot list \<times> int \<times> int" where
  "mark_lines a v [] = ([], a, v)"
| "mark_lines a v (t # ts) =
     (let a = (if sl_kind t = ''audio'' then a - 1 else a); v = (if sl_kind t = ''video'' then v - 1 else v);
          t = (if sl_kind t = ''audio'' \<and> a < 0 \<or> sl_kind t = ''video'' \<and> v < 0 then t\<lparr>sl_want_receive := False\<rparr> else t);
          (ts, a, v) = mark_lines a v ts
      in (t # ts, a, v))"

function add_lines :: "int \<Rightarrow> int \<Rightarrow> pc \<Rightarrow> pc" where
  "add_lines a v s =
     (if 0 < a \<or> 0 < v
      then add_lines (if 0 < a then a - 1 else a) (if 0 < v then v - 1 else v)
             ((if 0 < v then createTransceiver ''video'' else id) ((if 0 < a then createTransceiver ''audio'' else id) s))
      else s)"
  by pat_completeness auto
termination
  by (relation "measure (\<lambda>(a, v, s). nat a + nat v)") auto

declare add_lines.simps [simp del]

definition reuse_payload :: "description option \<Rightarrow> sdp_codec \<Rightarrow> sdp_codec" where
  "reuse_payload remote c =
     fold (\<lambda>r c. if to_lower (codec_name c) = to_lower (codec_name r) \<and> strict_eq (clockRate c) (clockRate r)
                 then c\<lparr>preferredPayloadType := payloadType r\<rparr> else c)
       (case remote of Some d \<Rightarrow> codecs d | None \<Rightarrow> []) c"

definition allow_asymmetry :: "sdp_codec \<Rightarrow> sdp_codec" where
  "allow_asymmetry c =
     (if codec_name c = ''H264'' \<and> strict_eq (field (parameters c) ''level-asymmetry-allowed'') Undef
      then c\<lparr>parameters := prop_set (parameters c) ''level-asymmetry-allowed'' (Str ''1'')\<rparr> else c)"

definition reuse_ext :: "description option \<Rightarrow> extension \<Rightarrow> extension" where
  "reuse_ext remote x =
     fold (\<lambda>r x. if strict_eq (ext_uri x) (ext_uri r) then x\<lparr>ext_id := ext_id r\<rparr> else x)
       (case remote of Some d \<Rightarrow> headerExtensions d | None \<Rightarrow> []) x"

definition offer_caps :: "env \<Rightarrow> slot \<Rightarrow> description" where
  "offer_caps e t =
     (let d = without_rtx e (sender_caps e (sl_kind t))
      in d\<lparr>codecs := map (\<lambda>c. reuse_payload (sl_remote t) (allow_asymmetry c)) (codecs d),
           headerExtensions := map (reuse_ext (sl_remote t)) (headerExtensions d)\<rparr>)"

text \<open>The source of the retransmission is the next number.\<close>

definition add_rtx :: "env \<Rightarrow> string \<Rightarrow> (jsval \<times> jsval option) list \<Rightarrow> (jsval \<times> jsval option) list" where
  "add_rtx e kind es =
     (case es of
        (Num x, None) # es' \<Rightarrow> if 15019 \<le> edgeVersion e \<and> kind = ''video'' then (Num x, Some (Num (num_add x (num_of 1)))) # es' else es
      | _ \<Rightarrow> es)"

definition prepare_line :: "env \<Rightarrow> nat \<Rightarrow> unit act" where
  "prepare_line e i =
     seq (change (slot_upd i (\<lambda>t. t\<lparr>sl_mid := or_val (sl_mid t) (Str (new_mid e i))\<rparr>))) (\<lambda>_.
     seq (change (\<lambda>s. if sl_gatherer (slots s ! i) \<noteq> None then s
                        else let (g, s) = createIceGatherer i (usingBundle s) s in slot_upd i (\<lambda>t. t\<lparr>sl_gatherer := g\<rparr>) s)) (\<lambda>_.
     seq (slot_at i) (\<lambda>t.
     let es = (case sl_send t of Some es \<Rightarrow> es | None \<Rightarrow> [(Num (num_of ((2 * int i + 1) * 1001)), None)]);
         es = (if sl_track t \<noteq> None then add_rtx e (sl_kind t) es else es)
     in seq (change (\<lambda>s. if sl_want_receive t
               then let (x, s) = new_receiver e (sl_kind t) s in slot_upd i (\<lambda>t. t\<lparr>sl_receiver := Some x\<rparr>) s else s)) (\<lambda>_.
        change (slot_upd i (\<lambda>t. t\<lparr>sl_local := Some (offer_caps e t), sl_send := Some es\<rparr>))))))"

fun texts :: "('a \<Rightarrow> string act) \<Rightarrow> 'a list \<Rightarrow> string act" where
  "texts f [] = ret []"
| "texts f (x # xs) = seq (f x) (\<lambda>a. seq (texts f xs) (\<lambda>b. ret (a @ b)))"

definition candidate_lines :: "gatherer \<Rightarrow> string result" where
  "candidate_lines g =
     bind_result (results (map (\<lambda>c. writeCandidate (prop_set c ''component'' (Num (num_of 1)))) (ga_candidates g)))
       (\<lambda>cs. Inr (concat (map (\<lambda>c. ''a='' @ c @ crlf) cs) @
                  (if ga_state g = Str ''completed'' then ''a=end-of-candidates'' @ crlf else [])))"

definition offer_line :: "env \<Rightarrow> nat \<Rightarrow> string act" where
  "offer_line e i =
     seq (slot_at i) (\<lambda>t. seq (need (sl_local t)) (\<lambda>caps. look (\<lambda>s.
     seq (shim_writeMediaSection e t caps ''offer'' (dtlsRole s)) (\<lambda>sdp.
     seq (case sl_gatherer t of
            Some g \<Rightarrow> if iceGatheringState s \<noteq> ''new'' \<and> (i = 0 \<or> \<not> usingBundle s)
                      then lift (candidate_lines (gatherers s ! g)) else ret []
          | None \<Rightarrow> ret []) (\<lambda>cs. ret (sdp @ ''a=rtcp-rsize'' @ crlf @ cs))))))"

definition bundle_line :: "pc \<Rightarrow> string" where
  "bundle_line s = ''a=group:BUNDLE '' @ join_vals '' '' (map sl_mid (slots s)) @ crlf"

definition trickle_line :: string where
  "trickle_line = ''a=ice-options:trickle'' @ crlf"

text \<open>The head of the description: the session and its version, which every description increments.\<close>

definition boilerplate :: "env \<Rightarrow> string act" where
  "boilerplate e = look (\<lambda>s.
     seq (change (\<lambda>s. s\<lparr>sdpVersion := sdpVersion s + 1\<rparr>)) (\<lambda>_.
       ret (writeSessionBoilerplate (Str (sdpSessionId e)) (Num (num_of (sdpVersion s))) Undef (sdpSessionId e))))"

definition createOffer :: "env \<Rightarrow> offer_options option \<Rightarrow> string act" where
  "createOffer e opts = look (\<lambda>s.
     if isClosed s then fail (makeError ''InvalidStateError'' ''Can not call createOffer after close'')
     else if (case opts of Some oo \<Rightarrow> oo_legacy oo | None \<Rightarrow> False)
     then fail \<lparr>er_name = ''TypeError'', er_message = ''Legacy mandatory/optional constraints not supported.'', er_code = Undef\<rparr>
     else let a = lines_wanted (case opts of Some oo \<Rightarrow> oo_audio oo | None \<Rightarrow> Unset) ''audio'' s;
              v = lines_wanted (case opts of Some oo \<Rightarrow> oo_video oo | None \<Rightarrow> Unset) ''video'' s;
              (ts, a, v) = mark_lines a v (slots s)
          in seq (change (\<lambda>s. add_lines a v (s\<lparr>slots := ts\<rparr>))) (\<lambda>_.
             seq (boilerplate e) (\<lambda>sdp. look (\<lambda>s.
             seq (each (prepare_line e) [0..<length (slots s)]) (\<lambda>_. look (\<lambda>s.
             seq (texts (offer_line e) [0..<length (slots s)]) (\<lambda>body.
               ret (sdp @ (if bundlePolicy s \<noteq> ''max-compat'' then bundle_line s else []) @ trickle_line @ body))))))))"

section \<open>Answers\<close>

definition rejected_line :: "slot \<Rightarrow> string" where
  "rejected_line t =
     (if sl_kind t = ''application''
      then (if sl_protocol t = Str ''DTLS/SCTP'' then ''m=application 0 DTLS/SCTP 5000'' @ crlf
            else ''m=application 0 '' @ to_str (sl_protocol t) @ '' webrtc-datachannel'' @ crlf)
      else if sl_kind t = ''audio'' then ''m=audio 0 UDP/TLS/RTP/SAVPF 0'' @ crlf @ ''a=rtpmap:0 PCMU/8000'' @ crlf
      else if sl_kind t = ''video'' then ''m=video 0 UDP/TLS/RTP/SAVPF 120'' @ crlf @ ''a=rtpmap:120 VP8/90000'' @ crlf
      else []) @
     ''c=IN IP4 0.0.0.0'' @ crlf @ ''a=inactive'' @ crlf @ ''a=mid:'' @ to_str (sl_mid t) @ crlf"

definition sends_kind :: "slot \<Rightarrow> pc \<Rightarrow> bool" where
  "sends_kind t s =
     (case sl_stream t of
        Some x \<Rightarrow> sl_kind t \<in> {''audio'', ''video''} \<and> list_ex (\<lambda>k. tk_kind (tracks s ! k) = sl_kind t) (st_tracks (streams s ! x))
      | None \<Rightarrow> False)"

definition answer_line :: "env \<Rightarrow> nat \<Rightarrow> nat \<Rightarrow> string act" where
  "answer_line e lines i =
     (if lines < i + 1 then ret []
      else seq (slot_at i) (\<lambda>t.
        if sl_rejected t then ret (rejected_line t)
        else look (\<lambda>s.
          seq (if sends_kind t s \<and> 15019 \<le> edgeVersion e \<and> sl_kind t = ''video''
               then (case sl_send t of
                       Some (enc # es) \<Rightarrow> change (slot_upd i (\<lambda>t. t\<lparr>sl_send := Some (add_rtx e (sl_kind t) (enc # es))\<rparr>))
                     | _ \<Rightarrow> fail engine_error)
               else ret ()) (\<lambda>_.
          seq (drop_rtx i) (\<lambda>_. seq (slot_at i) (\<lambda>t. seq (need (sl_local t)) (\<lambda>l. seq (need (sl_remote t)) (\<lambda>r.
          seq (shim_writeMediaSection e t (getCommonCapabilities l r) ''answer'' (dtlsRole s)) (\<lambda>sdp.
            ret (sdp @ (case sl_rtcp t of
                          Some rtcp \<Rightarrow> if truthy (field rtcp ''reducedSize'') then ''a=rtcp-rsize'' @ crlf else []
                        | None \<Rightarrow> [])))))))))))"

definition createAnswer :: "env \<Rightarrow> string act" where
  "createAnswer e = look (\<lambda>s.
     if isClosed s then fail (makeError ''InvalidStateError'' ''Can not call createAnswer after close'')
     else if signalingState s \<notin> {''have-remote-offer'', ''have-local-pranswer''}
     then fail (makeError ''InvalidStateError'' (''Can not call createAnswer in signalingState '' @ signalingState s))
     else seq (boilerplate e) (\<lambda>sdp. look (\<lambda>s.
          seq (need (remoteDescription s)) (\<lambda>d.
          seq (texts (answer_line e (length (getMediaSections (snd d)))) [0..<length (slots s)]) (\<lambda>body.
            ret (sdp @ (if usingBundle s then bundle_line s else []) @ trickle_line @ body))))))"

section \<open>The connection as a machine\<close>

text \<open>The calls of the page, what the browser reports, the timers, and the objects a page makes.\<close>

datatype step =
    Add_track addr addr
  | Add_stream addr
  | Remove_track "addr option"
  | Remove_stream addr
  | Create_offer "offer_options option"
  | Create_answer
  | Set_local string string
  | Set_remote string string
  | Add_ice "candidate_init option"
  | Close
  | Ice_state addr string
  | Dtls_state addr string
  | Dtls_error addr
  | Local_candidate addr "jsval props option"
  | Timer nat
  | Page_track track
  | Page_stream stream

fun pc_step :: "env \<Rightarrow> step \<Rightarrow> pc \<Rightarrow> pc" where
  "pc_step e (Add_track t x) s = snd (addTrack t x s)"
| "pc_step e (Add_stream x) s = snd (addStream e x s)"
| "pc_step e (Remove_track x) s = snd (removeTrack x s)"
| "pc_step e (Remove_stream x) s = snd (removeStream x s)"
| "pc_step e (Create_offer opts) s = snd (createOffer e opts s)"
| "pc_step e Create_answer s = snd (createAnswer e s)"
| "pc_step e (Set_local type sdp) s = snd (setLocalDescription e type sdp s)"
| "pc_step e (Set_remote type sdp) s = snd (setRemoteDescription e type sdp s)"
| "pc_step e (Add_ice c) s = snd (addIceCandidate c s)"
| "pc_step e Close s = close s"
| "pc_step e (Ice_state a st) s = ice_changed a st s"
| "pc_step e (Dtls_state d st) s = dtls_changed d st s"
| "pc_step e (Dtls_error d) s = dtls_error d s"
| "pc_step e (Local_candidate g c) s = snd (local_candidate e g c s)"
| "pc_step e (Timer n) s = fire e n s"
| "pc_step e (Page_track t) s = s\<lparr>tracks := tracks s @ [t]\<rparr>"
| "pc_step e (Page_stream x) s = s\<lparr>streams := streams s @ [x]\<rparr>"

definition pc_run :: "env \<Rightarrow> step list \<Rightarrow> pc \<Rightarrow> pc" where
  "pc_run e steps s = fold (pc_step e) steps s"

end
