(* ===== verification/EdgeInternal.thy ===== *)
theory EdgeInternal
  imports EdgeOffer
begin

text \<open>
  What the inner operations of the Edge peer connection leave alone. The \<open>core\<close> of a connection is what the
  properties are about: signalling, closing, events, pending negotiation, who sends what on which line. The
  locale \<open>internal_invariant\<close> proves once, for every predicate on the core that survives dispatched events and new
  lines, that the inner operations keep it.
\<close>

section \<open>Keeping a predicate\<close>

named_theorems keeps_rules \<open>operations that keep a predicate\<close>

definition keeps :: "(pc \<Rightarrow> bool) \<Rightarrow> 'a act \<Rightarrow> bool" where
  "keeps P m \<longleftrightarrow> (\<forall>s. P s \<longrightarrow> P (snd (m s)))"

lemma keepsI: "(\<And>s. P s \<Longrightarrow> P (snd (m s))) \<Longrightarrow> keeps P m"
  by (simp add: keeps_def)

lemma keepsD: "keeps P m \<Longrightarrow> P s \<Longrightarrow> P (snd (m s))"
  by (simp add: keeps_def)

lemma keeps_ret [keeps_rules]: "keeps P (ret x)"
  by (simp add: keeps_def ret_def)

lemma keeps_fail [keeps_rules]: "keeps P (fail e)"
  by (simp add: keeps_def fail_def)

lemma keeps_need [keeps_rules]: "keeps P (need x)"
  by (auto simp: keeps_def need_def ret_def fail_def split: option.splits)

lemma keeps_lift [keeps_rules]: "keeps P (lift x)"
  by (auto simp: keeps_def lift_def ret_def fail_def split: sum.splits)

lemma keeps_seq [keeps_rules]: "keeps P m \<Longrightarrow> (\<And>x. keeps P (f x)) \<Longrightarrow> keeps P (seq m f)"
  unfolding keeps_def seq_def by (auto split: prod.splits sum.splits)

lemma keeps_change: "(\<And>s. P s \<Longrightarrow> P (f s)) \<Longrightarrow> keeps P (change f)"
  by (simp add: keeps_def change_def)

lemma keeps_look [keeps_rules]: "(\<And>t. keeps P (f t)) \<Longrightarrow> keeps P (look f)"
  by (simp add: keeps_def look_def)

lemma keeps_look_at: "(\<And>s. P s \<Longrightarrow> P (snd (f s s))) \<Longrightarrow> keeps P (look f)"
  by (simp add: keeps_def look_def)

lemma keeps_each [keeps_rules]: "(\<And>x. keeps P (f x)) \<Longrightarrow> keeps P (each f xs)"
  by (induction xs) (simp_all add: keeps_rules)

lemma keeps_texts [keeps_rules]: "(\<And>x. keeps P (f x)) \<Longrightarrow> keeps P (texts f xs)"
  by (induction xs) (simp_all add: keeps_rules)

lemma keeps_remote_sections [keeps_rules]: "(\<And>im acc. keeps P (f im acc)) \<Longrightarrow> keeps P (remote_sections f ims acc)"
  by (induction ims arbitrary: acc) (simp_all add: keeps_rules)

lemma keeps_if [keeps_rules]: "(c \<Longrightarrow> keeps P m) \<Longrightarrow> (\<not> c \<Longrightarrow> keeps P n) \<Longrightarrow> keeps P (if c then m else n)"
  by simp

lemma keeps_option [keeps_rules]:
  "keeps P m \<Longrightarrow> (\<And>x. keeps P (f x)) \<Longrightarrow> keeps P (case y of None \<Rightarrow> m | Some x \<Rightarrow> f x)"
  by (cases y) simp_all

lemma keeps_list [keeps_rules]:
  "keeps P m \<Longrightarrow> (\<And>x xs. keeps P (f x xs)) \<Longrightarrow> keeps P (case y of [] \<Rightarrow> m | x # xs \<Rightarrow> f x xs)"
  by (cases y) simp_all

lemma keeps_prod [keeps_rules]: "(\<And>a b. keeps P (f a b)) \<Longrightarrow> keeps P (case y of (a, b) \<Rightarrow> f a b)"
  by (cases y) simp

lemma keeps_Let [keeps_rules]: "(\<And>x. keeps P (f x)) \<Longrightarrow> keeps P (let x = y in f x)"
  by simp

lemma keeps_slot_at [keeps_rules]: "keeps P (slot_at i)"
  by (auto simp: slot_at_def intro!: keeps_rules)

lemma seq_change: "seq (change f) k s = k () (f s)"
  by (simp add: seq_def change_def)

section \<open>The core\<close>

definition slot_core :: "slot \<Rightarrow> addr option \<times> addr option \<times> addr option" where
  "slot_core t = (sl_track t, sl_stream t, sl_sender t)"

record core =
  co_signaling :: string
  co_closed :: bool
  co_events :: "event list"
  co_negotiation :: bool
  co_pending :: nat
  co_slots :: "(addr option \<times> addr option \<times> addr option) list"
  co_streams :: "addr list"
  co_local :: "string option"
  co_remote :: "string option"

definition core :: "pc \<Rightarrow> core" where
  "core s =
     \<lparr>co_signaling = signalingState s, co_closed = isClosed s, co_events = events s, co_negotiation = needNegotiation s,
      co_pending = count_list (tasks s) Negotiate, co_slots = map slot_core (slots s), co_streams = localStreams s,
      co_local = map_option fst (localDescription s), co_remote = map_option fst (remoteDescription s)\<rparr>"

lemma core_slot_upd [simp]: "(\<And>t. slot_core (f t) = slot_core t) \<Longrightarrow> core (slot_upd i f s) = core s"
  by (simp add: core_def slot_upd_def map_update list_update_same_conv)

lemma slot_core_simps [simp]:
  "slot_core (t\<lparr>sl_mid := a\<rparr>) = slot_core t" "slot_core (t\<lparr>sl_gatherer := b\<rparr>) = slot_core t"
  "slot_core (t\<lparr>sl_ice := b\<rparr>) = slot_core t" "slot_core (t\<lparr>sl_dtls := b\<rparr>) = slot_core t"
  "slot_core (t\<lparr>sl_local := c\<rparr>) = slot_core t" "slot_core (t\<lparr>sl_remote := c\<rparr>) = slot_core t"
  "slot_core (t\<lparr>sl_receiver := b\<rparr>) = slot_core t" "slot_core (t\<lparr>sl_send := d\<rparr>) = slot_core t"
  "slot_core (t\<lparr>sl_recv := e\<rparr>) = slot_core t" "slot_core (t\<lparr>sl_rtcp := g\<rparr>) = slot_core t"
  "slot_core (t\<lparr>sl_remote_streams := h\<rparr>) = slot_core t" "slot_core (t\<lparr>sl_want_receive := i\<rparr>) = slot_core t"
  "slot_core (t\<lparr>sl_buffered := j\<rparr>) = slot_core t"
  by (simp_all add: slot_core_def)

lemma core_simps [simp]:
  "core (record_call c s) = core s" "core (gatherer_upd g f s) = core s" "core (ice_upd a h s) = core s"
  "core (s\<lparr>gatherers := gs\<rparr>) = core s" "core (s\<lparr>ices := as\<rparr>) = core s" "core (s\<lparr>dtlss := ds\<rparr>) = core s"
  "core (s\<lparr>senders := ss\<rparr>) = core s" "core (s\<lparr>receivers := rs\<rparr>) = core s" "core (s\<lparr>streams := xs\<rparr>) = core s"
  "core (s\<lparr>tracks := ts\<rparr>) = core s" "core (s\<lparr>pool := p\<rparr>) = core s" "core (s\<lparr>usingBundle := b\<rparr>) = core s"
  "core (s\<lparr>canTrickle := k\<rparr>) = core s" "core (s\<lparr>sdpVersion := v\<rparr>) = core s" "core (s\<lparr>iceGatheringState := st\<rparr>) = core s"
  "core (s\<lparr>iceConnectionState := st\<rparr>) = core s" "core (s\<lparr>connectionState := st\<rparr>) = core s" "core (s\<lparr>dtlsRole := r\<rparr>) = core s"
  "core (s\<lparr>remoteStreams := ys\<rparr>) = core s" "core (s\<lparr>calls := cs\<rparr>) = core s"
  by (simp_all add: core_def record_call_def gatherer_upd_def ice_upd_def)

lemma core_schedule [simp]: "t \<noteq> Negotiate \<Longrightarrow> core (schedule t s) = core s"
  by (simp add: core_def schedule_def)

lemma core_descriptions:
  "localDescription s = Some d \<Longrightarrow> core (s\<lparr>localDescription := Some (fst d, x)\<rparr>) = core s"
  "remoteDescription s = Some d \<Longrightarrow> core (s\<lparr>remoteDescription := Some (fst d, x)\<rparr>) = core s"
  by (simp_all add: core_def)

lemma core_unhandle [simp]: "core (unhandle g s) = core s" "core (unwatch_ice a s) = core s" "core (unwatch_dtls d s) = core s"
  by (simp_all add: unhandle_def unwatch_ice_def unwatch_dtls_def split: option.splits)

lemma core_dispose [simp]: "core (disposeIceAndDtlsTransports i s) = core s"
  by (simp add: disposeIceAndDtlsTransports_def Let_def)

lemma core_share [simp]: "core (share_transports i s) = core s"
  by (simp add: share_transports_def Let_def split: option.splits)

lemma core_createIceGatherer: "createIceGatherer i b s = (g, s') \<Longrightarrow> core s' = core s"
  by (auto simp: createIceGatherer_def split: if_splits list.splits)

lemma core_new_slot: "new_slot kind s = (t, s') \<Longrightarrow> core s' = core s \<and> slots s' = slots s \<and> slot_core t = (None, None, None)"
  by (auto simp: new_slot_def createIceAndDtlsTransports_def Let_def slot_core_def empty_slot_def split: if_splits)

lemma core_new_receiver: "new_receiver e kind s = (x, s') \<Longrightarrow> core s' = core s"
  by (auto simp: new_receiver_def Let_def)

lemma core_stream_under: "stream_under e name b strs s = (x, s') \<Longrightarrow> core s' = core s"
  by (auto simp: stream_under_def Let_def split: option.splits)

lemma core_streams [simp]:
  "core (addTrackToStreamAndFireEvent k x s) = core s" "core (removeTrackFromStreamAndFireEvent k x s) = core s"
  by (simp_all add: addTrackToStreamAndFireEvent_def removeTrackFromStreamAndFireEvent_def)

lemma core_offered_stream: "offered_stream e msid k strs s = (x, s') \<Longrightarrow> core s' = core s"
  by (auto simp: offered_stream_def dest!: core_stream_under split: option.splits prod.splits if_splits)

lemma core_add_new_track: "add_new_track e i msid r acc s = (x, s') \<Longrightarrow> core s' = core s"
  by (auto simp: add_new_track_def Let_def dest!: core_offered_stream split: option.splits prod.splits)

lemma core_fold: "(\<And>x s. core (f x s) = core s) \<Longrightarrow> core (fold f xs s) = core s"
  by (induction xs arbitrary: s) simp_all

lemma core_drop_remote_track [simp]: "core (drop_remote_track i r s) = core s"
  unfolding drop_remote_track_def Let_def by (simp add: core_fold split: option.splits)

lemma core_offered_direction: "offered_direction e i si acc s = (x, s') \<Longrightarrow> core s' = core s"
  by (auto simp: offered_direction_def Let_def dest!: core_new_receiver core_add_new_track split: option.splits prod.splits if_splits)

lemma core_answered_track: "answered_track e i si acc s = (x, s') \<Longrightarrow> core s' = core s"
  by (auto simp: answered_track_def Let_def dest!: core_stream_under split: option.splits prod.splits if_splits)

lemma core_fire_track [simp]: "core (fireAddTrack k r xs s) = core s"
  by (simp add: fireAddTrack_def)

section \<open>Inner operations\<close>

locale internal_invariant =
  fixes P :: "pc \<Rightarrow> bool"
  assumes core_only: "core s = core s' \<Longrightarrow> P s \<Longrightarrow> P s'"
    and dispatched: "P s \<Longrightarrow> P (dispatchEvent ev s)"
    and line_put: "slot_core t = (None, None, None) \<Longrightarrow> P s \<Longrightarrow> P (put_slot i t s)"
begin

lemma same_core:
  assumes "core s' = core s" "P s" shows "P s'"
  by (rule core_only [OF assms(1) [symmetric] assms(2)])

lemma keeps_same: "(\<And>s. core (f s) = core s) \<Longrightarrow> keeps P (change f)"
  by (rule keeps_change) (rule same_core)

lemma line_added: "slot_core t = (None, None, None) \<Longrightarrow> P s \<Longrightarrow> P (s\<lparr>slots := slots s @ [t]\<rparr>)"
  using line_put [of t s "length (slots s)"] by (simp add: put_slot_def)

lemma kept_fields:
  "P s \<Longrightarrow> P (s\<lparr>ices := as\<rparr>)" "P s \<Longrightarrow> P (s\<lparr>dtlss := ds\<rparr>)" "P s \<Longrightarrow> P (s\<lparr>gatherers := gs\<rparr>)"
  "P s \<Longrightarrow> P (s\<lparr>iceGatheringState := st\<rparr>)" "P s \<Longrightarrow> P (s\<lparr>iceConnectionState := st\<rparr>)" "P s \<Longrightarrow> P (s\<lparr>connectionState := st\<rparr>)"
  "P s \<Longrightarrow> P (record_call c s)" "P s \<Longrightarrow> P (gatherer_upd g f s)" "P s \<Longrightarrow> P (ice_upd a h s)"
  "P s \<Longrightarrow> P (s\<lparr>usingBundle := b, canTrickle := k\<rparr>)" "P s \<Longrightarrow> P (s\<lparr>sdpVersion := v\<rparr>)" "P s \<Longrightarrow> P (s\<lparr>senders := ss\<rparr>)"
  "P s \<Longrightarrow> P (s\<lparr>remoteStreams := ys\<rparr>)" "P s \<Longrightarrow> P (share_transports i s)" "P s \<Longrightarrow> P (fireAddTrack t r xs s)"
  by (rule same_core; simp)+

lemma kept_slot_upd: "(\<And>t. slot_core (f t) = slot_core t) \<Longrightarrow> P s \<Longrightarrow> P (slot_upd i f s)"
  by (rule same_core; simp)

lemma kept_schedule: "t \<noteq> Negotiate \<Longrightarrow> P s \<Longrightarrow> P (schedule t s)"
  by (rule same_core; simp)

lemma kept_createTransceiver: "P s \<Longrightarrow> P (createTransceiver kind s)"
proof -
  assume "P s"
  obtain t s' where n: "new_slot kind s = (t, s')" by (cases "new_slot kind s")
  have c: "core s' = core s" "slots s' = slots s" "slot_core t = (None, None, None)" using core_new_slot [OF n] by simp_all
  have "P s'" using core_only [of s s'] c(1) \<open>P s\<close> by simp
  from line_added [OF c(3) this] show ?thesis by (simp add: createTransceiver_def n c(2))
qed

lemma kept_recycle: "P s \<Longrightarrow> P (recycle i kind s)"
proof -
  assume p: "P s"
  obtain t s' where n: "new_slot kind s = (t, s')" by (cases "new_slot kind s")
  have c: "core s' = core s" "slot_core t = (None, None, None)" using core_new_slot [OF n] by simp_all
  have "P s'" using core_only [of s s'] c(1) p by simp
  from line_put [OF c(2) this] show ?thesis using p by (simp add: recycle_def n)
qed

lemma kept_updateIce: "P s \<Longrightarrow> P (updateIceConnectionState s)"
  unfolding updateIceConnectionState_def Let_def by (auto intro: dispatched kept_fields)

lemma kept_updateConnection: "P s \<Longrightarrow> P (updateConnectionState s)"
  unfolding updateConnectionState_def Let_def by (auto intro: dispatched kept_fields)

lemma kept_ice_changed: "P s \<Longrightarrow> P (ice_changed a st s)"
  unfolding ice_changed_def Let_def by (auto intro: kept_updateIce kept_updateConnection kept_fields)

lemma kept_dtls_changed: "P s \<Longrightarrow> P (dtls_changed a st s)"
  unfolding dtls_changed_def Let_def by (auto intro: kept_updateConnection kept_fields)

lemma kept_dtls_error: "P s \<Longrightarrow> P (dtls_error d s)"
  unfolding dtls_error_def Let_def by (auto intro: kept_updateConnection kept_fields)

lemma keeps_gather [keeps_rules]: "keeps P (gather i)"
  unfolding gather_def by (intro keeps_rules keeps_same) simp

lemma kept_gathering: "P s \<Longrightarrow> P (emitGatheringStateChange (s\<lparr>iceGatheringState := st\<rparr>))"
  unfolding emitGatheringStateChange_def by (intro dispatched kept_fields)

lemma kept_tell_gathered: "P s \<Longrightarrow> P (tell_gathered ev s)"
  unfolding tell_gathered_def Let_def by (cases ev) (auto intro: kept_gathering dispatched)

text \<open>The descriptions keep their type when lines are added.\<close>

lemma kept_local_lines:
  "P s \<Longrightarrow> localDescription s = Some d \<Longrightarrow> P (tell_gathered ev (s\<lparr>localDescription := Some (fst d, x)\<rparr>))"
  by (intro kept_tell_gathered same_core [OF core_descriptions(1)])

lemma gatherer_upd_local [simp]: "localDescription (gatherer_upd g f s) = localDescription s"
  by (simp add: gatherer_upd_def)

lemma keeps_onlocalcandidate [keeps_rules]: "keeps P (onlocalcandidate e g mid i cand)"
proof (rule keepsI)
  fix s assume p: "P s"
  have g: "P (gatherer_upd g f s)" for f using p by (rule kept_fields)
  show "P (snd (onlocalcandidate e g mid i cand s))"
  proof (cases "usingBundle s \<and> 0 < i")
    case True
    then show ?thesis using p by (simp add: onlocalcandidate_def look_def ret_def)
  next
    case False
    have d: "P (snd (seq (need (localDescription s)) (\<lambda>d. change (\<lambda>s. tell_gathered ev
        (s\<lparr>localDescription := Some (fst d, x d)\<rparr>))) s'))" if "P s'" "localDescription s' = localDescription s" for ev x s'
      using that kept_local_lines [OF that(1)]
      by (cases "localDescription s") (simp_all add: seq_def need_def change_def ret_def fail_def)
    show ?thesis
    proof (cases cand)
      case None
      then show ?thesis
        using False p d [OF g] by (simp add: onlocalcandidate_def look_def ret_def seq_def [of "change _"] change_def [of "gatherer_upd _ _"])
    next
      case (Some c)
      have "P (snd (seq (describe_candidate e g c) (\<lambda>(text, fields). seq (need (localDescription s))
          (\<lambda>d. change (\<lambda>s. tell_gathered (Some (Candidate_event mid i text fields))
            (s\<lparr>localDescription := Some (fst d, add_line i text (snd d))\<rparr>)))) s'))"
        if "P s'" "localDescription s' = localDescription s" for s'
      proof -
        have "snd (describe_candidate e g c s') = s'"
          by (simp add: describe_candidate_def seq_def lift_def ret_def fail_def split: sum.splits)
        then show ?thesis using d [OF that] that(1)
          by (auto simp: seq_def [of "describe_candidate _ _ _"] split: prod.splits sum.splits)
      qed
      then show ?thesis
        using False p Some g by (simp add: onlocalcandidate_def look_def ret_def seq_def [of "change _"] change_def [of "gatherer_upd _ _"])
    qed
  qed
qed

lemma keeps_local_candidate: "keeps P (local_candidate e g cand)"
  unfolding local_candidate_def
  by (intro keeps_rules keeps_change kept_slot_upd kept_fields) simp_all

lemma keeps_describe_remote [keeps_rules]: "keeps P (describe_remote i line)"
proof (rule keepsI)
  fix s assume "P s"
  then show "P (snd (describe_remote i line s))"
    by (cases "remoteDescription s")
       (auto simp: describe_remote_def look_def seq_def need_def change_def ret_def fail_def intro: same_core [OF core_descriptions(2)])
qed

lemma keeps_end_of_candidates [keeps_rules]: "keeps P (end_of_candidates js)"
  by (induction js) (auto intro!: keeps_rules keeps_change kept_fields)

lemma keeps_bool [keeps_rules]: "keeps P m \<Longrightarrow> keeps P n \<Longrightarrow> keeps P (case b of True \<Rightarrow> m | False \<Rightarrow> n)"
  by (cases b) simp_all

lemma keeps_add_remote_candidate [keeps_rules]: "keeps P (add_remote_candidate a c)"
  unfolding add_remote_candidate_def by (intro keeps_rules keeps_change kept_fields)

lemma keeps_addIceCandidate: "keeps P (addIceCandidate c)"
  unfolding addIceCandidate_def add_to_line_def by (intro keeps_rules)

lemma keeps_start_sender [keeps_rules]: "keeps P (start_sender e t x params)"
  unfolding start_sender_def by (intro keeps_rules keeps_change kept_fields)

lemma keeps_start_receiver [keeps_rules]: "keeps P (start_receiver e i t x params)"
  unfolding start_receiver_def by (intro keeps_rules keeps_change kept_fields kept_slot_upd) simp_all

lemma keeps_transceive [keeps_rules]: "keeps P (transceive e i a b)"
  unfolding transceive_def by (intro keeps_rules)

lemma keeps_start_transports [keeps_rules]: "keeps P (start_transports t ice r dtls r')"
  unfolding start_transports_def by (intro keeps_rules keeps_change kept_fields)

lemma keeps_answer_section [keeps_rules]: "keeps P (answer_section e sp im)"
  unfolding answer_section_def by (intro keeps_rules)

lemma keeps_local_section [keeps_rules]: "keeps P (local_section im)"
  unfolding local_section_def by (intro keeps_rules keeps_change kept_slot_upd) simp_all

lemma keeps_give_candidates [keeps_rules]: "keeps P (give_candidates t cs b)"
  unfolding give_candidates_def by (intro keeps_rules keeps_change kept_fields)

lemma kept_gatherer: "P s \<Longrightarrow> P (if sl_gatherer (slots s ! i) \<noteq> None then s
    else let (g, s) = createIceGatherer i b s in slot_upd i (\<lambda>t. t\<lparr>sl_gatherer := g\<rparr>) s)"
  by (auto intro!: kept_slot_upd dest: core_createIceGatherer same_core split: prod.splits)

lemma keeps_drop_rtx [keeps_rules]: "keeps P (drop_rtx i)"
  unfolding drop_rtx_def by (intro keeps_rules keeps_change kept_slot_upd) simp_all

lemma keeps_offered_rest [keeps_rules]:
  assumes "\<And>r t. slot_core (f r t) = slot_core t"
  shows "keeps P (look (\<lambda>s. let ((receiver, isNewTrack, acc), s') = offered_direction e i si acc s
     in seq (change (\<lambda>_. slot_upd i (f receiver) s')) (\<lambda>_. seq (transceive e i False isNewTrack) (\<lambda>_. ret acc))))"
proof (rule keeps_look_at)
  fix s assume p: "P s"
  obtain r b acc' s' where o: "offered_direction e i si acc s = ((r, b, acc'), s')" by (metis prod_cases3 surj_pair)
  have "P (slot_upd i (f r) s')" using p core_offered_direction [OF o] assms by (intro kept_slot_upd) (auto intro: same_core)
  moreover have "keeps P (seq (transceive e i False b) (\<lambda>_. ret acc'))" by (intro keeps_rules)
  ultimately show "P (snd ((let ((receiver, isNewTrack, acc), s') = offered_direction e i si acc s
     in seq (change (\<lambda>_. slot_upd i (f receiver) s')) (\<lambda>_. seq (transceive e i False isNewTrack) (\<lambda>_. ret acc))) s))"
    unfolding o Let_def by (simp add: seq_change keepsD)
qed

lemma keeps_offered_section [keeps_rules]: "keeps P (offered_section e b i si acc)"
  unfolding offered_section_def
proof (intro keeps_offered_rest keeps_seq keeps_slot_at keeps_give_candidates keeps_change kept_gatherer)
  show "P (slot_upd i (\<lambda>t. t\<lparr>sl_mid := si_mid si\<rparr>) (if i < length (slots s) then s else createTransceiver (si_kind si) s))"
    if "P s" for s
    using that by (intro kept_slot_upd) (simp_all add: kept_createTransceiver)
qed simp_all

lemma keeps_answered_rest:
  "keeps P (look (\<lambda>s. let (acc, s') = answered_track e i si acc s in seq (change (\<lambda>_. s')) (\<lambda>_. ret acc)))"
proof (rule keeps_look_at)
  fix s assume p: "P s"
  obtain acc' s' where a: "answered_track e i si acc s = (acc', s')" by (cases "answered_track e i si acc s")
  then show "P (snd ((let (acc, s') = answered_track e i si acc s in seq (change (\<lambda>_. s')) (\<lambda>_. ret acc)) s))"
    using p core_answered_track [OF a] same_core [of s' s] by (simp add: seq_change ret_def)
qed

lemma keeps_answered_section [keeps_rules]: "keeps P (answered_section e b l i si acc)"
  unfolding answered_section_def
  by (intro keeps_answered_rest keeps_seq keeps_slot_at keeps_give_candidates keeps_change kept_slot_upd
      keeps_transceive keeps_drop_rtx keeps_if keeps_start_transports keeps_ret) simp_all

lemma keeps_remote_section [keeps_rules]: "keeps P (remote_section e type sp b im acc)"
  unfolding remote_section_def read_section_def
proof (intro keeps_rules keeps_change)
  show "P (put_slot i (rejected_slot m k pr) s)" if "P s" for i m k pr s
    using that by (intro line_put) (simp_all add: rejected_slot_def slot_core_def empty_slot_def)
qed (auto intro: kept_recycle kept_fields)

lemma keeps_announce: "keeps P (announce acc)"
proof -
  have t: "keeps P (announce_track x item)" for x item
    unfolding announce_track_def by (intro keeps_rules keeps_change) (simp add: kept_fields)
  have "keeps P (announce_stream recvs x)" for recvs x
    unfolding announce_stream_def by (intro keeps_rules keeps_change t) (auto intro: kept_schedule kept_fields)
  moreover have "P (fold (\<lambda>(track, receiver, y). if y = None then fireAddTrack track receiver [] else id) recvs s)"
    if "P s" for recvs s
    using that by (induction recvs arbitrary: s) (auto simp: kept_fields)
  ultimately show ?thesis
    unfolding announce_def by (intro keeps_rules keeps_change kept_schedule) simp_all
qed

lemma kept_add_lines: "P s \<Longrightarrow> P (add_lines a v s)"
proof (induction a v s rule: add_lines.induct)
  case (1 a v s)
  then show ?case
    by (subst add_lines.simps) (simp add: kept_createTransceiver)
qed

lemma slot_core_marked: "mark_lines a v ts = (ts', a', v') \<Longrightarrow> map slot_core ts' = map slot_core ts"
  by (induction ts arbitrary: a v ts' a' v') (auto simp: Let_def split: prod.splits if_splits)

lemma keeps_initial_track [keeps_rules]: "keeps P (initial_track x)"
  unfolding initial_track_def by (intro keeps_rules keeps_change kept_fields)

lemma keeps_write [keeps_rules]: "keeps P (shim_writeMediaSection e t caps type r)"
  unfolding shim_writeMediaSection_def by (intro keeps_rules)

lemma kept_marked: "mark_lines a v (slots s) = (ts, a', v') \<Longrightarrow> P s \<Longrightarrow> P (s\<lparr>slots := ts\<rparr>)"
  by (rule same_core) (simp_all add: core_def slot_core_marked)

lemma keeps_boilerplate [keeps_rules]: "keeps P (boilerplate e)"
  unfolding boilerplate_def by (intro keeps_rules keeps_change kept_fields)

lemma keeps_prepare_line [keeps_rules]: "keeps P (prepare_line e i)"
  unfolding prepare_line_def
  by (intro keeps_rules keeps_change kept_gatherer kept_slot_upd)
     (auto intro!: kept_slot_upd dest: core_new_receiver same_core split: prod.splits)

lemma keeps_offer_line [keeps_rules]: "keeps P (offer_line e i)"
  unfolding offer_line_def by (intro keeps_rules)

lemma keeps_createOffer: "keeps P (createOffer e opts)"
proof (rule keepsI)
  fix s assume p: "P s"
  let ?a = "lines_wanted (case opts of Some oo \<Rightarrow> oo_audio oo | None \<Rightarrow> Unset) ''audio'' s"
  let ?v = "lines_wanted (case opts of Some oo \<Rightarrow> oo_video oo | None \<Rightarrow> Unset) ''video'' s"
  obtain ts a v where m: "mark_lines ?a ?v (slots s) = (ts, a, v)" by (metis prod_cases3)
  have q: "P (add_lines a v (s\<lparr>slots := ts\<rparr>))" using p m by (intro kept_add_lines kept_marked)
  have r: "keeps P (seq (boilerplate e) (\<lambda>sdp. look (\<lambda>s.
      seq (each (prepare_line e) [0..<length (slots s)]) (\<lambda>_. look (\<lambda>s.
      seq (texts (offer_line e) [0..<length (slots s)]) (\<lambda>body.
        ret (sdp @ (if bundlePolicy s \<noteq> ''max-compat'' then bundle_line s else []) @ trickle_line @ body)))))))"
    by (intro keeps_rules)
  show "P (snd (createOffer e opts s))"
    unfolding createOffer_def
    by (subst look_def) (use p keepsD [OF r q] m in \<open>simp add: fail_def seq_change\<close>)
qed

lemma keeps_createAnswer: "keeps P (createAnswer e)"
proof -
  have l: "keeps P (answer_line e n i)" for n i
    unfolding answer_line_def by (intro keeps_rules keeps_change kept_slot_upd) simp_all
  show ?thesis unfolding createAnswer_def by (intro keeps_rules l)
qed

text \<open>What the descriptions start, before the new state is entered.\<close>

lemma keeps_start_local: "keeps P (start_local e type sdp)"
  unfolding start_local_def by (intro keeps_rules)

lemma keeps_read_remote: "keeps P (read_remote e type sdp)"
  unfolding read_remote_def by (intro keeps_rules keeps_change kept_fields)

lemma kept_run_task: "t \<noteq> Negotiate \<Longrightarrow> P s \<Longrightarrow> P (run_task e t s)"
proof -
  assume "t \<noteq> Negotiate" and p: "P s"
  have "P (fold candidate_timeout ts s)" for ts
    using p by (induction ts arbitrary: s) (auto simp: candidate_timeout_def kept_fields split: option.splits)
  moreover have "keeps P (each (\<lambda>c. look (\<lambda>s. seq (need (ga_handler (gatherers s ! g))) (\<lambda>(mid, i). onlocalcandidate e g mid i c))) cs)" for g cs
    by (intro keeps_rules)
  ultimately show ?thesis
    using p \<open>t \<noteq> Negotiate\<close> by (cases t) (auto simp: run_task_def dispatched keepsD split: option.splits)
qed

end

section \<open>All operations\<close>

text \<open>
  A predicate that also survives the changes of the core itself is kept by every step: a track put on a free line or taken off,
  the pending negotiation, a description that is allowed, closing.
\<close>

definition waiting_dropped :: "nat \<Rightarrow> pc \<Rightarrow> pc" where
  "waiting_dropped n s = s\<lparr>tasks := take n (tasks s) @ drop (Suc n) (tasks s)\<rparr>"

definition track_put :: "nat \<Rightarrow> addr \<Rightarrow> addr \<Rightarrow> pc \<Rightarrow> pc" where
  "track_put i track stream s =
     (let s = (if stream \<in> set (localStreams s) then s else s\<lparr>localStreams := localStreams s @ [stream]\<rparr>); x = length (senders s);
          s = s\<lparr>senders := senders s @ [\<lparr>sd_track = track, sd_initial = None\<rparr>]\<rparr>
      in slot_upd i (\<lambda>t. t\<lparr>sl_track := Some track, sl_stream := Some stream, sl_sender := Some x\<rparr>) s)"

definition track_taken :: "nat \<Rightarrow> pc \<Rightarrow> pc" where
  "track_taken i s =
     (let stream = sl_stream (slots s ! i);
          s = slot_upd i (\<lambda>t. t\<lparr>sl_sender := None, sl_track := None, sl_stream := None\<rparr>) s
      in case stream of
           Some x \<Rightarrow> if Some x \<notin> set (map sl_stream (slots s)) \<and> x \<in> set (localStreams s)
                     then s\<lparr>localStreams := remove1 x (localStreams s)\<rparr> else s
         | None \<Rightarrow> s)"

definition may_enter :: "string \<Rightarrow> string \<Rightarrow> pc \<Rightarrow> bool" where
  "may_enter action type s \<longleftrightarrow> type \<in> {''offer'', ''answer''} \<and> \<not> isClosed s \<and>
     isActionAllowedInSignalingState action type (signalingState s) = Inr True"

lemma internal_may_enter: "internal_invariant (may_enter action type)"
  by unfold_locales (auto simp: may_enter_def core_def dispatchEvent_def put_slot_def)

lemma internal_conj: "internal_invariant P \<Longrightarrow> internal_invariant Q \<Longrightarrow> internal_invariant (\<lambda>s. P s \<and> Q s)"
  unfolding internal_invariant_def by blast

lemma guarded_cases:
  "(\<exists>e. guarded action side type body s = (Inl e, s) \<and> \<not> may_enter action type s) \<or>
   guarded action side type body s = body s \<and> may_enter action type s"
proof (cases "type \<in> {''offer'', ''answer''}")
  case False
  then show ?thesis by (auto simp: guarded_def look_def fail_def may_enter_def)
next
  case True
  then show ?thesis
    by (cases "isActionAllowedInSignalingState action type (signalingState s)")
       (auto simp: guarded_def look_def fail_def may_enter_def seq_def lift_def ret_def)
qed

locale media_invariant = internal_invariant +
  assumes negotiation: "P s \<Longrightarrow> P (maybeFireNegotiationNeeded s)"
    and put: "P s \<Longrightarrow> \<not> isClosed s \<Longrightarrow> i < length (slots s) \<Longrightarrow> sl_track (slots s ! i) = None \<Longrightarrow>
      \<forall>t \<in> set (slots s). sl_track t \<noteq> Some track \<Longrightarrow> P (track_put i track stream s)"
    and taken: "P s \<Longrightarrow> \<not> isClosed s \<Longrightarrow> i < length (slots s) \<Longrightarrow> P (track_taken i s)"
    and negotiated: "P s \<Longrightarrow> n < length (tasks s) \<Longrightarrow> tasks s ! n = Negotiate \<Longrightarrow> P (run_task e Negotiate (waiting_dropped n s))"
begin

lemma free_line_SomeD: "free_line kind ts = Some i \<Longrightarrow> i < length ts \<and> sl_track (ts ! i) = None"
proof -
  assume f: "free_line kind ts = Some i"
  let ?is = "filter (\<lambda>i. sl_track (ts ! i) = None \<and> sl_kind (ts ! i) = kind) [0..<length ts]"
  have "?is \<noteq> []" "last ?is = i" using f by (auto simp: free_line_def split: list.splits)
  then have "i \<in> set ?is" using last_in_set [of ?is] by simp
  then show ?thesis by simp
qed

lemma slots_createTransceiver: "\<exists>t. slots (createTransceiver kind s) = slots s @ [t] \<and> sl_track t = None \<and> isClosed (createTransceiver kind s) = isClosed s"
proof -
  obtain t s' where n: "new_slot kind s = (t, s')" by (cases "new_slot kind s")
  have "slots s' = slots s" "slot_core t = (None, None, None)" "core s' = core s" using core_new_slot [OF n] by simp_all
  then show ?thesis by (auto simp: createTransceiver_def n slot_core_def core_def)
qed

lemma slots_negotiation [simp]: "slots (maybeFireNegotiationNeeded s) = slots s" "isClosed (maybeFireNegotiationNeeded s) = isClosed s"
  by (simp_all add: maybeFireNegotiationNeeded_def schedule_def)

lemma keeps_addTrack: "keeps P (addTrack k x)"
proof (rule keepsI)
  fix s assume p: "P s"
  show "P (snd (addTrack k x s))"
  proof (cases "isClosed s \<or> list_ex (\<lambda>t. sl_track t = Some k) (slots s)")
    case True
    then show ?thesis using p by (auto simp: addTrack_def look_def fail_def)
  next
    case False
    let ?kind = "tk_kind (tracks s ! k)"
    let ?i = "case free_line ?kind (slots s) of Some i \<Rightarrow> i | None \<Rightarrow> length (slots s)"
    let ?s = "maybeFireNegotiationNeeded (case free_line ?kind (slots s) of Some _ \<Rightarrow> s | None \<Rightarrow> createTransceiver ?kind s)"
    have "snd (addTrack k x s) = track_put ?i k x ?s"
      using False by (auto simp: addTrack_def look_def seq_change ret_def Let_def track_put_def list_ex_iff)
    moreover have "P (track_put ?i k x ?s)"
    proof (rule put)
      show "P ?s" using p by (auto intro!: negotiation kept_createTransceiver split: option.splits)
      show "\<not> isClosed ?s" "?i < length (slots ?s)" "sl_track (slots ?s ! ?i) = None"
          "\<forall>t \<in> set (slots ?s). sl_track t \<noteq> Some k"
        using False slots_createTransceiver [of ?kind s] free_line_SomeD [of ?kind "slots s"]
        by (auto simp: list_ex_iff split: option.splits)
    qed
    ultimately show ?thesis by simp
  qed
qed

lemma keeps_addStream: "keeps P (addStream e x)"
proof -
  have a: "keeps P (each (\<lambda>t. seq (addTrack t y) (\<lambda>_. ret ())) ts)" for y ts
    by (intro keeps_rules keeps_addTrack)
  show ?thesis
    unfolding addStream_def
  proof (rule keeps_look_at)
    fix s assume p: "P s"
    obtain c s' where c: "clone_stream e x s = (c, s')" by (cases "clone_stream e x s")
    have "core s' = core s" using c by (auto simp: clone_stream_def Let_def)
    then have "P s'" using p by (rule same_core)
    then show "P (snd ((if 15025 \<le> edgeVersion e
        then each (\<lambda>t. seq (addTrack t x) (\<lambda>_. ret ())) (st_tracks (streams s ! x))
        else let (c, s) = clone_stream e x s
          in seq (change (\<lambda>_. s)) (\<lambda>_. each (\<lambda>t. seq (addTrack t c) (\<lambda>_. ret ())) (st_tracks (streams s ! c)))) s))"
      using p keepsD [OF a] by (simp add: c seq_change)
  qed
qed

lemma keeps_removeTrack: "keeps P (removeTrack x)"
proof (rule keepsI)
  fix s assume p: "P s"
  show "P (snd (removeTrack x s))"
  proof (cases "isClosed s \<or> x = None \<or> line_of_sender (the x) (slots s) = None")
    case True
    then show ?thesis using p by (cases x) (auto simp: removeTrack_def look_def fail_def)
  next
    case False
    then obtain y i where y: "x = Some y" "line_of_sender y (slots s) = Some i" by (cases x) auto
    have i: "i < length (slots s)" using find_SomeD [OF y(2) [unfolded line_of_sender_def]] by simp
    have "snd (removeTrack x s) = maybeFireNegotiationNeeded (track_taken i (record_call (Stop_sender y) s))"
      using False y i by (simp add: removeTrack_def look_def change_def track_taken_def record_call_def Let_def)
    moreover have "P (track_taken i (record_call (Stop_sender y) s))"
      using p False i by (intro taken kept_fields) (simp_all add: record_call_def)
    ultimately show ?thesis using negotiation by simp
  qed
qed

lemma keeps_removeStream: "keeps P (removeStream x)"
  unfolding removeStream_def by (intro keeps_rules keeps_removeTrack)

lemma kept_fire: "P s \<Longrightarrow> P (fire e n s)"
proof -
  assume p: "P s"
  show ?thesis
  proof (cases "n < length (tasks s)")
    case True
    have f: "fire e n s = run_task e (tasks s ! n) (waiting_dropped n s)" using True by (simp add: fire_def waiting_dropped_def)
    show ?thesis
    proof (cases "tasks s ! n = Negotiate")
      case t: True
      then show ?thesis using negotiated [OF p True t] f by simp
    next
      case False
      have "count_list (tasks s) Negotiate = count_list (take n (tasks s) @ (tasks s ! n) # drop (Suc n) (tasks s)) Negotiate"
        using True by (simp add: id_take_nth_drop [symmetric])
      then have "core (waiting_dropped n s) = core s" using False by (simp add: core_def waiting_dropped_def)
      then have "P (waiting_dropped n s)" using p by (rule same_core)
      then show ?thesis using False f kept_run_task by simp
    qed
  qed (simp add: fire_def p)
qed

lemma kept_media_step:
  "(\<And>type sdp. st \<noteq> Set_local type sdp \<and> st \<noteq> Set_remote type sdp) \<Longrightarrow> st \<noteq> Close \<Longrightarrow> P s \<Longrightarrow> P (pc_step e st s)"
  using keepsD [OF keeps_addTrack] keepsD [OF keeps_addStream] keepsD [OF keeps_removeTrack] keepsD [OF keeps_removeStream]
    keepsD [OF keeps_createOffer] keepsD [OF keeps_createAnswer] keepsD [OF keeps_addIceCandidate] keepsD [OF keeps_local_candidate]
    kept_ice_changed kept_dtls_changed kept_dtls_error kept_fire
  by (cases st) (auto intro: same_core)

end

locale connection_invariant = media_invariant +
  assumes entering: "P s \<Longrightarrow> may_enter ''setLocalDescription'' type s \<Longrightarrow> P (enter_local type sdp s)"
      "P s \<Longrightarrow> may_enter ''setRemoteDescription'' type s \<Longrightarrow> P (enter_remote type sdp s)"
    and closing: "P s \<Longrightarrow> P (updateSignalingState ''closed'' (s\<lparr>isClosed := True\<rparr>))"
begin

lemma may_enter_kept: "core s' = core s \<Longrightarrow> may_enter action type s \<Longrightarrow> may_enter action type s'"
  by (simp add: may_enter_def core_def)

lemma internal_both: "internal_invariant (\<lambda>s. P s \<and> may_enter action type s)"
  by (rule internal_conj [OF internal_invariant_axioms internal_may_enter])

lemma snd_seq: "m s = (r, t) \<Longrightarrow> snd (seq m f s) = (case r of Inl e \<Rightarrow> t | Inr x \<Rightarrow> snd (f x t))"
  by (cases r) (simp_all add: seq_def)

lemma keeps_setLocalDescription: "keeps P (setLocalDescription e type sdp)"
proof (rule keepsI)
  fix s assume p: "P s"
  have "P (snd (seq (start_local e type sdp) (\<lambda>_. change (enter_local type sdp)) s))" if m: "may_enter ''setLocalDescription'' type s"
  proof -
    obtain r t where rt: "start_local e type sdp s = (r, t)" by (cases "start_local e type sdp s")
    have "P t \<and> may_enter ''setLocalDescription'' type t"
      using keepsD [OF internal_invariant.keeps_start_local [OF internal_both [of "''setLocalDescription''" type], of e type sdp], of s] p m rt by simp
    then show ?thesis using entering(1) by (auto simp: snd_seq [of "start_local e type sdp" s, OF rt] change_def split: sum.splits)
  qed
  then show "P (snd (setLocalDescription e type sdp s))"
    using guarded_cases [of "''setLocalDescription''" "''local''" type "seq (start_local e type sdp) (\<lambda>_. change (enter_local type sdp))" s] p
    unfolding setLocalDescription_def by auto
qed

lemma keeps_setRemoteDescription: "keeps P (setRemoteDescription e type sdp)"
proof (rule keepsI)
  fix s assume p: "P s"
  let ?m = "seq (read_remote e type sdp) (\<lambda>acc. seq (change (enter_remote type sdp)) (\<lambda>_. announce acc))"
  have "P (snd (?m s))" if m: "may_enter ''setRemoteDescription'' type s"
  proof -
    obtain r t where rt: "read_remote e type sdp s = (r, t)" by (cases "read_remote e type sdp s")
    have "P t \<and> may_enter ''setRemoteDescription'' type t"
      using keepsD [OF internal_invariant.keeps_read_remote [OF internal_both [of "''setRemoteDescription''" type], of e type sdp], of s] p m rt by simp
    then show ?thesis
      using entering(2) keepsD [OF keeps_announce] by (auto simp: snd_seq [of "read_remote e type sdp" s, OF rt] seq_change split: sum.splits)
  qed
  then show "P (snd (setRemoteDescription e type sdp s))"
    using guarded_cases [of "''setRemoteDescription''" "''remote''" type ?m s] p
    unfolding setRemoteDescription_def by auto
qed

lemma kept_close: "P s \<Longrightarrow> P (close s)"
proof -
  assume p: "P s"
  have "core (fold stop_slot ts s) = core s" for ts by (rule core_fold) (simp add: stop_slot_def)
  then have "P (fold stop_slot (slots s) s)" using p by (rule same_core)
  then show ?thesis unfolding close_def by (rule closing)
qed

lemma kept_step: "P s \<Longrightarrow> P (pc_step e st s)"
  using keepsD [OF keeps_setLocalDescription] keepsD [OF keeps_setRemoteDescription] kept_close kept_media_step [of st s e]
  by (cases st) auto

lemma kept_run: "P s \<Longrightarrow> P (pc_run e sts s)"
  unfolding pc_run_def by (induction sts arbitrary: s) (simp_all add: kept_step)

end

end
