(* ===== verification/EdgeProperties.thy ===== *)
theory EdgeProperties
  imports EdgeInternal
begin

text \<open>
  The properties of the Edge peer connection: its signalling refines the offer/answer protocol, a closed connection
  is silent, a track is sent once, at most one negotiation is pending, candidates are written into the description.
\<close>

section \<open>Silence after closing\<close>

lemma maybe_fire_simps [simp]:
  "isClosed (maybeFireNegotiationNeeded s) = isClosed s" "signalingState (maybeFireNegotiationNeeded s) = signalingState s"
  "events (maybeFireNegotiationNeeded s) = events s" "localStreams (maybeFireNegotiationNeeded s) = localStreams s"
  by (simp_all add: maybeFireNegotiationNeeded_def schedule_def)

lemma slot_upd_simps [simp]:
  "isClosed (slot_upd i f s) = isClosed s" "signalingState (slot_upd i f s) = signalingState s" "events (slot_upd i f s) = events s"
  "tasks (slot_upd i f s) = tasks s" "needNegotiation (slot_upd i f s) = needNegotiation s"
  "localStreams (slot_upd i f s) = localStreams s"
  by (simp_all add: slot_upd_def)

lemma track_put_simps [simp]:
  "isClosed (track_put i k x s) = isClosed s" "signalingState (track_put i k x s) = signalingState s"
  "events (track_put i k x s) = events s" "tasks (track_put i k x s) = tasks s" "needNegotiation (track_put i k x s) = needNegotiation s"
  by (simp_all add: track_put_def Let_def)

lemma track_taken_simps [simp]:
  "isClosed (track_taken i s) = isClosed s" "signalingState (track_taken i s) = signalingState s"
  "events (track_taken i s) = events s" "tasks (track_taken i s) = tasks s" "needNegotiation (track_taken i s) = needNegotiation s"
  by (simp_all add: track_taken_def Let_def split: option.splits)

definition silent :: "event list \<Rightarrow> pc \<Rightarrow> bool" where
  "silent v s \<longleftrightarrow> isClosed s \<and> signalingState s = ''closed'' \<and> events s = v"

interpretation silence: connection_invariant "silent v" for v
proof unfold_locales
  show "silent v s'" if "core s = core s'" "silent v s" for s s'
    using that by (simp add: silent_def core_def)
  show "silent v (dispatchEvent ev s)" if "silent v s" for s ev
    using that by (simp add: silent_def dispatchEvent_def)
  show "silent v (put_slot i t s)" if "silent v s" for s t i
    using that by (simp add: silent_def put_slot_def)
  show "silent v (maybeFireNegotiationNeeded s)" if "silent v s" for s
    using that by (simp add: silent_def)
  show "silent v (run_task e Negotiate (waiting_dropped n s))" if "silent v s" for s n e
    using that by (simp add: silent_def run_task_def waiting_dropped_def dispatchEvent_def)
  show "silent v (updateSignalingState ''closed'' (s\<lparr>isClosed := True\<rparr>))" if "silent v s" for s
    using that by (simp add: silent_def updateSignalingState_def dispatchEvent_def)
qed (simp_all add: silent_def may_enter_def)

section \<open>Pending negotiation\<close>

definition negotiation_ok :: "pc \<Rightarrow> bool" where
  "negotiation_ok s \<longleftrightarrow> count_list (tasks s) Negotiate = (if needNegotiation s then 1 else 0)"

lemma dispatch_simps [simp]:
  "isClosed (dispatchEvent ev s) = isClosed s" "signalingState (dispatchEvent ev s) = signalingState s"
  "tasks (dispatchEvent ev s) = tasks s" "needNegotiation (dispatchEvent ev s) = needNegotiation s" "slots (dispatchEvent ev s) = slots s"
  "localStreams (dispatchEvent ev s) = localStreams s" "localDescription (dispatchEvent ev s) = localDescription s"
  "remoteDescription (dispatchEvent ev s) = remoteDescription s"
  by (simp_all add: dispatchEvent_def)

lemma count_dropped:
  "n < length xs \<Longrightarrow> xs ! n = x \<Longrightarrow> count_list xs x = Suc (count_list (take n xs @ drop (Suc n) xs) x)"
  by (subst id_take_nth_drop [of n xs]) simp_all

interpretation negotiating: connection_invariant negotiation_ok
proof unfold_locales
  show "negotiation_ok s'" if "core s = core s'" "negotiation_ok s" for s s'
    using that by (simp add: negotiation_ok_def core_def)
  show "negotiation_ok (put_slot i t s)" if "negotiation_ok s" for s t i
    using that by (simp add: negotiation_ok_def put_slot_def)
  show "negotiation_ok (maybeFireNegotiationNeeded s)" if "negotiation_ok s" for s
    using that by (simp add: negotiation_ok_def maybeFireNegotiationNeeded_def schedule_def)
  show "negotiation_ok (run_task e Negotiate (waiting_dropped n s))"
    if "negotiation_ok s" "n < length (tasks s)" "tasks s ! n = Negotiate" for s n e
    using that count_dropped [OF that(2,3)]
    by (auto simp: negotiation_ok_def run_task_def waiting_dropped_def split: if_splits)
qed (simp_all add: negotiation_ok_def enter_local_def enter_remote_def updateSignalingState_def)

section \<open>Tracks\<close>

text \<open>A line sends nothing, or a track of a local stream through a sender.\<close>

definition slot_ok :: "addr list \<Rightarrow> slot \<Rightarrow> bool" where
  "slot_ok xs t \<longleftrightarrow>
     slot_core t = (None, None, None) \<or> (\<exists>k x d. slot_core t = (Some k, Some x, Some d) \<and> x \<in> set xs)"

definition tracks_ok :: "pc \<Rightarrow> bool" where
  "tracks_ok s \<longleftrightarrow>
     (\<forall>i < length (slots s). \<forall>j < length (slots s). \<forall>k.
        sl_track (slots s ! i) = Some k \<longrightarrow> sl_track (slots s ! j) = Some k \<longrightarrow> i = j) \<and>
     (\<forall>i < length (slots s). slot_ok (localStreams s) (slots s ! i)) \<and> distinct (localStreams s)"

lemma slot_ok_empty [simp]: "slot_core t = (None, None, None) \<Longrightarrow> slot_ok xs t"
  by (simp add: slot_ok_def)

lemma slot_ok_mono: "slot_ok xs t \<Longrightarrow> set xs \<subseteq> set ys \<Longrightarrow> slot_ok ys t"
  by (auto simp: slot_ok_def)

lemma sl_track_core: "sl_track t = fst (slot_core t)"
  by (simp add: slot_core_def)

lemma tracks_ok_core:
  assumes "map slot_core (slots s') = map slot_core (slots s)" "localStreams s' = localStreams s" "tracks_ok s"
  shows "tracks_ok s'"
proof -
  have l: "length (slots s') = length (slots s)" using assms(1) by (metis length_map)
  have c: "slot_core (slots s' ! i) = slot_core (slots s ! i)" if "i < length (slots s)" for i
    using assms(1) l that by (metis nth_map)
  show ?thesis
    using assms(2,3) c l unfolding tracks_ok_def slot_ok_def sl_track_core by simp
qed

lemma tracks_ok_put_slot:
  assumes "slot_core t = (None, None, None)" "tracks_ok s" shows "tracks_ok (put_slot i t s)"
  using assms unfolding tracks_ok_def put_slot_def sl_track_core
  by (auto simp: nth_list_update nth_append less_Suc_eq)

lemma tracks_ok_put:
  assumes "tracks_ok s" "i < length (slots s)" "sl_track (slots s ! i) = None" "\<forall>t \<in> set (slots s). sl_track t \<noteq> Some k"
  shows "tracks_ok (track_put i k x s)"
proof -
  let ?xs = "localStreams (track_put i k x s)"
  have n: "\<And>j. j < length (slots s) \<Longrightarrow> sl_track (slots s ! j) \<noteq> Some k" using assms(4) nth_mem by blast
  have xs: "set (localStreams s) \<subseteq> set ?xs" "x \<in> set ?xs" "distinct ?xs"
    using assms(1) by (auto simp: track_put_def Let_def tracks_ok_def)
  have sl: "slots (track_put i k x s) = (slots s)[i := (slots s ! i)\<lparr>sl_track := Some k, sl_stream := Some x, sl_sender := Some (length (senders s))\<rparr>]"
    using assms(2) by (simp add: track_put_def Let_def slot_upd_def)
  have "slot_ok ?xs (slots (track_put i k x s) ! j)" if "j < length (slots s)" for j
  proof (cases "j = i")
    case True
    then show ?thesis using xs(2) that by (simp add: sl slot_ok_def slot_core_def)
  next
    case False
    then show ?thesis using assms(1) that slot_ok_mono [OF _ xs(1)] by (simp add: sl tracks_ok_def)
  qed
  moreover have "a = b" if "a < length (slots s)" "b < length (slots s)" "sl_track (slots (track_put i k x s) ! a) = Some y"
      "sl_track (slots (track_put i k x s) ! b) = Some y" for a b y
    using that n [OF that(1)] n [OF that(2)] assms(1) unfolding sl tracks_ok_def
    by (cases "a = i"; cases "b = i") simp_all
  ultimately show ?thesis using xs(3) unfolding tracks_ok_def by (simp add: sl)
qed

lemma tracks_ok_taken:
  assumes "tracks_ok s" "i < length (slots s)" shows "tracks_ok (track_taken i s)"
proof -
  let ?s = "slot_upd i (\<lambda>t. t\<lparr>sl_sender := None, sl_track := None, sl_stream := None\<rparr>) s"
  have ok: "tracks_ok ?s"
    using assms unfolding tracks_ok_def by (auto simp: slot_upd_def nth_list_update slot_core_def split: if_splits)
  show ?thesis
  proof (cases "\<exists>x. sl_stream (slots s ! i) = Some x \<and> Some x \<notin> set (map sl_stream (slots ?s)) \<and> x \<in> set (localStreams ?s)")
    case False
    then show ?thesis using ok by (auto simp: track_taken_def Let_def split: option.splits)
  next
    case True
    then obtain x where x: "sl_stream (slots s ! i) = Some x" "Some x \<notin> set (map sl_stream (slots ?s))" "x \<in> set (localStreams ?s)"
      by blast
    let ?xs = "remove1 x (localStreams ?s)"
    have d: "set ?xs = set (localStreams ?s) - {x}" "distinct ?xs"
      using ok unfolding tracks_ok_def by (simp_all add: set_remove1_eq)
    have "slot_ok ?xs (slots ?s ! j)" if "j < length (slots ?s)" for j
    proof -
      have "sl_stream (slots ?s ! j) \<noteq> Some x" using x(2) that by (metis length_map nth_map nth_mem)
      moreover have "slot_ok (localStreams ?s) (slots ?s ! j)" using ok that unfolding tracks_ok_def by blast
      ultimately show ?thesis unfolding slot_ok_def d(1) by (auto simp: slot_core_def)
    qed
    then have "tracks_ok (?s\<lparr>localStreams := ?xs\<rparr>)" using ok d(2) unfolding tracks_ok_def by simp
    then show ?thesis using x by (simp add: track_taken_def Let_def)
  qed
qed

interpretation tracking: connection_invariant tracks_ok
proof unfold_locales
  show "tracks_ok s'" if "core s = core s'" "tracks_ok s" for s s'
    using that by (intro tracks_ok_core [of s' s]) (simp_all add: core_def)
  show "tracks_ok (run_task e Negotiate (waiting_dropped n s))" if "tracks_ok s" for s n e
    by (rule tracks_ok_core [OF _ _ that]) (simp_all add: run_task_def waiting_dropped_def)
  have same: "tracks_ok t" if "slots t = slots s" "localStreams t = localStreams s" "tracks_ok s" for s t
    by (rule tracks_ok_core [OF _ that(2,3)]) (simp add: that(1))
  show "tracks_ok (dispatchEvent ev s)" if "tracks_ok s" for s ev by (rule same [OF _ _ that]) simp_all
  show "tracks_ok (maybeFireNegotiationNeeded s)" if "tracks_ok s" for s
    by (rule same [OF _ _ that]) (simp_all add: maybeFireNegotiationNeeded_def schedule_def)
  show "tracks_ok (enter_local type sdp s)" "tracks_ok (enter_remote type sdp s)"
      "tracks_ok (updateSignalingState ''closed'' (s\<lparr>isClosed := True\<rparr>))" if "tracks_ok s" for s type sdp
    by (rule same [OF _ _ that]; simp add: enter_local_def enter_remote_def updateSignalingState_def)+
qed (blast intro: tracks_ok_put tracks_ok_taken tracks_ok_put_slot)+

section \<open>The offer/answer protocol\<close>

datatype phase = Stable | Have_local_offer | Have_remote_offer | Closed

fun phase_name :: "phase \<Rightarrow> string" where
  "phase_name Stable = ''stable''"
| "phase_name Have_local_offer = ''have-local-offer''"
| "phase_name Have_remote_offer = ''have-remote-offer''"
| "phase_name Closed = ''closed''"

text \<open>
  The protocol between two peers: an offer from one side, repeated as often as that side likes, then an answer
  from the other side; a connection can be closed at any time, and that is the end.
\<close>

inductive protocol :: "step \<Rightarrow> phase \<Rightarrow> phase \<Rightarrow> bool" where
  local_offer: "q \<in> {Stable, Have_local_offer} \<Longrightarrow> protocol (Set_local ''offer'' sdp) q Have_local_offer"
| local_answer: "protocol (Set_local ''answer'' sdp) Have_remote_offer Stable"
| remote_offer: "q \<in> {Stable, Have_remote_offer} \<Longrightarrow> protocol (Set_remote ''offer'' sdp) q Have_remote_offer"
| remote_answer: "protocol (Set_remote ''answer'' sdp) Have_local_offer Stable"
| close: "protocol Close q Closed"

inductive_simps protocol_local: "protocol (Set_local type sdp) q q'"
inductive_simps protocol_remote: "protocol (Set_remote type sdp) q q'"

inductive protocol_run :: "step list \<Rightarrow> phase \<Rightarrow> phase \<Rightarrow> bool" where
  nothing: "protocol_run [] q q"
| stutter: "protocol_run sts q q' \<Longrightarrow> protocol_run (st # sts) q q'"
| moves: "protocol st q q' \<Longrightarrow> protocol_run sts q' q'' \<Longrightarrow> protocol_run (st # sts) q q''"

definition in_phase :: "phase \<Rightarrow> pc \<Rightarrow> bool" where
  "in_phase q s \<longleftrightarrow> signalingState s = phase_name q \<and> (isClosed s \<longleftrightarrow> q = Closed)"

lemma phase_name_inj [simp]: "phase_name q = phase_name q' \<longleftrightarrow> q = q'"
  by (cases q; cases q') simp_all

interpretation phases: media_invariant "in_phase q" for q
proof unfold_locales
  show "in_phase q s'" if "core s = core s'" "in_phase q s" for s s'
    using that by (simp add: in_phase_def core_def)
qed (simp_all add: in_phase_def put_slot_def run_task_def waiting_dropped_def)

lemma may_enter_local: "in_phase q s \<Longrightarrow> may_enter ''setLocalDescription'' type s \<longleftrightarrow>
    type = ''offer'' \<and> q \<in> {Stable, Have_local_offer} \<or> type = ''answer'' \<and> q = Have_remote_offer"
  by (cases q) (auto simp: may_enter_def in_phase_def isActionAllowedInSignalingState_def)

lemma may_enter_remote: "in_phase q s \<Longrightarrow> may_enter ''setRemoteDescription'' type s \<longleftrightarrow>
    type = ''offer'' \<and> q \<in> {Stable, Have_remote_offer} \<or> type = ''answer'' \<and> q = Have_local_offer"
  by (cases q) (auto simp: may_enter_def in_phase_def isActionAllowedInSignalingState_def)

lemma entered_local:
  "in_phase q s \<Longrightarrow> may_enter ''setLocalDescription'' type s \<Longrightarrow>
     \<exists>q'. protocol (Set_local type sdp) q q' \<and> in_phase q' (enter_local type sdp t)" if "isClosed t = isClosed s" for t
  using that may_enter_local [of q s type]
  by (auto simp: protocol_local enter_local_def updateSignalingState_def in_phase_def)

lemma entered_remote:
  "in_phase q s \<Longrightarrow> may_enter ''setRemoteDescription'' type s \<Longrightarrow>
     \<exists>q'. protocol (Set_remote type sdp) q q' \<and> in_phase q' (enter_remote type sdp t)" if "isClosed t = isClosed s" for t
  using that may_enter_remote [of q s type]
  by (auto simp: protocol_remote enter_remote_def updateSignalingState_def in_phase_def)

lemma set_local_phase:
  assumes "in_phase q s" "setLocalDescription e type sdp s = (r, t)"
  shows "(\<exists>err. r = Inl err) \<and> in_phase q t \<or>
    r = Inr () \<and> (\<exists>q'. protocol (Set_local type sdp) q q' \<and> in_phase q' t) \<and> localDescription t = Some (type, sdp)"
proof -
  let ?m = "seq (start_local e type sdp) (\<lambda>_. change (enter_local type sdp))"
  have "(\<exists>err. setLocalDescription e type sdp s = (Inl err, s) \<and> \<not> may_enter ''setLocalDescription'' type s) \<or>
      setLocalDescription e type sdp s = ?m s \<and> may_enter ''setLocalDescription'' type s"
    unfolding setLocalDescription_def by (rule guarded_cases)
  then show ?thesis
  proof (elim disjE exE conjE)
    fix err assume "setLocalDescription e type sdp s = (Inl err, s)"
    then show ?thesis using assms by simp
  next
    assume m: "setLocalDescription e type sdp s = ?m s" "may_enter ''setLocalDescription'' type s"
    obtain r' u where u: "start_local e type sdp s = (r', u)" by (cases "start_local e type sdp s")
    have p: "in_phase q u" using keepsD [OF phases.keeps_start_local assms(1), of e type sdp] u by simp
    show ?thesis
    proof (cases r')
      case (Inl err)
      then show ?thesis using m u p assms(2) by (simp add: seq_def)
    next
      case (Inr x)
      then have "t = enter_local type sdp u" "r = Inr ()" using m u assms(2) by (simp_all add: seq_def change_def)
      moreover have "isClosed u = isClosed s" using p assms(1) by (simp add: in_phase_def)
      ultimately show ?thesis
        using entered_local [OF _ assms(1) m(2), of u sdp] by (auto simp: enter_local_def updateSignalingState_def)
    qed
  qed
qed

lemma schedule_simps [simp]:
  "remoteDescription (schedule t s) = remoteDescription s" "in_phase q (schedule t s) = in_phase q s"
  by (simp_all add: schedule_def in_phase_def)

lemma fire_track_simps [simp]:
  "remoteDescription (fireAddTrack k r xs s) = remoteDescription s" "in_phase q (fireAddTrack k r xs s) = in_phase q s"
  by (simp_all add: fireAddTrack_def)

lemma keeps_remote_description: "keeps (\<lambda>s. remoteDescription s = d \<and> in_phase q s) (announce acc)"
proof -
  let ?P = "\<lambda>s. remoteDescription s = d \<and> in_phase q s"
  have t: "keeps ?P (announce_track x item)" for x item
    unfolding announce_track_def by (intro keeps_rules keeps_change) simp
  have a: "keeps ?P (announce_stream recvs x)" for recvs x
    unfolding announce_stream_def by (intro keeps_rules keeps_change t) (simp add: in_phase_def schedule_def)
  have f: "?P (fold (\<lambda>(track, receiver, y). if y = None then fireAddTrack track receiver [] else id) recvs s)" if "?P s" for recvs s
    using that
  proof (induction recvs arbitrary: s)
    case (Cons item recvs)
    obtain k r y where i: "item = (k, r, y)" by (cases item)
    have "?P ((if y = None then fireAddTrack k r [] else id) s)" using Cons.prems by simp
    from Cons.IH [OF this] show ?case by (simp add: i)
  qed simp
  show ?thesis
    unfolding announce_def
  proof (intro keeps_rules keeps_change a)
    fix strs :: "addr props" and recvs :: "(addr \<times> addr \<times> addr option) list" and s assume "?P s"
    from f [OF this, of recvs]
    show "?P (schedule Candidate_timeout (fold (\<lambda>(track, receiver, y). if y = None then fireAddTrack track receiver [] else id) recvs s))"
      unfolding schedule_simps .
  qed
qed

lemma set_remote_phase:
  assumes "in_phase q s" "setRemoteDescription e type sdp s = (r, t)"
  shows "(\<exists>err. r = Inl err) \<and> in_phase q t \<or>
    (\<exists>q'. protocol (Set_remote type sdp) q q' \<and> in_phase q' t) \<and> remoteDescription t = Some (type, sdp)"
proof -
  let ?m = "seq (read_remote e type sdp) (\<lambda>acc. seq (change (enter_remote type sdp)) (\<lambda>_. announce acc))"
  have "(\<exists>err. setRemoteDescription e type sdp s = (Inl err, s) \<and> \<not> may_enter ''setRemoteDescription'' type s) \<or>
      setRemoteDescription e type sdp s = ?m s \<and> may_enter ''setRemoteDescription'' type s"
    unfolding setRemoteDescription_def by (rule guarded_cases)
  then show ?thesis
  proof (elim disjE exE conjE)
    fix err assume "setRemoteDescription e type sdp s = (Inl err, s)"
    then show ?thesis using assms by simp
  next
    assume m: "setRemoteDescription e type sdp s = ?m s" "may_enter ''setRemoteDescription'' type s"
    obtain r' u where u: "read_remote e type sdp s = (r', u)" by (cases "read_remote e type sdp s")
    have p: "in_phase q u" using keepsD [OF phases.keeps_read_remote assms(1), of e type sdp] u by simp
    show ?thesis
    proof (cases r')
      case (Inl err)
      then show ?thesis using m u p assms(2) by (simp add: seq_def)
    next
      case (Inr acc)
      then have "setRemoteDescription e type sdp s = announce acc (enter_remote type sdp u)"
        using m u by (simp add: seq_def change_def)
      then have t: "t = snd (announce acc (enter_remote type sdp u))" unfolding assms(2) by (metis snd_conv)
      have "isClosed u = isClosed s" using p assms(1) by (simp add: in_phase_def)
      then obtain q' where q': "protocol (Set_remote type sdp) q q'" "in_phase q' (enter_remote type sdp u)"
        using entered_remote [OF _ assms(1) m(2), of u sdp] by blast
      have "remoteDescription (enter_remote type sdp u) = Some (type, sdp)" by (simp add: enter_remote_def updateSignalingState_def)
      then show ?thesis
        using keepsD [OF keeps_remote_description [of "Some (type, sdp)" q' acc], of "enter_remote type sdp u"] q' t by auto
    qed
  qed
qed

lemma step_phase:
  assumes "in_phase q s" shows "\<exists>q'. (q' = q \<or> protocol st q q') \<and> in_phase q' (pc_step e st s)"
proof (cases st)
  case (Set_local type sdp)
  then show ?thesis
    using set_local_phase [OF assms, of e type sdp] by (cases "setLocalDescription e type sdp s") auto
next
  case (Set_remote type sdp)
  then show ?thesis
    using set_remote_phase [OF assms, of e type sdp] by (cases "setRemoteDescription e type sdp s") auto
next
  case Close
  have "in_phase Closed (close s)" by (simp add: in_phase_def close_def updateSignalingState_def)
  then show ?thesis using Close protocol.close [of q] by auto
qed (use phases.kept_media_step [OF _ _ assms, of st e] in auto)

text \<open>
  C6. The Edge connection refines the offer/answer protocol: whatever the page calls, the browser reports and the timers do, in
  any order and with any descriptions, the signalling state moves along the protocol or stays; and it names the
  phase the protocol is in.
\<close>

theorem signalling_refines_protocol:
  assumes "newPeerConnection e config = Inr s"
  shows "\<exists>q. protocol_run sts Stable q \<and> signalingState (pc_run e sts s) = phase_name q \<and>
    (isClosed (pc_run e sts s) \<longleftrightarrow> q = Closed)"
proof -
  have "\<exists>q'. protocol_run sts q q' \<and> in_phase q' (pc_run e sts t)" if "in_phase q t" for q t
    using that
  proof (induction sts arbitrary: q t)
    case Nil
    then show ?case by (auto simp: pc_run_def intro: protocol_run.nothing)
  next
    case (Cons st sts)
    from step_phase [OF Cons.prems, of st e] obtain q' where "q' = q \<or> protocol st q q'" "in_phase q' (pc_step e st t)" by blast
    then show ?case using Cons.IH [of q' "pc_step e st t"] by (auto simp: pc_run_def intro: protocol_run.stutter protocol_run.moves)
  qed
  moreover have "in_phase Stable s"
    using assms by (auto simp: newPeerConnection_def in_phase_def split: if_splits)
  ultimately show ?thesis unfolding in_phase_def by blast
qed

definition demo_env :: env where
  "demo_env =
     \<lparr>edgeVersion = 15063, sender_caps = (\<lambda>k. demo_caps), receiver_caps = (\<lambda>k. demo_caps),
      ice_local = (\<lambda>g. \<lparr>usernameFragment = ''frag'', password = ''secret''\<rparr>), dtls_local = (\<lambda>d. []),
      new_id = (\<lambda>n. ''id''), new_mid = (\<lambda>n. ''mid''), localCName = ''name'', sdpSessionId = ''1''\<rparr>"

definition demo_config :: configuration where
  "demo_config = \<lparr>cf_bundle = ''balanced'', cf_mux = ''require'', cf_policy = ''all'', cf_servers = [], cf_pool = 0\<rparr>"

definition demo_pc :: pc where
  "demo_pc = projr (newPeerConnection demo_env demo_config)"

lemma demo_new: "newPeerConnection demo_env demo_config = Inr demo_pc"
  by (simp add: demo_pc_def newPeerConnection_def demo_config_def)

lemma demo_pc_simps:
  "signalingState demo_pc = ''stable''" "isClosed demo_pc = False" "slots demo_pc = []" "tasks demo_pc = []"
  "needNegotiation demo_pc = False" "tracks demo_pc = []" "streams demo_pc = []" "localStreams demo_pc = []"
  "events demo_pc = []" "usingBundle demo_pc = False" "senders demo_pc = []" "ices demo_pc = []" "dtlss demo_pc = []"
  by (simp_all add: demo_pc_def newPeerConnection_def demo_config_def)

theorem signalling_refines_protocol_witness:
  "\<exists>q. protocol_run [Close, Set_remote ''offer'' ''v=0''] Stable q \<and>
     signalingState (pc_run demo_env [Close, Set_remote ''offer'' ''v=0''] demo_pc) = phase_name q \<and>
     (isClosed (pc_run demo_env [Close, Set_remote ''offer'' ''v=0''] demo_pc) \<longleftrightarrow> q = Closed)"
  by (rule signalling_refines_protocol [OF demo_new])

section \<open>A closed connection\<close>

definition option_list :: "'a option \<Rightarrow> 'a list" where
  "option_list x = (case x of Some y \<Rightarrow> [y] | None \<Rightarrow> [])"

lemma option_list_simps [simp]:
  "option_list None = []" "option_list (Some y) = [y]" "k \<in> set (option_list x) \<longleftrightarrow> x = Some k"
  by (auto simp: option_list_def split: option.splits)

lemma pc_run_append: "pc_run e (sts @ sts2) s = pc_run e sts2 (pc_run e sts s)"
  by (simp add: pc_run_def)

lemma pc_run_Cons: "pc_run e (st # sts) s = pc_run e sts (pc_step e st s)"
  by (simp add: pc_run_def)

lemma stop_slot_simps [simp]:
  "isClosed (fold stop_slot ts s) = isClosed s" "events (fold stop_slot ts s) = events s"
  "calls (fold stop_slot ts s) = calls s @ concat (map (\<lambda>t. concat
     [case sl_ice t of Some a \<Rightarrow> [Stop_ice a] | None \<Rightarrow> [], case sl_dtls t of Some d \<Rightarrow> [Stop_dtls d] | None \<Rightarrow> [],
      case sl_sender t of Some x \<Rightarrow> [Stop_sender x] | None \<Rightarrow> [], case sl_receiver t of Some x \<Rightarrow> [Stop_receiver x] | None \<Rightarrow> []]) ts)"
  by (induction ts arbitrary: s) (simp_all add: stop_slot_def)

lemma silent_close: "silent (events s) (close s)"
  by (simp add: silent_def close_def updateSignalingState_def dispatchEvent_def)

lemma silent_operations:
  assumes "silent v s"
  shows "createOffer e opts s = (Inl (makeError ''InvalidStateError'' ''Can not call createOffer after close''), s)"
    "createAnswer e s = (Inl (makeError ''InvalidStateError'' ''Can not call createAnswer after close''), s)"
    "addTrack k x s = (Inl (makeError ''InvalidStateError'' ''Attempted to call addTrack on a closed peerconnection.''), s)"
    "removeTrack y s = (Inl (makeError ''InvalidStateError'' ''Attempted to call removeTrack on a closed peerconnection.''), s)"
  using assms by (simp_all add: silent_def createOffer_def createAnswer_def addTrack_def removeTrack_def look_def fail_def)

lemma silent_descriptions:
  assumes "silent v s"
  shows "\<exists>err. setLocalDescription e type sdp s = (Inl err, s)" "\<exists>err. setRemoteDescription e type sdp s = (Inl err, s)"
proof -
  have "\<exists>err. guarded action side type body s = (Inl err, s)" for action side body
    using guarded_cases [of action side type body s] assms by (auto simp: may_enter_def silent_def)
  then show "\<exists>err. setLocalDescription e type sdp s = (Inl err, s)" "\<exists>err. setRemoteDescription e type sdp s = (Inl err, s)"
    unfolding setLocalDescription_def setRemoteDescription_def by blast+
qed

text \<open>
  C7. A closed connection is silent: whatever was done before it was closed and whatever happens afterwards, no event of it reaches
  the page any more, it stays closed, and offers, answers, tracks and descriptions are refused without
  changing anything. Closing stops the transports, the sender and the receiver of every line.
\<close>

theorem closed_connection_silent:
  "let t = pc_run e sts s; u = pc_run e (sts @ Close # later) s in
    events u = events t \<and> isClosed u \<and> signalingState u = ''closed'' \<and>
    createOffer e opts u = (Inl (makeError ''InvalidStateError'' ''Can not call createOffer after close''), u) \<and>
    createAnswer e u = (Inl (makeError ''InvalidStateError'' ''Can not call createAnswer after close''), u) \<and>
    addTrack k x u = (Inl (makeError ''InvalidStateError'' ''Attempted to call addTrack on a closed peerconnection.''), u) \<and>
    removeTrack y u = (Inl (makeError ''InvalidStateError'' ''Attempted to call removeTrack on a closed peerconnection.''), u) \<and>
    (\<exists>err. setLocalDescription e type sdp u = (Inl err, u)) \<and> (\<exists>err. setRemoteDescription e type sdp u = (Inl err, u)) \<and>
    calls (close t) = calls t @ concat (map (\<lambda>l.
      map Stop_ice (option_list (sl_ice l)) @ map Stop_dtls (option_list (sl_dtls l)) @
      map Stop_sender (option_list (sl_sender l)) @ map Stop_receiver (option_list (sl_receiver l))) (slots t))"
proof -
  define t u where tu: "t = pc_run e sts s" "u = pc_run e (sts @ Close # later) s"
  have u: "silent (events t) u"
    unfolding tu pc_run_append pc_run_Cons pc_step.simps by (intro silence.kept_run silent_close)
  have o: "(case z of Some a \<Rightarrow> [f a] | None \<Rightarrow> []) = map f (option_list z)" for f :: "addr \<Rightarrow> call" and z
    by (simp add: option_list_def split: option.split)
  have "calls (close t) = calls (fold stop_slot (slots t) t)"
    by (simp add: close_def updateSignalingState_def dispatchEvent_def del: stop_slot_simps(3))
  then have "calls (close t) = calls t @ concat (map (\<lambda>l.
      map Stop_ice (option_list (sl_ice l)) @ map Stop_dtls (option_list (sl_dtls l)) @
      map Stop_sender (option_list (sl_sender l)) @ map Stop_receiver (option_list (sl_receiver l))) (slots t))"
    by (simp add: o)
  then show ?thesis using u silent_operations [OF u] silent_descriptions [OF u]
    unfolding tu [symmetric] by (simp add: silent_def)
qed

section \<open>Negotiation and tracks\<close>

lemma new_connection:
  assumes "newPeerConnection e config = Inr s"
  shows "negotiation_ok s" "tracks_ok s"
  using assms by (auto simp: newPeerConnection_def negotiation_ok_def tracks_ok_def split: if_splits)

lemma fire_Negotiate:
  assumes "n < length (tasks s)" "tasks s ! n = Negotiate" "needNegotiation s"
  shows "fire e n s = dispatchEvent (Event ''negotiationneeded'') ((waiting_dropped n s)\<lparr>needNegotiation := False\<rparr>)"
  using assms by (simp add: fire_def run_task_def waiting_dropped_def)

text \<open>
  C9. Requests to negotiate are merged: whenever the timer of a request is waiting, the connection needs a negotiation and no second
  timer is waiting, however many tracks were added and removed. When it fires, none is left, the need is gone, and
  the page has been told once if the connection is open, and not at all if it is closed.
\<close>

theorem negotiation_pending_once:
  assumes "newPeerConnection e config = Inr s" "t = pc_run e sts s"
    and "n < length (tasks t)" "tasks t ! n = Negotiate"
  shows "count_list (tasks t) Negotiate = 1 \<and> needNegotiation t \<and>
    Negotiate \<notin> set (tasks (fire e n t)) \<and> \<not> needNegotiation (fire e n t) \<and>
    events (fire e n t) = events t @ (if isClosed t then [] else [Event ''negotiationneeded''])"
proof -
  have ok: "negotiation_ok t" "negotiation_ok (fire e n t)"
    using negotiating.kept_run [OF new_connection(1) [OF assms(1)]] negotiating.kept_fire unfolding assms(2) by blast+
  have "count_list (tasks t) Negotiate \<noteq> 0" using nth_mem [OF assms(3)] assms(4) by (simp add: count_list_0_iff)
  then have t: "count_list (tasks t) Negotiate = 1" "needNegotiation t" using ok(1) by (simp_all add: negotiation_ok_def split: if_splits)
  note f = fire_Negotiate [OF assms(3,4) t(2), of e]
  have n: "\<not> needNegotiation (fire e n t)" unfolding f by simp
  then have "Negotiate \<notin> set (tasks (fire e n t))" using ok(2) by (simp add: negotiation_ok_def count_list_0_iff)
  moreover have "events (fire e n t) = events t @ (if isClosed t then [] else [Event ''negotiationneeded''])"
    unfolding f by (simp add: dispatchEvent_def waiting_dropped_def)
  ultimately show ?thesis using t n by blast
qed

definition demo_track :: "string \<Rightarrow> string \<Rightarrow> step" where
  "demo_track name kind = Page_track \<lparr>tk_id = name, tk_kind = kind\<rparr>"

definition demo_steps :: "step list" where
  "demo_steps = [demo_track ''a'' ''audio'', demo_track ''v'' ''video'', Page_stream \<lparr>st_id = ''s'', st_tracks = [0, 1]\<rparr>, Add_stream 0]"

lemma demo_tasks: "tasks (pc_run demo_env demo_steps demo_pc) = [Negotiate]"
    "map sl_track (slots (pc_run demo_env demo_steps demo_pc)) = [Some 0, Some 1]"
    "isClosed (pc_run demo_env demo_steps demo_pc) = False"
  by (simp_all add: demo_steps_def demo_track_def pc_run_def demo_pc_simps addStream_def addTrack_def demo_env_def look_def seq_def change_def ret_def
      free_line_def createTransceiver_def new_slot_def createIceAndDtlsTransports_def empty_slot_def maybeFireNegotiationNeeded_def
      schedule_def slot_upd_def Let_def upt_rec)

theorem negotiation_pending_once_witness:
  "Negotiate \<notin> set (tasks (fire demo_env 0 (pc_run demo_env demo_steps demo_pc)))"
proof -
  have "0 < length (tasks (pc_run demo_env demo_steps demo_pc))" "tasks (pc_run demo_env demo_steps demo_pc) ! 0 = Negotiate"
    by (simp_all add: demo_tasks)
  from negotiation_pending_once [OF demo_new refl this] show ?thesis by blast
qed

lemma sent_tracks:
  assumes "tracks_ok s"
  shows "distinct (concat (map (option_list \<circ> sl_track) (slots s)))" "length (getSenders s) = length (concat (map (option_list \<circ> sl_track) (slots s)))"
    "set (concat (map (option_list \<circ> sl_stream) (slots s))) \<subseteq> set (localStreams s)"
proof -
  have one: "\<And>i j k. i < length (slots s) \<Longrightarrow> j < length (slots s) \<Longrightarrow> sl_track (slots s ! i) = Some k \<Longrightarrow>
      sl_track (slots s ! j) = Some k \<Longrightarrow> i = j"
    using assms unfolding tracks_ok_def by blast
  have d: "distinct (concat (map (option_list \<circ> sl_track) ts))"
    if "\<And>i j k. i < length ts \<Longrightarrow> j < length ts \<Longrightarrow> sl_track (ts ! i) = Some k \<Longrightarrow> sl_track (ts ! j) = Some k \<Longrightarrow> i = j" for ts
    using that
  proof (induction ts)
    case (Cons t ts)
    have "distinct (concat (map (option_list \<circ> sl_track) ts))"
      using Cons.prems [of "Suc i" "Suc j" for i j] by (intro Cons.IH) auto
    moreover have "k \<notin> set (concat (map (option_list \<circ> sl_track) ts))" if "sl_track t = Some k" for k
    proof
      assume "k \<in> set (concat (map (option_list \<circ> sl_track) ts))"
      then obtain x where "x \<in> set ts" "sl_track x = Some k" by auto
      then obtain j where "j < length ts" "sl_track (ts ! j) = Some k" by (auto simp: in_set_conv_nth)
      then show False using Cons.prems [of 0 "Suc j" k] that by simp
    qed
    ultimately show ?case by (cases "sl_track t") (simp_all add: comp_def del: set_concat set_map)
  qed simp
  show "distinct (concat (map (option_list \<circ> sl_track) (slots s)))" by (rule d) (rule one)
  have ok: "\<forall>t \<in> set (slots s). slot_ok (localStreams s) t"
    using assms by (auto simp: tracks_ok_def in_set_conv_nth)
  have l: "length (option_list (sl_sender t)) = length (option_list (sl_track t)) \<and> set (option_list (sl_stream t)) \<subseteq> set (localStreams s)"
    if "t \<in> set (slots s)" for t
    using ok that by (auto simp: slot_ok_def slot_core_def)
  have "getSenders s = concat (map (option_list \<circ> sl_sender) (slots s))"
    by (simp add: getSenders_def option_list_def comp_def)
  then show "length (getSenders s) = length (concat (map (option_list \<circ> sl_track) (slots s)))"
    using l by (simp add: length_concat comp_def cong: map_cong)
  show "set (concat (map (option_list \<circ> sl_stream) (slots s))) \<subseteq> set (localStreams s)" using l by auto
qed

text \<open>
  C8. A track is sent once: in every state the connection can reach the tracks on its lines are different, there are as many senders as
  tracks, the streams they belong to are local streams, and none of these is listed twice. Adding a track
  again is refused and changes nothing.
\<close>

theorem track_sent_once:
  assumes "newPeerConnection e config = Inr s" "t = pc_run e sts s" "sent = concat (map (option_list \<circ> sl_track) (slots t))"
  shows "distinct sent \<and> length (getSenders t) = length sent \<and> distinct (localStreams t) \<and>
    set (concat (map (option_list \<circ> sl_stream) (slots t))) \<subseteq> set (localStreams t) \<and>
    filter (\<lambda>k. addTrack k x t \<noteq> (Inl (if isClosed t
        then makeError ''InvalidStateError'' ''Attempted to call addTrack on a closed peerconnection.''
        else makeError ''InvalidAccessError'' ''Track already exists.''), t)) sent = []"
proof -
  have ok: "tracks_ok t" using tracking.kept_run [OF new_connection(2) [OF assms(1)]] unfolding assms(2) by blast
  have "addTrack k x t = (Inl (if isClosed t
        then makeError ''InvalidStateError'' ''Attempted to call addTrack on a closed peerconnection.''
        else makeError ''InvalidAccessError'' ''Track already exists.''), t)" if "k \<in> set sent" for k
    using that by (auto simp: assms(3) addTrack_def look_def fail_def list_ex_iff)
  then show ?thesis using sent_tracks [OF ok] ok unfolding assms(3) [symmetric] by (auto simp: tracks_ok_def filter_empty_conv)
qed

theorem track_sent_once_witness:
  "fst (addTrack 1 0 (pc_run demo_env demo_steps demo_pc)) = Inl (makeError ''InvalidAccessError'' ''Track already exists.'')"
proof -
  have "concat (map (option_list \<circ> sl_track) (slots (pc_run demo_env demo_steps demo_pc))) = [0, 1]"
    unfolding map_map [symmetric] demo_tasks(2) by simp
  from track_sent_once [OF demo_new refl this [symmetric], of 0] show ?thesis by (auto simp: demo_tasks split: if_splits)
qed

end
