(* ===== verification/EdgeCandidates.thy ===== *)
theory EdgeCandidates
  imports SdpSession EdgeProperties
begin

text \<open>
  Candidates of the Edge peer connection: what the browser reports and what the page adds ends up in the local and the remote
  description, at the end of the section of its line, and a remote candidate is added once.
\<close>

section \<open>Lines added to a description\<close>

definition description_text :: "string list \<Rightarrow> string list list \<Rightarrow> string" where
  "description_text ss secs = text_of ss @ concat (map text_of secs)"

definition description_shape :: "string list \<Rightarrow> string list list \<Rightarrow> bool" where
  "description_shape ss secs \<longleftrightarrow>
     list_all line_ok ss \<and> ss \<noteq> [] \<and> list_all (\<lambda>l. \<not> heads_section l) ss \<and> list_all section_shape secs"

definition with_line :: "nat \<Rightarrow> string \<Rightarrow> string list list \<Rightarrow> string list list" where
  "with_line i line secs = secs[i := secs ! i @ [''a='' @ line]]"

lemma length_with_line [simp]: "length (with_line i line secs) = length secs"
  by (simp add: with_line_def)

lemma description_cut:
  assumes "description_shape ss secs"
  shows "getDescription (description_text ss secs) = text_of ss" "getMediaSections (description_text ss secs) = map text_of secs"
  using split_sections [of ss secs] assms
  by (simp_all add: description_shape_def description_text_def getDescription_def getMediaSections_def list_all_iff)

lemma add_line_text:
  assumes "description_shape ss secs" "i < length secs"
  shows "add_line i line (description_text ss secs) = description_text ss (with_line i line secs)"
proof -
  have "text_of (secs ! i) @ ''a='' @ line @ crlf = text_of (secs ! i @ [''a='' @ line])" by simp
  then have "append_at i (''a='' @ line @ crlf) (map text_of secs) = map text_of (with_line i line secs)"
    using assms(2) by (simp add: append_at_def with_line_def map_update)
  then have "add_line i line (description_text ss secs) = text_of ss @ concat (map text_of (with_line i line secs))"
    by (simp only: add_line_def description_cut [OF assms(1)])
  then show ?thesis by (simp add: description_text_def)
qed

lemma with_line_shape:
  assumes "description_shape ss secs" "i < length secs" "line_ok (''a='' @ line)"
  shows "description_shape ss (with_line i line secs)"
proof -
  have "section_shape (secs ! i)" using assms(1,2) by (auto simp: description_shape_def list_all_length)
  moreover have "\<not> heads_section (''a='' @ line)" by (simp add: heads_section_def)
  ultimately have "section_shape (secs ! i @ [''a='' @ line])"
    using assms(3) by (cases "secs ! i") (auto simp: section_shape_def)
  then show ?thesis
    using assms(1,2) by (auto simp: description_shape_def with_line_def list_all_iff dest!: set_update_subset_insert [THEN subsetD])
qed

section \<open>Local candidates\<close>

fun is_candidate :: "event \<Rightarrow> bool" where
  "is_candidate (Candidate_event mid i text fs) = True"
| "is_candidate ev = False"

text \<open>The candidates the page was told of.\<close>

definition told :: "pc \<Rightarrow> event list" where
  "told s = filter is_candidate (events s)"

text \<open>A gatherer reports to the handler of a line whose candidates are not dropped.\<close>

definition reports_to :: "addr \<Rightarrow> jsval \<Rightarrow> nat \<Rightarrow> pc \<Rightarrow> bool" where
  "reports_to g mid i s \<longleftrightarrow> g < length (gatherers s) \<and> ga_handler (gatherers s ! g) = Some (mid, i) \<and>
     ga_buffers (gatherers s ! g) = None \<and> (i = 0 \<or> \<not> usingBundle s)"

lemma told_dispatch [simp]: "told (dispatchEvent ev s) = told s @ (if isClosed s \<or> \<not> is_candidate ev then [] else [ev])"
  by (simp add: told_def dispatchEvent_def)

lemma dispatch_more [simp]:
  "gatherers (dispatchEvent ev s) = gatherers s" "usingBundle (dispatchEvent ev s) = usingBundle s"
  "iceGatheringState (dispatchEvent ev s) = iceGatheringState s"
  by (simp_all add: dispatchEvent_def)

lemma tell_gathered_simps [simp]:
  "localDescription (tell_gathered ev s) = localDescription s" "gatherers (tell_gathered ev s) = gatherers s"
  "slots (tell_gathered ev s) = slots s" "isClosed (tell_gathered ev s) = isClosed s" "usingBundle (tell_gathered ev s) = usingBundle s"
  "told (tell_gathered ev s) = told s @ (case ev of Some v \<Rightarrow> if isClosed s \<or> \<not> is_candidate v then [] else [v] | None \<Rightarrow> [])"
  "iceGatheringState (tell_gathered ev s) = (if all_completed s then ''complete'' else ''gathering'')"
  by (auto simp: tell_gathered_def emitGatheringStateChange_def Let_def told_def [of "_\<lparr>iceGatheringState := _\<rparr>"]
        told_def [symmetric] split: option.splits)

lemma all_completed_same: "slots s = slots t \<Longrightarrow> gatherers s = gatherers t \<Longrightarrow> all_completed s = all_completed t"
  by (simp only: all_completed_def)

lemma gatherer_upd_simps [simp]:
  "localDescription (gatherer_upd g f s) = localDescription s" "isClosed (gatherer_upd g f s) = isClosed s"
  "usingBundle (gatherer_upd g f s) = usingBundle s" "told (gatherer_upd g f s) = told s" "slots (gatherer_upd g f s) = slots s"
  "g < length (gatherers s) \<Longrightarrow> gatherers (gatherer_upd g f s) = (gatherers s)[g := f (gatherers s ! g)]"
  by (simp_all add: gatherer_upd_def told_def)

lemma told_described [simp]: "told (s\<lparr>localDescription := d\<rparr>) = told s" "told (s\<lparr>gatherers := gs\<rparr>) = told s"
  by (simp_all add: told_def)

definition next_state :: "bool \<Rightarrow> jsval \<Rightarrow> jsval" where
  "next_state over st =
     (if over then if st \<in> {Str ''new'', Str ''gathering''} then Str ''completed'' else st
      else if st = Str ''new'' then Str ''gathering'' else st)"

lemma seq_ret [simp]: "seq (ret x) f s = f x s"
  by (simp add: seq_def ret_def)

text \<open>The state after a report: the gatherer's state moves on, the line is in the description, the page is told.\<close>

definition after_report :: "addr \<Rightarrow> jsval props option \<Rightarrow> string \<times> string \<Rightarrow> event option \<Rightarrow> pc \<Rightarrow> pc" where
  "after_report g c d ev s =
     (let x = gatherers s ! g;
          x = x\<lparr>ga_candidates := ga_candidates x @ (case c of Some y \<Rightarrow> [y] | None \<Rightarrow> []), ga_state := next_state (c = None) (ga_state x)\<rparr>
      in tell_gathered ev (s\<lparr>gatherers := (gatherers s)[g := x], localDescription := Some d\<rparr>))"

lemma local_candidate_reports:
  assumes "reports_to g mid i s" "localDescription s = Some d"
    and "case c of None \<Rightarrow> (line, ev) = (''end-of-candidates'', None)
         | Some y \<Rightarrow> \<exists>fs. describe_candidate e g y = ret (line, fs) \<and> ev = Some (Candidate_event mid i line fs)"
  shows "local_candidate e g c s = (Inr (), after_report g c (fst d, add_line i line (snd d)) ev s)"
proof -
  have g: "g < length (gatherers s)" "ga_handler (gatherers s ! g) = Some (mid, i)" "ga_buffers (gatherers s ! g) = None"
      "\<not> (usingBundle s \<and> 0 < i)"
    using assms(1) by (auto simp: reports_to_def)
  show ?thesis
    using assms(2,3) g
    by (cases c; cases d)
      (auto simp: local_candidate_def onlocalcandidate_def seq_change look_def need_def change_def gatherer_upd_def
        after_report_def next_state_def Let_def)
qed

lemma after_report_simps:
  assumes "reports_to g mid i s"
  shows "localDescription (after_report g c d ev s) = Some d" "isClosed (after_report g c d ev s) = isClosed s"
    "reports_to g mid i (after_report g c d ev s)"
    "told (after_report g c d ev s) = told s @ (case ev of Some v \<Rightarrow> if isClosed s \<or> \<not> is_candidate v then [] else [v] | None \<Rightarrow> [])"
    "ga_state (gatherers (after_report g c d ev s) ! g) = next_state (c = None) (ga_state (gatherers s ! g))"
    "iceGatheringState (after_report g c d ev s) = (if all_completed (after_report g c d ev s) then ''complete'' else ''gathering'')"
proof -
  let ?t = "after_report g c d ev s"
  show "localDescription ?t = Some d" "isClosed ?t = isClosed s"
      "told ?t = told s @ (case ev of Some v \<Rightarrow> if isClosed s \<or> \<not> is_candidate v then [] else [v] | None \<Rightarrow> [])"
    by (simp_all add: after_report_def Let_def split: option.split)
  show "reports_to g mid i ?t" "ga_state (gatherers ?t ! g) = next_state (c = None) (ga_state (gatherers s ! g))"
    using assms by (simp_all add: after_report_def Let_def reports_to_def)
  show "iceGatheringState ?t = (if all_completed ?t then ''complete'' else ''gathering'')"
    unfolding after_report_def Let_def tell_gathered_simps
    by (rule if_cong [OF all_completed_same refl refl]) (simp_all only: tell_gathered_simps)
qed

section \<open>All candidates of a gatherer\<close>

text \<open>A candidate with the line that is written and the table the page is given.\<close>

type_synonym described = "jsval props \<times> string \<times> jsval props"

definition described :: "env \<Rightarrow> addr \<Rightarrow> described \<Rightarrow> bool" where
  "described e g cand = (case cand of (c, text, fs) \<Rightarrow> describe_candidate e g c = ret (text, fs) \<and> line_ok (''a='' @ text))"

definition report_steps :: "addr \<Rightarrow> described list \<Rightarrow> step list" where
  "report_steps g cs = map (\<lambda>(c, text, fs). Local_candidate g (Some c)) cs"

definition all_lines :: "nat \<Rightarrow> string list \<Rightarrow> string list list \<Rightarrow> string list list" where
  "all_lines i ls secs = secs[i := secs ! i @ map (\<lambda>l. ''a='' @ l) ls]"

lemma all_lines_simps:
  "i < length secs \<Longrightarrow> all_lines i [] secs = secs"
  "i < length secs \<Longrightarrow> all_lines i ls (with_line i l secs) = all_lines i (l # ls) secs"
  "i < length secs \<Longrightarrow> with_line i l (all_lines i ls secs) = all_lines i (ls @ [l]) secs" "length (all_lines i ls secs) = length secs"
  by (simp_all add: all_lines_def with_line_def)

lemma reports_described:
  assumes "reports_to g mid i s" "localDescription s = Some (ty, description_text ss secs)" "description_shape ss secs"
    and "i < length secs" "list_all (described e g) cs"
  shows "\<exists>t. pc_run e (report_steps g cs) s = t \<and> reports_to g mid i t \<and> isClosed t = isClosed s \<and>
    localDescription t = Some (ty, description_text ss (all_lines i (map (fst \<circ> snd) cs) secs)) \<and>
    description_shape ss (all_lines i (map (fst \<circ> snd) cs) secs) \<and>
    told t = told s @ (if isClosed s then [] else map (\<lambda>(c, text, fs). Candidate_event mid i text fs) cs) \<and>
    (ga_state (gatherers s ! g) \<in> {Str ''new'', Str ''gathering''} \<longrightarrow> ga_state (gatherers t ! g) \<in> {Str ''new'', Str ''gathering''})"
  using assms
proof (induction cs arbitrary: s secs)
  case Nil
  then show ?case by (simp add: report_steps_def pc_run_def all_lines_simps)
next
  case (Cons cand cs)
  obtain c l fs where cand: "cand = (c, l, fs)" by (cases cand)
  have d: "describe_candidate e g c = ret (l, fs)" "line_ok (''a='' @ l)"
    using Cons.prems(5) by (simp_all add: cand described_def)
  let ?ev = "Some (Candidate_event mid i l fs)" and ?secs = "with_line i l secs"
  let ?t = "after_report g (Some c) (ty, description_text ss ?secs) ?ev s"
  have r: "snd (local_candidate e g (Some c) s) = ?t"
    using local_candidate_reports [where c = "Some c" and line = l and ev = ?ev and e = e, OF Cons.prems(1,2)] d(1) add_line_text [OF Cons.prems(3,4), of l] by simp
  note t = after_report_simps [OF Cons.prems(1), of "Some c" "(ty, description_text ss ?secs)" ?ev]
  have "pc_run e (report_steps g (cand # cs)) s = pc_run e (report_steps g cs) ?t"
    using r by (simp add: report_steps_def cand pc_run_Cons)
  then show ?case
    using Cons.IH [OF t(3,1) with_line_shape [OF Cons.prems(3,4) d(2)]] Cons.prems(4,5) t(2,4,5)
    by (auto simp: cand all_lines_simps next_state_def split: if_splits)
qed

text \<open>
  C10. The candidates a gatherer reports are written into the local description of the connection, in their order and at
  the end of the section of their line, followed by the end of candidates, and every one is announced to the page with the text
  that was written, while the connection is open. Then the gatherer has completed, and the connection has finished gathering
  exactly if the gatherers of all lines have completed.
\<close>

theorem local_candidates_described:
  assumes "reports_to g mid i s" "localDescription s = Some (ty, description_text ss secs)" "description_shape ss secs"
    and "i < length secs" "list_all (described e g) cs" "ga_state (gatherers s ! g) \<in> {Str ''new'', Str ''gathering''}"
    and "t = pc_run e (report_steps g cs @ [Local_candidate g None]) s"
  shows "localDescription t = Some (ty, description_text ss (all_lines i (map (fst \<circ> snd) cs @ [''end-of-candidates'']) secs)) \<and>
    getMediaSections (snd (the (localDescription t))) =
      map text_of (all_lines i (map (fst \<circ> snd) cs @ [''end-of-candidates'']) secs) \<and>
    told t = told s @ (if isClosed s then [] else map (\<lambda>(c, text, fs). Candidate_event mid i text fs) cs) \<and>
    ga_state (gatherers t ! g) = Str ''completed'' \<and>
    iceGatheringState t = (if all_completed t then ''complete'' else ''gathering'')"
proof -
  define u where "u = pc_run e (report_steps g cs) s"
  let ?ls = "map (fst \<circ> snd) cs" and ?last = "''end-of-candidates''"
  have u: "reports_to g mid i u" "localDescription u = Some (ty, description_text ss (all_lines i ?ls secs))"
      "description_shape ss (all_lines i ?ls secs)" "isClosed u = isClosed s"
      "told u = told s @ (if isClosed s then [] else map (\<lambda>(c, text, fs). Candidate_event mid i text fs) cs)"
      "ga_state (gatherers u ! g) \<in> {Str ''new'', Str ''gathering''}"
    using reports_described [OF assms(1-5)] assms(6) unfolding u_def by auto
  have i: "i < length (all_lines i ?ls secs)" using assms(4) by (simp add: all_lines_simps)
  let ?secs = "all_lines i (?ls @ [?last]) secs"
  have add: "add_line i ?last (description_text ss (all_lines i ?ls secs)) = description_text ss ?secs"
    using add_line_text [OF u(3) i] assms(4) by (simp add: all_lines_simps)
  have t: "t = after_report g None (ty, description_text ss ?secs) None u"
    using local_candidate_reports [where c = None and line = ?last and ev = None and e = e, OF u(1,2)] add
    by (simp add: assms(7) pc_run_append pc_run_Cons u_def [symmetric]) (simp add: pc_run_def)
  have "line_ok (''a='' @ ?last)" by (simp add: line_ok_def nl_def is_space_def)
  then have "description_shape ss ?secs" using with_line_shape [OF u(3) i, of ?last] assms(4) by (simp add: all_lines_simps)
  note after_report_simps [OF u(1), of None "(ty, description_text ss ?secs)" None, folded t]
  then show ?thesis
    using u(5,6) description_cut(2) [OF \<open>description_shape ss ?secs\<close>] by (simp add: next_state_def)
qed

text \<open>The usual candidates are written with the user name fragment of the gatherer and read back as they are.\<close>

lemma prop_set_same: "distinct (map fst ps) \<Longrightarrow> (k, v) \<in> set ps \<Longrightarrow> prop_set ps k v = ps"
proof -
  assume d: "distinct (map fst ps)" "(k, v) \<in> set ps"
  have "prop_upd k v qs = qs" if "set qs \<subseteq> set ps" for qs
    using that
  proof (induction qs)
    case (Cons q qs)
    then have "q \<in> set ps" by simp
    then have "fst q = k \<Longrightarrow> q = (k, v)" using eq_key_imp_eq_value [OF d(1), of k "snd q" v] d(2) by (cases q) auto
    then show ?case using Cons by (cases q) auto
  qed simp
  then show ?thesis using d(2) by (force simp: prop_set_def prop_keys_def)
qed

lemma candidate_described:
  assumes "candidate_ok f 1 proto prio ip pt ty rel tcp (Some u)" "usernameFragment (ice_local e g) = u"
  shows "describe_candidate e g (candidate_table f 1 proto prio ip pt ty rel tcp (Some u)) =
    ret (''candidate:'' @ join '' '' (candidate_words f 1 (to_upper proto) prio ip pt ty rel tcp (Some u)),
         candidate_table f 1 proto prio ip pt ty rel tcp (Some u))"
proof -
  let ?c = "candidate_table f 1 proto prio ip pt ty rel tcp (Some u)"
  have "distinct (map fst ?c)" by (cases rel; cases tcp) (auto simp: candidate_table_def)
  moreover have "(''component'', Num (num_of 1)) \<in> set ?c" "(''ufrag'', Str u) \<in> set ?c" by (simp_all add: candidate_table_def)
  ultimately have "prop_set (prop_set ?c ''component'' (Num (num_of 1))) ''ufrag'' (Str u) = ?c"
    by (simp only: prop_set_same)
  then show ?thesis
    using candidate_there_and_back [OF assms(1)] assms(2)
    unfolding describe_candidate_def Let_def by (intro ext) (simp only: lift_def sum.case seq_ret)
qed

definition demo_candidate :: "jsval props" where
  "demo_candidate =
     candidate_table ''842163049'' 1 ''udp'' 1677729535 ''203.0.113.7'' 56143 ''srflx'' (Some (''10.0.1.5'', 56143)) None (Some ''frag'')"

definition demo_line :: string where
  "demo_line =
     ''candidate:842163049 1 UDP 1677729535 203.0.113.7 56143 typ srflx raddr 10.0.1.5 rport 56143 ufrag frag''"

lemma demo_candidate_ok:
  "candidate_ok ''842163049'' 1 ''udp'' 1677729535 ''203.0.113.7'' 56143 ''srflx'' (Some (''10.0.1.5'', 56143)) None (Some ''frag'')"
  by code_simp

lemma demo_line_words:
  "''candidate:'' @ join '' '' (candidate_words ''842163049'' 1 (to_upper ''udp'') 1677729535 ''203.0.113.7'' 56143 ''srflx''
     (Some (''10.0.1.5'', 56143)) None (Some ''frag'')) = demo_line"
  by code_simp

lemma demo_frag: "usernameFragment (ice_local demo_env g) = ''frag''"
  by (simp add: demo_env_def)

lemma demo_described: "described demo_env g (demo_candidate, demo_line, demo_candidate)"
proof -
  have "line_ok (''a='' @ demo_line)" by code_simp
  moreover have "describe_candidate demo_env g demo_candidate = ret (demo_line, demo_candidate)"
    using candidate_described [of "''842163049''" "''udp''" 1677729535 "''203.0.113.7''" 56143 "''srflx''" "Some (''10.0.1.5'', 56143)"
        None "''frag''" demo_env g, unfolded demo_line_words, OF demo_candidate_ok demo_frag] unfolding demo_candidate_def .
  ultimately show ?thesis by (simp add: described_def)
qed

definition demo_session :: "string list" where
  "demo_session = [''v=0'', ''s=-'', ''t=0 0'']"

definition demo_section :: "string list" where
  "demo_section = [''m=audio 9 UDP/TLS/RTP/SAVPF 96'', ''a=mid:mid'']"

definition demo_gathering :: pc where
  "demo_gathering = demo_pc\<lparr>slots := [(empty_slot ''audio'')\<lparr>sl_gatherer := Some 0, sl_ice := Some 0, sl_mid := Str ''mid''\<rparr>],
     gatherers := [\<lparr>ga_state = Str ''new'', ga_handler = Some (Str ''mid'', 0), ga_buffers = None, ga_candidates = []\<rparr>],
     ices := [\<lparr>it_state = ''new'', it_remote = [], it_watched = True\<rparr>],
     localDescription := Some (''offer'', description_text demo_session [demo_section]),
     remoteDescription := Some (''answer'', description_text demo_session [demo_section])\<rparr>"

lemma demo_shape: "description_shape demo_session [demo_section]"
  by code_simp

theorem local_candidates_described_witness:
  "localDescription (pc_run demo_env [Local_candidate 0 (Some demo_candidate), Local_candidate 0 None] demo_gathering) =
     Some (''offer'', description_text demo_session [demo_section @ [''a='' @ demo_line, ''a=end-of-candidates'']])"
proof -
  let ?cs = "[(demo_candidate, demo_line, demo_candidate)]"
  have s: "reports_to 0 (Str ''mid'') 0 demo_gathering"
      "localDescription demo_gathering = Some (''offer'', description_text demo_session [demo_section])"
      "ga_state (gatherers demo_gathering ! 0) \<in> {Str ''new'', Str ''gathering''}"
    by (simp_all add: demo_gathering_def reports_to_def)
  have "list_all (described demo_env 0) ?cs" using demo_described by simp
  from local_candidates_described [OF s(1,2) demo_shape _ this s(3) refl] show ?thesis
    by (simp add: report_steps_def all_lines_def)
qed

section \<open>Remote candidates\<close>

text \<open>
  A candidate the page may add to a line: the line is there, not rejected, and has a transport of its own; the text is one
  line of a candidate with a type, not one the adapter ignores.
\<close>

definition addable :: "candidate_init \<Rightarrow> nat \<Rightarrow> addr \<Rightarrow> jsval props \<Rightarrow> pc \<Rightarrow> bool" where
  "addable c i a cand s \<longleftrightarrow>
     line_of c (slots s) = Some i \<and> i < length (slots s) \<and> \<not> sl_rejected (slots s ! i) \<and>
     sl_ice (slots s ! i) = Some a \<and> a < length (ices s) \<and> (i = 0 \<or> sl_ice (slots s ! 0) \<noteq> Some a) \<and>
     prefix ''candidate:'' (ca_candidate c) \<and> line_ok (''a='' @ ca_candidate c) \<and>
     parseCandidate (ca_candidate c) = Inr cand \<and> \<not> ignored_candidate cand \<and> truthy (field cand ''type'')"

lemma line_of_given: "line_of c ts = Some i \<Longrightarrow> ca_line c \<noteq> Undef \<or> truthy (ca_mid c)"
  by (auto simp: line_of_def line_number_def split: if_splits option.splits)

lemma trimmed_line:
  assumes "prefix ''candidate:'' l" "line_ok (''a='' @ l)"
  shows "trim_ws l = l" "index_of l ''a='' \<noteq> 0" "l \<noteq> []"
proof -
  obtain r where l: "l = ''candidate:'' @ r" using assms(1) by (auto simp: prefix_def)
  show "l \<noteq> []" by (simp add: l)
  have "\<not> is_space (last l)" using assms(2) \<open>l \<noteq> []\<close> by (simp add: line_ok_def)
  then show "trim_ws l = l" using trim_ws_line [of l "[]"] \<open>l \<noteq> []\<close> by (simp add: l is_space_def)
  show "index_of l ''a='' \<noteq> 0" by (simp add: l)
qed

lemma add_remote:
  assumes "addable c i a cand s" "remoteDescription s = Some (ty, description_text ss secs)"
    and "description_shape ss secs" "i < length secs"
  shows "addIceCandidate (Some c) s =
    (if list_ex (same_candidate cand) (it_remote (ices s ! a)) then (Inl cannot_add, s)
     else (Inr (), s\<lparr>ices := (ices s)[a := (ices s ! a)\<lparr>it_remote := it_remote (ices s ! a) @ [cand]\<rparr>],
       calls := calls s @ [Add_candidate a cand],
       remoteDescription := Some (ty, description_text ss (with_line i (ca_candidate c) secs))\<rparr>))"
proof -
  have c: "line_of c (slots s) = Some i" "\<not> sl_rejected (slots s ! i)" "sl_ice (slots s ! i) = Some a" "a < length (ices s)"
      "i = 0 \<or> sl_ice (slots s ! i) \<noteq> sl_ice (slots s ! 0)" "parseCandidate (ca_candidate c) = Inr cand"
      "\<not> ignored_candidate cand" "truthy (field cand ''type'')"
    using assms(1) by (auto simp: addable_def)
  have l: "trim_ws (ca_candidate c) = ca_candidate c" "index_of (ca_candidate c) ''a='' \<noteq> 0" "ca_candidate c \<noteq> []"
    using trimmed_line [of "ca_candidate c"] assms(1) by (simp_all add: addable_def)
  have given: "(ca_line c = Undef \<and> \<not> truthy (ca_mid c)) = False" using line_of_given [OF c(1)] by blast
  have "add_to_line i (ca_candidate c) s =
    (if list_ex (same_candidate cand) (it_remote (ices s ! a)) then (Inl cannot_add, s)
     else (Inr (), s\<lparr>ices := (ices s)[a := (ices s ! a)\<lparr>it_remote := it_remote (ices s ! a) @ [cand]\<rparr>],
       calls := calls s @ [Add_candidate a cand],
       remoteDescription := Some (ty, description_text ss (with_line i (ca_candidate c) secs))\<rparr>))"
    using c(2-8) l assms(2) add_line_text [OF assms(3,4), of "ca_candidate c"]
    by (simp add: add_to_line_def add_remote_candidate_def maybeAddCandidate_def look_def lift_def need_def seq_def ret_def fail_def
        change_def record_call_def ice_upd_def describe_remote_def)
  then show ?thesis using given l(3) c(1) assms(2) by (simp only: addIceCandidate_def look_def option.case given) (simp add: l(3) c(1) assms(2))
qed

text \<open>
  C11. A remote candidate of a line with a transport of its own is added once: it goes to the transport and, as a line, to the end
  of the section of its media line in the remote description, and nothing else changes; adding a
  candidate with the same address, type and priority again is refused and changes nothing.
\<close>

theorem remote_candidate_once:
  assumes "addable c i a cand s" "remoteDescription s = Some (ty, description_text ss secs)"
    and "description_shape ss secs" "i < length secs"
    and "\<not> list_ex (same_candidate cand) (it_remote (ices s ! a))" "same_candidate cand cand"
    and "t = s\<lparr>ices := (ices s)[a := (ices s ! a)\<lparr>it_remote := it_remote (ices s ! a) @ [cand]\<rparr>],
       calls := calls s @ [Add_candidate a cand],
       remoteDescription := Some (ty, description_text ss (with_line i (ca_candidate c) secs))\<rparr>"
  shows "addIceCandidate (Some c) s = (Inr (), t) \<and> addIceCandidate (Some c) t = (Inl cannot_add, t) \<and>
    getMediaSections (snd (the (remoteDescription t))) = map text_of (with_line i (ca_candidate c) secs)"
proof -
  have l: "line_ok (''a='' @ ca_candidate c)" using assms(1) by (simp add: addable_def)
  note d = with_line_shape [OF assms(3,4) l]
  have a: "addable c i a cand t" "a < length (ices s)" using assms(1) by (simp_all add: addable_def assms(7))
  have "list_ex (same_candidate cand) (it_remote (ices t ! a))" using a(2) assms(6) by (simp add: assms(7))
  then have "addIceCandidate (Some c) t = (Inl cannot_add, t)"
    using add_remote [OF a(1) _ d] assms(4) by (simp add: assms(7))
  moreover have "addIceCandidate (Some c) s = (Inr (), t)" using add_remote [OF assms(1-4)] assms(5) by (simp add: assms(7))
  ultimately show ?thesis using description_cut(2) [OF d] by (simp add: assms(7))
qed

definition demo_init :: candidate_init where
  "demo_init = \<lparr>ca_candidate = demo_line, ca_mid = Str ''mid'', ca_line = Num (num_of 0)\<rparr>"

lemma demo_parsed: "parseCandidate demo_line = Inr demo_candidate"
  using candidate_there_and_back(2) [OF demo_candidate_ok] unfolding demo_line_words demo_candidate_def .

lemma demo_addable: "addable demo_init 0 0 demo_candidate demo_gathering"
proof -
  have "line_of demo_init (slots demo_gathering) = Some 0"
    by (simp add: line_of_def demo_init_def demo_gathering_def strict_eq_def)
  moreover have "prefix ''candidate:'' demo_line" "line_ok (''a='' @ demo_line)" by code_simp+
  moreover have "\<not> ignored_candidate demo_candidate" "truthy (field demo_candidate ''type'')"
    by (simp_all add: ignored_candidate_def demo_candidate_def candidate_table_def field_def prop_get_def strict_eq_def num_eq_def)
  ultimately show ?thesis by (simp add: addable_def demo_parsed) (simp add: demo_init_def demo_gathering_def empty_slot_def demo_parsed)
qed

theorem remote_candidate_once_witness:
  "fst (addIceCandidate (Some demo_init) (snd (addIceCandidate (Some demo_init) demo_gathering))) = Inl cannot_add"
proof -
  have s: "remoteDescription demo_gathering = Some (''answer'', description_text demo_session [demo_section])"
      "\<not> list_ex (same_candidate demo_candidate) (it_remote (ices demo_gathering ! 0))"
    by (simp_all add: demo_gathering_def)
  have "same_candidate demo_candidate demo_candidate"
    by (simp add: same_candidate_def demo_candidate_def candidate_table_def field_def prop_get_def strict_eq_def num_eq_def)
  from remote_candidate_once [OF demo_addable s(1) demo_shape _ s(2) this refl] show ?thesis by simp
qed

end
