(* ===== verification/ShimStats.thy ===== *)
theory ShimStats
  imports EdgePeer
begin

text \<open>
  Statistics in the WebRTC adapter: the reports of one track among all reports, found by following the identifiers in a
  report from one to the next, and the statistics of the Edge peer connection. A JavaScript map is the list of its
  entries in the order of insertion; identifiers are primitive values.
\<close>

section \<open>Following identifiers\<close>

type_synonym report = "jsval props"
type_synonym reports = "(jsval \<times> report) list"

definition report_id :: "report \<Rightarrow> jsval" where
  "report_id r = field r ''id''"

definition has_report :: "reports \<Rightarrow> jsval \<Rightarrow> bool" where
  "has_report rs i = list_ex (\<lambda>(k, _). k = i) rs"

definition set_report :: "reports \<Rightarrow> jsval \<Rightarrow> report \<Rightarrow> reports" where
  "set_report rs i r = (if has_report rs i then map (\<lambda>(k, x). (k, if k = i then r else x)) rs else rs @ [(i, r)])"

text \<open>What the properties of a report lead to: a report or none, or an error where identifiers are not in an array.\<close>

definition followed :: "reports \<Rightarrow> string \<Rightarrow> jsval \<Rightarrow> report option result list" where
  "followed stats name v =
     (if suffix ''Id'' name then [Inr (map_of stats v)]
      else if suffix ''Ids'' name then (case v of Arr vs \<Rightarrow> map (\<lambda>x. Inr (map_of stats x)) vs | _ \<Rightarrow> [Inl TypeError])
      else [])"

definition links :: "reports \<Rightarrow> report \<Rightarrow> report option result list" where
  "links stats r = concat (map (\<lambda>(name, v). followed stats name v) r)"

text \<open>
  The recursion of \<open>walkStats\<close> with its stack of pending calls written out; every call goes on where the one
  before stopped (\<open>walkStats_calls\<close>).
\<close>

definition pending :: "reports \<Rightarrow> report option result list \<Rightarrow> reports \<Rightarrow> jsval set" where
  "pending stats ws rs =
     (report_id ` snd ` set stats \<union> {report_id r | r. Inr (Some r) \<in> set ws}) - fst ` set rs"

lemma finite_pending: "finite (pending stats ws rs)"
proof -
  have "{report_id r | r. Inr (Some r) \<in> set ws} \<subseteq> (\<lambda>w. case w of Inr (Some r) \<Rightarrow> report_id r | _ \<Rightarrow> Undef) ` set ws"
    by (force simp: image_iff)
  then show ?thesis unfolding pending_def by (meson List.finite_set finite_Diff finite_UnI finite_imageI finite_subset)
qed

lemma links_reports: "Inr (Some b) \<in> set (links stats r) \<Longrightarrow> b \<in> snd ` set stats"
proof -
  assume "Inr (Some b) \<in> set (links stats r)"
  then obtain name v where "Inr (Some b) \<in> set (followed stats name v)" unfolding links_def by auto
  then obtain x where "map_of stats x = Some b" unfolding followed_def by (cases v) (auto split: if_splits)
  then show ?thesis using map_of_SomeD by (force simp: image_iff)
qed

lemma has_report_iff: "has_report rs i \<longleftrightarrow> i \<in> fst ` set rs"
  by (force simp: has_report_def list_ex_iff)

function walk :: "reports \<Rightarrow> report option result list \<Rightarrow> reports \<Rightarrow> reports result" where
  "walk stats [] rs = Inr rs"
| "walk stats (Inl e # ws) rs = Inl e"
| "walk stats (Inr None # ws) rs = walk stats ws rs"
| "walk stats (Inr (Some r) # ws) rs =
     (if has_report rs (report_id r) then walk stats ws rs
      else walk stats (links stats r @ ws) (set_report rs (report_id r) r))"
  by pat_completeness auto
termination
proof (relation "inv_image (less_than <*lex*> less_than) (\<lambda>(stats, ws, rs). (card (pending stats ws rs), length ws))", goal_cases)
  case (2 stats ws rs)
  have "card (pending stats ws rs) \<le> card (pending stats (Inr None # ws) rs)"
    by (intro card_mono finite_pending) (auto simp: pending_def)
  then show ?case by auto
next
  case (3 stats r ws rs)
  have "card (pending stats ws rs) \<le> card (pending stats (Inr (Some r) # ws) rs)"
    by (intro card_mono finite_pending) (auto simp: pending_def)
  then show ?case by auto
next
  case (4 stats r ws rs)
  have n: "report_id r \<notin> fst ` set rs" using 4 by (simp add: has_report_iff)
  have "pending stats (links stats r @ ws) (set_report rs (report_id r) r) \<subseteq> pending stats (Inr (Some r) # ws) rs - {report_id r}"
    using 4 links_reports [of _ stats r] by (auto simp: pending_def set_report_def)
  moreover have "report_id r \<in> pending stats (Inr (Some r) # ws) rs" using n by (auto simp: pending_def)
  ultimately have "pending stats (links stats r @ ws) (set_report rs (report_id r) r) \<subset> pending stats (Inr (Some r) # ws) rs" by blast
  then show ?case using psubset_card_mono [OF finite_pending] by simp
qed auto

definition walkStats :: "reports \<Rightarrow> report option \<Rightarrow> reports \<Rightarrow> reports result" where
  "walkStats stats r rs = walk stats [Inr r] rs"

fun walk_roots :: "reports \<Rightarrow> report list \<Rightarrow> reports \<Rightarrow> reports result" where
  "walk_roots stats [] rs = Inr rs"
| "walk_roots stats (r # roots) rs = bind_result (walkStats stats (Some r) rs) (walk_roots stats roots)"

definition track_roots :: "reports \<Rightarrow> string \<Rightarrow> bool \<Rightarrow> report list" where
  "track_roots stats track outbound =
     (let reps = map snd stats;
          tracks = filter (\<lambda>r. strict_eq (field r ''type'') (Str ''track'') \<and> strict_eq (field r ''trackIdentifier'') (Str track)) reps
      in concat (map (\<lambda>t. filter (\<lambda>r. strict_eq (field r ''type'') (Str (if outbound then ''outbound-rtp'' else ''inbound-rtp'')) \<and>
                                       strict_eq (field r ''trackId'') (report_id t)) reps) tracks))"

text \<open>\<open>None\<close> is a sender or receiver without a track.\<close>

definition filterStats :: "reports \<Rightarrow> string option \<Rightarrow> bool \<Rightarrow> reports result" where
  "filterStats stats track outbound =
     (case track of None \<Rightarrow> Inr [] | Some t \<Rightarrow> walk_roots stats (track_roots stats t outbound) [])"

section \<open>The recursion of the code\<close>

lemma walk_append: "walk stats (xs @ ys) rs = bind_result (walk stats xs rs) (walk stats ys)"
  by (induction stats xs rs rule: walk.induct) simp_all

text \<open>The code's own equation: the report is entered, then every property is followed with the set so far.\<close>

fun calls_of :: "(report option \<Rightarrow> reports \<Rightarrow> reports result) \<Rightarrow> report option result list \<Rightarrow> reports \<Rightarrow> reports result" where
  "calls_of f [] rs = Inr rs"
| "calls_of f (Inl e # ws) rs = Inl e"
| "calls_of f (Inr r # ws) rs = bind_result (f r rs) (calls_of f ws)"

lemma walk_calls: "walk stats ws rs = calls_of (walkStats stats) ws rs"
proof (induction ws arbitrary: rs)
  case (Cons w ws)
  show ?case
  proof (cases w)
    case (Inr r)
    have "walk stats (w # ws) rs = bind_result (walk stats [Inr r] rs) (walk stats ws)"
      using walk_append [of stats "[w]" ws rs] Inr by simp
    moreover have "walk stats ws = calls_of (walkStats stats) ws" using Cons by (intro ext)
    ultimately show ?thesis using Inr by (simp add: walkStats_def [symmetric])
  qed simp
qed simp

lemma walkStats_calls:
  "walkStats stats r rs =
     (case r of None \<Rightarrow> Inr rs
      | Some b \<Rightarrow> if has_report rs (report_id b) then Inr rs
                  else calls_of (walkStats stats) (links stats b) (set_report rs (report_id b) b))"
  by (cases r) (simp_all add: walkStats_def walk_calls [symmetric])

section \<open>What is found\<close>

definition leads_to :: "reports \<Rightarrow> report \<Rightarrow> report \<Rightarrow> bool" where
  "leads_to stats b c \<longleftrightarrow> Inr (Some c) \<in> set (links stats b)"

inductive reaches :: "reports \<Rightarrow> report list \<Rightarrow> report \<Rightarrow> bool" for stats roots where
  root: "b \<in> set roots \<Longrightarrow> reaches stats roots b"
| follow: "reaches stats roots b \<Longrightarrow> leads_to stats b c \<Longrightarrow> reaches stats roots c"

text \<open>A browser files every report under its identifier, and lists of identifiers are arrays.\<close>

definition stats_ok :: "reports \<Rightarrow> bool" where
  "stats_ok stats \<longleftrightarrow> distinct (map fst stats) \<and> list_all (\<lambda>(k, r). k = report_id r \<and> Inl TypeError \<notin> set (links stats r)) stats"

lemma reaches_mono: "reaches stats roots b \<Longrightarrow> (\<And>r. r \<in> set roots \<Longrightarrow> reaches stats roots' r) \<Longrightarrow> reaches stats roots' b"
  by (induction rule: reaches.induct) (auto intro: reaches.follow)

lemma links_Inl: "Inl e \<in> set (links stats r) \<Longrightarrow> e = TypeError"
proof -
  assume "Inl e \<in> set (links stats r)"
  then obtain name v where "Inl e \<in> set (followed stats name v)" unfolding links_def by auto
  then show ?thesis unfolding followed_def by (cases v) (auto split: if_splits)
qed

lemma stats_entry: "stats_ok stats \<Longrightarrow> b \<in> snd ` set stats \<Longrightarrow> (report_id b, b) \<in> set stats"
  by (force simp: stats_ok_def list_all_iff)

lemma entry_unique:
  "stats_ok stats \<Longrightarrow> set rs \<subseteq> set stats \<Longrightarrow> b \<in> snd ` set stats \<Longrightarrow> report_id b \<in> fst ` set rs \<Longrightarrow> (report_id b, b) \<in> set rs"
proof -
  assume a: "stats_ok stats" "set rs \<subseteq> set stats" "b \<in> snd ` set stats" "report_id b \<in> fst ` set rs"
  then obtain x where x: "(report_id b, x) \<in> set rs" by auto
  have "distinct (map fst stats)" using a(1) by (simp add: stats_ok_def)
  then have "x = b" using eq_key_imp_eq_value x a(2) stats_entry [OF a(1,3)] by (metis subsetD)
  then show ?thesis using x by simp
qed

text \<open>What one walk adds to a set: what the pending calls ask for, closed under links, and nothing else.\<close>

definition walked :: "reports \<Rightarrow> report list \<Rightarrow> reports \<Rightarrow> reports \<Rightarrow> bool" where
  "walked stats bs rs rs' \<longleftrightarrow>
     set rs \<subseteq> set rs' \<and> set rs' \<subseteq> set stats \<and> (distinct (map fst rs) \<longrightarrow> distinct (map fst rs')) \<and>
     (\<forall>b \<in> set bs. (report_id b, b) \<in> set rs') \<and>
     (\<forall>k b c. (k, b) \<in> set rs' - set rs \<longrightarrow> leads_to stats b c \<longrightarrow> (report_id c, c) \<in> set rs') \<and>
     (\<forall>k b. (k, b) \<in> set rs' - set rs \<longrightarrow> k = report_id b \<and> reaches stats bs b)"

lemma walkedD:
  assumes "walked stats bs rs rs'"
  shows "set rs \<subseteq> set rs'" "set rs' \<subseteq> set stats" "distinct (map fst rs) \<Longrightarrow> distinct (map fst rs')"
    "b \<in> set bs \<Longrightarrow> (report_id b, b) \<in> set rs'"
    "(k, b) \<in> set rs' \<Longrightarrow> (k, b) \<notin> set rs \<Longrightarrow> leads_to stats b c \<Longrightarrow> (report_id c, c) \<in> set rs'"
    "(k, b) \<in> set rs' \<Longrightarrow> (k, b) \<notin> set rs \<Longrightarrow> k = report_id b \<and> reaches stats bs b"
  using assms unfolding walked_def by blast+

lemma walkedI:
  assumes "set rs \<subseteq> set rs'" "set rs' \<subseteq> set stats" "distinct (map fst rs) \<Longrightarrow> distinct (map fst rs')"
    "\<And>b. b \<in> set bs \<Longrightarrow> (report_id b, b) \<in> set rs'"
    "\<And>k b c. (k, b) \<in> set rs' \<Longrightarrow> (k, b) \<notin> set rs \<Longrightarrow> leads_to stats b c \<Longrightarrow> (report_id c, c) \<in> set rs'"
    "\<And>k b. (k, b) \<in> set rs' \<Longrightarrow> (k, b) \<notin> set rs \<Longrightarrow> k = report_id b \<and> reaches stats bs b"
  shows "walked stats bs rs rs'"
  using assms unfolding walked_def by blast

definition asked :: "report option result list \<Rightarrow> report list" where
  "asked ws = concat (map (\<lambda>w. case w of Inr (Some b) \<Rightarrow> [b] | _ \<Rightarrow> []) ws)"

lemma asked_simps [simp]:
  "asked [] = []" "asked (Inr None # ws) = asked ws" "asked (Inr (Some b) # ws) = b # asked ws" "asked (vs @ ws) = asked vs @ asked ws"
  "asked (map (\<lambda>b. Inr (Some b)) bs) = bs"
  by (simp_all add: asked_def comp_def)

lemma set_asked: "b \<in> set (asked ws) \<longleftrightarrow> Inr (Some b) \<in> set ws"
  by (force simp: asked_def split: sum.splits option.splits)

lemma walk_walked:
  assumes "stats_ok stats" "set (asked ws) \<subseteq> snd ` set stats" "\<forall>e. Inl e \<notin> set ws" "set rs \<subseteq> set stats"
  shows "\<exists>rs'. walk stats ws rs = Inr rs' \<and> walked stats (asked ws) rs rs'"
  using assms
proof (induction stats ws rs rule: walk.induct)
  case (1 stats rs)
  then show ?case by (simp add: walked_def)
next
  case (3 stats ws rs)
  then show ?case by simp
next
  case (4 stats b ws rs)
  note ok = \<open>stats_ok stats\<close>
  have b: "b \<in> snd ` set stats" "set (asked ws) \<subseteq> snd ` set stats" using "4.prems"(2) by simp_all
  show ?case
  proof (cases "has_report rs (report_id b)")
    case True
    then obtain rs' where rs': "walk stats ws rs = Inr rs'" "walked stats (asked ws) rs rs'"
      using "4.IH"(1) "4.prems" by auto
    have "(report_id b, b) \<in> set rs" using entry_unique [OF ok "4.prems"(4) b(1)] True by (simp add: has_report_iff)
    moreover have "reaches stats (asked ws) x \<Longrightarrow> reaches stats (b # asked ws) x" for x
      by (erule reaches_mono) (simp add: reaches.root)
    moreover note w = walkedD [OF rs'(2)]
    ultimately have "walked stats (b # asked ws) rs rs'"
      by (intro walkedI [OF w(1,2,3)]) (use w(1) w(4-6) in fastforce)+
    then show ?thesis using rs'(1) True by simp
  next
    case False
    let ?rs = "rs @ [(report_id b, b)]"
    have set: "set_report rs (report_id b) b = ?rs" using False by (simp add: set_report_def)
    have l: "set (asked (links stats b)) \<subseteq> snd ` set stats" using links_reports [of _ stats b] by (auto simp: set_asked)
    have "Inl TypeError \<notin> set (links stats b)" using ok b(1) by (auto simp: stats_ok_def list_all_iff)
    then have e: "\<forall>e. Inl e \<notin> set (links stats b @ ws)" using links_Inl [of _ stats b] "4.prems"(3) by auto
    have rs: "set ?rs \<subseteq> set stats" using "4.prems"(4) stats_entry [OF ok b(1)] by simp
    obtain rs' where rs': "walk stats (links stats b @ ws) ?rs = Inr rs'" "walked stats (asked (links stats b) @ asked ws) ?rs rs'"
      using "4.IH"(2) [OF False ok _ e] l b(2) rs set by auto
    have to: "reaches stats (b # asked ws) x" if "reaches stats (asked (links stats b) @ asked ws) x" for x
      using that
    proof (rule reaches_mono)
      fix r assume "r \<in> set (asked (links stats b) @ asked ws)"
      then consider "leads_to stats b r" | "r \<in> set (b # asked ws)" by (auto simp: set_asked leads_to_def)
      then show "reaches stats (b # asked ws) r"
      proof cases
        case 1
        have "reaches stats (b # asked ws) b" by (rule reaches.root) simp
        then show ?thesis using 1 by (rule reaches.follow)
      qed (rule reaches.root)
    qed
    note w = walkedD [OF rs'(2)]
    have new: "(report_id b, b) \<in> set rs'" "set rs \<subseteq> set rs'" using w(1) by auto
    have "report_id b \<notin> fst ` set rs" using False by (simp add: has_report_iff)
    then have d: "distinct (map fst rs) \<Longrightarrow> distinct (map fst rs')" using w(3) by simp
    have "walked stats (b # asked ws) rs rs'"
    proof (rule walkedI [OF new(2) w(2) d])
      show "(report_id c, c) \<in> set rs'" if "c \<in> set (b # asked ws)" for c
        using that w(4) [of c] new(1) by auto
      show "(report_id c, c) \<in> set rs'" if "(k, x) \<in> set rs'" "(k, x) \<notin> set rs" "leads_to stats x c" for k x c
      proof (cases "(k, x) = (report_id b, b)")
        case True
        then have "c \<in> set (asked (links stats b) @ asked ws)" using that(3) by (simp add: set_asked leads_to_def)
        then show ?thesis by (rule w(4))
      next
        case False
        then show ?thesis using w(5) [OF that(1) _ that(3)] that(2) by simp
      qed
      show "k = report_id x \<and> reaches stats (b # asked ws) x" if "(k, x) \<in> set rs'" "(k, x) \<notin> set rs" for k x
      proof (cases "(k, x) = (report_id b, b)")
        case True
        then show ?thesis by (simp add: reaches.root)
      next
        case False
        then show ?thesis using w(6) [OF that(1)] that(2) to by simp
      qed
    qed
    then show ?thesis using rs'(1) False set by simp
  qed
qed auto

lemma walk_roots_walk: "walk_roots stats roots rs = walk stats (map (\<lambda>r. Inr (Some r)) roots) rs"
proof (induction roots arbitrary: rs)
  case (Cons r roots)
  have "walk stats (map (\<lambda>r. Inr (Some r)) (r # roots)) rs =
      bind_result (walkStats stats (Some r) rs) (walk stats (map (\<lambda>r. Inr (Some r)) roots))"
    using walk_append [of stats "[Inr (Some r)]" "map (\<lambda>r. Inr (Some r)) roots" rs] by (simp add: walkStats_def)
  moreover have "walk_roots stats roots = walk stats (map (\<lambda>r. Inr (Some r)) roots)" using Cons by (intro ext)
  ultimately show ?case by simp
qed simp

text \<open>
  C16. The statistics of a track are exactly the reports that can be reached from the stream reports of the track by following
  identifiers, each filed once under its identifier; collecting them always ends, also when reports refer to
  each other in a circle.
\<close>

theorem filter_stats_reachable:
  assumes "stats_ok stats" "roots = track_roots stats t outbound"
  shows "\<exists>rs. filterStats stats (Some t) outbound = Inr rs \<and> distinct (map fst rs) \<and>
    set rs = {(report_id b, b) | b. reaches stats roots b} \<and> set rs \<subseteq> set stats"
proof -
  have r: "set roots \<subseteq> snd ` set stats" unfolding assms(2) track_roots_def Let_def by auto
  obtain rs where rs: "filterStats stats (Some t) outbound = Inr rs" "walked stats roots [] rs"
    using walk_walked [OF assms(1), of "map (\<lambda>r. Inr (Some r)) roots" "[]"] r
    by (auto simp: filterStats_def walk_roots_walk assms(2) [symmetric])
  note w = walkedD [OF rs(2)]
  have "(report_id b, b) \<in> set rs" if "reaches stats roots b" for b
    using that by induction (use w(4,5) in auto)
  then have "set rs = {(report_id b, b) | b. reaches stats roots b}" using w(6) by auto
  then show ?thesis using rs(1) w(2,3) by auto
qed

definition demo_reports :: reports where
  "demo_reports =
     [(Str ''t'', [(''id'', Str ''t''), (''type'', Str ''track''), (''trackIdentifier'', Str ''mic'')]),
      (Str ''o'', [(''id'', Str ''o''), (''type'', Str ''outbound-rtp''), (''trackId'', Str ''t''), (''codecId'', Str ''c'')]),
      (Str ''c'', [(''id'', Str ''c''), (''type'', Str ''codec''), (''streamIds'', Arr [Str ''o''])]),
      (Str ''x'', [(''id'', Str ''x''), (''type'', Str ''codec'')])]"

lemma demo_stats_ok: "stats_ok demo_reports"
  by code_simp

theorem filter_stats_reachable_witness:
  "\<exists>rs. filterStats demo_reports (Some ''mic'') True = Inr rs \<and> distinct (map fst rs) \<and> set rs \<subseteq> set demo_reports"
  using filter_stats_reachable [OF demo_stats_ok refl, of "''mic''" True] by blast

section \<open>Statistics of the Edge connection\<close>

datatype stats_source = Of_sender addr | Of_receiver addr | Of_gatherer addr | Of_ice addr | Of_dtls addr

text \<open>With a track, the last sender or receiver of it; otherwise all objects of all lines.\<close>

definition stats_sources :: "addr option \<Rightarrow> pc \<Rightarrow> dom_error + stats_source list" where
  "stats_sources selector s =
     (case selector of
        Some track \<Rightarrow>
          (case fold (\<lambda>t found. case sl_sender t of
               Some x \<Rightarrow> if sd_track (senders s ! x) = track then Some (Of_sender x)
                         else (case sl_receiver t of Some r \<Rightarrow> if receivers s ! r = track then Some (Of_receiver r) else found | None \<Rightarrow> found)
             | None \<Rightarrow> (case sl_receiver t of Some r \<Rightarrow> if receivers s ! r = track then Some (Of_receiver r) else found | None \<Rightarrow> found))
             (slots s) None of
             Some x \<Rightarrow> Inr [x]
           | None \<Rightarrow> Inl (makeError ''InvalidAccessError'' ''Invalid selector.''))
      | None \<Rightarrow>
          Inr (concat (map (\<lambda>t. concat
            [map Of_sender (case sl_sender t of Some x \<Rightarrow> [x] | None \<Rightarrow> []), map Of_receiver (case sl_receiver t of Some x \<Rightarrow> [x] | None \<Rightarrow> []),
             map Of_gatherer (case sl_gatherer t of Some x \<Rightarrow> [x] | None \<Rightarrow> []), map Of_ice (case sl_ice t of Some x \<Rightarrow> [x] | None \<Rightarrow> []),
             map Of_dtls (case sl_dtls t of Some x \<Rightarrow> [x] | None \<Rightarrow> [])]) (slots s))))"

text \<open>The names of the types are repaired, and a map is made of the object the browser returns.\<close>

definition native_stats :: "(string \<times> report) list \<Rightarrow> reports" where
  "native_stats ps =
     map (\<lambda>(i, r). (Str i, prop_set r ''type'' (case field r ''type'' of Str t \<Rightarrow> Str (fixStatsType t) | v \<Rightarrow> v))) ps"

definition merge_stats :: "reports list \<Rightarrow> reports" where
  "merge_stats all = fold (\<lambda>(_, r) rs. set_report rs (report_id r) r) (concat all) []"

section \<open>Statistics of Chrome\<close>

text \<open>A report of the older interface: identifier, time, type, and the values of its names.\<close>

definition fix_chrome_report :: "string \<Rightarrow> jsval \<Rightarrow> string \<Rightarrow> (string \<times> jsval) list \<Rightarrow> report" where
  "fix_chrome_report i time type values =
     fold (\<lambda>(name, v) r. assign_prop r name v) values
       [(''id'', Str i), (''timestamp'', time),
        (''type'', Str (if type = ''localcandidate'' then ''local-candidate'' else if type = ''remotecandidate'' then ''remote-candidate'' else type))]"

definition fixChromeStats :: "(string \<times> jsval \<times> string \<times> (string \<times> jsval) list) list \<Rightarrow> report props" where
  "fixChromeStats rs =
     fold (\<lambda>(i, time, type, values) out. let r = fix_chrome_report i time type values in prop_set out (to_str (report_id r)) r) rs []"

definition makeMapStats :: "report props \<Rightarrow> reports" where
  "makeMapStats stats = map (\<lambda>(k, r). (Str k, r)) stats"

text \<open>The one sender or receiver of a track, from the tracks of all senders and of all receivers.\<close>

definition stats_target :: "addr option list \<Rightarrow> addr option list \<Rightarrow> addr \<Rightarrow> dom_error + stats_source" where
  "stats_target ts rs track =
     (let ss = filter (\<lambda>i. ts ! i = Some track) [0 ..< length ts];
          rr = filter (\<lambda>i. rs ! i = Some track) [0 ..< length rs]
      in if 1 < length ss \<or> 1 < length rr \<or> ss \<noteq> [] \<and> rr \<noteq> []
         then Inl (makeError ''InvalidAccessError'' ''There are more than one sender or receiver for the track.'')
         else if ss \<noteq> [] then Inr (Of_sender (hd ss)) else if rr \<noteq> [] then Inr (Of_receiver (hd rr))
         else Inl (makeError ''InvalidAccessError'' ''There is no sender or receiver for the track.''))"

lemma stats_target_once:
  "stats_target ts rs track = Inr x \<Longrightarrow>
     length (filter (\<lambda>t. t = Some track) (ts @ rs)) = 1 \<and>
     (case x of Of_sender i \<Rightarrow> ts ! i = Some track | Of_receiver i \<Rightarrow> rs ! i = Some track | _ \<Rightarrow> False)"
proof -
  have len: "length (filter (\<lambda>i. xs ! i = Some track) [0 ..< length xs]) = length (filter (\<lambda>t. t = Some track) xs)" for xs
  proof -
    have "map ((!) xs) (filter (\<lambda>i. xs ! i = Some track) [0 ..< length xs]) = filter (\<lambda>t. t = Some track) (map ((!) xs) [0 ..< length xs])"
      by (simp add: filter_map comp_def)
    then show ?thesis by (metis length_map map_nth)
  qed
  have hd: "xs ! hd (filter (\<lambda>i. xs ! i = Some track) [0 ..< length xs]) = Some track"
    if "filter (\<lambda>i. xs ! i = Some track) [0 ..< length xs] \<noteq> []" for xs
    using hd_in_set [OF that] by simp
  assume "stats_target ts rs track = Inr x"
  then show ?thesis
    using len [of ts] len [of rs] hd [of ts] hd [of rs]
    by (auto simp: stats_target_def Let_def split: if_splits) (metis Suc_lessI length_greater_0_conv)+
qed

end
