(* ===== verification/ShimMedia.thy ===== *)
theory ShimMedia
  imports Sdp
begin

text \<open>
  Media constraints in the WebRTC adapter: nested constraints without their empty parts (Safari), the older form of
  constraints (Chrome), names of the gain and noise filters, cameras for a facing mode, and names of errors.
\<close>

section \<open>Empty parts\<close>

text \<open>Assigning to \<open>__proto__\<close> changes the prototype of the copy, which gains no property.\<close>

fun compactObject :: "jsval \<Rightarrow> jsval" where
  "compactObject (Obj ps) =
     Obj (concat (map (\<lambda>(k, v). let w = compactObject v in if w = Undef \<or> w = Obj [] \<or> k = ''__proto__'' then [] else [(k, w)]) ps))"
| "compactObject v = v"

definition safari_shimConstraints :: "jsval props \<Rightarrow> jsval props" where
  "safari_shimConstraints constraints =
     (if field constraints ''video'' \<noteq> Undef
      then prop_set constraints ''video'' (compactObject (field constraints ''video'')) else constraints)"

text \<open>No property is undefined or an object without properties, at any depth of objects.\<close>

fun compact :: "jsval \<Rightarrow> bool" where
  "compact (Obj ps) = list_all (\<lambda>(k, v). v \<noteq> Undef \<and> v \<noteq> Obj [] \<and> k \<noteq> ''__proto__'' \<and> compact v) ps"
| "compact v = True"

lemma compact_compactObject: "compact (compactObject v)"
proof (induction v rule: compactObject.induct)
  case (1 ps)
  have "compact (compactObject v)" if "(k, v) \<in> set ps" for k v using 1 that by simp
  then show ?case by (fastforce simp: list_all_iff Let_def split: if_splits)
qed simp_all

lemma compactObject_compact: "compact v \<Longrightarrow> compactObject v = v"
proof (induction v rule: compactObject.induct)
  case (1 ps)
  have "(case kv of (k, v) \<Rightarrow> let w = compactObject v in if w = Undef \<or> w = Obj [] \<or> k = ''__proto__'' then [] else [(k, w)]) = [kv]"
    if "kv \<in> set ps" for kv
  proof (cases kv)
    case (Pair k v)
    have "compactObject v = v" using 1 that Pair by (force simp: list_all_iff)
    moreover have "v \<noteq> Undef \<and> v \<noteq> Obj [] \<and> k \<noteq> ''__proto__''" using "1.prems" that Pair by (force simp: list_all_iff)
    ultimately show ?thesis using Pair by simp
  qed
  then have "map (\<lambda>(k, v). let w = compactObject v in if w = Undef \<or> w = Obj [] \<or> k = ''__proto__'' then [] else [(k, w)]) ps = map (\<lambda>kv. [kv]) ps"
    by (intro map_cong refl)
  from arg_cong [OF this, of concat] show ?case by (simp only: compactObject.simps concat_map_singleton map_ident)
qed simp_all

fun at_path :: "string list \<Rightarrow> jsval \<Rightarrow> jsval option" where
  "at_path [] v = Some v"
| "at_path (k # ks) (Obj ps) = (case map_of ps k of None \<Rightarrow> None | Some w \<Rightarrow> at_path ks w)"
| "at_path (k # ks) v = None"

fun distinct_keys :: "jsval \<Rightarrow> bool" where
  "distinct_keys (Obj ps) = (distinct (map fst ps) \<and> list_all (\<lambda>(k, v). distinct_keys v) ps)"
| "distinct_keys v = True"

lemma map_of_kept:
  "distinct (map fst ps) \<Longrightarrow> k \<noteq> ''__proto__'' \<Longrightarrow>
   map_of (concat (map (\<lambda>(k, v). let w = compactObject v in if w = Undef \<or> w = Obj [] \<or> k = ''__proto__'' then [] else [(k, w)]) ps)) k =
     (case map_of ps k of None \<Rightarrow> None
      | Some v \<Rightarrow> if compactObject v = Undef \<or> compactObject v = Obj [] then None else Some (compactObject v))"
proof (induction ps)
  case (Cons p ps)
  have "map_of ps k = None" if "k = fst p" using Cons.prems(1) that by (cases p) (simp add: map_of_eq_None_iff)
  then show ?case using Cons by (cases p) (auto simp: Let_def split: option.split)
qed simp

lemma compact_paths:
  assumes "distinct_keys v" "w \<noteq> Undef" "\<And>ps. w \<noteq> Obj ps" "''__proto__'' \<notin> set ks"
  shows "at_path ks (compactObject v) = Some w \<longleftrightarrow> at_path ks v = Some w"
  using assms(1,4)
proof (induction ks arbitrary: v)
  case Nil
  then show ?case using assms(3) by (cases v) auto
next
  case (Cons k ks)
  show ?case
  proof (cases v)
    case (Obj ps)
    have d: "distinct (map fst ps)" "k \<noteq> ''__proto__''" "''__proto__'' \<notin> set ks" using Cons.prems Obj by auto
    show ?thesis
    proof (cases "map_of ps k")
      case (Some x)
      have "distinct_keys x" using Cons.prems(1) map_of_SomeD [OF Some] Obj by (auto simp: list_all_iff)
      then have ih: "at_path ks (compactObject x) = Some w \<longleftrightarrow> at_path ks x = Some w" using Cons.IH d(3) by blast
      have "at_path ks u \<noteq> Some w" if "u = Undef \<or> u = Obj []" for u using that assms(2,3) by (cases ks) auto
      then show ?thesis using ih map_of_kept [OF d(1,2)] Some Obj by (auto simp del: map_concat)
    qed (use map_of_kept [OF d(1,2)] Obj in \<open>simp del: map_concat\<close>)
  qed simp_all
qed

text \<open>
  C19. Compacting a constraint leaves no undefined property and no empty object at any depth, changes nothing where there was
  none, and loses nothing else: under every path of names there is the same value as before, if it is not
  undefined and not itself an object.
\<close>

theorem compact_object:
  assumes "distinct_keys v" "w \<noteq> Undef" "\<And>ps. w \<noteq> Obj ps" "''__proto__'' \<notin> set ks"
  shows "compact (compactObject v) \<and> compactObject (compactObject v) = compactObject v \<and>
    (at_path ks (compactObject v) = Some w \<longleftrightarrow> at_path ks v = Some w)"
  using compact_paths [OF assms] by (simp add: compact_compactObject compactObject_compact)

definition demo_constraint :: jsval where
  "demo_constraint = Obj [(''width'', Obj [(''ideal'', Num (num_of 640)), (''exact'', Undef)]), (''height'', Obj [(''min'', Undef)])]"

theorem compact_object_witness:
  "at_path [''width'', ''ideal''] (compactObject demo_constraint) = Some (Num (num_of 640))"
proof -
  have "distinct_keys demo_constraint" "at_path [''width'', ''ideal''] demo_constraint = Some (Num (num_of 640))"
    by (simp_all add: demo_constraint_def)
  then show ?thesis using compact_object [of demo_constraint "Num (num_of 640)" "[''width'', ''ideal'']"] by simp
qed

section \<open>Constraints of Chrome\<close>

fun is_number :: "jsval \<Rightarrow> bool" where
  "is_number (Num n) = True"
| "is_number v = False"

text \<open>What the code reads of one constraint: an object as it is, another value as the ideal one; \<open>null\<close> cannot be read.\<close>

definition constraint_of :: "jsval \<Rightarrow> jsval props result" where
  "constraint_of v =
     (case v of Obj ps \<Rightarrow> Inr ps | Arr vs \<Rightarrow> Inr [] | Ref a \<Rightarrow> Inr [] | Null \<Rightarrow> Inl TypeError | _ \<Rightarrow> Inr [(''ideal'', v)])"

definition exact_range :: "jsval props \<Rightarrow> jsval props" where
  "exact_range r =
     (if is_number (field r ''exact'') then prop_set (prop_set r ''max'' (field r ''exact'')) ''min'' (field r ''exact'') else r)"

definition oldname :: "string \<Rightarrow> string \<Rightarrow> string" where
  "oldname pre name =
     (if pre \<noteq> [] then pre @ (case name of [] \<Rightarrow> [] | c # cs \<Rightarrow> upper_char c @ cs)
      else if name = ''deviceId'' then ''sourceId'' else name)"

definition push_optional :: "jsval \<Rightarrow> jsval props \<Rightarrow> jsval props" where
  "push_optional v cc = prop_set cc ''optional'' (Arr ((case field cc ''optional'' of Arr vs \<Rightarrow> vs | _ \<Rightarrow> []) @ [v]))"

definition set_mandatory :: "string \<Rightarrow> jsval \<Rightarrow> jsval props \<Rightarrow> jsval props" where
  "set_mandatory k v cc =
     prop_set cc ''mandatory'' (Obj (assign_prop (case field cc ''mandatory'' of Obj ps \<Rightarrow> ps | _ \<Rightarrow> []) k v))"

definition ideal_part :: "string \<Rightarrow> jsval props \<Rightarrow> jsval props \<Rightarrow> jsval props" where
  "ideal_part key r cc =
     (let v = field r ''ideal''
      in if v = Undef then cc
         else if is_number v
         then push_optional (Obj (assign_prop [] (oldname ''max'' key) v)) (push_optional (Obj (assign_prop [] (oldname ''min'' key) v)) cc)
         else push_optional (Obj (assign_prop [] (oldname [] key) v)) cc)"

definition range_part :: "string \<Rightarrow> jsval props \<Rightarrow> jsval props \<Rightarrow> jsval props" where
  "range_part key r cc =
     (if field r ''exact'' \<noteq> Undef \<and> \<not> is_number (field r ''exact'') then set_mandatory (oldname [] key) (field r ''exact'') cc
      else fold (\<lambda>mix cc. if field r mix \<noteq> Undef then set_mandatory (oldname mix key) (field r mix) cc else cc) [''min'', ''max''] cc)"

fun constraint_loop :: "jsval props \<Rightarrow> jsval props \<Rightarrow> jsval props result" where
  "constraint_loop [] cc = Inr cc"
| "constraint_loop ((key, v) # c) cc =
     (if key \<in> {''require'', ''advanced'', ''mediaSource''} then constraint_loop c cc
      else bind_result (constraint_of v) (\<lambda>r. let r = exact_range r
        in constraint_loop c (range_part key r (ideal_part key r cc))))"

text \<open>Constraints are a copy made by JSON, so none is an address; the own properties of an array are its elements.\<close>

definition own_props :: "jsval \<Rightarrow> jsval props" where
  "own_props c = (case c of Obj ps \<Rightarrow> ps | Arr vs \<Rightarrow> map (\<lambda>(i, v). (digits (int i), v)) (enumerate 0 vs) | _ \<Rightarrow> [])"

definition constraintsToChrome :: "jsval \<Rightarrow> jsval result" where
  "constraintsToChrome c =
     (if c = Null then Inl TypeError
      else if \<not> is_object c then Inr c
      else let ps = own_props c
        in if truthy (field ps ''mandatory'') \<or> truthy (field ps ''optional'') then Inr c
           else bind_result (constraint_loop ps []) (\<lambda>cc. Inr (Obj (
             if truthy (field ps ''advanced'')
             then prop_set cc ''optional'' (Arr ((case field cc ''optional'' of Arr vs \<Rightarrow> vs | _ \<Rightarrow> []) @
                    (case field ps ''advanced'' of Arr vs \<Rightarrow> vs | v \<Rightarrow> [v])))
             else cc))))"

definition remap :: "string \<Rightarrow> string \<Rightarrow> jsval props \<Rightarrow> jsval props" where
  "remap a b obj =
     (if a \<in> set (prop_keys obj) \<and> b \<notin> set (prop_keys obj) then prop_del (prop_set obj b (field obj a)) a else obj)"

definition moz_audio :: "jsval props \<Rightarrow> jsval props" where
  "moz_audio a = remap ''noiseSuppression'' ''mozNoiseSuppression'' (remap ''autoGainControl'' ''mozAutoGainControl'' a)"

definition moz_settings :: "jsval props \<Rightarrow> jsval props" where
  "moz_settings a = remap ''mozNoiseSuppression'' ''noiseSuppression'' (remap ''mozAutoGainControl'' ''autoGainControl'' a)"

definition goog_audio :: "jsval props \<Rightarrow> jsval props" where
  "goog_audio a = remap ''noiseSuppression'' ''googNoiseSuppression'' (remap ''autoGainControl'' ''googAutoGainControl'' a)"

text \<open>A whole number asked for exactly is a mandatory range of one number, an ideal one two wishes.\<close>

lemma exact_number:
  "constraintsToChrome (Obj [(''width'', Obj [(''exact'', Num n)])]) =
     Inr (Obj [(''mandatory'', Obj [(''minWidth'', Num n), (''maxWidth'', Num n)])])"
  by code_simp

lemma ideal_number:
  "constraintsToChrome (Obj [(''width'', Num n)]) =
     Inr (Obj [(''optional'', Arr [Obj [(''minWidth'', Num n)], Obj [(''maxWidth'', Num n)]])])"
  by code_simp

section \<open>Cameras and errors\<close>

text \<open>\<open>JSON.parse(JSON.stringify(v))\<close> of a value that is not \<open>undefined\<close>.\<close>

fun json_copy :: "jsval \<Rightarrow> jsval" where
  "json_copy (Obj ps) = Obj (concat (map (\<lambda>(k, v). if v = Undef then [] else [(k, json_copy v)]) ps))"
| "json_copy (Arr vs) = Arr (map (\<lambda>v. if v = Undef then Null else json_copy v) vs)"
| "json_copy v = json_number v"

record media_device =
  md_kind :: string
  md_label :: string
  md_id :: string

definition facing_of :: "jsval \<Rightarrow> jsval props option" where
  "facing_of v =
     (if \<not> truthy v then None else case v of Obj ps \<Rightarrow> Some ps | Arr vs \<Rightarrow> Some [] | _ \<Rightarrow> Some [(''ideal'', v)])"

definition faces :: "jsval props \<Rightarrow> string \<Rightarrow> bool" where
  "faces face side \<longleftrightarrow> field face ''exact'' = Str side \<or> field face ''ideal'' = Str side"

definition choose_camera :: "bool \<Rightarrow> media_device list \<Rightarrow> media_device option" where
  "choose_camera back devices =
     (let ds = filter (\<lambda>d. md_kind d = ''videoinput'') devices;
          matches = (if back then [''back'', ''rear''] else [''front''])
      in case find (\<lambda>d. list_ex (\<lambda>m. sublist m (to_lower (md_label d))) matches) ds of
           Some d \<Rightarrow> Some d
         | None \<Rightarrow> if ds \<noteq> [] \<and> back then Some (last ds) else None)"

definition audio_constraint :: "jsval \<Rightarrow> jsval result" where
  "audio_constraint audio =
     (case audio of Null \<Rightarrow> Inl TypeError | Obj ps \<Rightarrow> constraintsToChrome (Obj (goog_audio ps)) | _ \<Rightarrow> constraintsToChrome audio)"

text \<open>Old versions claim to know facing modes; \<open>devices\<close> is what the browser lists when the code asks.\<close>

definition video_constraint :: "int \<Rightarrow> bool \<Rightarrow> media_device list \<Rightarrow> jsval \<Rightarrow> jsval result" where
  "video_constraint version supported devices video =
     (case video of
        Null \<Rightarrow> Inl TypeError
      | Obj ps \<Rightarrow>
          (case facing_of (field ps ''facingMode'') of
             Some face \<Rightarrow>
               if (faces face ''user'' \<or> faces face ''environment'') \<and> \<not> (supported \<and> 66 \<le> version)
               then let ps = prop_del ps ''facingMode''
                    in constraintsToChrome (Obj (case choose_camera (faces face ''environment'') devices of
                         Some d \<Rightarrow> prop_set ps ''deviceId'' (Obj [(if truthy (field face ''exact'') then ''exact'' else ''ideal'', Str (md_id d))])
                       | None \<Rightarrow> ps))
               else constraintsToChrome video
           | None \<Rightarrow> constraintsToChrome video)
      | _ \<Rightarrow> constraintsToChrome video)"

definition shimConstraints :: "int \<Rightarrow> bool \<Rightarrow> media_device list \<Rightarrow> jsval \<Rightarrow> jsval result" where
  "shimConstraints version supported devices constraints =
     (if 61 \<le> version then Inr constraints
      else if constraints = Undef then Inl (JsError ''undefined is not JSON'')
      else case json_copy constraints of
        Obj ps \<Rightarrow>
          bind_result (if is_object (field ps ''audio'') \<or> field ps ''audio'' = Null
                       then bind_result (audio_constraint (field ps ''audio'')) (\<lambda>a. Inr (prop_set ps ''audio'' a)) else Inr ps) (\<lambda>ps.
          bind_result (if is_object (field ps ''video'') \<or> field ps ''video'' = Null
                       then bind_result (video_constraint version supported devices (field ps ''video'')) (\<lambda>v. Inr (prop_set ps ''video'' v)) else Inr ps) (\<lambda>ps.
          Inr (Obj ps)))
      | c \<Rightarrow> Inr c)"

definition error_name :: "string \<Rightarrow> string" where
  "error_name n =
     (case map_of [(''PermissionDeniedError'', ''NotAllowedError''), (''PermissionDismissedError'', ''NotAllowedError''),
         (''InvalidStateError'', ''NotAllowedError''), (''DevicesNotFoundError'', ''NotFoundError''),
         (''ConstraintNotSatisfiedError'', ''OverconstrainedError''), (''TrackStartError'', ''NotReadableError''),
         (''MediaDeviceFailedDueToShutdown'', ''NotAllowedError''), (''MediaDeviceKillSwitchOn'', ''NotAllowedError''),
         (''TabCaptureError'', ''AbortError''), (''ScreenCaptureError'', ''AbortError''), (''DeviceCaptureError'', ''AbortError'')] n of
        Some m \<Rightarrow> m | None \<Rightarrow> n)"

record media_error =
  me_name :: string
  me_message :: string
  me_constraint :: jsval
  me_constraint_name :: jsval

definition shimError :: "int \<Rightarrow> media_error \<Rightarrow> media_error" where
  "shimError version e =
     (if 64 \<le> version then e
      else \<lparr>me_name = error_name (me_name e), me_message = me_message e,
            me_constraint = or_val (me_constraint e) (me_constraint_name e), me_constraint_name = Undef\<rparr>)"

definition error_text :: "media_error \<Rightarrow> string" where
  "error_text e = me_name e @ (if me_message e = [] then [] else '': '') @ me_message e"

text \<open>A stream without a kind of track that was asked for is stopped and reported as not found.\<close>

definition media_missing :: "jsval props \<Rightarrow> nat \<Rightarrow> nat \<Rightarrow> bool" where
  "media_missing c audio_tracks video_tracks \<longleftrightarrow>
     truthy (field c ''audio'') \<and> audio_tracks = 0 \<or> truthy (field c ''video'') \<and> video_tracks = 0"

end
