(* ===== verification/ShimConnection.thy ===== *)
theory ShimConnection
  imports SdpSession ShimMedia
begin

text \<open>
  What the WebRTC adapter adds to the peer connection of every browser: the largest message a data channel may send,
  the connection state and its events, a line older versions of Chrome cannot read, addresses of ICE servers for Safari, and the
  local streams of Chrome with their senders.
\<close>

section \<open>Largest message\<close>

record browser =
  br_name :: string
  br_version :: int

fun sctp_in :: "string list \<Rightarrow> bool result" where
  "sctp_in [] = Inr False"
| "sctp_in (media # ms) =
     (let m = parseMLine media
      in if ml_kind m = ''application''
         then (case ml_protocol m of Str p \<Rightarrow> if index_of p ''SCTP'' \<noteq> - 1 then Inr True else sctp_in ms | _ \<Rightarrow> Inl TypeError)
         else sctp_in ms)"

text \<open>\<open>None\<close> is no description, or one without text.\<close>

definition sctpInDescription :: "string option \<Rightarrow> bool result" where
  "sctpInDescription sdp =
     (case sdp of None \<Rightarrow> Inr False | Some [] \<Rightarrow> Inr False | Some text \<Rightarrow> sctp_in (getMediaSections text))"

text \<open>A match of \<open>mozilla...THIS_IS_SDPARTA-(\d+)\<close> at the start of the text.\<close>

definition sdparta_here :: "string \<Rightarrow> bool" where
  "sdparta_here s \<longleftrightarrow>
     prefix ''mozilla'' s \<and> list_all (\<lambda>c. c \<noteq> nl \<and> c \<noteq> CHR 0x0D) (take 3 (drop 7 s)) \<and>
     prefix ''THIS_IS_SDPARTA-'' (drop 10 s) \<and> drop 26 s \<noteq> [] \<and> is_digit (hd (drop 26 s))"

fun getRemoteFirefoxVersion :: "string \<Rightarrow> jsnum" where
  "getRemoteFirefoxVersion [] = num_of (- 1)"
| "getRemoteFirefoxVersion (c # s) =
     (if sdparta_here (c # s) then parse10 (takeWhile is_digit (drop 26 (c # s))) else getRemoteFirefoxVersion s)"

definition getCanSendMaxMessageSize :: "browser \<Rightarrow> jsnum \<Rightarrow> int" where
  "getCanSendMaxMessageSize b remoteIsFirefox =
     (if br_name b = ''firefox''
      then if br_version b < 57 then if num_eq remoteIsFirefox (num_of (- 1)) then 16384 else 2147483637
           else if br_version b < 60 then if br_version b = 57 then 65535 else 65536
           else 2147483637
      else 65536)"

definition getMaxMessageSize :: "browser \<Rightarrow> string \<Rightarrow> jsnum \<Rightarrow> jsnum" where
  "getMaxMessageSize b sdp remoteIsFirefox =
     (case matchPrefix sdp ''a=max-message-size:'' of
        l # _ \<Rightarrow> parse10 (substr_from l 19)
      | [] \<Rightarrow> num_of (if br_name b = ''firefox'' \<and> \<not> num_eq remoteIsFirefox (num_of (- 1)) then 2147483637
                     else if br_name b = ''firefox'' \<and> br_version b = 57 then 65535 else 65536))"

definition finalMaxMessageSize :: "jsnum \<Rightarrow> jsnum \<Rightarrow> jsnum" where
  "finalMaxMessageSize can remote =
     (if num_eq can (num_of 0) \<and> num_eq remote (num_of 0) then PInf
      else if num_eq can (num_of 0) \<or> num_eq remote (num_of 0) then num_max can remote
      else num_min can remote)"

text \<open>The limit a remote description sets; without an SCTP section there is no transport.\<close>

definition sctp_limit :: "browser \<Rightarrow> string option \<Rightarrow> jsnum option result" where
  "sctp_limit b sdp =
     bind_result (sctpInDescription sdp) (\<lambda>found.
       Inr (if found
            then let text = the sdp; isFirefox = getRemoteFirefoxVersion text
                 in Some (finalMaxMessageSize (num_of (getCanSendMaxMessageSize b isFirefox)) (getMaxMessageSize b text isFirefox))
            else None))"

text \<open>\<open>length || size || byteLength\<close> of what is sent; \<open>undefined\<close> and \<open>null\<close> have no properties.\<close>

definition data_length :: "jsval \<Rightarrow> jsval result" where
  "data_length d =
     (case d of
        Undef \<Rightarrow> Inl TypeError
      | Null \<Rightarrow> Inl TypeError
      | Str s \<Rightarrow> Inr (if s = [] then Undef else Num (num_of (int (length s))))
      | Arr vs \<Rightarrow> Inr (if vs = [] then Undef else Num (num_of (int (length vs))))
      | Obj ps \<Rightarrow> Inr (or_val (or_val (field ps ''length'') (field ps ''size'')) (field ps ''byteLength''))
      | _ \<Rightarrow> Inr Undef)"

definition dc_send :: "string \<Rightarrow> jsnum option \<Rightarrow> jsval \<Rightarrow> unit result" where
  "dc_send readyState sctp d =
     bind_result (data_length d) (\<lambda>n.
       case sctp of
         Some m \<Rightarrow>
           if readyState = ''open'' \<and> num_less m (to_num n)
           then Inl (JsError (''Message too large (can send a maximum of '' @ num_to_str m @ '' bytes)'')) else Inr ()
       | None \<Rightarrow> Inr ())"

lemma can_send_bounds: "16384 \<le> getCanSendMaxMessageSize b f" "getCanSendMaxMessageSize b f \<le> 2147483637"
  by (simp_all add: getCanSendMaxMessageSize_def)

text \<open>
  C17. On an open channel to a peer whose description announces a data channel, a message of length \<open>n\<close> (of a text its code units, of
  other data its size in bytes) is refused exactly if it is longer than what the browser can send, or than what the peer can receive; a peer that announces zero sets
  no limit. What a browser can send is between 16 KiB and 2 GiB. Without a data channel nothing is refused.
\<close>

theorem message_limit:
  assumes "sctp_limit b (Some sdp) = Inr limit" "f = getRemoteFirefoxVersion sdp"
    and "getMaxMessageSize b sdp f = Fin r" "0 \<le> r" "data_length d = Inr len" "to_num len = Fin n"
  shows "(dc_send ''open'' limit d \<noteq> Inr () \<longleftrightarrow>
      sctp_in (getMediaSections sdp) = Inr True \<and> sdp \<noteq> [] \<and> (of_int (getCanSendMaxMessageSize b f) < n \<or> r \<noteq> 0 \<and> r < n)) \<and>
    16384 \<le> getCanSendMaxMessageSize b f \<and> getCanSendMaxMessageSize b f \<le> 2147483637"
proof -
  have c: "getCanSendMaxMessageSize b f \<noteq> 0" "0 < getCanSendMaxMessageSize b f" using can_send_bounds [of b f] by auto
  have l: "num_less (finalMaxMessageSize (num_of (getCanSendMaxMessageSize b f)) (Fin r)) (Fin n) \<longleftrightarrow>
      of_int (getCanSendMaxMessageSize b f) < n \<or> r \<noteq> 0 \<and> r < n"
    using c assms(4) by (auto simp: finalMaxMessageSize_def num_eq_def num_min_def num_max_def)
  have i: "sctpInDescription (Some sdp) = (if sdp = [] then Inr False else sctp_in (getMediaSections sdp))"
    by (cases sdp) (simp_all add: sctpInDescription_def)
  have "bind_result (sctpInDescription (Some sdp)) (\<lambda>found.
      Inr (if found then Some (finalMaxMessageSize (num_of (getCanSendMaxMessageSize b f)) (Fin r)) else None)) = Inr limit"
    using assms(1) unfolding sctp_limit_def Let_def option.sel assms(2) [symmetric] assms(3) .
  then obtain found where found: "sctpInDescription (Some sdp) = Inr found"
    and limit: "limit = (if found then Some (finalMaxMessageSize (num_of (getCanSendMaxMessageSize b f)) (Fin r)) else None)"
    unfolding bind_result_Inr_conv by auto
  have "dc_send ''open'' limit d \<noteq> Inr () \<longleftrightarrow> found \<and> (of_int (getCanSendMaxMessageSize b f) < n \<or> r \<noteq> 0 \<and> r < n)"
    using l by (simp add: dc_send_def limit assms(5,6))
  moreover have "found \<longleftrightarrow> sctp_in (getMediaSections sdp) = Inr True \<and> sdp \<noteq> []" using found i by (auto split: if_splits)
  ultimately show ?thesis using can_send_bounds [of b f] by blast
qed

definition demo_data_section :: "string list" where
  "demo_data_section = [''m=application 9 UDP/DTLS/SCTP webrtc-datachannel'', ''a=max-message-size:1000'']"

definition demo_data_session :: "string list" where
  "demo_data_session = [''v=0'', ''s=-'', ''t=0 0'']"

definition demo_data_sdp :: string where
  "demo_data_sdp = text_of demo_data_session @ text_of demo_data_section"

lemma demo_lines: "list_all line_ok (demo_data_session @ demo_data_section)" "list_all line_ok demo_data_section"
  by (simp_all add: demo_data_session_def demo_data_section_def line_ok_def nl_def is_space_def)

lemma demo_data_sections: "getMediaSections demo_data_sdp = [text_of demo_data_section]"
proof -
  have "list_all (\<lambda>l. \<not> heads_section l) demo_data_session" "section_shape demo_data_section"
    using demo_lines(2) by (simp_all add: demo_data_session_def demo_data_section_def heads_section_def section_shape_def)
  then show ?thesis
    using split_sections [of demo_data_session "[demo_data_section]"] demo_lines(1)
    by (simp add: getMediaSections_def demo_data_sdp_def list_all_iff) (simp add: demo_data_session_def)
qed

lemma demo_firefox: "getRemoteFirefoxVersion demo_data_sdp = num_of (- 1)"
  by code_simp

lemma demo_max: "getMaxMessageSize \<lparr>br_name = ''chrome'', br_version = 79\<rparr> demo_data_sdp f = Fin 1000"
proof -
  have "matchPrefix demo_data_sdp ''a=max-message-size:'' = [''a=max-message-size:1000'']"
    using matchPrefix_text [OF demo_lines(1)]
    by (simp add: demo_data_sdp_def) (simp add: demo_data_session_def demo_data_section_def)
  moreover have "substr_from ''a=max-message-size:1000'' 19 = digits 1000" by code_simp
  then have "parse10 (substr_from ''a=max-message-size:1000'' 19) = Fin 1000" using parse10_digits [of 1000 "[]"] by simp
  ultimately show ?thesis by (simp add: getMaxMessageSize_def)
qed

lemma demo_sctp: "sctp_in [text_of demo_data_section] = Inr True"
proof -
  have "splitLines (text_of demo_data_section) = demo_data_section"
    by (rule splitLines_text [OF demo_lines(2)]) (simp add: demo_data_section_def)
  moreover have "split_on (substr_from ''m=application 9 UDP/DTLS/SCTP webrtc-datachannel'' 2) '' '' =
      [''application'', ''9'', ''UDP/DTLS/SCTP'', ''webrtc-datachannel'']"
    by code_simp
  moreover have "index_of ''UDP/DTLS/SCTP'' ''SCTP'' \<noteq> - 1" by code_simp
  ultimately show ?thesis
    by (simp add: parseMLine_def str_at_def arr_at_def) (simp add: demo_data_section_def str_at_def arr_at_def)
qed

theorem message_limit_witness:
  "dc_send ''open'' (Some (Fin 1000)) (Str (replicate 1001 CHR ''x'')) \<noteq> Inr ()"
proof -
  let ?b = "\<lparr>br_name = ''chrome'', br_version = 79\<rparr>" and ?d = "Str (replicate 1001 CHR ''x'')"
  have ne: "demo_data_sdp \<noteq> []" by (simp add: demo_data_sdp_def demo_data_session_def)
  then obtain c s where sdp: "demo_data_sdp = c # s" by (cases demo_data_sdp) auto
  have "getCanSendMaxMessageSize ?b (num_of (- 1)) = 65536" by (simp add: getCanSendMaxMessageSize_def)
  moreover have found: "sctp_in (getMediaSections demo_data_sdp) = Inr True" unfolding demo_data_sections by (rule demo_sctp)
  then have "sctpInDescription (Some demo_data_sdp) = Inr True" by (simp add: sctpInDescription_def sdp)
  ultimately have l: "sctp_limit ?b (Some demo_data_sdp) = Inr (Some (Fin 1000))"
    by (simp add: sctp_limit_def Let_def demo_firefox demo_max finalMaxMessageSize_def num_eq_def num_min_def)
  have n: "data_length ?d = Inr (Num (Fin 1001))" by (simp add: data_length_def)
  from message_limit [OF l refl _ _ n, of 1000 1001] show ?thesis using found ne by (simp add: demo_max)
qed

section \<open>Connection state\<close>

definition shim_connection_state :: "string \<Rightarrow> string" where
  "shim_connection_state ice =
     (if ice = ''completed'' then ''connected'' else if ice = ''checking'' then ''connecting'' else ice)"

text \<open>
  The listener is installed with the first description; then every event of the ICE state that changes the shimmed
  state is reported, with the last one reported remembered.
\<close>

record state_shim =
  ss_ice :: string
  ss_last :: "string option"
  ss_listens :: bool
  ss_events :: "string list"

datatype shim_step = Describe | Ice_event string

fun state_step :: "shim_step \<Rightarrow> state_shim \<Rightarrow> state_shim" where
  "state_step Describe s = s\<lparr>ss_listens := True\<rparr>"
| "state_step (Ice_event i) s =
     (let s = s\<lparr>ss_ice := i\<rparr>; c = shim_connection_state i
      in if ss_listens s \<and> ss_last s \<noteq> Some c then s\<lparr>ss_last := Some c, ss_events := ss_events s @ [c]\<rparr> else s)"

definition new_state_shim :: state_shim where
  "new_state_shim = \<lparr>ss_ice = ''new'', ss_last = None, ss_listens = False, ss_events = []\<rparr>"

definition reported_states :: "shim_step list \<Rightarrow> string list" where
  "reported_states steps =
     concat (map (\<lambda>st. case st of Ice_event i \<Rightarrow> [shim_connection_state i] | Describe \<Rightarrow> []) steps)"

lemma reported_simps [simp]:
  "reported_states [] = []" "reported_states (Describe # steps) = reported_states steps"
  "reported_states (Ice_event i # steps) = shim_connection_state i # reported_states steps"
  by (simp_all add: reported_states_def)

lemma listening_run:
  "ss_listens s \<Longrightarrow> ss_events (fold state_step steps s) =
     ss_events s @ (case ss_last s of None \<Rightarrow> remdups_adj (reported_states steps)
                    | Some c \<Rightarrow> tl (remdups_adj (c # reported_states steps)))"
proof (induction steps arbitrary: s)
  case (Cons st steps)
  show ?case
  proof (cases st)
    case (Ice_event i)
    let ?c = "shim_connection_state i"
    have h: "remdups_adj (?c # xs) = ?c # tl (remdups_adj (?c # xs))" for xs by (cases "remdups_adj (?c # xs)") (auto dest: arg_cong [of _ _ hd])
    show ?thesis
      using Cons.IH [of "state_step (Ice_event i) s"] Cons.prems Ice_event h [of "reported_states steps"]
      by (auto simp: Let_def remdups_adj_Cons split: option.splits if_splits list.splits)
  next
    case Describe
    show ?thesis unfolding Describe using Cons.IH [of "state_step Describe s"] Cons.prems by (simp split: option.split)
  qed
qed (simp split: option.split)

text \<open>
  C18. From the first description on, the events of the shimmed connection state are the sequence of states that the ICE states
  stand for, without the repetitions: completed and connected count as one state, checking as connecting.
\<close>

theorem connection_changes_once:
  "ss_events (fold state_step (Describe # steps) new_state_shim) = remdups_adj (reported_states steps)"
  using listening_run [of "state_step Describe new_state_shim" steps] by (simp add: new_state_shim_def)

section \<open>Descriptions and servers\<close>

text \<open>Chrome can read the line from version 71 on; for every other browser it is taken out.\<close>

definition removeAllowExtmapMixed :: "browser \<Rightarrow> string \<Rightarrow> string" where
  "removeAllowExtmapMixed b sdp =
     (if br_name b = ''chrome'' \<and> 71 \<le> br_version b then sdp
      else if index_of sdp ([nl] @ ''a=extmap-allow-mixed'') \<noteq> - 1
      then join [nl] (filter (\<lambda>l. trim_ws l \<noteq> ''a=extmap-allow-mixed'') (split_on sdp [nl])) else sdp)"

text \<open>A server with the old name of its addresses is copied and given the new one; other servers are passed on.\<close>

definition server_with_urls :: "jsval props \<Rightarrow> jsval props" where
  "server_with_urls server =
     (if ''urls'' \<notin> set (prop_keys server) \<and> ''url'' \<in> set (prop_keys server)
      then (case json_copy (Obj server) of Obj ps \<Rightarrow> prop_del (prop_set ps ''urls'' (field ps ''url'')) ''url'' | _ \<Rightarrow> server)
      else server)"

definition shimRTCIceServerUrls :: "jsval props list \<Rightarrow> jsval props list" where
  "shimRTCIceServerUrls servers = map server_with_urls servers"

lemma keys_deleted: "set (prop_keys (prop_del t k)) = set (prop_keys t) - {k}"
  by (auto simp: prop_keys_def prop_del_def)

lemma server_urls_named: "server_with_urls s = s \<or> ''urls'' \<in> set (prop_keys (server_with_urls s))"
proof (cases "''urls'' \<notin> set (prop_keys s) \<and> ''url'' \<in> set (prop_keys s)")
  case True
  obtain ps where "json_copy (Obj s) = Obj ps" by simp
  then have "server_with_urls s = prop_del (prop_set ps ''urls'' (field ps ''url'')) ''url''"
    unfolding server_with_urls_def if_P [OF True] by (simp del: json_copy.simps)
  then show ?thesis unfolding keys_deleted props.keys_put by (simp add: keys_deleted props.keys_put)
next
  case False
  then have "server_with_urls s = s" unfolding server_with_urls_def by (rule if_not_P)
  then show ?thesis by simp
qed

lemma server_urls_once: "shimRTCIceServerUrls (shimRTCIceServerUrls ss) = shimRTCIceServerUrls ss"
proof -
  have "server_with_urls (server_with_urls s) = server_with_urls s" for s
    using server_urls_named [of s] by (metis server_with_urls_def)
  then show ?thesis by (simp add: shimRTCIceServerUrls_def)
qed

section \<open>Local streams of Chrome\<close>

text \<open>Every stream under its identifier with the senders of its tracks; senders and streams are addresses.\<close>

type_synonym shimmed_streams = "(nat \<times> nat list) props"

definition shim_getLocalStreams :: "shimmed_streams \<Rightarrow> nat list" where
  "shim_getLocalStreams s = map (fst \<circ> snd) s"

text \<open>The stream a track is added with, if any, by its identifier and address.\<close>

definition shim_addTrack :: "(string \<times> nat) option \<Rightarrow> nat \<Rightarrow> shimmed_streams \<Rightarrow> shimmed_streams" where
  "shim_addTrack stream sender s =
     (case stream of
        None \<Rightarrow> s
      | Some (i, x) \<Rightarrow>
          (case prop_get s i of
             None \<Rightarrow> prop_set s i (x, [sender])
           | Some (y, senders) \<Rightarrow> if sender \<in> set senders then s else prop_set s i (y, senders @ [sender])))"

text \<open>The senders before and after the browser added the stream, and what each of them sends.\<close>

definition shim_addStream ::
    "string \<Rightarrow> nat \<Rightarrow> nat list \<Rightarrow> (nat \<Rightarrow> nat) \<Rightarrow> nat list \<Rightarrow> nat list \<Rightarrow> shimmed_streams \<Rightarrow> shimmed_streams result" where
  "shim_addStream i stream tracks sent existing after s =
     (if list_ex (\<lambda>t. t \<in> set (map sent existing)) tracks then Inl (JsError ''Track already exists.'')
      else Inr (prop_set s i (stream, filter (\<lambda>x. x \<notin> set existing) after)))"

definition shim_removeStream :: "string \<Rightarrow> shimmed_streams \<Rightarrow> shimmed_streams" where
  "shim_removeStream i s = prop_del s i"

definition shim_removeTrack :: "nat option \<Rightarrow> shimmed_streams \<Rightarrow> shimmed_streams" where
  "shim_removeTrack sender s =
     (case sender of
        None \<Rightarrow> s
      | Some r \<Rightarrow> filter (\<lambda>(_, _, senders). senders \<noteq> []) (map (\<lambda>(i, x, senders). (i, x, remove1 r senders)) s))"

text \<open>A track is filed under the stream it was added with, and gone with its sender.\<close>

lemma added_track_listed: "stream \<in> set (shim_getLocalStreams (shim_addTrack (Some (i, stream)) sender s)) \<or> prop_get s i \<noteq> None"
proof (cases "prop_get s i")
  case None
  then have "prop_get (shim_addTrack (Some (i, stream)) sender s) i = Some (stream, [sender])"
    by (simp add: shim_addTrack_def props.get_put)
  then have "(i, stream, [sender]) \<in> set (shim_addTrack (Some (i, stream)) sender s)" by (simp add: prop_get_def map_of_SomeD)
  then show ?thesis by (force simp: shim_getLocalStreams_def)
qed simp

lemma removed_track_forgotten:
  "\<forall>(i, x, senders) \<in> set s. distinct senders \<Longrightarrow>
   list_all (\<lambda>(i, x, senders). sender \<notin> set senders \<and> senders \<noteq> []) (shim_removeTrack (Some sender) s)"
  by (auto simp: shim_removeTrack_def list_all_iff)

end
