(* ===== verification/ShimEvents.thy ===== *)
theory ShimEvents
  imports JsValue
begin

text \<open>
  Events the WebRTC adapter rewrites before the page sees them: listeners are registered in a wrapper, which the adapter
  finds again under the text of the page's function. Functions have an identity and a text (the parameter \<open>src\<close>); the browser
  keeps a list of listeners in which none occurs twice. The names \<open>W\<close> are wrapped, each once; all wrappers share one table.
\<close>

section \<open>Listeners\<close>

type_synonym callback = nat

datatype handler = Plain callback | Wrapped nat callback

type_synonym listeners = "(string \<times> handler) list"

definition native_add :: "'l \<Rightarrow> 'l list \<Rightarrow> 'l list" where
  "native_add l ls = (if l \<in> set ls then ls else ls @ [l])"

definition native_remove :: "'l \<Rightarrow> 'l list \<Rightarrow> 'l list" where
  "native_remove l ls = remove1 l ls"

record wrap_state =
  ws_map :: "handler props"
  ws_on :: "callback props"
  ws_fresh :: nat
  ws_listeners :: listeners

definition new_wrap_state :: wrap_state where
  "new_wrap_state = \<lparr>ws_map = [], ws_on = [], ws_fresh = 0, ws_listeners = []\<rparr>"

definition wrap_addEventListener :: "(callback \<Rightarrow> string) \<Rightarrow> string list \<Rightarrow> string \<Rightarrow> callback \<Rightarrow> wrap_state \<Rightarrow> wrap_state" where
  "wrap_addEventListener src W name cb s =
     (if name \<notin> set W then s\<lparr>ws_listeners := native_add (name, Plain cb) (ws_listeners s)\<rparr>
      else let h = Wrapped (ws_fresh s) cb
           in s\<lparr>ws_map := prop_set (ws_map s) (src cb) h, ws_fresh := Suc (ws_fresh s),
                ws_listeners := native_add (name, h) (ws_listeners s)\<rparr>)"

definition wrap_removeEventListener :: "(callback \<Rightarrow> string) \<Rightarrow> string list \<Rightarrow> string \<Rightarrow> callback \<Rightarrow> wrap_state \<Rightarrow> wrap_state" where
  "wrap_removeEventListener src W name cb s =
     (case (if name \<notin> set W then None else prop_get (ws_map s) (src cb)) of
        None \<Rightarrow> s\<lparr>ws_listeners := native_remove (name, Plain cb) (ws_listeners s)\<rparr>
      | Some h \<Rightarrow> s\<lparr>ws_map := prop_del (ws_map s) (src cb), ws_listeners := native_remove (name, h) (ws_listeners s)\<rparr>)"

text \<open>The property \<open>on...\<close> of a wrapped event.\<close>

definition wrap_set_on :: "(callback \<Rightarrow> string) \<Rightarrow> string list \<Rightarrow> string \<Rightarrow> callback option \<Rightarrow> wrap_state \<Rightarrow> wrap_state" where
  "wrap_set_on src W name cb s =
     (let s = (case prop_get (ws_on s) name of
                 None \<Rightarrow> s
               | Some old \<Rightarrow> let s = wrap_removeEventListener src W name old s in s\<lparr>ws_on := prop_del (ws_on s) name\<rparr>)
      in case cb of None \<Rightarrow> s | Some f \<Rightarrow> wrap_addEventListener src W name f (s\<lparr>ws_on := prop_set (ws_on s) name f\<rparr>))"

text \<open>What one event calls: the wrapper of its name passes on the event it makes, or keeps it back.\<close>

definition wrap_dispatch :: "(string \<Rightarrow> 'e \<Rightarrow> 'e option) \<Rightarrow> string \<Rightarrow> 'e \<Rightarrow> wrap_state \<Rightarrow> (callback \<times> 'e) list" where
  "wrap_dispatch wrapper name e s =
     concat (map (\<lambda>(n, h). if n \<noteq> name then [] else case h of
         Plain cb \<Rightarrow> [(cb, e)]
       | Wrapped _ cb \<Rightarrow> (case wrapper name e of None \<Rightarrow> [] | Some e' \<Rightarrow> [(cb, e')])) (ws_listeners s))"

text \<open>The wrapper of \<open>negotiationneeded\<close> in Chrome, on the signalling state of the event's target.\<close>

definition fixNegotiationNeeded :: "('e \<Rightarrow> string) \<Rightarrow> 'e \<Rightarrow> 'e option" where
  "fixNegotiationNeeded state e = (if state e \<noteq> ''stable'' then None else Some e)"

datatype listen_op = Listen string callback | Unlisten string callback | Set_on string "callback option"

fun wrap_step :: "(callback \<Rightarrow> string) \<Rightarrow> string list \<Rightarrow> listen_op \<Rightarrow> wrap_state \<Rightarrow> wrap_state" where
  "wrap_step src W (Listen name cb) s = wrap_addEventListener src W name cb s"
| "wrap_step src W (Unlisten name cb) s = wrap_removeEventListener src W name cb s"
| "wrap_step src W (Set_on name cb) s = wrap_set_on src W name cb s"

section \<open>Specification\<close>









section \<open>Simulation\<close>



















section \<open>What the page sees\<close>


definition demo_text :: "callback \<Rightarrow> string" where
  "demo_text cb = (if cb = 0 then ''a'' else if cb = 1 then ''b'' else ''c'')"



text \<open>
  Without the conditions it can: of two functions with the same text the second is found under the entry of both, so that removing
  the first takes the second away; one function registered for two wrapped events stays registered for the first; and a
  function registered twice is called twice, which a browser never does.
\<close>

lemma same_text_removes_other:
  "wrap_dispatch (\<lambda>_. Some) ''track'' (0 :: nat)
     (fold (wrap_step (\<lambda>_. ''f'') [''track'']) [Listen ''track'' 0, Listen ''track'' 1, Unlisten ''track'' 0] new_wrap_state) = [(0, 0)]"
  by code_simp

lemma one_function_two_events:
  "wrap_dispatch (\<lambda>_. Some) ''track'' (0 :: nat)
     (fold (wrap_step demo_text [''track'', ''icecandidate'']) [Listen ''track'' 0, Listen ''icecandidate'' 0, Unlisten ''track'' 0]
       new_wrap_state) = [(0, 0)]"
  by code_simp

lemma registered_twice_called_twice:
  "wrap_dispatch (\<lambda>_. Some) ''track'' (0 :: nat)
     (fold (wrap_step demo_text [''track'']) [Listen ''track'' 0, Listen ''track'' 0] new_wrap_state) = [(0, 0), (0, 0)]"
  by code_simp

end
