(* ===== verification/ShimStreams.thy ===== *)
theory ShimStreams
  imports JsValue
begin

text \<open>
  Tracks and streams in the WebRTC adapter for versions of Chrome that know only whole streams: every stream of the page stands
  for a stream of the browser made by the adapter, and every track for a sender of the adapter. The two layers of the code
  (streams, and senders around it) are the functions named \<open>inner\<close> and \<open>outer\<close>. Streams are addresses in a store; the identifier
  of a new stream is the parameter \<open>new_id\<close>. The browser keeps its list of local streams without repetitions, and refuses to
  change it on a closed connection (\<open>Native_error\<close>).
\<close>

section \<open>State\<close>

record mstream =
  ms_id :: string
  ms_tracks :: "nat list"

record chrome_pc =
  cp_store :: "mstream list"
  cp_streams :: "nat props"
  cp_reverse :: "nat props"
  cp_made :: "nat list"
  cp_senders :: "nat list"
  cp_local :: "nat list"
  cp_closed :: bool
  cp_asked :: nat
  cp_pending :: nat

datatype shim_error = Dom_exception string string | Type_error | Native_error

type_synonym 'a shim_act = "chrome_pc \<Rightarrow> (shim_error + 'a) \<times> chrome_pc"

definition stream_id :: "chrome_pc \<Rightarrow> nat \<Rightarrow> string" where
  "stream_id s a = ms_id (cp_store s ! a)"

definition stream_tracks :: "chrome_pc \<Rightarrow> nat \<Rightarrow> nat list" where
  "stream_tracks s a = ms_tracks (cp_store s ! a)"

definition sender_track :: "chrome_pc \<Rightarrow> nat \<Rightarrow> nat" where
  "sender_track s r = cp_made s ! r"

definition new_stream :: "(nat \<Rightarrow> string) \<Rightarrow> nat list \<Rightarrow> chrome_pc \<Rightarrow> chrome_pc" where
  "new_stream new_id ts s = s\<lparr>cp_store := cp_store s @ [\<lparr>ms_id = new_id (length (cp_store s)), ms_tracks = ts\<rparr>]\<rparr>"

text \<open>The page's calls on its connection, and a change of the tracks of one of its streams.\<close>

definition chrome_getSenders :: "chrome_pc \<Rightarrow> nat list" where
  "chrome_getSenders s = cp_senders s"

definition sender_of :: "chrome_pc \<Rightarrow> nat \<Rightarrow> nat option" where
  "sender_of s t = find (\<lambda>r. sender_track s r = t) (chrome_getSenders s)"

definition chrome_getLocalStreams :: "chrome_pc \<Rightarrow> nat option list" where
  "chrome_getLocalStreams s = map (\<lambda>a. prop_get (cp_reverse s) (stream_id s a)) (cp_local s)"

section \<open>Operations\<close>

definition push_sender :: "nat \<Rightarrow> chrome_pc \<Rightarrow> chrome_pc" where
  "push_sender t s = s\<lparr>cp_made := cp_made s @ [t], cp_senders := cp_senders s @ [length (cp_made s)]\<rparr>"

definition local_add :: "nat \<Rightarrow> chrome_pc \<Rightarrow> chrome_pc" where
  "local_add a s = (if a \<in> set (cp_local s) then s else s\<lparr>cp_local := cp_local s @ [a]\<rparr>)"

definition native_addStream :: "nat \<Rightarrow> unit shim_act" where
  "native_addStream a s = (if cp_closed s then (Inl Native_error, s) else (Inr (), local_add a s))"

definition inner_addStream :: "(nat \<Rightarrow> string) \<Rightarrow> nat \<Rightarrow> unit shim_act" where
  "inner_addStream new_id x s =
     (if list_ex (\<lambda>t. sender_of s t \<noteq> None) (stream_tracks s x) then (Inl (Dom_exception ''InvalidAccessError'' ''Track already exists.''), s)
      else if prop_get (cp_reverse s) (stream_id s x) = None
      then let a = length (cp_store s); s' = new_stream new_id (stream_tracks s x) s
           in native_addStream a (s'\<lparr>cp_streams := prop_set (cp_streams s') (stream_id s x) a,
                                      cp_reverse := prop_set (cp_reverse s') (stream_id s' a) x\<rparr>)
      else native_addStream x s)"

definition outer_addStream :: "(nat \<Rightarrow> string) \<Rightarrow> nat \<Rightarrow> unit shim_act" where
  "outer_addStream new_id x s =
     (case inner_addStream new_id x s of
        (Inl e, s) \<Rightarrow> (Inl e, s)
      | (Inr u, s) \<Rightarrow> (Inr (), fold push_sender (stream_tracks s x) s))"

definition inner_removeStream :: "nat option \<Rightarrow> unit shim_act" where
  "inner_removeStream stream s =
     (case stream of
        None \<Rightarrow> (Inl Type_error, s)
      | Some x \<Rightarrow>
          let i = stream_id s x; a = (case prop_get (cp_streams s) i of Some a \<Rightarrow> a | None \<Rightarrow> x)
          in if cp_closed s then (Inl Native_error, s)
             else (Inr (), s\<lparr>cp_local := remove1 a (cp_local s), cp_reverse := prop_del (cp_reverse s) (stream_id s a),
                              cp_streams := prop_del (cp_streams s) i\<rparr>))"

definition drop_sender :: "nat \<Rightarrow> chrome_pc \<Rightarrow> chrome_pc" where
  "drop_sender t s = (case sender_of s t of None \<Rightarrow> s | Some r \<Rightarrow> s\<lparr>cp_senders := remove1 r (cp_senders s)\<rparr>)"

definition outer_removeStream :: "nat option \<Rightarrow> unit shim_act" where
  "outer_removeStream stream s =
     (case inner_removeStream stream s of
        (Inl e, s) \<Rightarrow> (Inl e, s)
      | (Inr u, s) \<Rightarrow> (Inr (), case stream of None \<Rightarrow> s | Some x \<Rightarrow> fold drop_sender (stream_tracks s x) s))"

definition set_tracks :: "nat \<Rightarrow> nat list \<Rightarrow> chrome_pc \<Rightarrow> chrome_pc" where
  "set_tracks a ts s = s\<lparr>cp_store := (cp_store s) [a := (cp_store s ! a)\<lparr>ms_tracks := ts\<rparr>]\<rparr>"

definition closed_error :: shim_error where
  "closed_error = Dom_exception ''InvalidStateError'' ''The RTCPeerConnection's signalingState is 'closed'.''"

text \<open>The sender found in the end, or none.\<close>

definition inner_addTrack :: "(nat \<Rightarrow> string) \<Rightarrow> nat \<Rightarrow> nat list \<Rightarrow> nat option shim_act" where
  "inner_addTrack new_id t xs s =
     (if cp_closed s then (Inl closed_error, s)
      else case xs of
        [x] \<Rightarrow>
          if t \<notin> set (stream_tracks s x) then (Inl (Dom_exception ''NotSupportedError'' ''The adapter.js addTrack polyfill only supports a single  stream which is associated with the specified track.''), s)
          else if sender_of s t \<noteq> None then (Inl (Dom_exception ''InvalidAccessError'' ''Track already exists.''), s)
          else (case prop_get (cp_streams s) (stream_id s x) of
              Some a \<Rightarrow>
                let s = (if t \<in> set (stream_tracks s a) then s else set_tracks a (stream_tracks s a @ [t]) s)\<lparr>cp_pending := Suc (cp_pending s)\<rparr>
                in (Inr (sender_of s t), s)
            | None \<Rightarrow>
                let a = length (cp_store s); i = stream_id s x; s = new_stream new_id [t] s;
                    s = s\<lparr>cp_streams := prop_set (cp_streams s) i a, cp_reverse := prop_set (cp_reverse s) (stream_id s a) x\<rparr>
                in (case outer_addStream new_id a s of (Inl e, s) \<Rightarrow> (Inl e, s) | (Inr u, s) \<Rightarrow> (Inr (sender_of s t), s)))
      | _ \<Rightarrow> (Inl (Dom_exception ''NotSupportedError'' ''The adapter.js addTrack polyfill only supports a single  stream which is associated with the specified track.''), s))"

definition outer_addTrack :: "(nat \<Rightarrow> string) \<Rightarrow> nat \<Rightarrow> nat list \<Rightarrow> nat shim_act" where
  "outer_addTrack new_id t xs s =
     (case inner_addTrack new_id t xs s of
        (Inl e, s) \<Rightarrow> (Inl e, s)
      | (Inr (Some r), s) \<Rightarrow> (Inr r, s)
      | (Inr None, s) \<Rightarrow> (Inr (length (cp_made s)), push_sender t s))"

text \<open>What the page passes: a sender of this connection, one of another, or another object.\<close>

datatype sender_arg = Own nat | Of_other | No_sender

definition inner_removeTrack :: "sender_arg \<Rightarrow> unit shim_act" where
  "inner_removeTrack arg s =
     (if cp_closed s then (Inl closed_error, s)
      else case arg of
        No_sender \<Rightarrow> (Inl (Dom_exception ''TypeError'' ''Argument 1 of RTCPeerConnection.removeTrack does not implement interface RTCRtpSender.''), s)
      | Of_other \<Rightarrow> (Inl (Dom_exception ''InvalidAccessError'' ''Sender was not created by this connection.''), s)
      | Own r \<Rightarrow>
          (case fold (\<lambda>(k, a) found. if sender_track s r \<in> set (stream_tracks s a) then Some a else found) (cp_streams s) None of
             None \<Rightarrow> (Inr (), s)
           | Some a \<Rightarrow>
               if length (stream_tracks s a) = 1
               then (case outer_removeStream (prop_get (cp_reverse s) (stream_id s a)) s of
                       (Inl e, s) \<Rightarrow> (Inl e, s) | (Inr u, s) \<Rightarrow> (Inr (), s\<lparr>cp_asked := Suc (cp_asked s)\<rparr>))
               else (Inr (), (set_tracks a (remove1 (sender_track s r) (stream_tracks s a)) s)\<lparr>cp_asked := Suc (cp_asked s)\<rparr>)))"

definition outer_removeTrack :: "sender_arg \<Rightarrow> unit shim_act" where
  "outer_removeTrack arg s =
     (case inner_removeTrack arg s of
        (Inl e, s) \<Rightarrow> (Inl e, s)
      | (Inr u, s) \<Rightarrow> (Inr (), case arg of Own r \<Rightarrow> s\<lparr>cp_senders := remove1 r (cp_senders s)\<rparr> | _ \<Rightarrow> s))"

text \<open>
  Identifiers in a description: every occurrence is replaced. Identifiers are not empty and have no characters special to regular
  expressions or replacements.
\<close>

fun replace_every :: "string \<Rightarrow> string \<Rightarrow> nat \<Rightarrow> string \<Rightarrow> string" where
  "replace_every p r k [] = []"
| "replace_every p r (Suc k) (c # s) = replace_every p r k s"
| "replace_every p r 0 (c # s) =
     (if prefix p (c # s) then r @ replace_every p r (length p - 1) s else c # replace_every p r 0 s)"

fun replace_ids :: "bool \<Rightarrow> chrome_pc \<Rightarrow> nat list \<Rightarrow> string \<Rightarrow> shim_error + string" where
  "replace_ids to_external s [] sdp = Inr sdp"
| "replace_ids to_external s (x # xs) sdp =
     (case prop_get (cp_streams s) (stream_id s x) of
        None \<Rightarrow> Inl Type_error
      | Some a \<Rightarrow> replace_ids to_external s xs
          (if to_external then replace_every (stream_id s a) (stream_id s x) 0 sdp else replace_every (stream_id s x) (stream_id s a) 0 sdp))"

definition replaceInternalStreamId :: "chrome_pc \<Rightarrow> string \<Rightarrow> shim_error + string" where
  "replaceInternalStreamId s sdp = replace_ids True s (map snd (cp_reverse s)) sdp"

definition replaceExternalStreamId :: "chrome_pc \<Rightarrow> string \<Rightarrow> shim_error + string" where
  "replaceExternalStreamId s sdp = replace_ids False s (map snd (cp_reverse s)) sdp"

datatype chrome_op =
    Op_addStream nat
  | Op_removeStream nat
  | Op_addTrack nat "nat list"
  | Op_removeTrack sender_arg
  | Op_page_tracks nat "nat list"
  | Op_microtask
  | Op_close

fun chrome_step :: "(nat \<Rightarrow> string) \<Rightarrow> chrome_op \<Rightarrow> chrome_pc \<Rightarrow> chrome_pc" where
  "chrome_step new_id (Op_addStream x) s = snd (outer_addStream new_id x s)"
| "chrome_step new_id (Op_removeStream x) s = snd (outer_removeStream (Some x) s)"
| "chrome_step new_id (Op_addTrack t xs) s = snd (outer_addTrack new_id t xs s)"
| "chrome_step new_id (Op_removeTrack arg) s = snd (outer_removeTrack arg s)"
| "chrome_step new_id (Op_page_tracks x ts) s = set_tracks x ts s"
| "chrome_step new_id Op_microtask s =
     (if 0 < cp_pending s then s\<lparr>cp_pending := cp_pending s - 1, cp_asked := Suc (cp_asked s)\<rparr> else s)"
| "chrome_step new_id Op_close s = s\<lparr>cp_closed := True\<rparr>"

definition new_chrome_pc :: "mstream list \<Rightarrow> chrome_pc" where
  "new_chrome_pc pages = \<lparr>cp_store = pages, cp_streams = [], cp_reverse = [], cp_made = [], cp_senders = [],
     cp_local = [], cp_closed = False, cp_asked = 0, cp_pending = 0\<rparr>"

section \<open>Invariant\<close>

text \<open>The first \<open>n\<close> addresses are streams of the page, the others streams of the adapter; \<open>idf\<close> gives every address its identifier.\<close>

definition maps_ok :: "(nat \<Rightarrow> string) \<Rightarrow> nat \<Rightarrow> nat \<Rightarrow> nat props \<Rightarrow> nat props \<Rightarrow> nat list \<Rightarrow> bool" where
  "maps_ok idf n l st rv lo \<longleftrightarrow>
     props_wf st \<and> distinct lo \<and> (\<forall>a \<in> set lo. n \<le> a \<and> a < l \<and> prop_get rv (idf a) \<noteq> None) \<and>
     (\<forall>k a. prop_get st k = Some a \<longrightarrow> n \<le> a \<and> a < l \<and> (\<exists>x < n. idf x = k \<and> prop_get rv (idf a) = Some x)) \<and>
     (\<forall>k x. prop_get rv k = Some x \<longrightarrow> x < n \<and> (\<exists>a. n \<le> a \<and> a < l \<and> idf a = k))"

lemma maps_okD:
  assumes "maps_ok idf n l st rv lo"
  shows "distinct lo" "a \<in> set lo \<Longrightarrow> n \<le> a" "a \<in> set lo \<Longrightarrow> a < l" "a \<in> set lo \<Longrightarrow> prop_get rv (idf a) \<noteq> None"
    "prop_get st k = Some a \<Longrightarrow> n \<le> a" "prop_get st k = Some a \<Longrightarrow> a < l"
    "prop_get st k = Some a \<Longrightarrow> \<exists>x < n. idf x = k \<and> prop_get rv (idf a) = Some x"
    "prop_get rv k = Some x \<Longrightarrow> x < n" "prop_get rv k = Some x \<Longrightarrow> \<exists>a. n \<le> a \<and> a < l \<and> idf a = k"
    "props_wf st"
  using assms unfolding maps_ok_def by blast+

lemma maps_okI:
  assumes "props_wf st" "distinct lo" "\<And>a. a \<in> set lo \<Longrightarrow> n \<le> a \<and> a < l \<and> prop_get rv (idf a) \<noteq> None"
    "\<And>k a. prop_get st k = Some a \<Longrightarrow> n \<le> a \<and> a < l \<and> (\<exists>x < n. idf x = k \<and> prop_get rv (idf a) = Some x)"
    "\<And>k x. prop_get rv k = Some x \<Longrightarrow> x < n \<and> (\<exists>a. n \<le> a \<and> a < l \<and> idf a = k)"
  shows "maps_ok idf n l st rv lo"
  using assms unfolding maps_ok_def by blast

lemma get_deleted_prop: "prop_get (prop_del t k) k' = (if k' = k then None else prop_get t k')"
  by (induction t) (auto simp: prop_get_def prop_del_def)

lemma maps_new:
  assumes "maps_ok idf n l st rv lo" "inj idf" "x < n" "n \<le> l"
  shows "maps_ok idf n (Suc l) (prop_set st (idf x) l) (prop_set rv (idf l) x) lo"
proof (rule maps_okI, goal_cases)
  case (3 a)
  then show ?case using maps_okD(2,3,4) [OF assms(1), of a] by (auto simp: props.get_put)
next
  case (4 k a)
  show ?case
  proof (cases "k = idf x")
    case False
    then have st: "prop_get st k = Some a" using 4 by (simp add: props.get_put)
    have a: "n \<le> a" "a < l" by (rule maps_okD [OF assms(1)], rule st)+
    then have "idf a \<noteq> idf l" using assms(2) by (auto dest: injD)
    then show ?thesis using maps_okD(7) [OF assms(1) st] a by (auto simp: props.get_put)
  qed (use 4 assms in \<open>auto simp: props.get_put\<close>)
next
  case (5 k y)
  show ?case
  proof (cases "k = idf l")
    case False
    then have "prop_get rv k = Some y" using 5 by (simp add: props.get_put)
    from maps_okD(8,9) [OF assms(1) this] show ?thesis using less_SucI by blast
  qed (use 5 assms in \<open>auto simp: props.get_put\<close>)
qed (use maps_okD(1,10) [OF assms(1)] props.wf_put in auto)

lemma maps_local:
  "maps_ok idf n l st rv lo \<Longrightarrow> n \<le> a \<Longrightarrow> a < l \<Longrightarrow> prop_get rv (idf a) \<noteq> None \<Longrightarrow> a \<notin> set lo \<Longrightarrow> maps_ok idf n l st rv (lo @ [a])"
  unfolding maps_ok_def by simp

lemma maps_del:
  assumes ok: "maps_ok idf n l st rv lo" and "inj idf" "x < n"
    and a: "a = (case prop_get st (idf x) of Some a \<Rightarrow> a | None \<Rightarrow> x)"
  shows "maps_ok idf n l (prop_del st (idf x)) (prop_del rv (idf a)) (remove1 a lo)"
proof (rule maps_okI, goal_cases)
  case (3 b)
  then have "b \<in> set lo" "b \<noteq> a" using maps_okD(1) [OF ok] by auto
  then show ?case using maps_okD(2,3,4) [OF ok] assms(2) by (auto simp: get_deleted_prop dest: injD)
next
  case (4 k b)
  then have k: "k \<noteq> idf x" and b: "prop_get st k = Some b" by (simp_all add: get_deleted_prop split: if_splits)
  obtain y where y: "y < n" "idf y = k" "prop_get rv (idf b) = Some y" using maps_okD(7) [OF ok b] by blast
  have "b \<noteq> a"
  proof
    assume "b = a"
    then show False using a k y maps_okD(7) [OF ok, of "idf x" a] maps_okD(5) [OF ok b] assms(3)
      by (auto split: option.splits)
  qed
  then show ?case using y maps_okD(5,6) [OF ok b] assms(2) by (auto simp: get_deleted_prop dest: injD)
next
  case (5 k y)
  then have "prop_get rv k = Some y" by (simp add: get_deleted_prop split: if_splits)
  from maps_okD(8,9) [OF ok this] show ?case by blast
qed (use maps_okD(1,10) [OF ok] props.wf_del in auto)

definition senders_ok :: "nat list \<Rightarrow> nat list \<Rightarrow> bool" where
  "senders_ok made senders \<longleftrightarrow> (\<forall>r \<in> set senders. r < length made) \<and> distinct (map (\<lambda>r. made ! r) senders)"

lemma push_senders:
  "fold push_sender ts s = s\<lparr>cp_made := cp_made s @ ts, cp_senders := cp_senders s @ [length (cp_made s) ..< length (cp_made s) + length ts]\<rparr>"
proof (induction ts arbitrary: s)
  case (Cons t ts)
  have "[length (cp_made s) ..< length (cp_made s) + length (t # ts)] = length (cp_made s) # [Suc (length (cp_made s)) ..< length (cp_made s) + length (t # ts)]"
    by (rule upt_conv_Cons) simp
  then show ?case using Cons by (simp add: push_sender_def del: upt_Suc)
qed simp

lemma pushed_ok:
  assumes "senders_ok made senders" "distinct ts" "\<forall>t \<in> set ts. t \<notin> (\<lambda>r. made ! r) ` set senders"
  shows "senders_ok (made @ ts) (senders @ [length made ..< length made + length ts])"
proof -
  have old: "map (\<lambda>r. (made @ ts) ! r) senders = map (\<lambda>r. made ! r) senders"
    using assms(1) by (intro map_cong) (auto simp: senders_ok_def nth_append)
  have new: "map (\<lambda>r. (made @ ts) ! r) [length made ..< length made + length ts] = ts"
    by (rule nth_equalityI) (auto simp: nth_append)
  show ?thesis
    using assms unfolding senders_ok_def map_append old new by (fastforce simp: nth_append)
qed

lemma removed_ok: "senders_ok made senders \<Longrightarrow> senders_ok made (remove1 r senders)"
proof -
  assume a: "senders_ok made senders"
  then have i: "inj_on (\<lambda>r. made ! r) (set senders)" and d: "distinct senders" by (simp_all add: senders_ok_def distinct_map)
  have sub: "set (remove1 r senders) \<subseteq> set senders" by (rule set_remove1_subset)
  then have "distinct (map (\<lambda>r. made ! r) (remove1 r senders))" using d inj_on_subset [OF i sub] by (simp add: distinct_map)
  then show ?thesis using a sub by (auto simp: senders_ok_def)
qed

lemma sender_of_None: "sender_of s t = None \<longleftrightarrow> t \<notin> (\<lambda>r. cp_made s ! r) ` set (cp_senders s)"
  by (auto simp: sender_of_def sender_track_def chrome_getSenders_def find_None_iff)

definition chrome_ok :: "(nat \<Rightarrow> string) \<Rightarrow> nat \<Rightarrow> chrome_pc \<Rightarrow> bool" where
  "chrome_ok idf n s \<longleftrightarrow>
     n \<le> length (cp_store s) \<and> (\<forall>a < length (cp_store s). stream_id s a = idf a \<and> distinct (stream_tracks s a)) \<and>
     maps_ok idf n (length (cp_store s)) (cp_streams s) (cp_reverse s) (cp_local s) \<and> senders_ok (cp_made s) (cp_senders s)"

lemma chrome_okD:
  assumes "chrome_ok idf n s"
  shows "n \<le> length (cp_store s)" "a < length (cp_store s) \<Longrightarrow> stream_id s a = idf a" "a < length (cp_store s) \<Longrightarrow> distinct (stream_tracks s a)"
    "maps_ok idf n (length (cp_store s)) (cp_streams s) (cp_reverse s) (cp_local s)" "senders_ok (cp_made s) (cp_senders s)"
  using assms unfolding chrome_ok_def by blast+

lemma stream_updates [simp]:
  "stream_id (s\<lparr>cp_streams := st\<rparr>) = stream_id s" "stream_id (s\<lparr>cp_reverse := rv\<rparr>) = stream_id s"
  "stream_id (s\<lparr>cp_local := lo\<rparr>) = stream_id s" "stream_id (s\<lparr>cp_made := m\<rparr>) = stream_id s"
  "stream_id (s\<lparr>cp_senders := x\<rparr>) = stream_id s" "stream_id (s\<lparr>cp_pending := p\<rparr>) = stream_id s"
  "stream_id (s\<lparr>cp_asked := p\<rparr>) = stream_id s" "stream_id (s\<lparr>cp_closed := c\<rparr>) = stream_id s"
  "stream_tracks (s\<lparr>cp_streams := st\<rparr>) = stream_tracks s" "stream_tracks (s\<lparr>cp_reverse := rv\<rparr>) = stream_tracks s"
  "stream_tracks (s\<lparr>cp_local := lo\<rparr>) = stream_tracks s" "stream_tracks (s\<lparr>cp_made := m\<rparr>) = stream_tracks s"
  "stream_tracks (s\<lparr>cp_senders := x\<rparr>) = stream_tracks s" "stream_tracks (s\<lparr>cp_pending := p\<rparr>) = stream_tracks s"
  "stream_tracks (s\<lparr>cp_asked := p\<rparr>) = stream_tracks s" "stream_tracks (s\<lparr>cp_closed := c\<rparr>) = stream_tracks s"
  by (simp_all add: fun_eq_iff stream_id_def stream_tracks_def)

lemma new_stream_simps [simp]:
  "cp_streams (new_stream f ts s) = cp_streams s" "cp_reverse (new_stream f ts s) = cp_reverse s"
  "cp_local (new_stream f ts s) = cp_local s" "cp_made (new_stream f ts s) = cp_made s" "cp_senders (new_stream f ts s) = cp_senders s"
  "length (cp_store (new_stream f ts s)) = Suc (length (cp_store s))"
  "stream_id (new_stream f ts s) (length (cp_store s)) = f (length (cp_store s))"
  "stream_tracks (new_stream f ts s) (length (cp_store s)) = ts"
  "a < length (cp_store s) \<Longrightarrow> stream_id (new_stream f ts s) a = stream_id s a"
  "a < length (cp_store s) \<Longrightarrow> stream_tracks (new_stream f ts s) a = stream_tracks s a"
  by (simp_all add: new_stream_def stream_id_def stream_tracks_def nth_append)

lemma set_tracks_simps [simp]:
  "cp_streams (set_tracks a ts s) = cp_streams s" "cp_reverse (set_tracks a ts s) = cp_reverse s"
  "cp_local (set_tracks a ts s) = cp_local s" "cp_made (set_tracks a ts s) = cp_made s" "cp_senders (set_tracks a ts s) = cp_senders s"
  "length (cp_store (set_tracks a ts s)) = length (cp_store s)"
  by (simp_all add: set_tracks_def)

lemma set_tracks_store:
  "b < length (cp_store s) \<Longrightarrow> stream_id (set_tracks a ts s) b = stream_id s b"
  "b < length (cp_store s) \<Longrightarrow> stream_tracks (set_tracks a ts s) b = (if b = a then ts else stream_tracks s b)"
  by (cases "b = a"; simp add: set_tracks_def stream_id_def stream_tracks_def)+

lemma set_tracks_ok: "chrome_ok idf n s \<Longrightarrow> distinct ts \<Longrightarrow> chrome_ok idf n (set_tracks a ts s)"
  by (simp add: chrome_ok_def set_tracks_store)

lemma chrome_ok_updates:
  "chrome_ok idf n s \<Longrightarrow> chrome_ok idf n (s\<lparr>cp_pending := p\<rparr>)" "chrome_ok idf n s \<Longrightarrow> chrome_ok idf n (s\<lparr>cp_asked := p\<rparr>)"
  "chrome_ok idf n s \<Longrightarrow> chrome_ok idf n (s\<lparr>cp_closed := c\<rparr>)" "chrome_ok idf n s \<Longrightarrow> chrome_ok idf n (s\<lparr>cp_senders := remove1 r (cp_senders s)\<rparr>)"
  by (simp_all add: chrome_ok_def removed_ok)

lemma new_mapped_ok:
  assumes ok: "chrome_ok idf n s" and "inj idf" "\<And>a. n \<le> a \<Longrightarrow> idf a = new_id a" "x < n" "distinct ts" "k = idf x" "l = idf (length (cp_store s))"
  shows "chrome_ok idf n ((new_stream new_id ts s)\<lparr>cp_streams := prop_set (cp_streams s) k (length (cp_store s)), cp_reverse := prop_set (cp_reverse s) l x\<rparr>)"
  using chrome_okD [OF ok] maps_new [OF chrome_okD(4) [OF ok] assms(2,4) chrome_okD(1) [OF ok]] assms(3,5-)
  by (auto simp: chrome_ok_def less_Suc_eq)

lemma local_add_ok:
  "chrome_ok idf n s \<Longrightarrow> n \<le> a \<Longrightarrow> a < length (cp_store s) \<Longrightarrow> prop_get (cp_reverse s) (idf a) \<noteq> None \<Longrightarrow> chrome_ok idf n (local_add a s)"
  by (auto simp: chrome_ok_def local_add_def maps_local)

lemma push_senders_ok:
  assumes ok: "chrome_ok idf n s" and "distinct ts" "\<forall>t \<in> set ts. sender_of s t = None"
  shows "chrome_ok idf n (fold push_sender ts s)"
proof -
  have "senders_ok (cp_made s @ ts) (cp_senders s @ [length (cp_made s) ..< length (cp_made s) + length ts])"
    by (rule pushed_ok [OF chrome_okD(5) [OF ok] assms(2)]) (use assms(3) sender_of_None in blast)
  then show ?thesis using ok by (simp add: push_senders chrome_ok_def)
qed

lemma sender_of_cong: "cp_made s = cp_made s' \<Longrightarrow> cp_senders s = cp_senders s' \<Longrightarrow> sender_of s t = sender_of s' t"
  by (simp add: sender_of_def sender_track_def [abs_def] chrome_getSenders_def)

lemma local_add_simps [simp]:
  "cp_made (local_add a s) = cp_made s" "cp_senders (local_add a s) = cp_senders s" "cp_store (local_add a s) = cp_store s"
  "stream_tracks (local_add a s) = stream_tracks s"
  by (simp_all add: local_add_def)

lemma outer_addStream_ok:
  assumes ok: "chrome_ok idf n s" and "inj idf" "\<And>a. n \<le> a \<Longrightarrow> idf a = new_id a"
    and x: "x < length (cp_store s)" "x < n \<or> prop_get (cp_reverse s) (idf x) \<noteq> None"
  shows "chrome_ok idf n (snd (outer_addStream new_id x s))"
proof (cases "list_ex (\<lambda>t. sender_of s t \<noteq> None) (stream_tracks s x)")
  case True
  then show ?thesis using ok by (simp add: outer_addStream_def inner_addStream_def)
next
  case False
  then have none: "\<forall>t \<in> set (stream_tracks s x). sender_of s t = None" by (simp add: list_ex_iff)
  have native: "snd (native_addStream a s) = (if cp_closed s then s else local_add a s)" for a s by (simp add: native_addStream_def)
  have "\<exists>r s'. inner_addStream new_id x s = (r, s') \<and> chrome_ok idf n s' \<and> cp_made s' = cp_made s \<and> cp_senders s' = cp_senders s \<and>
      stream_tracks s' x = stream_tracks s x"
  proof (cases "prop_get (cp_reverse s) (stream_id s x)")
    case None
    let ?l = "length (cp_store s)"
    let ?s = "(new_stream new_id (stream_tracks s x) s)\<lparr>cp_streams := prop_set (cp_streams s) (idf x) ?l, cp_reverse := prop_set (cp_reverse s) (idf ?l) x\<rparr>"
    have n: "x < n" and i: "stream_id s x = idf x" "new_id ?l = idf ?l"
      using x None chrome_okD(1,2) [OF ok] assms(3) [of ?l] by auto
    have "chrome_ok idf n ?s" by (rule new_mapped_ok [OF ok assms(2,3) n chrome_okD(3) [OF ok x(1)] refl refl]) simp
    then have "chrome_ok idf n (snd (native_addStream ?l ?s))"
      unfolding native using local_add_ok [of idf n ?s ?l] chrome_okD(1) [OF ok] by (simp add: props.get_put)
    moreover have "inner_addStream new_id x s = native_addStream ?l ?s"
      using False None i by (simp add: inner_addStream_def Let_def)
    ultimately show ?thesis using x(1) by (cases "native_addStream ?l ?s") (simp add: native_addStream_def split: if_splits)
  next
    case (Some y)
    then have r: "prop_get (cp_reverse s) (idf x) = Some y" using chrome_okD(2) [OF ok x(1)] by simp
    then obtain a where "n \<le> a" "idf a = idf x" using maps_okD(9) [OF chrome_okD(4) [OF ok] r] by blast
    then have "n \<le> x" using assms(2) by (auto dest: injD)
    then have "chrome_ok idf n (local_add x s)" by (rule local_add_ok [OF ok _ x(1)]) (simp add: r)
    moreover have "inner_addStream new_id x s = native_addStream x s" using False Some by (simp add: inner_addStream_def)
    ultimately show ?thesis using ok by (simp add: native_addStream_def)
  qed
  then obtain r s' where s': "inner_addStream new_id x s = (r, s')" "chrome_ok idf n s'" "cp_made s' = cp_made s" "cp_senders s' = cp_senders s"
    "stream_tracks s' x = stream_tracks s x" by blast
  have "chrome_ok idf n (fold push_sender (stream_tracks s x) s')"
    by (rule push_senders_ok [OF s'(2) chrome_okD(3) [OF ok x(1)]]) (use none sender_of_cong [OF s'(3,4)] in simp)
  then show ?thesis using s' by (simp add: outer_addStream_def split: sum.split)
qed

lemma drop_senders_ok: "chrome_ok idf n s \<Longrightarrow> chrome_ok idf n (fold drop_sender ts s)"
proof (induction ts arbitrary: s)
  case (Cons t ts)
  have "chrome_ok idf n (drop_sender t s)"
    using Cons.prems chrome_ok_updates(4) by (auto simp: drop_sender_def split: option.split)
  then show ?case using Cons.IH by simp
qed simp

lemma outer_removeStream_ok:
  assumes ok: "chrome_ok idf n s" and "inj idf" "x < n"
  shows "fst (outer_removeStream (Some x) s) = (if cp_closed s then Inl Native_error else Inr ()) \<and>
    chrome_ok idf n (snd (outer_removeStream (Some x) s))"
proof -
  let ?a = "case prop_get (cp_streams s) (idf x) of Some a \<Rightarrow> a | None \<Rightarrow> x"
  let ?s = "s\<lparr>cp_local := remove1 ?a (cp_local s), cp_reverse := prop_del (cp_reverse s) (idf ?a), cp_streams := prop_del (cp_streams s) (idf x)\<rparr>"
  have x: "x < length (cp_store s)" using assms(3) chrome_okD(1) [OF ok] by simp
  have "?a < length (cp_store s)" using x maps_okD(6) [OF chrome_okD(4) [OF ok]] by (auto split: option.split)
  then have i: "stream_id s x = idf x" "stream_id s ?a = idf ?a" using chrome_okD(2) [OF ok] x by simp_all
  have "chrome_ok idf n ?s"
    using ok maps_del [OF chrome_okD(4) [OF ok] assms(2,3) refl] by (simp add: chrome_ok_def)
  moreover have "inner_removeStream (Some x) s = (if cp_closed s then (Inl Native_error, s) else (Inr (), ?s))"
    unfolding inner_removeStream_def Let_def i option.case by (simp only: i)
  ultimately show ?thesis using ok by (simp add: outer_removeStream_def drop_senders_ok)
qed

lemma outer_addTrack_ok:
  assumes ok: "chrome_ok idf n s" and "inj idf" "\<And>a. n \<le> a \<Longrightarrow> idf a = new_id a" "\<forall>x \<in> set xs. x < n"
  shows "chrome_ok idf n (snd (outer_addTrack new_id t xs s))"
proof -
  have "chrome_ok idf n (snd (inner_addTrack new_id t xs s)) \<and>
      (fst (inner_addTrack new_id t xs s) = Inr None \<longrightarrow> sender_of (snd (inner_addTrack new_id t xs s)) t = None)"
  proof (cases "\<exists>x. xs = [x] \<and> \<not> cp_closed s \<and> t \<in> set (stream_tracks s x) \<and> sender_of s t = None")
    case False
    then have "snd (inner_addTrack new_id t xs s) = s" "fst (inner_addTrack new_id t xs s) \<noteq> Inr None"
      by (auto simp: inner_addTrack_def split: list.split)
    then show ?thesis using ok by simp
  next
    case True
    then obtain x where x: "xs = [x]" "\<not> cp_closed s" "t \<in> set (stream_tracks s x)" "sender_of s t = None" by blast
    have n: "x < n" "x < length (cp_store s)" using assms(4) x(1) chrome_okD(1) [OF ok] by simp_all
    have i: "stream_id s x = idf x" by (rule chrome_okD(2) [OF ok n(2)])
    show ?thesis
    proof (cases "prop_get (cp_streams s) (idf x)")
      case (Some a)
      let ?s = "(if t \<in> set (stream_tracks s a) then s else set_tracks a (stream_tracks s a @ [t]) s)\<lparr>cp_pending := Suc (cp_pending s)\<rparr>"
      have "a < length (cp_store s)" by (rule maps_okD(6) [OF chrome_okD(4) [OF ok] Some])
      then have "chrome_ok idf n ?s"
        using ok set_tracks_ok [OF ok, of "stream_tracks s a @ [t]" a] chrome_okD(3) [OF ok, of a] by (auto intro!: chrome_ok_updates)
      moreover have "cp_pending (if t \<in> set (stream_tracks s a) then s else set_tracks a (stream_tracks s a @ [t]) s) = cp_pending s"
        by (simp add: set_tracks_def)
      then have "inner_addTrack new_id t xs s = (Inr (sender_of ?s t), ?s)"
        using x i Some by (simp only: inner_addTrack_def Let_def if_False list.case option.case not_not simp_thms)
      ultimately show ?thesis by simp
    next
      case None
      let ?l = "length (cp_store s)"
      let ?s = "(new_stream new_id [t] s)\<lparr>cp_streams := prop_set (cp_streams s) (idf x) ?l, cp_reverse := prop_set (cp_reverse s) (idf ?l) x\<rparr>"
      have l: "new_id ?l = idf ?l" using assms(3) chrome_okD(1) [OF ok] by simp
      have m: "chrome_ok idf n ?s" by (rule new_mapped_ok [OF ok assms(2,3) n(1) _ refl refl]) simp_all
      have r: "prop_get (cp_reverse ?s) (idf ?l) \<noteq> None" by (simp add: props.get_put)
      have o: "chrome_ok idf n (snd (outer_addStream new_id ?l ?s))"
        by (rule outer_addStream_ok [OF m assms(2,3)]) (use r in simp_all)
      have a: "inner_addTrack new_id t xs s =
          (case outer_addStream new_id ?l ?s of (Inl e, s) \<Rightarrow> (Inl e, s) | (Inr u, s) \<Rightarrow> (Inr (sender_of s t), s))"
        using x i l None by (simp add: inner_addTrack_def Let_def)
      show ?thesis unfolding a using o by (auto split: prod.splits sum.splits)
    qed
  qed
  moreover have "chrome_ok idf n (push_sender t s')" if "chrome_ok idf n s'" "sender_of s' t = None" for s'
    using push_senders_ok [OF that(1), of "[t]"] that(2) by simp
  ultimately show ?thesis by (auto simp: outer_addTrack_def split: prod.split sum.split option.split)
qed

lemma outer_removeTrack_ok:
  assumes ok: "chrome_ok idf n s" and "inj idf"
  shows "chrome_ok idf n (snd (outer_removeTrack arg s)) \<and> fst (outer_removeTrack arg s) \<noteq> Inl Type_error"
proof -
  have "chrome_ok idf n (snd (inner_removeTrack arg s)) \<and> fst (inner_removeTrack arg s) \<noteq> Inl Type_error"
  proof (cases "\<exists>r. arg = Own r \<and> \<not> cp_closed s")
    case False
    then show ?thesis using ok by (cases arg) (auto simp: inner_removeTrack_def closed_error_def)
  next
    case True
    then obtain r where r: "arg = Own r" "\<not> cp_closed s" by blast
    define found where "found = fold (\<lambda>(k, a) found. if sender_track s r \<in> set (stream_tracks s a) then Some a else found) (cp_streams s) None"
    have f: "fold (\<lambda>(k, a) found. if P a then Some a else found) st y = Some a \<Longrightarrow> y = Some a \<or> a \<in> snd ` set st" for P st y and a :: nat
      by (induction st arbitrary: y) (force split: if_splits)+
    have eq: "inner_removeTrack arg s = (case found of None \<Rightarrow> (Inr (), s)
        | Some a \<Rightarrow>
            if length (stream_tracks s a) = 1
            then (case outer_removeStream (prop_get (cp_reverse s) (stream_id s a)) s of
                    (Inl e, s) \<Rightarrow> (Inl e, s) | (Inr u, s) \<Rightarrow> (Inr (), s\<lparr>cp_asked := Suc (cp_asked s)\<rparr>))
            else (Inr (), (set_tracks a (remove1 (sender_track s r) (stream_tracks s a)) s)\<lparr>cp_asked := Suc (cp_asked s)\<rparr>))"
      using r by (simp add: inner_removeTrack_def found_def)
    show ?thesis
    proof (cases found)
      case (Some a)
      then obtain k where "(k, a) \<in> set (cp_streams s)" unfolding found_def using f by fastforce
      then have st: "prop_get (cp_streams s) k = Some a"
        using maps_okD(10) [OF chrome_okD(4) [OF ok]] by (simp add: prop_get_def props_wf_def prop_keys_def)
      then obtain x where x: "x < n" "prop_get (cp_reverse s) (idf a) = Some x" using maps_okD(7) [OF chrome_okD(4) [OF ok] st] by blast
      have a: "a < length (cp_store s)" by (rule maps_okD(6) [OF chrome_okD(4) [OF ok] st])
      have rv: "prop_get (cp_reverse s) (stream_id s a) = Some x" using chrome_okD(2) [OF ok a] x(2) by simp
      obtain s' where s': "outer_removeStream (Some x) s = (Inr (), s')" "chrome_ok idf n s'"
        using outer_removeStream_ok [OF ok assms(2) x(1)] r(2) by (cases "outer_removeStream (Some x) s") auto
      show ?thesis
      proof (cases "length (stream_tracks s a) = 1")
        case True
        then have "inner_removeTrack arg s = (Inr (), s'\<lparr>cp_asked := Suc (cp_asked s')\<rparr>)" unfolding eq Some by (simp add: rv s')
        then show ?thesis using s'(2) by (simp add: chrome_ok_updates)
      next
        case False
        then have "inner_removeTrack arg s =
            (Inr (), (set_tracks a (remove1 (sender_track s r) (stream_tracks s a)) s)\<lparr>cp_asked := Suc (cp_asked s)\<rparr>)"
          unfolding eq Some by simp
        then show ?thesis using set_tracks_ok [OF ok distinct_remove1 [OF chrome_okD(3) [OF ok a]]] by (simp add: chrome_ok_updates)
      qed
    qed (use ok eq in simp)
  qed
  then show ?thesis by (auto simp: outer_removeTrack_def chrome_ok_updates split: prod.split sum.split sender_arg.split)
qed

section \<open>What the page sees\<close>

definition id_of :: "(nat \<Rightarrow> string) \<Rightarrow> mstream list \<Rightarrow> nat \<Rightarrow> string" where
  "id_of new_id pages a = (if a < length pages then ms_id (pages ! a) else new_id a)"

text \<open>A page passes its own streams, and a stream has no track twice.\<close>

fun page_op :: "nat \<Rightarrow> chrome_op \<Rightarrow> bool" where
  "page_op n (Op_addStream x) = (x < n)"
| "page_op n (Op_removeStream x) = (x < n)"
| "page_op n (Op_addTrack t xs) = list_all (\<lambda>x. x < n) xs"
| "page_op n (Op_page_tracks x ts) = (x < n \<and> distinct ts)"
| "page_op n op = True"

lemma chrome_step_ok:
  assumes ok: "chrome_ok idf n s" and "inj idf" "\<And>a. n \<le> a \<Longrightarrow> idf a = new_id a" "page_op n op"
  shows "chrome_ok idf n (chrome_step new_id op s)"
proof (cases op)
  case (Op_addStream x)
  then show ?thesis using outer_addStream_ok [OF ok assms(2,3), of x] assms(4) chrome_okD(1) [OF ok] by simp
next
  case (Op_removeStream x)
  then show ?thesis using outer_removeStream_ok [OF ok assms(2), of x] assms(4) by simp
next
  case (Op_addTrack t xs)
  then show ?thesis using outer_addTrack_ok [OF ok assms(2,3), of xs t] assms(4) by (simp add: list_all_iff)
next
  case (Op_removeTrack arg)
  then show ?thesis using outer_removeTrack_ok [OF ok assms(2)] by simp
next
  case (Op_page_tracks x ts)
  then show ?thesis using set_tracks_ok [OF ok] assms(4) by simp
next
  case Op_microtask
  then show ?thesis using chrome_ok_updates(2) [OF chrome_ok_updates(1) [OF ok]] ok by simp
next
  case Op_close
  then show ?thesis using chrome_ok_updates(3) [OF ok] by simp
qed

lemma chrome_run_ok:
  assumes "chrome_ok idf n s" "inj idf" "\<And>a. n \<le> a \<Longrightarrow> idf a = new_id a" "list_all (page_op n) ops"
  shows "chrome_ok idf n (fold (chrome_step new_id) ops s)"
  using assms(1,4)
proof (induction ops arbitrary: s)
  case (Cons op ops)
  then show ?case using chrome_step_ok [OF Cons.prems(1) assms(2,3), of op] by simp
qed simp

lemma new_chrome_ok:
  "\<forall>p \<in> set pages. distinct (ms_tracks p) \<Longrightarrow> chrome_ok (id_of new_id pages) (length pages) (new_chrome_pc pages)"
  by (simp add: chrome_ok_def new_chrome_pc_def stream_id_def stream_tracks_def id_of_def maps_ok_def senders_ok_def prop_get_def props_wf_def prop_keys_def)

text \<open>
  C14. However a page adds and removes streams and tracks and changes the tracks of its streams, and also after it closed the
  connection: every local stream of the browser is known as a stream of the page and never as one of the adapter's, no
  track has two senders, and removing a track never runs into a missing stream.
\<close>

theorem chrome_streams_known:
  assumes "inj (id_of new_id pages)" "\<forall>p \<in> set pages. distinct (ms_tracks p)" "list_all (page_op (length pages)) ops"
    and "s = fold (chrome_step new_id) ops (new_chrome_pc pages)"
  shows "set (chrome_getLocalStreams s) \<subseteq> Some ` {x. x < length pages} \<and>
    distinct (map (sender_track s) (chrome_getSenders s)) \<and> fst (outer_removeTrack arg s) \<noteq> Inl Type_error"
proof -
  let ?n = "length pages"
  have new: "?n \<le> a \<Longrightarrow> id_of new_id pages a = new_id a" for a by (simp add: id_of_def)
  have ok: "chrome_ok (id_of new_id pages) ?n s"
    unfolding assms(4) by (rule chrome_run_ok [OF new_chrome_ok [OF assms(2)] assms(1) new assms(3)])
  have "\<exists>x < ?n. prop_get (cp_reverse s) (stream_id s a) = Some x" if "a \<in> set (cp_local s)" for a
  proof -
    note m = chrome_okD(4) [OF ok]
    note a = maps_okD(3,4) [OF m that]
    from a(2) obtain x where x: "prop_get (cp_reverse s) (id_of new_id pages a) = Some x" by auto
    then show ?thesis using maps_okD(8) [OF m x] chrome_okD(2) [OF ok a(1)] by auto
  qed
  then have "set (chrome_getLocalStreams s) \<subseteq> Some ` {x. x < ?n}" by (fastforce simp: chrome_getLocalStreams_def)
  moreover have "distinct (map (sender_track s) (chrome_getSenders s))"
    using chrome_okD(5) [OF ok] by (simp add: senders_ok_def sender_track_def [abs_def] chrome_getSenders_def)
  ultimately show ?thesis using outer_removeTrack_ok [OF ok assms(1)] by blast
qed

definition demo_streams :: "mstream list" where
  "demo_streams = [\<lparr>ms_id = ''p'', ms_tracks = [7, 8]\<rparr>, \<lparr>ms_id = ''q'', ms_tracks = [9]\<rparr>]"

definition demo_stream_id :: "nat \<Rightarrow> string" where
  "demo_stream_id a = replicate a CHR ''x''"

definition demo_chrome_run :: chrome_pc where
  "demo_chrome_run = fold (chrome_step demo_stream_id) [Op_addTrack 7 [0], Op_addStream 1, Op_addTrack 8 [0], Op_removeTrack (Own 0)] (new_chrome_pc demo_streams)"

theorem chrome_streams_known_witness:
  "set (chrome_getLocalStreams demo_chrome_run) \<subseteq> {Some 0, Some 1} \<and> distinct (map (sender_track demo_chrome_run) (chrome_getSenders demo_chrome_run))"
proof -
  have i: "inj (id_of demo_stream_id demo_streams)"
  proof (rule inj_on_inverseI)
    fix a :: nat
    have r: "replicate c CHR ''x'' \<noteq> ''p''" "replicate c CHR ''x'' \<noteq> ''q''" for c by (cases c; simp)+
    consider "a = 0" | "a = 1" | "2 \<le> a" by linarith
    then show "(\<lambda>i. if i = ''p'' then 0 else if i = ''q'' then 1 else length i) (id_of demo_stream_id demo_streams a) = a"
      by cases (simp_all add: r id_of_def demo_streams_def demo_stream_id_def)
  qed
  have d: "\<forall>p \<in> set demo_streams. distinct (ms_tracks p)" by (simp add: demo_streams_def)
  have o: "list_all (page_op (length demo_streams)) [Op_addTrack 7 [0], Op_addStream 1, Op_addTrack 8 [0], Op_removeTrack (Own 0)]"
    by (simp add: demo_streams_def)
  have "Some ` {x. x < length demo_streams} = {Some 0, Some (1 :: nat)}" by (auto simp: demo_streams_def)
  then show ?thesis using chrome_streams_known [OF i d o demo_chrome_run_def] by simp
qed

text \<open>
  A stream without tracks is accepted twice; after it is removed once, an entry is left under which no stream is found, and the
  identifiers of an offer cannot be replaced any more. A track taken out of its stream keeps its sender.
\<close>

lemma empty_stream_twice:
  "replaceInternalStreamId (fold (chrome_step demo_stream_id) [Op_addStream 0, Op_addStream 0, Op_removeStream 0]
     (new_chrome_pc [\<lparr>ms_id = ''p'', ms_tracks = []\<rparr>])) ''a=msid:x t'' = Inl Type_error"
  by code_simp

lemma track_left_behind:
  "fst (outer_addTrack demo_stream_id 7 [0] (fold (chrome_step demo_stream_id)
     [Op_addStream 0, Op_page_tracks 0 [], Op_removeStream 0, Op_page_tracks 0 [7]] (new_chrome_pc [\<lparr>ms_id = ''p'', ms_tracks = [7]\<rparr>]))) =
     Inl (Dom_exception ''InvalidAccessError'' ''Track already exists.'')"
  by code_simp

lemma ids_replaced:
  "replaceInternalStreamId (fold (chrome_step demo_stream_id) [Op_addTrack 7 [0]] (new_chrome_pc [\<lparr>ms_id = ''p'', ms_tracks = [7]\<rparr>])) ''a=msid:x t'' =
     Inr ''a=msid:p t''"
  by code_simp

end
