(* ===== verification/Spec2Isabelle.thy ===== *)
theory Spec2Isabelle
  imports ArrayUtil StringUtil TimeUtil UrlParse PageUrl Timers AsyncRefresh
    ConsoleServer ConsoleFilters ConsoleUtility ConsoleControllers ConsoleWidgets RtcSdk Signaling Players
    Sdp SdpDescription SdpMedia SdpSession Json2 Json2Safe Json2Round
    EdgeCaps EdgePeer EdgeSession EdgeOffer EdgeInternal EdgeProperties EdgeCandidates
    ShimStats ShimMedia ShimConnection ShimEvents ShimStreams
begin

text \<open>
  A verification library of the first-party JavaScript of the live streaming repository: the console
  of the media server and the player, publisher and WebRTC pages under
  \<open>src/live-streaming-web/nginx/html\<close>.

  \<^bold>\<open>The program.\<close> The console (\<open>console/js/srs.console.js\<close>, with \<open>winlin.utility.js\<close>, the language
  files \<open>srs.cn.js\<close> and \<open>srs.en.js\<close>, and the widgets \<open>popover.js\<close> and \<open>alert.js\<close>) polls the HTTP API of a server and
  shows its state: a page's controller asks the API (\<open>MSCApi\<close> over \<open>$sc_server\<close>), the answers come
  back in any order, and one refresher (\<open>async_refresh2\<close>) calls the page's function again and again. The player
  pages (\<open>players/js\<close>) take their parameters from the page address, build default stream addresses
  (\<open>srs.page.js\<close>), and either drive a Flash plug-in (\<open>srs.player.js\<close>, \<open>srs.publisher.js\<close>) or negotiate a
  WebRTC session (\<open>srs.sdk.js\<close>, an older copy in \<open>demos/js\<close>); the demos add a signalling client
  (\<open>demos/js/srs.sig.js\<close>).

  \<^bold>\<open>The language.\<close>
  \<^item> \<open>Prelude\<close>: exceptions as values (\<open>'a result\<close> is an error or a value) and shared facts on lists.
  \<^item> \<open>JsNumber\<close>: numbers are rationals with NaN and the infinities; every operation rounds to IEEE doubles
    (\<open>rnd\<close>, \<open>fl\<close>), with decimal and hexadecimal text.
  \<^item> \<open>JsString\<close>: strings as lists of code units with the methods of ECMAScript.
  \<^item> \<open>JsValue\<close>: values, property tables in enumeration order (the locale \<open>property_table\<close>, interpreted on
    them), truth, loose and strict equality. An object is a table; where identity matters there is an
    explicit store of addresses.

  \<^bold>\<open>The components.\<close>
  \<^item> \<open>ArrayUtil\<close>, \<open>StringUtil\<close>, \<open>TimeUtil\<close>: the helpers of \<open>winlin.utility.js\<close> and the uptime filters;
    each loop is compared with a list function, the sort comparators with the orders of texts and numbers, dates are
    parsed and written for every offset of the host's local time.
  \<^item> \<open>UrlParse\<close>: query strings and stream addresses of both utility files; \<open>PageUrl\<close>: the addresses, the page
    changes and the log box of the player pages. The browser's parser behind the link element is the parameter
    \<open>anchor_of\<close>, the address of the page a record.
  \<^item> \<open>Timers\<close>: the host's \<open>setTimeout\<close> and \<open>clearTimeout\<close> as the locale \<open>timer_service\<close> and its model;
    \<open>AsyncRefresh\<close>: both refreshers on it, their call objects in a store. Timers fire in any order;
    the page's functions and hooks are events.
  \<^item> \<open>ConsoleServer\<close>: navigation, the server's address, the API addresses; \<open>ConsoleFilters\<close>: the display
    filters (the locale \<open>unit_scale\<close> proves the six unit filters at once); \<open>ConsoleUtility\<close>: configuration data,
    the HTTP interceptor, collapsing panels; \<open>ConsoleControllers\<close>: all pages as clients of refresher and API,
    whose answers arrive in any order, and the addresses the window is sent to; \<open>ConsoleWidgets\<close>: the configuration row, the popover, the alert.
  \<^item> \<open>RtcSdk\<close>: addresses and sessions of both copies of the SDK. A session is a state machine: the asynchronous
    function waits in a \<open>phase\<close>, the browser and the server answer by events, the calls on the connection
    are a trace. The invariant \<open>rtc_inv\<close> orders the trace, \<open>grounded\<close> ties success to what was answered.
  \<^item> \<open>Signaling\<close>: requests and replies of the signalling client with the states of all promises.
  \<^item> \<open>Players\<close>: the Flash objects and the registries of their classes (the locale \<open>id_registry\<close>, interpreted on
    players and publishers), buffer times with the rounding of the arithmetic, the fluency figure.

  \<^item> \<open>Sdp\<close>: the session description helpers inside both copies of the WebRTC adapter (\<open>SDPUtils\<close> of
    \<open>adapter-7.4.0.js\<close>): each line, media section and description is a text that is written and parsed back, in
    \<open>SdpDescription\<close> (candidates, codec descriptions), \<open>SdpMedia\<close> (media sections) and \<open>SdpSession\<close> (whole descriptions,
    key parameters). Random identifiers are parameters.
  \<^item> \<open>Json2\<close>: the JSON object of the player pages for browsers without one (\<open>json2.js\<close>); calling a function and
    evaluating a text are parameters. \<open>Json2Safe\<close>: what is written passes the check of the reader, and what
    passes is data. \<open>Json2Round\<close>: the values JSON texts denote; writing implements it, reading inverts it.

  \<^item> \<open>EdgeCaps\<close>, \<open>EdgePeer\<close>, \<open>EdgeSession\<close>, \<open>EdgeOffer\<close>: the peer connection the adapter builds for the Edge browser
    (\<open>adapter-7.4.0.js\<close>, with both filters of ICE servers). The connection is the record \<open>pc\<close>; tracks, streams, gatherers
    and transports live in stores of it under addresses, so that lines can share them. An operation
    is an \<open>act\<close>: it returns a value or an error and keeps what it changed before the error. Calls on objects of the
    browser, dispatched events and waiting timers are traces of the record; capabilities, parameters and random
    identifiers of the browser are the record \<open>env\<close>. \<open>pc_run\<close> runs calls of the page, reports of the browser and timers in any order.
  \<^item> \<open>EdgeInternal\<close>: a predicate on the part of the state that matters to it (\<open>core\<close>) is kept by every operation, proved
    once in the locales \<open>internal_invariant\<close>, \<open>media_invariant\<close> and \<open>connection_invariant\<close>. \<open>EdgeProperties\<close> interprets them for
    silence after closing, pending negotiation, tracks and phases, and shows that signalling refines the offer/answer
    \<open>protocol\<close>; \<open>EdgeCandidates\<close> follows candidates into the descriptions.
  \<^item> \<open>ShimStats\<close>, \<open>ShimMedia\<close>, \<open>ShimConnection\<close>, \<open>ShimEvents\<close>, \<open>ShimStreams\<close>: what the adapter adds to other browsers.
    Statistics of a track are a search through reports (\<open>walkStats\<close>, whose stack of calls is written out), compared with the inductive
    relation \<open>reaches\<close>; constraints of Chrome, Firefox and Safari; the size of messages, the connection state, lines and addresses
    repaired; listeners in wrappers of several events that share one table, a simulation of the browser's; streams and senders of older versions of Chrome,
    whose tables keep an invariant over all calls of the page.

  \<^bold>\<open>Bounds.\<close> No loop of the code is cut off by fuel: the depth argument of \<open>js_str\<close> is the depth of the call stack, and
    running out of it is the engine's error (a value of height \<open>h\<close> needs depth \<open>h\<close>); the reader \<open>rd\<close> of \<open>Json2Round\<close> is
    specification only, and the length of a text is enough fuel for it. Loops are structural recursion or have a measure (\<open>add_lines\<close> counts the lines still wanted); the padding helper
  and the loops over trailing marks are partial functions, whose result or divergence is proved. Where a
  theorem speaks of exact arithmetic it bounds the numbers (below \<open>2 ^ 50\<close> or \<open>2 ^ 40\<close>), so that doubles represent
  them. Identifiers count in unbounded integers, which agrees with doubles for fewer than \<open>2 ^ 53\<close> objects.

  \<^bold>\<open>Not modelled.\<close> The Vue application is wiring and templates; HTML, the language tables and Angular templates
  have no operations; the vendored libraries (Angular, Bootstrap, jQuery, swfobject, and of the WebRTC adapter
  the installation of its parts, the detection of browsers, tone senders, screen capture, transceivers and older forms of calls) are what the code calls, and appear as events or parameters; logging to the browser's
  console has no effect on the state; \<open>livego\<close> is a Go program. In the models, characters are code units below
  256, inherited property names matter only where the code reads a table under a name it was sent, and an
  exception in a page's own callback is the page's. Of the Edge peer connection the forms with
  legacy callbacks and the forwarding of a track's enabled state to its clone are left out.
\<close>

end
